(* ===== verification/Base.thy ===== *)
theory Base
  imports Main "HOL-Library.List_Lexorder" "HOL-Library.Char_ord"
    "HOL-Library.Product_Lexorder" "HOL-Library.Multiset" "HOL-Library.AList"
begin

text \<open>
  The prelude of the development.  It holds what every component shares:
  \<^item> fallible values \<open>'e + 'a\<close> (\<open>Inl\<close> is the error of a Rust \<open>anyhow::Result\<close>) and their
    sequencing \<open>seqR\<close>, the model of the \<open>?\<close> operator on a read;
  \<^item> commands \<open>('e, 's, 'a) cmd\<close>, that is \<open>'s \<Rightarrow> ('e + 'a) \<times> 's\<close>: a fallible computation that
    threads the on-disk state.  A failed command still returns the state it reached, so a
    partial write that a Rust early return leaves behind is visible;
  \<^item> the interface locales for keyed containers, for graph walks and for invariants of runs;
  \<^item> generic lemmas on lists, sorting and association lists.
  Rust strings are \<open>string\<close>s that hold the UTF-8 bytes, so the library's lexicographic order on
  them is Rust's byte-wise \<open>Ord\<close> on \<open>str\<close>.
\<close>

named_theorems cmd_simps \<open>sequencing rules for results and commands\<close>
named_theorems cmd_elims \<open>elimination rules for successful commands\<close>

section \<open>Fallible values\<close>

definition seqR :: "'e + 'a \<Rightarrow> ('a \<Rightarrow> 'e + 'b) \<Rightarrow> 'e + 'b" where
  "seqR r f = (case r of Inl e \<Rightarrow> Inl e | Inr a \<Rightarrow> f a)"

definition ensureR :: "bool \<Rightarrow> 'e \<Rightarrow> 'e + unit" where
  "ensureR b e = (if b then Inr () else Inl e)"

fun map_res :: "('a \<Rightarrow> 'e + 'b) \<Rightarrow> 'a list \<Rightarrow> 'e + 'b list" where
  "map_res f [] = Inr []"
| "map_res f (x # xs) = seqR (f x) (\<lambda>y. seqR (map_res f xs) (\<lambda>ys. Inr (y # ys)))"

fun each_res :: "('a \<Rightarrow> 'e + unit) \<Rightarrow> 'a list \<Rightarrow> 'e + unit" where
  "each_res f [] = Inr ()"
| "each_res f (x # xs) = seqR (f x) (\<lambda>_. each_res f xs)"

section \<open>Commands\<close>

type_synonym ('e, 's, 'a) cmd = "'s \<Rightarrow> ('e + 'a) \<times> 's"

definition ret :: "'a \<Rightarrow> ('e, 's, 'a) cmd" where
  "ret a s = (Inr a, s)"

definition bail :: "'e \<Rightarrow> ('e, 's, 'a) cmd" where
  "bail e s = (Inl e, s)"

definition bnd :: "('e, 's, 'a) cmd \<Rightarrow> ('a \<Rightarrow> ('e, 's, 'b) cmd) \<Rightarrow> ('e, 's, 'b) cmd" where
  "bnd m f s = (case m s of (Inl e, s') \<Rightarrow> (Inl e, s') | (Inr a, s') \<Rightarrow> f a s')"

definition lft :: "'e + 'a \<Rightarrow> ('e, 's, 'a) cmd" where
  "lft r s = (r, s)"

definition rd :: "('s \<Rightarrow> 'e + 'a) \<Rightarrow> ('e, 's, 'a) cmd" where
  "rd f s = (f s, s)"

definition attempt :: "('e, 's, 'a) cmd \<Rightarrow> ('e, 's, 'e + 'a) cmd" where
  "attempt m s = (case m s of (r, s') \<Rightarrow> (Inr r, s'))"

definition map_error :: "('e \<Rightarrow> 'e) \<Rightarrow> ('e, 's, 'a) cmd \<Rightarrow> ('e, 's, 'a) cmd" where
  "map_error f m s = (case m s of (Inl e, s') \<Rightarrow> (Inl (f e), s') | (Inr a, s') \<Rightarrow> (Inr a, s'))"

fun each :: "('a \<Rightarrow> ('e, 's, unit) cmd) \<Rightarrow> 'a list \<Rightarrow> ('e, 's, unit) cmd" where
  "each f [] = ret ()"
| "each f (x # xs) = bnd (f x) (\<lambda>_. each f xs)"

fun collect :: "('a \<Rightarrow> ('e, 's, 'b) cmd) \<Rightarrow> 'a list \<Rightarrow> ('e, 's, 'b list) cmd" where
  "collect f [] = ret []"
| "collect f (x # xs) = bnd (f x) (\<lambda>y. bnd (collect f xs) (\<lambda>ys. ret (y # ys)))"

section \<open>Rules for results and commands\<close>

lemma seqR_Inl [simp, cmd_simps]: "seqR (Inl e) f = Inl e"
  by (simp add: seqR_def)

lemma seqR_Inr [simp, cmd_simps]: "seqR (Inr a) f = f a"
  by (simp add: seqR_def)

lemma seqR_ok: "seqR r f = Inr b \<longleftrightarrow> (\<exists>a. r = Inr a \<and> f a = Inr b)"
  by (cases r) auto

lemma seqR_err: "seqR r f = Inl e \<longleftrightarrow> r = Inl e \<or> (\<exists>a. r = Inr a \<and> f a = Inl e)"
  by (cases r) auto

lemma ensureR_ok [simp]: "ensureR b e = Inr u \<longleftrightarrow> b"
  by (simp add: ensureR_def)

lemma ensureR_err [simp]: "ensureR b e = Inl e' \<longleftrightarrow> \<not> b \<and> e' = e"
  by (auto simp: ensureR_def)

lemma map_res_ok: "map_res f xs = Inr ys \<longleftrightarrow> list_all2 (\<lambda>x y. f x = Inr y) xs ys"
  by (induction xs arbitrary: ys) (auto simp: seqR_ok list_all2_Cons1)

lemma each_res_ok: "each_res f xs = Inr u \<longleftrightarrow> (\<forall>x \<in> set xs. f x = Inr ())"
  by (induction xs) (auto simp: seqR_ok)

lemma ret_app [simp, cmd_simps]: "ret a s = (Inr a, s)"
  by (simp add: ret_def)

lemma bail_app [simp, cmd_simps]: "bail e s = (Inl e, s)"
  by (simp add: bail_def)

lemma lft_app [simp, cmd_simps]: "lft r s = (r, s)"
  by (simp add: lft_def)

lemma rd_app [simp, cmd_simps]: "rd f s = (f s, s)"
  by (simp add: rd_def)

lemma bnd_Inl [cmd_simps]: "m s = (Inl e, s') \<Longrightarrow> bnd m f s = (Inl e, s')"
  by (simp add: bnd_def)

lemma bnd_Inr [cmd_simps]: "m s = (Inr a, s') \<Longrightarrow> bnd m f s = f a s'"
  by (simp add: bnd_def)

lemma bnd_ok:
  "bnd m f s = (Inr b, s') \<longleftrightarrow> (\<exists>a s1. m s = (Inr a, s1) \<and> f a s1 = (Inr b, s'))"
  by (auto simp: bnd_def split: prod.splits sum.splits)

lemma bnd_okE [cmd_elims]:
  assumes "bnd m f s = (Inr b, s')"
  obtains a s1 where "m s = (Inr a, s1)" and "f a s1 = (Inr b, s')"
  using assms by (auto simp: bnd_ok)

lemma bnd_err:
  "bnd m f s = (Inl e, s') \<longleftrightarrow>
     m s = (Inl e, s') \<or> (\<exists>a s1. m s = (Inr a, s1) \<and> f a s1 = (Inl e, s'))"
  by (auto simp: bnd_def split: prod.splits sum.splits)

lemma bnd_ret [simp]: "bnd (ret a) f = f a"
  by (simp add: fun_eq_iff bnd_def)

lemma bnd_bail [simp]: "bnd (bail e) f = bail e"
  by (simp add: fun_eq_iff bnd_def)

lemma bnd_lft_Inl [simp]: "bnd (lft (Inl e)) f = bail e"
  by (simp add: fun_eq_iff bnd_def)

lemma bnd_lft_Inr [simp]: "bnd (lft (Inr a)) f = f a"
  by (simp add: fun_eq_iff bnd_def)

lemma bnd_rd: "bnd (rd g) f s = (case g s of Inl e \<Rightarrow> (Inl e, s) | Inr a \<Rightarrow> f a s)"
  by (simp add: bnd_def split: sum.splits)

text \<open>
  A state relation that is reflexive and transitive and that every part of a command keeps is
  kept by the command.  \<open>keeps\<close> is the shape of every frame and monotonicity lemma below.
\<close>

definition keeps :: "('s \<Rightarrow> 's \<Rightarrow> bool) \<Rightarrow> ('e, 's, 'a) cmd \<Rightarrow> bool" where
  "keeps R m \<longleftrightarrow> (\<forall>s. R s (snd (m s)))"

locale state_preorder =
  fixes R :: "'s \<Rightarrow> 's \<Rightarrow> bool"
  assumes refl: "R s s"
    and trans: "R s t \<Longrightarrow> R t u \<Longrightarrow> R s u"
begin

lemma keeps_ret: "keeps R (ret a)"
  by (simp add: keeps_def refl)

lemma keeps_bail: "keeps R (bail e)"
  by (simp add: keeps_def refl)

lemma keeps_rd: "keeps R (rd f)"
  by (simp add: keeps_def refl)

lemma keeps_lft: "keeps R (lft r)"
  by (simp add: keeps_def refl)

lemma keeps_bnd:
  assumes "keeps R m" and "\<And>a. keeps R (f a)"
  shows "keeps R (bnd m f)"
  unfolding keeps_def
proof
  fix s
  obtain r s' where ms: "m s = (r, s')"
    by (cases "m s")
  have "R s s'"
    using assms(1) ms by (metis keeps_def snd_conv)
  moreover have "R s' (snd (f a s'))" for a
    using assms(2) by (simp add: keeps_def)
  ultimately show "R s (snd (bnd m f s))"
    by (cases r) (auto simp: bnd_def ms intro: trans)
qed

lemma keeps_map_error: "keeps R m \<Longrightarrow> keeps R (map_error g m)"
  by (auto simp: keeps_def map_error_def split: prod.splits sum.splits)
    (metis snd_conv)+

lemma keeps_attempt: "keeps R m \<Longrightarrow> keeps R (attempt m)"
  by (auto simp: keeps_def attempt_def split: prod.splits)
    (metis snd_conv)

lemma keeps_if: "keeps R m \<Longrightarrow> keeps R n \<Longrightarrow> keeps R (if b then m else n)"
  by simp

lemma keeps_each: "(\<And>x. x \<in> set xs \<Longrightarrow> keeps R (f x)) \<Longrightarrow> keeps R (each f xs)"
  by (induction xs) (auto intro: keeps_ret keeps_bnd)

lemma keeps_collect: "(\<And>x. x \<in> set xs \<Longrightarrow> keeps R (f x)) \<Longrightarrow> keeps R (collect f xs)"
  by (induction xs) (auto intro!: keeps_ret keeps_bnd)

lemma keeps_option:
  "keeps R m \<Longrightarrow> (\<And>a. keeps R (f a)) \<Longrightarrow> keeps R (case x of None \<Rightarrow> m | Some a \<Rightarrow> f a)"
  by (cases x) auto

lemma keeps_prod: "(\<And>a b. keeps R (f a b)) \<Longrightarrow> keeps R (case p of (a, b) \<Rightarrow> f a b)"
  by (cases p) auto

lemma keeps_sum:
  "(\<And>a. keeps R (f a)) \<Longrightarrow> (\<And>b. keeps R (g b)) \<Longrightarrow> keeps R (case x of Inl a \<Rightarrow> f a | Inr b \<Rightarrow> g b)"
  by (cases x) auto

lemma keeps_let: "(\<And>a. keeps R (f a)) \<Longrightarrow> keeps R (Let a f)"
  by simp

lemmas keeps_intros =
  keeps_ret keeps_bail keeps_rd keeps_lft keeps_bnd keeps_map_error keeps_attempt keeps_if
  keeps_each keeps_collect keeps_option keeps_prod keeps_sum keeps_let

end

section \<open>Interfaces\<close>

text \<open>A keyed container: what a read returns after a write or a removal.\<close>

locale keyed_store =
  fixes get :: "'d \<Rightarrow> 'k \<Rightarrow> 'v option"
    and put :: "'k \<Rightarrow> 'v \<Rightarrow> 'd \<Rightarrow> 'd"
    and del :: "'k \<Rightarrow> 'd \<Rightarrow> 'd"
  assumes get_put: "get (put k v d) j = (if j = k then Some v else get d j)"
    and get_del: "get (del k d) j = (if j = k then None else get d j)"
begin

lemma get_put_same: "get (put k v d) k = Some v"
  by (simp add: get_put)

lemma get_put_other: "j \<noteq> k \<Longrightarrow> get (put k v d) j = get d j"
  by (simp add: get_put)

lemma get_del_same: "get (del k d) k = None"
  by (simp add: get_del)

lemma get_del_other: "j \<noteq> k \<Longrightarrow> get (del k d) j = get d j"
  by (simp add: get_del)

lemma put_put: "get (put k v (put k w d)) = get (put k v d)"
  by (rule ext) (simp add: get_put)

lemma put_commute: "j \<noteq> k \<Longrightarrow> get (put k v (put j w d)) = get (put j w (put k v d))"
  by (rule ext) (simp add: get_put)

lemma dom_put: "dom (get (put k v d)) = insert k (dom (get d))"
  by (auto simp: dom_def get_put)

lemma dom_del: "dom (get (del k d)) = dom (get d) - {k}"
  by (auto simp: dom_def get_del)

end

text \<open>
  A walk over a successor relation.  A set that holds the starts, holds only what is reachable
  from them, and is closed under successors is exactly the reachable set; every walk with a
  visited set below is shown correct through this one fact.
\<close>

locale graph_walk =
  fixes succ :: "'n \<Rightarrow> 'n set"
begin

definition reach :: "'n set \<Rightarrow> 'n set" where
  "reach A = {y. \<exists>x \<in> A. (x, y) \<in> {(u, v). v \<in> succ u}\<^sup>*}"

lemma reach_start: "A \<subseteq> reach A"
  by (auto simp: reach_def)

lemma reach_step: "x \<in> reach A \<Longrightarrow> y \<in> succ x \<Longrightarrow> y \<in> reach A"
  by (auto simp: reach_def intro: rtrancl_into_rtrancl)

lemma reach_mono: "A \<subseteq> B \<Longrightarrow> reach A \<subseteq> reach B"
  by (auto simp: reach_def)

lemma reach_induct [consumes 1, case_names start step]:
  assumes "y \<in> reach A"
    and start: "\<And>x. x \<in> A \<Longrightarrow> P x"
    and step: "\<And>x z. x \<in> reach A \<Longrightarrow> P x \<Longrightarrow> z \<in> succ x \<Longrightarrow> P z"
  shows "P y"
proof -
  obtain x where x: "x \<in> A" and "(x, y) \<in> {(u, v). v \<in> succ u}\<^sup>*"
    using assms(1) by (auto simp: reach_def)
  from this(2) have "P y \<and> y \<in> reach A"
  proof (induction rule: rtrancl_induct)
    case base
    show ?case using x start reach_start by blast
  next
    case (step u v)
    then show ?case using assms(3) reach_step by blast
  qed
  then show ?thesis by simp
qed

lemma reach_closed:
  assumes "A \<subseteq> V" and "\<And>x y. x \<in> V \<Longrightarrow> y \<in> succ x \<Longrightarrow> y \<in> V"
  shows "reach A \<subseteq> V"
proof
  fix y assume "y \<in> reach A"
  then show "y \<in> V"
  proof (induction rule: reach_induct)
    case (start x)
    then show ?case using assms(1) by blast
  next
    case (step x z)
    then show ?case using assms(2) by blast
  qed
qed

lemma reach_eqI:
  assumes "A \<subseteq> V" and "V \<subseteq> reach A" and "\<And>x y. x \<in> V \<Longrightarrow> y \<in> succ x \<Longrightarrow> y \<in> V"
  shows "V = reach A"
  using assms(2) reach_closed[OF assms(1)] assms(3) by (meson subset_antisym)

end

text \<open>A run of steps keeps what every step keeps.\<close>

locale invariant_run =
  fixes step :: "'c \<Rightarrow> 's \<Rightarrow> 's"
    and inv :: "'s \<Rightarrow> bool"
  assumes step_inv: "inv s \<Longrightarrow> inv (step c s)"
begin

lemma run_inv: "inv s \<Longrightarrow> inv (fold step cs s)"
proof (induction cs arbitrary: s)
  case (Cons c cs)
  show ?case
    using Cons.IH[OF step_inv[OF Cons.prems]] by simp
qed simp

end

section \<open>Lists, sorting, association lists\<close>

lemma sort_key_stable_min:
  assumes "x \<in> set xs"
  shows "f (hd (sort_key f xs)) \<le> f x"
proof -
  have "sorted (map f (sort_key f xs))" by simp
  moreover have "x \<in> set (sort_key f xs)" using assms by simp
  ultimately show ?thesis
    by (cases "sort_key f xs") auto
qed

text \<open>\<open>Iterator::min_by\<close> and \<open>max_by\<close>: the first minimum, the last maximum.\<close>

fun min_by_key :: "('a \<Rightarrow> 'k::linorder) \<Rightarrow> 'a list \<Rightarrow> 'a option" where
  "min_by_key f [] = None"
| "min_by_key f (x # xs) =
     (case min_by_key f xs of None \<Rightarrow> Some x | Some y \<Rightarrow> if f x \<le> f y then Some x else Some y)"

fun max_by_key :: "('a \<Rightarrow> 'k::linorder) \<Rightarrow> 'a list \<Rightarrow> 'a option" where
  "max_by_key f [] = None"
| "max_by_key f (x # xs) =
     (case max_by_key f xs of None \<Rightarrow> Some x | Some y \<Rightarrow> if f y < f x then Some x else Some y)"

lemma min_by_key_None [simp]: "min_by_key f xs = None \<longleftrightarrow> xs = []"
  by (cases xs) (auto split: option.splits)

lemma max_by_key_None [simp]: "max_by_key f xs = None \<longleftrightarrow> xs = []"
  by (cases xs) (auto split: option.splits)

lemma min_by_key_Some:
  "min_by_key f xs = Some x \<Longrightarrow> x \<in> set xs \<and> (\<forall>y \<in> set xs. f x \<le> f y)"
  by (induction xs arbitrary: x) (fastforce split: option.splits if_splits)+

lemma max_by_key_Some:
  "max_by_key f xs = Some x \<Longrightarrow> x \<in> set xs \<and> (\<forall>y \<in> set xs. f y \<le> f x)"
  by (induction xs arbitrary: x) (fastforce split: option.splits if_splits)+

text \<open>\<open>Iterator::position\<close>.\<close>

fun position :: "('a \<Rightarrow> bool) \<Rightarrow> 'a list \<Rightarrow> nat option" where
  "position p [] = None"
| "position p (x # xs) = (if p x then Some 0 else map_option Suc (position p xs))"

lemma position_None: "position p xs = None \<longleftrightarrow> (\<forall>x \<in> set xs. \<not> p x)"
  by (induction xs) auto

lemma position_Some:
  "position p xs = Some i \<longleftrightarrow> i < length xs \<and> p (xs ! i) \<and> (\<forall>j < i. \<not> p (xs ! j))"
proof (induction xs arbitrary: i)
  case (Cons x xs)
  show ?case
    by (cases i) (auto simp: Cons.IH less_Suc_eq_0_disj)
qed simp

text \<open>\<open>HashMap\<close> built by \<open>collect\<close>: a later entry with the same key replaces an earlier one.\<close>

definition hash_collect :: "('a \<Rightarrow> 'k) \<Rightarrow> 'a list \<Rightarrow> ('k \<times> 'a) list" where
  "hash_collect key xs = fold (\<lambda>x m. AList.update (key x) x m) xs []"

lemma fold_update_keys:
  "distinct (map fst m) \<Longrightarrow> distinct (map fst (fold (\<lambda>x m. AList.update (key x) x m) xs m))"
  by (induction xs arbitrary: m) (auto simp: distinct_update)

lemma hash_collect_distinct: "distinct (map fst (hash_collect key xs))"
  unfolding hash_collect_def by (rule fold_update_keys) simp

lemma fold_update_map_of:
  "map_of (fold (\<lambda>x m. AList.update (key x) x m) xs m) =
     map_of m ++ map_of (rev (map (\<lambda>x. (key x, x)) xs))"
proof (induction xs arbitrary: m)
  case (Cons x xs)
  then show ?case
    by (auto simp: update_conv' fun_eq_iff map_add_def split: option.splits)
qed simp

lemma hash_collect_get:
  "map_of (hash_collect key xs) = map_of (rev (map (\<lambda>x. (key x, x)) xs))"
  by (simp add: hash_collect_def fold_update_map_of)

lemma hash_collect_key:
  assumes "(k, x) \<in> set (hash_collect key xs)"
  shows "k = key x \<and> x \<in> set xs"
proof -
  have "map_of (hash_collect key xs) k = Some x"
    using assms hash_collect_distinct[of key xs] by (simp add: map_of_eq_Some_iff)
  then have "map_of (rev (map (\<lambda>x. (key x, x)) xs)) k = Some x"
    by (simp add: hash_collect_get)
  then show ?thesis
    by (auto dest!: map_of_SomeD)
qed

lemma hash_collect_distinct_get:
  assumes "distinct (map key xs)" and "x \<in> set xs"
  shows "map_of (hash_collect key xs) (key x) = Some x"
proof -
  have "distinct (map fst (rev (map (\<lambda>x. (key x, x)) xs)))"
    using assms(1) by (simp add: rev_map[symmetric] comp_def)
  then show ?thesis
    using assms(2) by (simp add: hash_collect_get map_of_eq_Some_iff)
qed

lemma hash_collect_None: "map_of (hash_collect key xs) k = None \<longleftrightarrow> k \<notin> key ` set xs"
  by (auto simp: hash_collect_get map_of_eq_None_iff image_iff)

end
