(* ===== verification/Text.thy ===== *)
theory Text
  imports Base
begin

text \<open>
  Rust text operations over UTF-8 byte strings, the path-name checks of
  \<open>crates/llmenv-paths/src/names.rs\<close>, and the slug derivation of
  \<open>crates/llmenv-task/src/slug.rs\<close>.  A Rust \<open>str\<close> is the list of its bytes.  Splitting at a
  character class of ASCII characters can be done on bytes, because every byte of a multi-byte
  character is at least 128; white space outside ASCII is recognised by its byte sequence
  (\<open>ws_len\<close>).  Decimal printing and parsing model \<open>format!("{n}")\<close> and \<open>str::parse\<close>.
\<close>

section \<open>Characters and splitting\<close>

definition byte :: "char \<Rightarrow> nat" where
  "byte c = of_char c"

definition is_ascii_digit :: "char \<Rightarrow> bool" where
  "is_ascii_digit c \<longleftrightarrow> 48 \<le> byte c \<and> byte c \<le> 57"

definition is_ascii_upper :: "char \<Rightarrow> bool" where
  "is_ascii_upper c \<longleftrightarrow> 65 \<le> byte c \<and> byte c \<le> 90"

definition is_ascii_lower :: "char \<Rightarrow> bool" where
  "is_ascii_lower c \<longleftrightarrow> 97 \<le> byte c \<and> byte c \<le> 122"

definition is_ascii_alphanumeric :: "char \<Rightarrow> bool" where
  "is_ascii_alphanumeric c \<longleftrightarrow> is_ascii_digit c \<or> is_ascii_upper c \<or> is_ascii_lower c"

definition to_ascii_lower :: "char \<Rightarrow> char" where
  "to_ascii_lower c = (if is_ascii_upper c then char_of (byte c + 32) else c)"

text \<open>The number of bytes of the white-space character that starts a string, 0 if none does.\<close>

fun ws_bytes :: "nat list \<Rightarrow> nat" where
  "ws_bytes [] = 0"
| "ws_bytes (a # rest) =
     (if (9 \<le> a \<and> a \<le> 13) \<or> a = 32 then 1
      else case rest of
        [] \<Rightarrow> 0
      | b # rest' \<Rightarrow>
          if a = 0xC2 \<and> (b = 0x85 \<or> b = 0xA0) then 2
          else (case rest' of
              [] \<Rightarrow> 0
            | c # _ \<Rightarrow>
                if (a = 0xE1 \<and> b = 0x9A \<and> c = 0x80)
                 \<or> (a = 0xE2 \<and> b = 0x80 \<and>
                      ((0x80 \<le> c \<and> c \<le> 0x8A) \<or> c = 0xA8 \<or> c = 0xA9 \<or> c = 0xAF))
                 \<or> (a = 0xE2 \<and> b = 0x81 \<and> c = 0x9F)
                 \<or> (a = 0xE3 \<and> b = 0x80 \<and> c = 0x80)
                then 3 else 0))"

definition ws_len :: "string \<Rightarrow> nat" where
  "ws_len s = ws_bytes (map byte (take 3 s))"

function split_ws :: "string \<Rightarrow> string \<Rightarrow> string list" where
  "split_ws cur [] = (if cur = [] then [] else [rev cur])"
| "split_ws cur (c # cs) =
     (let k = ws_len (c # cs) in
      if k = 0 then split_ws (c # cur) cs
      else (if cur = [] then [] else [rev cur]) @ split_ws [] (drop k (c # cs)))"
  by pat_completeness auto
termination
  by (relation "measure (\<lambda>(cur, s). length s)") auto

definition split_whitespace :: "string \<Rightarrow> string list" where
  "split_whitespace s = split_ws [] s"

function trim_start :: "string \<Rightarrow> string" where
  "trim_start s = (if ws_len s = 0 then s else trim_start (drop (ws_len s) s))"
  by pat_completeness auto
termination
proof (relation "measure length")
  fix s assume "ws_len s \<noteq> 0"
  then show "(drop (ws_len s) s, s) \<in> measure length"
    by (cases s) (auto simp: ws_len_def)
qed simp

declare trim_start.simps [simp del]

text \<open>\<open>str::split\<close> with a predicate: empty pieces are kept, and the empty string has one piece.\<close>

fun split_on :: "(char \<Rightarrow> bool) \<Rightarrow> string \<Rightarrow> string list" where
  "split_on p [] = [[]]"
| "split_on p (c # cs) =
     (if p c then [] # split_on p cs
      else (case split_on p cs of [] \<Rightarrow> [[c]] | w # ws \<Rightarrow> (c # w) # ws))"

text \<open>\<open>str::find\<close> of an ASCII character.\<close>

definition find_char :: "char \<Rightarrow> string \<Rightarrow> nat option" where
  "find_char c s = (let k = length (takeWhile (\<lambda>x. x \<noteq> c) s) in if k < length s then Some k else None)"

lemma find_char_append: "c \<notin> set a \<Longrightarrow> find_char c (a @ c # b) = Some (length a)"
proof -
  assume "c \<notin> set a"
  then have "takeWhile (\<lambda>x. x \<noteq> c) (a @ c # b) = a" by (induction a) auto
  then show ?thesis by (simp add: find_char_def)
qed

lemma find_char_none: "find_char c s = None \<longleftrightarrow> c \<notin> set s"
proof -
  have "length (takeWhile (\<lambda>x. x \<noteq> c) s) < length s \<longleftrightarrow> c \<in> set s" by (induction s) auto
  then show ?thesis by (simp add: find_char_def Let_def)
qed

fun join_str :: "string \<Rightarrow> string list \<Rightarrow> string" where
  "join_str sep [] = []"
| "join_str sep [x] = x"
| "join_str sep (x # y # ys) = x @ sep @ join_str sep (y # ys)"

definition starts_with :: "string \<Rightarrow> string \<Rightarrow> bool" where
  "starts_with s p \<longleftrightarrow> take (length p) s = p"

lemma split_on_nonempty [simp]: "split_on p s \<noteq> []"
  by (induction s) (auto split: list.splits)

lemma split_on_pieces: "w \<in> set (split_on p s) \<Longrightarrow> c \<in> set w \<Longrightarrow> c \<in> set s \<and> \<not> p c"
proof (induction s arbitrary: w)
  case (Cons a s)
  show ?case
  proof (cases "p a")
    case True
    then show ?thesis using Cons by auto
  next
    case False
    obtain v vs where v: "split_on p s = v # vs"
      using split_on_nonempty by (meson list.exhaust)
    have "c \<in> set v \<Longrightarrow> c \<in> set s \<and> \<not> p c"
      using Cons.IH[of v] v by simp
    then show ?thesis using Cons False v by auto
  qed
qed simp

lemma split_on_none: "(\<forall>c \<in> set s. \<not> p c) \<Longrightarrow> split_on p s = [s]"
  by (induction s) auto

lemma split_on_sep:
  assumes "\<forall>c \<in> set x. \<not> p c" and "p d"
  shows "split_on p (x @ d # rest) = x # split_on p rest"
  using assms by (induction x) auto

lemma split_on_join:
  assumes "ws \<noteq> []" and "\<And>w c. w \<in> set ws \<Longrightarrow> c \<in> set w \<Longrightarrow> \<not> p c" and "p d"
  shows "split_on p (join_str [d] ws) = ws"
  using assms
proof (induction "[d]" ws rule: join_str.induct)
  case (2 x)
  then show ?case by (simp add: split_on_none)
next
  case (3 x y ys)
  have "split_on p (join_str [d] (y # ys)) = y # ys"
    using "3.hyps" "3.prems" by auto
  moreover have "\<forall>c \<in> set x. \<not> p c"
    using "3.prems"(2) by auto
  ultimately show ?case
    using "3.prems"(3) by (simp add: split_on_sep)
qed simp

lemma set_join_str:
  "set (join_str sep ws) \<subseteq> (\<Union>w \<in> set ws. set w) \<union> set sep"
  by (induction sep ws rule: join_str.induct) auto

lemma join_str_eq_Nil: "(\<forall>w \<in> set ws. w \<noteq> []) \<Longrightarrow> join_str sep ws = [] \<longleftrightarrow> ws = []"
  by (induction sep ws rule: join_str.induct) auto

lemma hd_join_str: "ws \<noteq> [] \<Longrightarrow> hd ws \<noteq> [] \<Longrightarrow> hd (join_str sep ws) = hd (hd ws)"
  by (induction sep ws rule: join_str.induct) auto

lemma join_str_nonempty: "ws \<noteq> [] \<Longrightarrow> last ws \<noteq> [] \<Longrightarrow> join_str sep ws \<noteq> []"
  by (induction sep ws rule: join_str.induct) auto

lemma last_join_str: "ws \<noteq> [] \<Longrightarrow> last ws \<noteq> [] \<Longrightarrow> last (join_str sep ws) = last (last ws)"
proof (induction sep ws rule: join_str.induct)
  case (3 sep x y ys)
  have l: "last (y # ys) \<noteq> []"
    using "3.prems"(2) by simp
  have "join_str sep (y # ys) \<noteq> []"
    by (rule join_str_nonempty) (use l in auto)
  then show ?case
    using "3.IH" l by simp
qed auto

section \<open>Names that become path components\<close>

definition is_name_char :: "char \<Rightarrow> bool" where
  "is_name_char c \<longleftrightarrow>
     is_ascii_alphanumeric c \<or> c = CHR ''.'' \<or> c = CHR ''_'' \<or> c = CHR ''-''"

definition is_valid_short_name :: "string \<Rightarrow> bool" where
  "is_valid_short_name name \<longleftrightarrow>
     \<not> (name = [] \<or> name = ''.'' \<or> name = ''..'' \<or> starts_with name ''-'')
     \<and> list_all is_name_char name"

text \<open>
  \<open>Path::components\<close> on Unix: empty pieces between separators are dropped, and a \<open>.\<close> is kept
  only where it starts a relative path.
\<close>

datatype component = RootDir | CurDir | ParentDir | Normal string

definition path_components :: "string \<Rightarrow> component list" where
  "path_components p =
     (let pieces = split_on (\<lambda>c. c = CHR ''/'') p in
      (if starts_with p ''/'' then [RootDir] else if hd pieces = ''.'' then [CurDir] else [])
      @ map (\<lambda>w. if w = ''..'' then ParentDir else Normal w)
          (filter (\<lambda>w. w \<noteq> [] \<and> w \<noteq> ''.'') pieces))"

definition has_parent_component :: "string \<Rightarrow> bool" where
  "has_parent_component p \<longleftrightarrow> ParentDir \<in> set (path_components p)"

definition is_absolute :: "string \<Rightarrow> bool" where
  "is_absolute p \<longleftrightarrow> starts_with p ''/''"

definition is_unsafe_join_target :: "string \<Rightarrow> bool" where
  "is_unsafe_join_target p \<longleftrightarrow> is_absolute p \<or> has_parent_component p"

text \<open>\<open>Path::starts_with\<close> compares whole components.\<close>

definition cwd_under_prefix :: "string \<Rightarrow> string \<Rightarrow> bool" where
  "cwd_under_prefix cwd pre \<longleftrightarrow>
     take (length (path_components pre)) (path_components cwd) = path_components pre"

lemma slash_not_name_char: "\<not> is_name_char (CHR ''/'')"
  by (simp add: is_name_char_def is_ascii_alphanumeric_def is_ascii_digit_def is_ascii_upper_def
      is_ascii_lower_def byte_def)

lemma valid_short_name_no_slash: "is_valid_short_name n \<Longrightarrow> CHR ''/'' \<notin> set n"
  using slash_not_name_char by (auto simp: is_valid_short_name_def list_all_iff)

lemma valid_short_name_components:
  assumes "is_valid_short_name n" and "CHR ''/'' \<notin> set suffix" and "n @ suffix \<noteq> ''..''"
    and "n @ suffix \<noteq> ''.''"
  shows "path_components (n @ suffix) = [Normal (n @ suffix)]"
proof -
  have "CHR ''/'' \<notin> set (n @ suffix)"
    using valid_short_name_no_slash[OF assms(1)] assms(2) by simp
  then have "split_on (\<lambda>c. c = CHR ''/'') (n @ suffix) = [n @ suffix]"
    by (intro split_on_none) auto
  moreover have "n \<noteq> []"
    using assms(1) by (simp add: is_valid_short_name_def)
  moreover have "\<not> starts_with (n @ suffix) ''/''"
    using \<open>CHR ''/'' \<notin> set (n @ suffix)\<close> \<open>n \<noteq> []\<close> by (cases n) (auto simp: starts_with_def)
  ultimately show ?thesis
    using assms(3,4) by (simp add: path_components_def)
qed

section \<open>Decimal numbers\<close>

definition digit_char :: "nat \<Rightarrow> char" where
  "digit_char d = char_of (48 + d)"

fun nat_str :: "nat \<Rightarrow> string" where
  "nat_str n = (if n < 10 then [digit_char n] else nat_str (n div 10) @ [digit_char (n mod 10)])"

declare nat_str.simps [simp del]

definition digit_value :: "char \<Rightarrow> nat" where
  "digit_value c = byte c - 48"

definition dec_value :: "string \<Rightarrow> nat" where
  "dec_value s = foldl (\<lambda>v c. 10 * v + digit_value c) 0 s"

text \<open>\<open>str::parse\<close> for an unsigned type: one optional plus sign, digits, and the range of the type.\<close>

definition parse_unsigned :: "nat \<Rightarrow> string \<Rightarrow> nat option" where
  "parse_unsigned max_value s =
     (let ds = (case s of c # cs \<Rightarrow> if c = CHR ''+'' then cs else s | [] \<Rightarrow> s) in
      if ds = [] \<or> \<not> list_all is_ascii_digit ds \<or> max_value < dec_value ds then None
      else Some (dec_value ds))"

lemma digit_char_props:
  assumes "d < 10"
  shows "is_ascii_digit (digit_char d)" "digit_value (digit_char d) = d" "digit_char d \<noteq> CHR ''+''"
    "digit_char d \<noteq> CHR ''-''"
proof -
  have b: "byte (digit_char d) = 48 + d"
    using assms by (simp add: byte_def digit_char_def of_char_of)
  then show "is_ascii_digit (digit_char d)" "digit_value (digit_char d) = d"
    using assms by (auto simp: is_ascii_digit_def digit_value_def)
  from b show "digit_char d \<noteq> CHR ''+''" "digit_char d \<noteq> CHR ''-''"
    by (auto simp: byte_def)
qed

lemma nat_str_digits: "list_all is_ascii_digit (nat_str n)"
proof (induction n rule: nat_str.induct)
  case (1 n)
  then show ?case
    by (subst nat_str.simps) (auto simp: digit_char_props)
qed

lemma nat_str_nonempty [simp]: "nat_str n \<noteq> []"
  by (subst nat_str.simps) simp

lemma dec_value_snoc: "dec_value (s @ [c]) = 10 * dec_value s + digit_value c"
  by (simp add: dec_value_def)

lemma dec_value_nat_str [simp]: "dec_value (nat_str n) = n"
proof (induction n rule: nat_str.induct)
  case (1 n)
  show ?case
  proof (cases "n < 10")
    case True
    then show ?thesis
      by (subst nat_str.simps) (simp add: dec_value_def digit_char_props)
  next
    case False
    then have "dec_value (nat_str (n div 10)) = n div 10"
      by (rule "1.IH")
    with False show ?thesis
      by (subst nat_str.simps) (simp add: dec_value_snoc digit_char_props)
  qed
qed

lemma nat_str_inject [simp]: "nat_str m = nat_str n \<longleftrightarrow> m = n"
  by (metis dec_value_nat_str)

lemma digit_not_plus: "\<not> is_ascii_digit (CHR ''+'')"
  by (simp add: is_ascii_digit_def byte_def)

lemma parse_unsigned_nat_str: "n \<le> m \<Longrightarrow> parse_unsigned m (nat_str n) = Some n"
  using nat_str_digits[of n] dec_value_nat_str[of n] nat_str_nonempty[of n] digit_not_plus
  by (cases "nat_str n") (auto simp: parse_unsigned_def Let_def simp del: dec_value_nat_str nat_str_nonempty)

section \<open>Slugs\<close>

definition slugify :: "string \<Rightarrow> string" where
  "slugify title =
     join_str ''-''
       (map (map to_ascii_lower)
         (filter (\<lambda>part. part \<noteq> [])
           (split_on (\<lambda>c. \<not> is_ascii_alphanumeric c)
             (join_str '' '' (take 6 (split_whitespace title))))))"

definition is_slug_char :: "char \<Rightarrow> bool" where
  "is_slug_char c \<longleftrightarrow> is_ascii_digit c \<or> is_ascii_lower c"

lemma byte_char_of [simp]: "n < 256 \<Longrightarrow> byte (char_of n) = n"
  by (simp add: byte_def of_char_of)

lemma to_ascii_lower_slug:
  assumes "is_ascii_alphanumeric c"
  shows "is_slug_char (to_ascii_lower c)"
  using assms
  by (auto simp: is_ascii_alphanumeric_def to_ascii_lower_def is_slug_char_def is_ascii_digit_def
      is_ascii_upper_def is_ascii_lower_def)

lemma slug_char_props:
  assumes "is_slug_char c"
  shows "to_ascii_lower c = c" "is_ascii_alphanumeric c" "is_name_char c" "c \<noteq> CHR ''-''"
    "c \<noteq> CHR ''.''" "c \<noteq> CHR '' ''"
proof -
  have r: "(48 \<le> byte c \<and> byte c \<le> 57) \<or> (97 \<le> byte c \<and> byte c \<le> 122)"
    using assms by (auto simp: is_slug_char_def is_ascii_digit_def is_ascii_lower_def)
  show "to_ascii_lower c = c"
    using r by (auto simp: to_ascii_lower_def is_ascii_upper_def)
  show a: "is_ascii_alphanumeric c"
    using assms by (auto simp: is_slug_char_def is_ascii_alphanumeric_def)
  show "is_name_char c"
    using a by (simp add: is_name_char_def)
  show "c \<noteq> CHR ''-''" "c \<noteq> CHR ''.''" "c \<noteq> CHR '' ''"
    using r by (auto simp: byte_def)
qed

text \<open>The words of a slug: what the last three steps of \<open>slugify\<close> produce.\<close>

definition slug_words :: "string \<Rightarrow> string list" where
  "slug_words title =
     map (map to_ascii_lower)
       (filter (\<lambda>part. part \<noteq> [])
         (split_on (\<lambda>c. \<not> is_ascii_alphanumeric c)
           (join_str '' '' (take 6 (split_whitespace title)))))"

lemma slugify_words: "slugify title = join_str ''-'' (slug_words title)"
  by (simp add: slugify_def slug_words_def)

lemma slug_words_props:
  assumes "w \<in> set (slug_words title)"
  shows "w \<noteq> []" "list_all is_slug_char w"
  using assms
  by (auto simp: slug_words_def list_all_iff intro!: to_ascii_lower_slug) (metis split_on_pieces)

lemma slugify_chars:
  assumes "c \<in> set (slugify title)"
  shows "is_slug_char c \<or> c = CHR ''-''"
proof -
  have "c \<in> (\<Union>w \<in> set (slug_words title). set w) \<union> set ''-''"
    using assms set_join_str by (fastforce simp: slugify_words)
  then show ?thesis
    using slug_words_props(2) by (auto simp: list_all_iff)
qed

lemma slugify_ends:
  assumes "slugify title \<noteq> []"
  shows "is_slug_char (hd (slugify title))" "is_slug_char (last (slugify title))"
proof -
  let ?ws = "slug_words title"
  have ne: "?ws \<noteq> []"
    using assms by (auto simp: slugify_words)
  have h: "hd ?ws \<in> set ?ws" and l: "last ?ws \<in> set ?ws"
    using ne by simp_all
  show "is_slug_char (hd (slugify title))"
    using slug_words_props[OF h] ne by (cases "hd ?ws") (auto simp: slugify_words hd_join_str)
  show "is_slug_char (last (slugify title))"
    using slug_words_props[OF l] ne
    by (simp add: slugify_words last_join_str list_all_iff)
qed

lemma slugify_valid_name:
  assumes "slugify title \<noteq> []"
  shows "is_valid_short_name (slugify title)"
proof -
  have hd: "is_slug_char (hd (slugify title))"
    using assms by (rule slugify_ends)
  obtain c cs where s: "slugify title = c # cs"
    using assms by (cases "slugify title") auto
  have "list_all is_name_char (slugify title)"
    using slugify_chars slug_char_props(3) by (auto simp: list_all_iff is_name_char_def)
  moreover have "c \<noteq> CHR ''-''" "c \<noteq> CHR ''.''"
    using hd s slug_char_props by auto
  ultimately show ?thesis
    using s by (auto simp: is_valid_short_name_def starts_with_def)
qed

lemma ws_len_visible: "33 \<le> byte c \<Longrightarrow> byte c \<le> 127 \<Longrightarrow> ws_len (c # cs) = 0"
  by (cases cs; cases "tl cs") (auto simp: ws_len_def)

lemma ws_len_ascii:
  assumes "is_slug_char c \<or> c = CHR ''-''"
  shows "ws_len (c # cs) = 0"
  by (rule ws_len_visible)
    (use assms in \<open>auto simp: is_slug_char_def is_ascii_digit_def is_ascii_lower_def byte_def\<close>)

lemma split_ws_no_space:
  assumes "\<forall>c \<in> set s. is_slug_char c \<or> c = CHR ''-''"
  shows "split_ws cur s = (if cur = [] \<and> s = [] then [] else [rev cur @ s])"
  using assms by (induction s arbitrary: cur) (auto simp: ws_len_ascii Let_def)

text \<open>The words of a slug survive a second pass, so deriving a slug is idempotent.\<close>

lemma slug_words_slugify: "slug_words (slugify title) = slug_words title"
proof (cases "slug_words title = []")
  case True
  then show ?thesis
    by (simp add: slugify_words slug_words_def split_whitespace_def)
next
  case False
  let ?ws = "slug_words title"
  let ?p = "\<lambda>c. \<not> is_ascii_alphanumeric c"
  have ne: "slugify title \<noteq> []"
    using False slug_words_props(1) by (simp add: slugify_words join_str_eq_Nil)
  have "split_whitespace (slugify title) = [slugify title]"
    unfolding split_whitespace_def using split_ws_no_space[of "slugify title" "[]"] slugify_chars ne
    by simp
  then have j: "join_str '' '' (take 6 (split_whitespace (slugify title))) = join_str ''-'' ?ws"
    by (simp add: slugify_words)
  have al: "w \<in> set ?ws \<Longrightarrow> c \<in> set w \<Longrightarrow> is_ascii_alphanumeric c" for w c
    using slug_words_props(2) slug_char_props(2) by (auto simp: list_all_iff)
  have "?p (CHR ''-'')"
    by (simp add: is_ascii_alphanumeric_def is_ascii_digit_def is_ascii_upper_def
        is_ascii_lower_def byte_def)
  then have "split_on ?p (join_str ''-'' ?ws) = ?ws"
    using False al by (intro split_on_join) auto
  moreover have "filter (\<lambda>part. part \<noteq> []) ?ws = ?ws"
    using slug_words_props(1) by (simp add: filter_id_conv)
  moreover have "map (map to_ascii_lower) ?ws = ?ws"
    using slug_words_props(2) slug_char_props(1)
    by (intro map_idI) (auto simp: list_all_iff map_idI)
  ultimately show ?thesis
    by (simp only: slug_words_def[of "slugify title"] j)
qed

lemma slugify_idem: "slugify (slugify title) = slugify title"
  by (simp add: slugify_words[of "slugify title"] slug_words_slugify slugify_words[of title, symmetric])

end
