(* ===== verification/Task_Store.thy ===== *)
theory Task_Store
  imports Text
begin

text \<open>
  The data model of the task tracker (\<open>crates/llmenv-task\<close>) and its file store: one JSON file per
  task under \<open>tasks/\<close> and one per session under \<open>tasks/sessions/\<close>.

  A directory is the list of its entries in \<open>readdir\<close> order.  A \<open>*.json\<close> entry holds what reading
  and parsing it gives: a value, an I/O error, or malformed JSON (the parser is \<open>serde_json\<close>,
  which is not part of the repository: writing a value and reading it back gives that value).
  An entry \<open>Unreadable NotFound\<close> is a dangling link, so it does not \<open>exists()\<close>.  Which writes and
  removals the operating system refuses is part of the state.  The wall clock is the sequence of
  the RFC 3339 strings that the successive calls of \<open>now_rfc3339\<close> return.
\<close>

section \<open>Data\<close>

datatype task_state = Open | Wip | Waiting | Done

primrec as_str :: "task_state \<Rightarrow> string" where
  "as_str Open = ''open''"
| "as_str Wip = ''wip''"
| "as_str Waiting = ''waiting''"
| "as_str Done = ''done''"

datatype relation = Queued | Child

datatype placement = PlaceQueue | PlaceParallel | PlaceChild string

record task_note =
  n_at :: string
  n_text :: string

record task =
  t_slug :: string
  t_title :: string
  t_state :: task_state
  t_parent :: "string option"
  t_relation :: relation
  t_parallel :: bool
  t_blocked_on :: "string list"
  t_notes :: "task_note list"
  t_detail :: "string option"
  t_session :: "string option"
  t_created_at :: string
  t_updated_at :: string

record resume_context =
  r_context :: "string option"
  r_issues :: "nat list"
  r_branch :: "string option"
  r_base :: "string option"
  r_memory_topics :: "string list"
  r_docs :: "string list"

record session =
  s_id :: string
  s_name :: "string option"
  s_project :: string
  s_description :: "string option"
  s_started_at :: string
  s_last_activity :: string
  s_finished_at :: "string option"
  s_abandoned_at :: "string option"
  s_owner_session :: "string option"
  s_owner_pid :: "nat option"
  s_resume :: resume_context

section \<open>Errors\<close>

datatype io_kind = NotFound | PermissionDenied | InvalidData | OtherIo

text \<open>The texts that \<open>with_context\<close> puts around an error, by their site and data.\<close>

datatype context_text =
    CtxListingSessions string
  | CtxUntagging string string nat
  | CtxAbandon string nat
  | CtxStaysOpen string nat
  | CtxSaveReopened string "string list"
  | CtxParentUnreadable string string
  | CtxAncestorUnreadable string string
  | CtxCheckParent string string string
  | CtxTouch string
  | CtxDelete string nat nat string
  | CtxOverrideNote string
  | CtxTaskNoteUnsaved string
  | CtxReopenedNotStarted string
  | CtxClearStopped string nat
  | CtxStoreUnreadAfterDelete
  | CtxSessionNoteUnsaved string
  | CtxOwnerNoteUnsaved string
  | CtxTaskNotAdded string string
  | CtxAddedNoteUnsaved string
  | CtxTagUnresolved
  | CtxStoreUnread

datatype store_error =
    InvalidSlug string
  | TaskUnreadable string io_kind
  | TaskCorrupt string
  | TasksDirUnreadable io_kind
  | EntryUnreadable io_kind
  | TaskFileUnreadable string io_kind
  | TaskFileCorrupt string
  | InvalidSessionId string
  | NoSessionFound string
  | SessionUnreadable string io_kind
  | SessionCorrupt string
  | SessionJson
  | SessionsDirUnreadable io_kind
  | SessionEntryUnreadable io_kind
  | SessionFileUnreadable string io_kind
  | SessionFileCorrupt string

datatype lookup_error =
    IdentityNotUtf8 string
  | TagUnresolved
  | InvalidIdentifier string
  | NoTaskMatches string
  | AmbiguousTask string "string list"
  | StoreNotRead string
  | TaskNotInStore string
  | NoTaskChecked string

datatype parent_error =
    ParentNotFound string
  | ParentOtherSession string string
  | ParentNoSession string
  | ChildParentDone string
  | ChildParentNoSession string string
  | ChildParentOtherSession string
  | OwnParent string
  | OwnAncestor string string
  | ChainLoop string string string
  | AncestorMissing string string string
  | SubTaskNoParent string string
  | AncestorLoop string string
  | ParentMissing string string
  | ParentDone string string
  | ReopenDoneParent string string

datatype task_error =
    AlreadyDone string
  | BlockedOn string "(string \<times> string) list"
  | BlockerLoop string
  | QueuedBehind string string string
  | ParentQueuedBehind string "string \<times> string \<times> string"
  | NeverStarted string
  | UndoneChildren string "(string \<times> task_state) list"
  | WaitDone string
  | BlockedOnItself string
  | NoteIndexRange nat nat
  | NoteNotFound string
  | NotDone "(string \<times> task_state) list"

datatype session_error =
    SessionNotOpen string
  | SessionNotOfProject string
  | NoneOpenForProject
  | AmbiguousSession nat nat bool
  | SessionClosed string
  | SessionAlreadyClosed string
  | UnfinishedTasks string "(task_state \<times> string) list"
  | SessionsOpen "string list"
  | EmptyNote
  | ReadsOtherSession string
  | ListNeedsSession

datatype ownership_error =
    ForeignSession string
  | TaskOwnedBy string string string
  | ActsOnOther string string
  | RefusedTask string string string
  | RefusedSession string string
  | OwnerLessRefused string
  | NothingToClear

datatype err =
    IoError io_kind
  | LockFailed io_kind
  | StoreE store_error
  | LookupE lookup_error
  | ParentE parent_error
  | TaskE task_error
  | SessionE session_error
  | OwnerE ownership_error
  | InContext context_text err
  | FailedNotes "err list"
  | BothFailed err err

text \<open>\<open>downcast_ref::<io::Error>\<close> looks through the contexts of an error.\<close>

fun is_not_found :: "err \<Rightarrow> bool" where
  "is_not_found (IoError k) = (k = NotFound)"
| "is_not_found (StoreE (TaskUnreadable _ k)) = (k = NotFound)"
| "is_not_found (InContext _ e) = is_not_found e"
| "is_not_found _ = False"

section \<open>Directories\<close>

datatype 'a json_file = Parsed 'a | Unreadable io_kind | Malformed

datatype 'a dir_entry =
    EntryError io_kind
  | OtherFile string
  | JsonFile string "'a json_file"

record 'a directory =
  listing_error :: "io_kind option"
  entries :: "'a dir_entry list"
  mkdir_error :: "io_kind option"
  write_error :: "string \<Rightarrow> io_kind option"
  remove_error :: "string \<Rightarrow> io_kind option"

fun find_json :: "string \<Rightarrow> 'a dir_entry list \<Rightarrow> 'a json_file option" where
  "find_json n [] = None"
| "find_json n (JsonFile m f # es) = (if m = n then Some f else find_json n es)"
| "find_json n (_ # es) = find_json n es"

fun put_json :: "string \<Rightarrow> 'a json_file \<Rightarrow> 'a dir_entry list \<Rightarrow> 'a dir_entry list" where
  "put_json n f [] = [JsonFile n f]"
| "put_json n f (JsonFile m g # es) =
     (if m = n then JsonFile n f # es else JsonFile m g # put_json n f es)"
| "put_json n f (e # es) = e # put_json n f es"

fun is_json_named :: "string \<Rightarrow> 'a dir_entry \<Rightarrow> bool" where
  "is_json_named n (JsonFile m _) = (m = n)"
| "is_json_named n _ = False"

definition del_json :: "string \<Rightarrow> 'a dir_entry list \<Rightarrow> 'a dir_entry list" where
  "del_json n es = filter (\<lambda>e. \<not> is_json_named n e) es"

fun json_names :: "'a dir_entry list \<Rightarrow> string list" where
  "json_names [] = []"
| "json_names (JsonFile n _ # es) = n # json_names es"
| "json_names (_ # es) = json_names es"

definition file_exists :: "'a directory \<Rightarrow> string \<Rightarrow> bool" where
  "file_exists d n =
     (case find_json n (entries d) of
        None \<Rightarrow> False | Some (Unreadable NotFound) \<Rightarrow> False | Some _ \<Rightarrow> True)"

definition make_dir :: "'a directory \<Rightarrow> io_kind + 'a directory" where
  "make_dir d =
     (case mkdir_error d of
        Some k \<Rightarrow> Inl k
      | None \<Rightarrow> Inr (if listing_error d = Some NotFound then d\<lparr>listing_error := None\<rparr> else d))"

definition write_json :: "string \<Rightarrow> 'a \<Rightarrow> 'a directory \<Rightarrow> io_kind + 'a directory" where
  "write_json n v d =
     (case write_error d n of
        Some k \<Rightarrow> Inl k
      | None \<Rightarrow> Inr (d\<lparr>entries := put_json n (Parsed v) (entries d)\<rparr>))"

definition remove_json :: "string \<Rightarrow> 'a directory \<Rightarrow> io_kind + 'a directory" where
  "remove_json n d =
     (if find_json n (entries d) = None then Inl NotFound
      else case remove_error d n of
        Some k \<Rightarrow> Inl k
      | None \<Rightarrow> Inr (d\<lparr>entries := del_json n (entries d)\<rparr>))"

interpretation json_dir: keyed_store "\<lambda>es n. find_json n es" put_json del_json
proof
  fix k v j and d :: "'a dir_entry list"
  show "find_json j (put_json k v d) = (if j = k then Some v else find_json j d)"
    by (induction k v d rule: put_json.induct) auto
  show "find_json j (del_json k d) = (if j = k then None else find_json j d)"
  proof (induction d)
    case (Cons e d)
    then show ?case by (cases e) (auto simp: del_json_def)
  qed (simp add: del_json_def)
qed

lemma find_json_names: "find_json n es = None \<longleftrightarrow> n \<notin> set (json_names es)"
  by (induction n es rule: find_json.induct) auto

lemma file_exists_name: "file_exists d n \<Longrightarrow> n \<in> set (json_names (entries d))"
  using find_json_names[of n "entries d"] by (auto simp: file_exists_def split: option.splits)

lemma find_json_in: "find_json n es = Some f \<Longrightarrow> JsonFile n f \<in> set es"
  by (induction n es rule: find_json.induct) (auto split: if_splits)

lemma json_file_name: "JsonFile n f \<in> set es \<Longrightarrow> n \<in> set (json_names es)"
  by (induction es rule: json_names.induct) auto

lemma find_json_distinct:
  "distinct (json_names es) \<Longrightarrow> JsonFile n f \<in> set es \<Longrightarrow> find_json n es = Some f"
proof (induction n es rule: find_json.induct)
  case (2 n m g es)
  then show ?case
    by (auto dest: json_file_name)
qed auto

lemma json_names_put:
  "json_names (put_json n f es) =
     (if n \<in> set (json_names es) then json_names es else json_names es @ [n])"
  by (induction n f es rule: put_json.induct) auto

lemma json_names_del: "json_names (del_json n es) = filter (\<lambda>m. m \<noteq> n) (json_names es)"
proof (induction es)
  case (Cons e es)
  then show ?case by (cases e) (auto simp: del_json_def)
qed (simp add: del_json_def)

lemma put_json_members:
  "JsonFile m g \<in> set (put_json n f es) \<Longrightarrow> (m = n \<and> g = f) \<or> JsonFile m g \<in> set es"
  by (induction n f es rule: put_json.induct) (auto split: if_splits)

section \<open>The store\<close>

record store =
  task_dir :: "task directory"
  session_dir :: "session directory"
  lock_error :: "io_kind option"
  clock :: "nat \<Rightarrow> string"
  ticks :: nat

type_synonym 'a task_cmd = "(err, store, 'a) cmd"

definition now_rfc3339 :: "string task_cmd" where
  "now_rfc3339 s = (Inr (clock s (ticks s)), s\<lparr>ticks := Suc (ticks s)\<rparr>)"

definition save_task :: "task \<Rightarrow> unit task_cmd" where
  "save_task t s =
     (if \<not> is_valid_short_name (t_slug t) then (Inl (StoreE (InvalidSlug (t_slug t))), s)
      else case make_dir (task_dir s) of
        Inl k \<Rightarrow> (Inl (IoError k), s)
      | Inr d \<Rightarrow>
          (case write_json (t_slug t) t d of
             Inl k \<Rightarrow> (Inl (IoError k), s\<lparr>task_dir := d\<rparr>)
           | Inr d' \<Rightarrow> (Inr (), s\<lparr>task_dir := d'\<rparr>)))"

definition load_task :: "store \<Rightarrow> string \<Rightarrow> err + task" where
  "load_task s slug =
     (if \<not> is_valid_short_name slug then Inl (StoreE (InvalidSlug slug))
      else case find_json slug (entries (task_dir s)) of
        None \<Rightarrow> Inl (StoreE (TaskUnreadable slug NotFound))
      | Some (Unreadable k) \<Rightarrow> Inl (StoreE (TaskUnreadable slug k))
      | Some Malformed \<Rightarrow> Inl (StoreE (TaskCorrupt slug))
      | Some (Parsed t) \<Rightarrow> Inr t)"

datatype unreadable_policy = Skip | Fail

fun read_entries :: "unreadable_policy \<Rightarrow> task dir_entry list \<Rightarrow> err + task list" where
  "read_entries p [] = Inr []"
| "read_entries p (EntryError k # es) =
     (if p = Fail then Inl (StoreE (EntryUnreadable k)) else read_entries p es)"
| "read_entries p (OtherFile _ # es) = read_entries p es"
| "read_entries p (JsonFile n (Parsed t) # es) =
     seqR (read_entries p es) (\<lambda>ts. Inr (t # ts))"
| "read_entries p (JsonFile n (Unreadable k) # es) =
     (if p = Fail then Inl (StoreE (TaskFileUnreadable n k)) else read_entries p es)"
| "read_entries p (JsonFile n Malformed # es) =
     (if p = Fail then Inl (StoreE (TaskFileCorrupt n)) else read_entries p es)"

definition read_tasks :: "unreadable_policy \<Rightarrow> store \<Rightarrow> err + task list" where
  "read_tasks p s =
     (case listing_error (task_dir s) of
        Some NotFound \<Rightarrow> Inr []
      | Some k \<Rightarrow> Inl (StoreE (TasksDirUnreadable k))
      | None \<Rightarrow> read_entries p (entries (task_dir s)))"

definition try_list_tasks :: "store \<Rightarrow> err + task list" where
  "try_list_tasks s = read_tasks Skip s"

definition list_tasks :: "store \<Rightarrow> task list" where
  "list_tasks s = (case try_list_tasks s of Inr ts \<Rightarrow> ts | Inl _ \<Rightarrow> [])"

definition list_tasks_strict :: "store \<Rightarrow> err + task list" where
  "list_tasks_strict s = read_tasks Fail s"

definition candidate :: "string \<Rightarrow> nat \<Rightarrow> string" where
  "candidate base n = base @ ''-'' @ nat_str n"

lemma candidate_inject [simp]: "candidate b m = candidate b n \<longleftrightarrow> m = n"
  by (simp add: candidate_def)

definition taken_from :: "'a directory \<Rightarrow> string \<Rightarrow> nat \<Rightarrow> nat set" where
  "taken_from d base n = {k. n \<le> k \<and> file_exists d (candidate base k)}"

lemma finite_taken: "finite (taken_from d base n)"
proof (rule finite_imageD)
  have "candidate base ` taken_from d base n \<subseteq> set (json_names (entries d))"
    by (auto simp: taken_from_def dest: file_exists_name)
  then show "finite (candidate base ` taken_from d base n)"
    by (rule finite_subset) simp
  show "inj_on (candidate base) (taken_from d base n)"
    by (auto intro: inj_onI)
qed

function unique_slug_from :: "'a directory \<Rightarrow> string \<Rightarrow> nat \<Rightarrow> string" where
  "unique_slug_from d base n =
     (if \<not> file_exists d (candidate base n) then candidate base n
      else unique_slug_from d base (n + 1))"
  by pat_completeness auto
termination
proof (relation "measure (\<lambda>(d, base, n). card (taken_from d base n))")
  fix d :: "'a directory" and base n
  assume "\<not> \<not> file_exists d (candidate base n)"
  then have "taken_from d base (n + 1) \<subset> taken_from d base n"
    by (auto simp: taken_from_def psubset_eq set_eq_iff intro!: exI[of _ n])
  then have "card (taken_from d base (n + 1)) < card (taken_from d base n)"
    by (rule psubset_card_mono[OF finite_taken])
  then show "((d, base, n + 1), d, base, n) \<in> measure (\<lambda>(d, base, n). card (taken_from d base n))"
    by simp
qed simp

declare unique_slug_from.simps [simp del]

definition unique_slug :: "'a directory \<Rightarrow> string \<Rightarrow> string" where
  "unique_slug d base =
     (if \<not> file_exists d base then base else unique_slug_from d base 2)"

section \<open>Laws of the store\<close>

lemma unique_slug_from_props:
  "\<exists>k \<ge> n. unique_slug_from d base n = candidate base k \<and> \<not> file_exists d (candidate base k)
     \<and> (\<forall>j. n \<le> j \<and> j < k \<longrightarrow> file_exists d (candidate base j))"
proof (induction d base n rule: unique_slug_from.induct)
  case (1 d base n)
  show ?case
  proof (cases "file_exists d (candidate base n)")
    case True
    then obtain k where k: "n + 1 \<le> k"
      "unique_slug_from d base (n + 1) = candidate base k" "\<not> file_exists d (candidate base k)"
      "\<forall>j. n + 1 \<le> j \<and> j < k \<longrightarrow> file_exists d (candidate base j)"
      using 1 by auto
    have "\<forall>j. n \<le> j \<and> j < k \<longrightarrow> file_exists d (candidate base j)"
      using k(4) True by (metis Suc_eq_plus1 Suc_leI le_neq_implies_less)
    then show ?thesis
      using k True by (intro exI[of _ k]) (auto simp: unique_slug_from.simps[of d base n])
  next
    case False
    then show ?thesis
      by (intro exI[of _ n]) (auto simp: unique_slug_from.simps[of d base n])
  qed
qed

lemma unique_slug_fresh: "\<not> file_exists d (unique_slug d base)"
  using unique_slug_from_props[of 2 d base] by (auto simp: unique_slug_def)

text \<open>The counter stays below the number of files plus three, far inside the \<open>u32\<close> of the code.\<close>

lemma unique_slug_bound:
  "unique_slug d base = base \<or>
   (\<exists>k. 2 \<le> k \<and> k \<le> length (json_names (entries d)) + 2 \<and> unique_slug d base = candidate base k)"
proof (cases "file_exists d base")
  case True
  obtain k where k: "2 \<le> k" "unique_slug_from d base 2 = candidate base k"
    "\<forall>j. 2 \<le> j \<and> j < k \<longrightarrow> file_exists d (candidate base j)"
    using unique_slug_from_props[of 2 d base] by auto
  have "candidate base ` {2..<k} \<subseteq> set (json_names (entries d))"
    using k(3) by (auto dest: file_exists_name)
  then have "card (candidate base ` {2..<k}) \<le> card (set (json_names (entries d)))"
    by (rule card_mono[rotated]) simp
  then have "k - 2 \<le> length (json_names (entries d))"
    using card_image[of "candidate base" "{2..<k}"] card_length[of "json_names (entries d)"]
    by (simp add: inj_on_def)
  then show ?thesis
    using k True by (auto simp: unique_slug_def)
qed (simp add: unique_slug_def)

lemma dash_name_char: "is_name_char (CHR ''-'')"
  by (simp add: is_name_char_def)

lemma valid_candidate: "is_valid_short_name b \<Longrightarrow> is_valid_short_name (candidate b n)"
proof -
  assume v: "is_valid_short_name b"
  have "list_all is_name_char (nat_str n)"
    using nat_str_digits[of n] by (auto simp: list_all_iff is_name_char_def is_ascii_alphanumeric_def)
  moreover have "2 \<le> length (''-'' @ nat_str n)"
    using nat_str_nonempty[of n] by (cases "nat_str n") auto
  moreover obtain c cs where "b = c # cs"
    using v by (cases b) (auto simp: is_valid_short_name_def)
  ultimately show ?thesis
    using v by (auto simp: is_valid_short_name_def candidate_def starts_with_def dash_name_char
        Cons_eq_append_conv append_eq_Cons_conv)
qed

lemma valid_unique_slug: "is_valid_short_name b \<Longrightarrow> is_valid_short_name (unique_slug d b)"
  using unique_slug_bound[of d b] valid_candidate by metis

text \<open>What a successful save leaves behind, and that a failed one keeps every file.\<close>

lemma save_task_ok:
  assumes "save_task t s = (Inr u, s')"
  shows "is_valid_short_name (t_slug t)"
    and "entries (task_dir s') = put_json (t_slug t) (Parsed t) (entries (task_dir s))"
    and "session_dir s' = session_dir s" "clock s' = clock s" "ticks s' = ticks s"
      "lock_error s' = lock_error s"
  using assms
  by (auto simp: save_task_def make_dir_def write_json_def split: if_splits sum.splits option.splits)

lemma save_task_err:
  assumes "save_task t s = (Inl e, s')"
  shows "entries (task_dir s') = entries (task_dir s)" "session_dir s' = session_dir s"
    "clock s' = clock s" "ticks s' = ticks s" "lock_error s' = lock_error s"
  using assms
  by (auto simp: save_task_def make_dir_def write_json_def split: if_splits sum.splits option.splits)

lemma save_task_session_dir [simp]: "session_dir (snd (save_task t s)) = session_dir s"
  by (auto simp: save_task_def split: sum.splits)

lemma save_task_clock [simp]:
  "clock (snd (save_task t s)) = clock s" "ticks (snd (save_task t s)) = ticks s"
  by (auto simp: save_task_def split: sum.splits)

lemma load_task_ok:
  "load_task s slug = Inr t \<longleftrightarrow>
     is_valid_short_name slug \<and> find_json slug (entries (task_dir s)) = Some (Parsed t)"
  by (auto simp: load_task_def split: option.splits json_file.splits)

lemma load_task_not_found:
  "load_task s slug = Inl e \<Longrightarrow> is_not_found e \<Longrightarrow>
     find_json slug (entries (task_dir s)) = None
     \<or> find_json slug (entries (task_dir s)) = Some (Unreadable NotFound)"
  by (auto simp: load_task_def split: option.splits json_file.splits if_splits)

lemma load_save_same:
  assumes "save_task t s = (Inr u, s')"
  shows "load_task s' (t_slug t) = Inr t"
  using save_task_ok[OF assms] by (simp add: load_task_ok json_dir.get_put_same)

lemma load_save_other:
  assumes "save_task t s = (Inr u, s')" and "n \<noteq> t_slug t"
  shows "load_task s' n = load_task s n"
  using save_task_ok[OF assms(1)] assms(2) by (simp add: load_task_def json_dir.get_put_other)

section \<open>Listings\<close>

fun parsed :: "'a dir_entry list \<Rightarrow> 'a list" where
  "parsed [] = []"
| "parsed (JsonFile _ (Parsed t) # es) = t # parsed es"
| "parsed (_ # es) = parsed es"

fun readable :: "'a dir_entry \<Rightarrow> bool" where
  "readable (EntryError _) = False"
| "readable (OtherFile _) = True"
| "readable (JsonFile _ (Parsed _)) = True"
| "readable (JsonFile _ _) = False"

lemma read_entries_Skip: "read_entries Skip es = Inr (parsed es)"
  by (induction es rule: parsed.induct) auto

lemma read_entries_Fail:
  "read_entries Fail es = Inr ts \<longleftrightarrow> list_all readable es \<and> ts = parsed es"
proof (induction Fail es arbitrary: ts rule: read_entries.induct)
  case (4 n t es)
  then show ?case by (auto simp: seqR_ok)
qed auto

lemma read_entries_Fail_err: "(\<exists>e. read_entries Fail es = Inl e) \<longleftrightarrow> \<not> list_all readable es"
  using read_entries_Fail by (metis sum.exhaust sum.distinct(1))

lemma parsed_in: "t \<in> set (parsed es) \<longleftrightarrow> (\<exists>n. JsonFile n (Parsed t) \<in> set es)"
  by (induction es rule: parsed.induct) auto

text \<open>The tasks that a strict read sees when it succeeds.\<close>

definition store_tasks :: "store \<Rightarrow> task list" where
  "store_tasks s =
     (if listing_error (task_dir s) = Some NotFound then [] else parsed (entries (task_dir s)))"

lemma list_tasks_strict_ok:
  "list_tasks_strict s = Inr ts \<Longrightarrow> ts = store_tasks s"
  by (auto simp: list_tasks_strict_def read_tasks_def store_tasks_def read_entries_Fail
      split: option.splits io_kind.splits)

lemma strict_agrees_with_skip:
  "list_tasks_strict s = Inr ts \<Longrightarrow> try_list_tasks s = Inr ts"
  by (auto simp: list_tasks_strict_def try_list_tasks_def read_tasks_def read_entries_Fail
      read_entries_Skip split: option.splits io_kind.splits)

section \<open>Well-named stores\<close>

text \<open>
  Every file that the program wrote is stored under the slug it holds, and the slug is a plain
  name.  File names in a directory are distinct, and a directory that does not exist holds none.  Under this invariant the slugs of a listing are
  distinct, and a task of the listing is what its slug loads.
\<close>

definition well_named_dir :: "('a \<Rightarrow> string) \<Rightarrow> 'a directory \<Rightarrow> bool" where
  "well_named_dir key d \<longleftrightarrow>
     (listing_error d = Some NotFound \<longrightarrow> entries d = []) \<and>
     distinct (json_names (entries d)) \<and>
     (\<forall>n v. JsonFile n (Parsed v) \<in> set (entries d) \<longrightarrow> n = key v \<and> is_valid_short_name n)"

definition well_named_tasks :: "store \<Rightarrow> bool" where
  "well_named_tasks s \<longleftrightarrow> well_named_dir t_slug (task_dir s)"

definition well_named_sessions :: "store \<Rightarrow> bool" where
  "well_named_sessions s \<longleftrightarrow> well_named_dir s_id (session_dir s)"

definition well_named :: "store \<Rightarrow> bool" where
  "well_named s \<longleftrightarrow> well_named_tasks s \<and> well_named_sessions s"

lemma parsed_names:
  assumes "distinct (json_names es)" and "\<And>n v. JsonFile n (Parsed v) \<in> set es \<Longrightarrow> n = key v"
  shows "distinct (map key (parsed es)) \<and> set (map key (parsed es)) \<subseteq> set (json_names es)"
  using assms
proof (induction es rule: parsed.induct)
  case (2 n t es)
  have "distinct (map key (parsed es)) \<and> set (map key (parsed es)) \<subseteq> set (json_names es)"
    using 2 by auto
  moreover have "n = key t"
    using "2.prems"(2) by simp
  ultimately show ?case
    using "2.prems"(1) by auto
qed auto

lemma well_named_distinct_slugs:
  "well_named_tasks s \<Longrightarrow> distinct (map t_slug (store_tasks s))"
  using parsed_names[of "entries (task_dir s)" t_slug]
  by (auto simp: well_named_tasks_def well_named_dir_def store_tasks_def)

lemma well_named_load:
  assumes "well_named_tasks s" and "t \<in> set (store_tasks s)"
  shows "load_task s (t_slug t) = Inr t"
proof -
  obtain n where n: "JsonFile n (Parsed t) \<in> set (entries (task_dir s))"
    using assms(2) by (auto simp: store_tasks_def parsed_in split: if_splits)
  then have "n = t_slug t" "is_valid_short_name n"
    using assms(1) by (auto simp: well_named_tasks_def well_named_dir_def)
  then show ?thesis
    using find_json_distinct[OF _ n] assms(1) by (simp add: load_task_ok well_named_tasks_def well_named_dir_def)
qed

lemma well_named_load_slug:
  "well_named_tasks s \<Longrightarrow> load_task s n = Inr t \<Longrightarrow> t_slug t = n"
  by (auto simp: load_task_ok well_named_tasks_def well_named_dir_def dest!: find_json_in)

text \<open>Creating the folder changes no file; writing and removing keep the names right.\<close>

lemma make_dir_ok:
  assumes "make_dir d = Inr d'"
  shows "entries d' = entries d" "listing_error d' \<noteq> Some NotFound"
    "write_error d' = write_error d" "remove_error d' = remove_error d" "mkdir_error d' = None"
    "listing_error d \<noteq> Some NotFound \<Longrightarrow> d' = d"
  using assms by (auto simp: make_dir_def split: option.splits if_splits)

lemma well_named_make_dir: "well_named_dir key d \<Longrightarrow> make_dir d = Inr d' \<Longrightarrow> well_named_dir key d'"
  by (simp add: well_named_dir_def make_dir_ok)

lemma well_named_write:
  assumes "well_named_dir key d" and "listing_error d \<noteq> Some NotFound"
    and "write_json (key v) v d = Inr d'" and "is_valid_short_name (key v)"
  shows "well_named_dir key d'"
  using assms by (auto simp: well_named_dir_def write_json_def json_names_put
      split: option.splits dest!: put_json_members)

lemma well_named_remove:
  assumes "well_named_dir key d" and "remove_json n d = Inr d'"
  shows "well_named_dir key d'"
  using assms by (auto simp: well_named_dir_def remove_json_def json_names_del
      split: option.splits if_splits) (auto simp: del_json_def)

lemma well_named_tasks_save:
  assumes "well_named_tasks s"
  shows "well_named_tasks (snd (save_task t s))"
proof (cases "is_valid_short_name (t_slug t)")
  case valid: True
  show ?thesis
  proof (cases "make_dir (task_dir s)")
    case (Inl k)
    then show ?thesis using assms valid by (simp add: save_task_def)
  next
    case (Inr d)
    have d: "well_named_dir t_slug d"
      using well_named_make_dir[OF _ Inr] assms by (simp add: well_named_tasks_def)
    show ?thesis
    proof (cases "write_json (t_slug t) t d")
      case (Inl k)
      then show ?thesis using Inr d valid by (simp add: save_task_def well_named_tasks_def)
    next
      case w: (Inr d')
      have "well_named_dir t_slug d'"
        using well_named_write[OF d make_dir_ok(2)[OF Inr] w valid] .
      then show ?thesis using Inr w valid by (simp add: save_task_def well_named_tasks_def)
    qed
  qed
next
  case False
  then show ?thesis using assms by (simp add: save_task_def)
qed

end
