(* ===== verification/Sessions.thy ===== *)
theory Sessions
  imports Task_Store
begin

text \<open>
  Task sessions: \<open>crates/llmenv-task/src/session.rs\<close> with its modules \<open>checkpoint\<close>, \<open>filter\<close> and
  \<open>resume_write\<close>, the resume context of \<open>resume.rs\<close>, the visibility rules of \<open>visibility.rs\<close>, the
  store lock of \<open>store_lock.rs\<close> as the commands see it, and the choice of the session that takes a
  new task (\<open>session_choice.rs\<close>).

  What the program reads from its surroundings is a record \<open>env\<close>: the two identity variables, the
  project tag, the wall clock in seconds, the answer of \<open>ps\<close> for a process id, and the RFC 3339
  parser of the \<open>humantime\<close> package.
\<close>

section \<open>Surroundings\<close>

datatype env_var = VarIs string | NotPresent | NotUnicode

datatype ps_answer = PsOutput string | PsFailed

record env =
  e_session_id_var :: env_var
  e_pid_var :: env_var
  e_project :: "err + string"
  e_now :: int
  e_ps :: "nat \<Rightarrow> ps_answer"
  e_parse_rfc3339 :: "string \<Rightarrow> int option"

section \<open>Trimming\<close>

definition ws_suffix :: "string \<Rightarrow> nat" where
  "ws_suffix s =
     (if s \<noteq> [] \<and> ws_len (drop (length s - 1) s) = 1 then 1
      else if 2 \<le> length s \<and> ws_len (drop (length s - 2) s) = 2 then 2
      else if 3 \<le> length s \<and> ws_len (drop (length s - 3) s) = 3 then 3
      else 0)"

function trim_end :: "string \<Rightarrow> string" where
  "trim_end s = (if ws_suffix s = 0 then s else trim_end (take (length s - ws_suffix s) s))"
  by pat_completeness auto
termination
proof (relation "measure length")
  fix s assume "ws_suffix s \<noteq> 0"
  then show "(take (length s - ws_suffix s) s, s) \<in> measure length"
    by (cases s) (auto simp: ws_suffix_def split: if_splits)
qed simp

declare trim_end.simps [simp del]

definition trim :: "string \<Rightarrow> string" where
  "trim s = trim_end (trim_start s)"

section \<open>Identity of the caller\<close>

record identity =
  i_session_id :: "string option"
  i_pid :: "nat option"

definition identity_var :: "string \<Rightarrow> env_var \<Rightarrow> err + string option" where
  "identity_var name v =
     (case v of
        VarIs x \<Rightarrow> Inr (Some x)
      | NotPresent \<Rightarrow> Inr None
      | NotUnicode \<Rightarrow> Inl (LookupE (IdentityNotUtf8 name)))"

definition u32_max :: nat where "u32_max = 2 ^ 32 - 1"

definition from_vars :: "string option \<Rightarrow> string option \<Rightarrow> identity" where
  "from_vars sid pid =
     \<lparr>i_session_id = (case sid of None \<Rightarrow> None
                      | Some x \<Rightarrow> if trim x = [] then None else Some (trim x)),
      i_pid = (case pid of None \<Rightarrow> None | Some p \<Rightarrow> parse_unsigned u32_max (trim p))\<rparr>"

definition from_env :: "env \<Rightarrow> err + identity" where
  "from_env e =
     seqR (identity_var ''CLAUDE_CODE_SESSION_ID'' (e_session_id_var e)) (\<lambda>sid.
     seqR (identity_var ''CLAUDE_PID'' (e_pid_var e)) (\<lambda>pid.
     Inr (from_vars sid pid)))"

definition from_session_id :: "string option \<Rightarrow> identity" where
  "from_session_id sid = from_vars sid None"

section \<open>Sessions: open, visible, owned\<close>

definition is_open :: "session \<Rightarrow> bool" where
  "is_open x \<longleftrightarrow> s_finished_at x = None \<and> s_abandoned_at x = None"

definition claim :: "identity \<Rightarrow> session \<Rightarrow> session" where
  "claim owner x =
     (let x1 = (case i_session_id owner of None \<Rightarrow> x | Some i \<Rightarrow> x\<lparr>s_owner_session := Some i\<rparr>)
      in case i_pid owner of None \<Rightarrow> x1 | Some p \<Rightarrow> x1\<lparr>s_owner_pid := Some p\<rparr>)"

definition owner_visible :: "string option \<Rightarrow> string option \<Rightarrow> bool" where
  "owner_visible owner caller =
     (case (caller, owner) of (Some c, Some oo) \<Rightarrow> c = oo | _ \<Rightarrow> True)"

definition visible_to :: "session \<Rightarrow> string option \<Rightarrow> bool" where
  "visible_to x caller = owner_visible (s_owner_session x) caller"

definition may_take_tasks :: "session \<Rightarrow> string option \<Rightarrow> bool" where
  "may_take_tasks x caller =
     (case s_owner_session x of None \<Rightarrow> True | Some oo \<Rightarrow> caller = Some oo)"

definition open_visible :: "session list \<Rightarrow> string \<Rightarrow> string option \<Rightarrow> session list" where
  "open_visible xs project caller =
     filter (\<lambda>x. is_open x \<and> s_project x = project \<and> visible_to x caller) xs"

definition ids_visible :: "session list \<Rightarrow> string \<Rightarrow> string option \<Rightarrow> string set" where
  "ids_visible xs project caller =
     set (map s_id (filter (\<lambda>x. s_project x = project \<and> visible_to x caller) xs))"

definition tasks_in_sessions :: "task list \<Rightarrow> string set \<Rightarrow> task list" where
  "tasks_in_sessions ts ids =
     filter (\<lambda>t. case t_session t of None \<Rightarrow> False | Some i \<Rightarrow> i \<in> ids) ts"

datatype pick_error = NoneOpen | Ambiguous nat nat bool

definition pick_open_session :: "session list \<Rightarrow> identity \<Rightarrow> pick_error + session" where
  "pick_open_session opens owner =
     (case opens of
        [] \<Rightarrow> Inl NoneOpen
      | [x] \<Rightarrow> Inr x
      | _ \<Rightarrow>
          (let owned = filter (\<lambda>x. i_session_id owner \<noteq> None \<and> s_owner_session x = i_session_id owner)
                         opens
           in case owned of
                [x] \<Rightarrow> Inr x
              | _ \<Rightarrow> Inl (Ambiguous (length opens) (length owned) (i_session_id owner \<noteq> None))))"

section \<open>Session files\<close>

definition ensure_plain_name :: "string \<Rightarrow> err + unit" where
  "ensure_plain_name i = ensureR (is_valid_short_name i) (StoreE (InvalidSessionId i))"

definition save_session :: "session \<Rightarrow> unit task_cmd" where
  "save_session x s =
     (case ensure_plain_name (s_id x) of
        Inl e \<Rightarrow> (Inl e, s)
      | Inr _ \<Rightarrow>
          (case make_dir (session_dir s) of
             Inl k \<Rightarrow> (Inl (IoError k), s)
           | Inr d \<Rightarrow>
               (case write_json (s_id x) x d of
                  Inl k \<Rightarrow> (Inl (IoError k), s\<lparr>session_dir := d\<rparr>)
                | Inr d' \<Rightarrow> (Inr (), s\<lparr>session_dir := d'\<rparr>))))"

definition load_session :: "store \<Rightarrow> string \<Rightarrow> err + session" where
  "load_session s i =
     seqR (ensure_plain_name i) (\<lambda>_.
     case find_json i (entries (session_dir s)) of
       None \<Rightarrow> Inl (IoError NotFound)
     | Some (Unreadable k) \<Rightarrow> Inl (IoError k)
     | Some Malformed \<Rightarrow> Inl (StoreE SessionJson)
     | Some (Parsed x) \<Rightarrow> Inr x)"

definition load_existing_session :: "store \<Rightarrow> string \<Rightarrow> err + session" where
  "load_existing_session s i =
     seqR (ensure_plain_name i) (\<lambda>_.
     case find_json i (entries (session_dir s)) of
       None \<Rightarrow> Inl (StoreE (NoSessionFound i))
     | Some (Unreadable k) \<Rightarrow>
         Inl (StoreE (if k = NotFound then NoSessionFound i else SessionUnreadable i k))
     | Some Malformed \<Rightarrow> Inl (StoreE (SessionCorrupt i))
     | Some (Parsed x) \<Rightarrow> Inr x)"

fun read_session_entries :: "session dir_entry list \<Rightarrow> err + session list" where
  "read_session_entries [] = Inr []"
| "read_session_entries (EntryError k # es) = Inl (StoreE (SessionEntryUnreadable k))"
| "read_session_entries (OtherFile _ # es) = read_session_entries es"
| "read_session_entries (JsonFile n (Parsed x) # es) =
     seqR (read_session_entries es) (\<lambda>xs. Inr (x # xs))"
| "read_session_entries (JsonFile n (Unreadable k) # es) =
     Inl (StoreE (SessionFileUnreadable n k))"
| "read_session_entries (JsonFile n Malformed # es) = Inl (StoreE (SessionFileCorrupt n))"

definition list_sessions_strict :: "store \<Rightarrow> err + session list" where
  "list_sessions_strict s =
     (case listing_error (session_dir s) of
        Some NotFound \<Rightarrow> Inr []
      | Some k \<Rightarrow> Inl (StoreE (SessionsDirUnreadable k))
      | None \<Rightarrow> read_session_entries (entries (session_dir s)))"

definition open_sessions_strict :: "store \<Rightarrow> string \<Rightarrow> err + session list" where
  "open_sessions_strict s project =
     seqR (list_sessions_strict s) (\<lambda>xs. Inr (open_visible xs project None))"

section \<open>The store lock, and the activity time\<close>

text \<open>
  A command runs its body after the tasks folder exists and the lock is held.  The lock itself is
  modelled in \<open>Store_Lock\<close>; here it matters that taking it can fail before the body runs.
\<close>

definition with_store_lock :: "'a task_cmd \<Rightarrow> 'a task_cmd" where
  "with_store_lock f s =
     (case make_dir (task_dir s) of
        Inl k \<Rightarrow> (Inl (IoError k), s)
      | Inr d \<Rightarrow>
          (case lock_error s of
             Some k \<Rightarrow> (Inl (LockFailed k), s\<lparr>task_dir := d\<rparr>)
           | None \<Rightarrow> f (s\<lparr>task_dir := d\<rparr>)))"

definition touch_last_activity :: "string \<Rightarrow> unit task_cmd" where
  "touch_last_activity i =
     with_store_lock (\<lambda>s.
       case load_session s i of
         Inl e \<Rightarrow> if is_not_found e then (Inr (), s) else (Inl (InContext (CtxTouch i) e), s)
       | Inr x \<Rightarrow>
           if \<not> is_open x then (Inr (), s)
           else bnd now_rfc3339 (\<lambda>now. save_session (x\<lparr>s_last_activity := now\<rparr>)) s)"

definition touch_task_session :: "task \<Rightarrow> unit task_cmd" where
  "touch_task_session t =
     (case t_session t of
        None \<Rightarrow> ret ()
      | Some i \<Rightarrow> bnd (attempt (touch_last_activity i)) (\<lambda>_. ret ()))"

section \<open>Resume context\<close>

definition empty_resume :: resume_context where
  "empty_resume = \<lparr>r_context = None, r_issues = [], r_branch = None, r_base = None,
     r_memory_topics = [], r_docs = []\<rparr>"

definition resume_is_empty :: "resume_context \<Rightarrow> bool" where
  "resume_is_empty r \<longleftrightarrow> r = empty_resume"

definition needs_nudge :: "resume_context \<Rightarrow> bool" where
  "needs_nudge r \<longleftrightarrow>
     r_context r = None \<and> r_issues r = [] \<and> r_docs r = [] \<and> r_memory_topics r = []"

fun extend_unique :: "'a list \<Rightarrow> 'a list \<Rightarrow> 'a list" where
  "extend_unique into [] = into"
| "extend_unique into (x # xs) =
     extend_unique (if x \<in> set into then into else into @ [x]) xs"

definition apply_resume :: "resume_context \<Rightarrow> resume_context \<Rightarrow> resume_context" where
  "apply_resume update r =
     \<lparr>r_context = (if r_context update \<noteq> None then r_context update else r_context r),
      r_issues = extend_unique (r_issues r) (r_issues update),
      r_branch = (if r_branch update \<noteq> None then r_branch update else r_branch r),
      r_base = (if r_base update \<noteq> None then r_base update else r_base r),
      r_memory_topics = extend_unique (r_memory_topics r) (r_memory_topics update),
      r_docs = extend_unique (r_docs r) (r_docs update)\<rparr>"

definition append_note :: "string \<Rightarrow> resume_context \<Rightarrow> resume_context" where
  "append_note text r =
     r\<lparr>r_context := Some (case r_context r of
        Some existing \<Rightarrow> if existing \<noteq> [] then existing @ [CHR 0x0A] @ text else text
      | None \<Rightarrow> text)\<rparr>"

definition max_issue_digits :: nat where "max_issue_digits = 7"

definition detect_issue :: "string \<Rightarrow> nat option" where
  "detect_issue branch =
     (if CHR ''/'' \<notin> set branch then None
      else
        let last_seg = last (split_on (\<lambda>c. c = CHR ''/'') branch);
            digits = takeWhile is_ascii_digit last_seg;
            rest = drop (length digits) last_seg
        in if digits = [] \<or> max_issue_digits < length digits then None
           else if rest \<noteq> [] \<and> \<not> starts_with rest ''-'' then None
           else parse_unsigned u32_max digits)"

definition fill_detected :: "string option \<Rightarrow> resume_context \<Rightarrow> resume_context" where
  "fill_detected git_branch r =
     (let r1 = (if r_branch r = None then r\<lparr>r_branch := git_branch\<rparr> else r) in
      if r_issues r1 = [] then
        (case Option.bind (r_branch r1) detect_issue of
           None \<Rightarrow> r1 | Some n \<Rightarrow> r1\<lparr>r_issues := [n]\<rparr>)
      else r1)"

definition update_resume :: "string \<Rightarrow> (resume_context \<Rightarrow> resume_context) \<Rightarrow> session task_cmd" where
  "update_resume i change =
     with_store_lock
       (bnd (rd (\<lambda>s. load_existing_session s i)) (\<lambda>x.
        if \<not> is_open x then bail (SessionE (SessionClosed i))
        else bnd now_rfc3339 (\<lambda>now.
          let x' = x\<lparr>s_resume := change (s_resume x), s_last_activity := now\<rparr> in
          bnd (save_session x') (\<lambda>_. ret x'))))"

definition append_override_note :: "string \<Rightarrow> string option \<Rightarrow> unit task_cmd" where
  "append_override_note i note =
     (case note of
        None \<Rightarrow> ret ()
      | Some text \<Rightarrow>
          map_error (InContext (CtxOverrideNote i))
            (with_store_lock
              (bnd (rd (\<lambda>s. load_existing_session s i)) (\<lambda>x.
               save_session (x\<lparr>s_resume := append_note text (s_resume x)\<rparr>)))))"

section \<open>The start checkpoint\<close>

datatype owned_by = ByConversation | ByProcess | ByNone

definition ownership_of :: "session \<Rightarrow> identity \<Rightarrow> owned_by" where
  "ownership_of x owner =
     (if i_session_id owner \<noteq> None \<and> s_owner_session x = i_session_id owner then ByConversation
      else if i_pid owner \<noteq> None \<and> s_owner_pid x = i_pid owner then ByProcess
      else ByNone)"

definition u64_max :: nat where "u64_max = 2 ^ 64 - 1"

definition checked_mul :: "nat \<Rightarrow> nat \<Rightarrow> nat option" where
  "checked_mul a b = (if a * b \<le> u64_max then Some (a * b) else None)"

definition checked_add :: "nat \<Rightarrow> nat \<Rightarrow> nat option" where
  "checked_add a b = (if a + b \<le> u64_max then Some (a + b) else None)"

definition number :: "string \<Rightarrow> nat \<Rightarrow> nat option" where
  "number text mx =
     (if 1 \<le> length text \<and> length text \<le> 7 \<and> list_all is_ascii_digit text
      then (case parse_unsigned u64_max text of
              None \<Rightarrow> None
            | Some v \<Rightarrow> if v \<le> mx then Some v else None)
      else None)"

text \<open>\<open>split_once\<close>: the text before and after the first separator.\<close>

fun split_once :: "char \<Rightarrow> string \<Rightarrow> (string \<times> string) option" where
  "split_once d [] = None"
| "split_once d (c # cs) =
     (if c = d then Some ([], cs)
      else map_option (\<lambda>(a, b). (c # a, b)) (split_once d cs))"

definition clock_fields :: "string list \<Rightarrow> (nat \<times> nat \<times> nat) option" where
  "clock_fields parts =
     (case parts of
        [m, x] \<Rightarrow> Option.bind (number m 59) (\<lambda>mi. Option.bind (number x 59) (\<lambda>se. Some (0, mi, se)))
      | [h, m, x] \<Rightarrow>
          Option.bind (number h 23) (\<lambda>ho. Option.bind (number m 59) (\<lambda>mi.
          Option.bind (number x 59) (\<lambda>se. Some (ho, mi, se))))
      | _ \<Rightarrow> None)"

definition parse_etime :: "string \<Rightarrow> nat option" where
  "parse_etime text =
     Option.bind
       (case split_once (CHR ''-'') text of
          Some (ds, clk) \<Rightarrow> map_option (\<lambda>d. (d, clk)) (number ds u64_max)
        | None \<Rightarrow> Some (0, text))
       (\<lambda>(days, clk).
     Option.bind (clock_fields (split_on (\<lambda>c. c = CHR '':'') clk)) (\<lambda>(hours, minutes, seconds).
     Option.bind (checked_mul days 86400) (\<lambda>d.
     checked_add d (hours * 3600 + minutes * 60 + seconds))))"

definition engine_start :: "env \<Rightarrow> nat \<Rightarrow> int option" where
  "engine_start e pid =
     (case e_ps e pid of
        PsFailed \<Rightarrow> None
      | PsOutput text \<Rightarrow>
          map_option (\<lambda>age. e_now e - (int age + 1)) (parse_etime (trim text)))"

definition active_since :: "env \<Rightarrow> session \<Rightarrow> int \<Rightarrow> bool" where
  "active_since e x start =
     (case e_parse_rfc3339 e (s_last_activity x) of None \<Rightarrow> False | Some at_time \<Rightarrow> start \<le> at_time)"

definition only_own_session :: "env \<Rightarrow> session list \<Rightarrow> identity \<Rightarrow> int option \<Rightarrow> session option" where
  "only_own_session e xs owner started =
     (case filter (\<lambda>x. case ownership_of x owner of
             ByConversation \<Rightarrow> True
           | ByProcess \<Rightarrow> (case started of None \<Rightarrow> False | Some st \<Rightarrow> active_since e x st)
           | ByNone \<Rightarrow> False) xs of
        [x] \<Rightarrow> Some x
      | _ \<Rightarrow> None)"

section \<open>The session that takes a new task\<close>

datatype session_choice = Named string | Resolve identity | Checked session

definition check_takes_tasks :: "session \<Rightarrow> identity \<Rightarrow> err + unit" where
  "check_takes_tasks x owner =
     ensureR (may_take_tasks x (i_session_id owner)) (OwnerE (ForeignSession (s_id x)))"

definition resolve_session_for_add :: "store \<Rightarrow> session_choice \<Rightarrow> string \<Rightarrow> err + string" where
  "resolve_session_for_add s choice project =
     (case choice of
        Named i \<Rightarrow>
          seqR (list_sessions_strict s) (\<lambda>xs.
          if \<not> list_ex (\<lambda>x. s_id x = i \<and> is_open x) xs then Inl (SessionE (SessionNotOpen i))
          else Inr i)
      | Checked x \<Rightarrow>
          if \<not> is_open x \<or> s_project x \<noteq> project then Inl (SessionE (SessionNotOfProject (s_id x)))
          else Inr (s_id x)
      | Resolve owner \<Rightarrow>
          seqR (open_sessions_strict s project) (\<lambda>opens.
          case pick_open_session opens owner of
            Inr x \<Rightarrow> seqR (check_takes_tasks x owner) (\<lambda>_. Inr (s_id x))
          | Inl NoneOpen \<Rightarrow> Inl (SessionE NoneOpenForProject)
          | Inl (Ambiguous n k b) \<Rightarrow> Inl (SessionE (AmbiguousSession n k b))))"

section \<open>Laws\<close>

lemma save_session_ok:
  assumes "save_session x s = (Inr u, s')"
  shows "is_valid_short_name (s_id x)"
    and "entries (session_dir s') = put_json (s_id x) (Parsed x) (entries (session_dir s))"
    and "task_dir s' = task_dir s" "clock s' = clock s" "ticks s' = ticks s"
      "lock_error s' = lock_error s"
  using assms
  by (auto simp: save_session_def ensure_plain_name_def ensureR_def make_dir_def write_json_def
      split: if_splits sum.splits option.splits)

lemma save_session_err:
  assumes "save_session x s = (Inl e, s')"
  shows "entries (session_dir s') = entries (session_dir s)" "task_dir s' = task_dir s"
    "clock s' = clock s" "ticks s' = ticks s" "lock_error s' = lock_error s"
  using assms
  by (auto simp: save_session_def ensure_plain_name_def ensureR_def make_dir_def write_json_def
      split: if_splits sum.splits option.splits)

lemma save_session_task_dir [simp]: "task_dir (snd (save_session x s)) = task_dir s"
  by (auto simp: save_session_def split: sum.splits)

lemma load_session_ok:
  "load_session s i = Inr x \<longleftrightarrow>
     is_valid_short_name i \<and> find_json i (entries (session_dir s)) = Some (Parsed x)"
  by (auto simp: load_session_def ensure_plain_name_def ensureR_def
      split: option.splits json_file.splits)

lemma load_existing_session_ok:
  "load_existing_session s i = Inr x \<longleftrightarrow>
     is_valid_short_name i \<and> find_json i (entries (session_dir s)) = Some (Parsed x)"
  by (auto simp: load_existing_session_def ensure_plain_name_def ensureR_def
      split: option.splits json_file.splits)

definition store_sessions :: "store \<Rightarrow> session list" where
  "store_sessions s =
     (if listing_error (session_dir s) = Some NotFound then []
      else parsed (entries (session_dir s)))"

lemma read_session_entries_ok:
  "read_session_entries es = Inr xs \<longleftrightarrow> list_all readable es \<and> xs = parsed es"
proof (induction es arbitrary: xs rule: read_session_entries.induct)
  case (4 n x es)
  then show ?case by (auto simp: seqR_ok)
qed auto

lemma list_sessions_strict_ok: "list_sessions_strict s = Inr xs \<Longrightarrow> xs = store_sessions s"
  by (auto simp: list_sessions_strict_def store_sessions_def read_session_entries_ok
      split: option.splits io_kind.splits)

text \<open>Picking a session: the choice is open, and among several it is the caller's own.\<close>

lemma pick_open_session_ok:
  "pick_open_session opens owner = Inr x \<longleftrightarrow>
     opens = [x] \<or>
     (2 \<le> length opens \<and> i_session_id owner \<noteq> None \<and>
      filter (\<lambda>y. s_owner_session y = i_session_id owner) opens = [x])"
proof (cases opens)
  case (Cons a as)
  show ?thesis
  proof (cases as)
    case (Cons b bs)
    let ?f = "\<lambda>y. i_session_id owner \<noteq> None \<and> s_owner_session y = i_session_id owner"
    have "pick_open_session opens owner = Inr x \<longleftrightarrow> filter ?f opens = [x]"
      using \<open>opens = a # as\<close> Cons
      by (auto simp: pick_open_session_def Let_def split: list.splits)
    also have "\<dots> \<longleftrightarrow> i_session_id owner \<noteq> None \<and>
        filter (\<lambda>y. s_owner_session y = i_session_id owner) opens = [x]"
      by (cases "i_session_id owner") auto
    finally show ?thesis
      using \<open>opens = a # as\<close> Cons by auto
  qed (use Cons in \<open>auto simp: pick_open_session_def\<close>)
qed (simp add: pick_open_session_def)

lemma filter_singleton_in: "filter p xs = [x] \<Longrightarrow> x \<in> set xs \<and> p x"
proof -
  assume "filter p xs = [x]"
  then have "x \<in> set (filter p xs)" by simp
  then show ?thesis by simp
qed

lemma pick_open_session_mem: "pick_open_session opens owner = Inr x \<Longrightarrow> x \<in> set opens"
  by (auto simp: pick_open_session_ok dest: filter_singleton_in)

lemma is_open_claim [simp]: "is_open (claim owner x) = is_open x"
  by (auto simp: is_open_def claim_def Let_def split: option.splits)

lemma s_id_claim [simp]: "s_id (claim owner x) = s_id x"
  by (auto simp: claim_def Let_def split: option.splits)

text \<open>Folding the same update in twice changes nothing more.\<close>

lemma set_extend_unique [simp]: "set (extend_unique xs ys) = set xs \<union> set ys"
  by (induction xs ys rule: extend_unique.induct) auto

lemma extend_unique_subset: "set ys \<subseteq> set xs \<Longrightarrow> extend_unique xs ys = xs"
  by (induction xs ys rule: extend_unique.induct) auto

lemma extend_unique_idem: "extend_unique (extend_unique xs ys) ys = extend_unique xs ys"
  by (rule extend_unique_subset) simp

lemma distinct_extend_unique: "distinct xs \<Longrightarrow> distinct (extend_unique xs ys)"
  by (induction xs ys rule: extend_unique.induct) auto

lemma apply_resume_idem: "apply_resume u (apply_resume u r) = apply_resume u r"
  by (simp add: apply_resume_def extend_unique_idem)

text \<open>The elapsed time of \<open>ps\<close>: the parsed fields are small, so the arithmetic cannot overflow.\<close>

lemma dec_value_bound: "list_all is_ascii_digit s \<Longrightarrow> dec_value s < 10 ^ length s"
proof (induction s rule: rev_induct)
  case (snoc c s)
  have "dec_value s < 10 ^ length s" and "digit_value c \<le> 9"
    using snoc by (auto simp: digit_value_def is_ascii_digit_def)
  then show ?case
    by (simp add: dec_value_snoc)
qed (simp add: dec_value_def)

lemma parse_unsigned_digits:
  assumes "list_all is_ascii_digit s" and "parse_unsigned m s = Some v"
  shows "v = dec_value s"
  using assms digit_not_plus
  by (cases s) (auto simp: parse_unsigned_def Let_def split: if_splits)

lemma number_bound: "number text mx = Some v \<Longrightarrow> v \<le> mx \<and> v < 10 ^ 7"
proof -
  assume n: "number text mx = Some v"
  then have d: "list_all is_ascii_digit text" and l: "length text \<le> 7"
    and p: "parse_unsigned u64_max text = Some v" and m: "v \<le> mx"
    by (auto simp: number_def split: if_splits option.splits)
  have "dec_value text < 10 ^ length text"
    using d by (rule dec_value_bound)
  also have "(10::nat) ^ length text \<le> 10 ^ 7"
    using l by (intro power_increasing) auto
  finally show ?thesis
    using parse_unsigned_digits[OF d p] m by simp
qed

lemma clock_fields_bound:
  "clock_fields parts = Some (h, m, x) \<Longrightarrow> h \<le> 23 \<and> m \<le> 59 \<and> x \<le> 59"
  by (auto simp: clock_fields_def Option.bind_eq_Some_conv split: list.splits dest!: number_bound)

end
