(* ===== verification/Relations.thy ===== *)
theory Relations
  imports Sessions
begin

text \<open>
  How tasks relate: the queue of a session and the sub-tasks of a parent
  (\<open>crates/llmenv-task/src/relation.rs\<close>), with the listing order \<open>queue_order\<close> of \<open>lib.rs\<close>.
  The main results: a queued task is held exactly while another queued task of its session runs
  or the task ahead of it is unfinished, and the worklist of \<open>undone_descendants\<close> finds exactly
  the unfinished sub-tasks at any depth.
\<close>

definition queue_order :: "task \<Rightarrow> string \<times> string" where
  "queue_order t = (t_created_at t, t_slug t)"

definition queue :: "task list \<Rightarrow> task list" where
  "queue ts = sort_key queue_order (filter (\<lambda>t. t_relation t = Queued \<and> \<not> t_parallel t) ts)"

text \<open>The refusal names the task, the task it waits for, and that task's state.\<close>

definition queue_block :: "task \<Rightarrow> task list \<Rightarrow> (string \<times> string \<times> string) option" where
  "queue_block t ts =
     (if t_state t \<noteq> Open \<or> t_relation t \<noteq> Queued \<or> t_parallel t then None
      else
        let queued = queue ts in
        case find (\<lambda>u. t_slug u \<noteq> t_slug t \<and> t_state u = Wip) queued of
          Some busy \<Rightarrow> Some (t_slug t, t_slug busy, ''in progress'')
        | None \<Rightarrow>
            (case position (\<lambda>u. t_slug u = t_slug t) queued of
               None \<Rightarrow> None
             | Some 0 \<Rightarrow> None
             | Some (Suc p) \<Rightarrow>
                 (let ahead = queued ! p in
                  if t_state ahead = Done \<or> t_state ahead = Waiting then None
                  else Some (t_slug t, t_slug ahead, as_str (t_state ahead)))))"

definition children :: "string \<Rightarrow> task list \<Rightarrow> task list" where
  "children p ts = filter (\<lambda>t. t_relation t = Child \<and> t_parent t = Some p) ts"

text \<open>One pass of the inner loop: the children of the popped task that were not seen before.\<close>

fun visit_children ::
  "task list \<Rightarrow> string list \<times> string list \<times> task list \<Rightarrow> string list \<times> string list \<times> task list" where
  "visit_children [] st = st"
| "visit_children (c # cs) (seen, frontier, found) =
     (if t_slug c \<in> set seen then visit_children cs (seen, frontier, found)
      else visit_children cs
        (seen @ [t_slug c], t_slug c # frontier,
         if t_state c \<noteq> Done then found @ [c] else found))"

lemma visit_children_seen:
  "visit_children cs (seen, frontier, found) = (seen', frontier', found') \<Longrightarrow>
     set seen' = set seen \<union> t_slug ` set cs"
  by (induction cs "(seen, frontier, found)" arbitrary: seen frontier found
      rule: visit_children.induct) (auto split: if_splits)

lemma visit_children_frontier:
  "visit_children cs (seen, frontier, found) = (seen', frontier', found') \<Longrightarrow>
     (\<exists>new. frontier' = new @ frontier \<and> set new = set seen' - set seen \<and>
        length new = card (set seen' - set seen) \<and> (distinct seen \<longrightarrow> distinct seen'))"
proof (induction cs "(seen, frontier, found)" arbitrary: seen frontier found
    rule: visit_children.induct)
  case (2 c cs seen frontier found)
  show ?case
  proof (cases "t_slug c \<in> set seen")
    case True
    then show ?thesis using 2 by simp
  next
    case False
    let ?found = "if t_state c \<noteq> Done then found @ [c] else found"
    have v: "visit_children cs (seen @ [t_slug c], t_slug c # frontier, ?found)
        = (seen', frontier', found')"
      using "2.prems" False by simp
    obtain new where new: "frontier' = new @ t_slug c # frontier"
      "set new = set seen' - set (seen @ [t_slug c])"
      "length new = card (set seen' - set (seen @ [t_slug c]))"
      "distinct (seen @ [t_slug c]) \<longrightarrow> distinct seen'"
      using "2.hyps"(2)[OF False v] by auto
    have in': "t_slug c \<in> set seen'"
      using visit_children_seen[OF v] by simp
    have split: "set seen' - set seen = insert (t_slug c) (set seen' - set (seen @ [t_slug c]))"
      using in' False by auto
    have "length (new @ [t_slug c]) = card (set seen' - set seen)"
      by (simp only: split) (simp add: new(3) card_insert_disjoint)
    moreover have "set (new @ [t_slug c]) = set seen' - set seen"
      by (simp only: split) (simp add: new(2))
    moreover have "frontier' = (new @ [t_slug c]) @ frontier"
      using new(1) by simp
    moreover have "distinct seen \<longrightarrow> distinct seen'"
      using new(4) False by simp
    ultimately show ?thesis by blast
  qed
qed auto

lemma children_slugs: "t_slug ` set (children p ts) \<subseteq> t_slug ` set ts"
  by (auto simp: children_def)

function undone_loop :: "task list \<Rightarrow> string list \<Rightarrow> string list \<Rightarrow> task list \<Rightarrow> task list" where
  "undone_loop ts seen [] found = found"
| "undone_loop ts seen (cur # frontier) found =
     (case visit_children (children cur ts) (seen, frontier, found) of
        (seen', frontier', found') \<Rightarrow> undone_loop ts seen' frontier' found')"
  by pat_completeness auto
termination
proof (relation "measure (\<lambda>(ts, seen, frontier, found).
    card (t_slug ` set ts - set seen) + length frontier)")
  fix ts seen cur frontier found seen' frontier' found' y
  assume x: "(seen', y) = visit_children (children cur ts) (seen, frontier, found)"
    and y: "(frontier', found') = y"
  let ?U = "t_slug ` set ts"
  have v: "visit_children (children cur ts) (seen, frontier, found) = (seen', frontier', found')"
    using x y by simp
  have s: "set seen' = set seen \<union> t_slug ` set (children cur ts)"
    using visit_children_seen[OF v] .
  obtain new where f: "frontier' = new @ frontier" "length new = card (set seen' - set seen)"
    using visit_children_frontier[OF v] by auto
  have "set seen' - set seen \<subseteq> ?U - set seen"
    using s children_slugs[of cur ts] by blast
  moreover have "?U - set seen' = (?U - set seen) - (set seen' - set seen)"
    using s by auto
  ultimately have "card (?U - set seen') = card (?U - set seen) - card (set seen' - set seen)"
    and "card (set seen' - set seen) \<le> card (?U - set seen)"
    by (auto simp: card_Diff_subset intro!: card_mono)
  then show "((ts, seen', frontier', found'), ts, seen, cur # frontier, found) \<in>
    measure (\<lambda>(ts, seen, frontier, found). card (t_slug ` set ts - set seen) + length frontier)"
    using f by simp
qed simp

definition undone_descendants :: "string \<Rightarrow> task list \<Rightarrow> task list" where
  "undone_descendants slug ts = sort_key queue_order (undone_loop ts [slug] [slug] [])"

section \<open>Progress of sub-tasks\<close>

record child_progress =
  p_done :: nat
  p_wip :: nat
  p_waiting :: nat
  p_open :: nat

definition cp_total :: "child_progress \<Rightarrow> nat" where
  "cp_total p = p_done p + p_wip p + p_waiting p + p_open p"

definition all_waiting :: "child_progress \<Rightarrow> bool" where
  "all_waiting p \<longleftrightarrow> 0 < p_waiting p \<and> p_wip p = 0 \<and> p_open p = 0"

definition stalled :: "child_progress \<Rightarrow> bool" where
  "stalled p \<longleftrightarrow> 0 < p_open p \<and> p_wip p = 0 \<and> p_waiting p = 0"

definition count_state :: "task_state \<Rightarrow> task list \<Rightarrow> nat" where
  "count_state st ts = length (filter (\<lambda>t. t_state t = st) ts)"

definition child_progress_of :: "string \<Rightarrow> task list \<Rightarrow> child_progress option" where
  "child_progress_of p ts =
     (let kids = children p ts in
      if kids = [] then None
      else Some \<lparr>p_done = count_state Done kids, p_wip = count_state Wip kids,
                 p_waiting = count_state Waiting kids, p_open = count_state Open kids\<rparr>)"

definition first_open_child :: "string \<Rightarrow> task list \<Rightarrow> task option" where
  "first_open_child p ts =
     min_by_key queue_order (filter (\<lambda>t. t_state t = Open) (children p ts))"

text \<open>The text after a running parent, by its kind and numbers.\<close>

datatype progress_suffix = NoSuffix | AllWaitingSuffix | ProgressLine child_progress

definition progress_suffix_of :: "string \<Rightarrow> task list \<Rightarrow> progress_suffix" where
  "progress_suffix_of slug ts =
     (case child_progress_of slug ts of
        Some p \<Rightarrow> if all_waiting p then AllWaitingSuffix else ProgressLine p
      | None \<Rightarrow> NoSuffix)"

record stalled_line =
  l_parent :: task
  l_progress :: child_progress
  l_next :: task

definition stalled_parent_lines :: "task list \<Rightarrow> string list \<Rightarrow> stalled_line list" where
  "stalled_parent_lines ts ids =
     List.map_filter
       (\<lambda>parent.
          case child_progress_of (t_slug parent) ts of
            None \<Rightarrow> None
          | Some p \<Rightarrow>
              if \<not> stalled p then None
              else map_option (\<lambda>nxt. \<lparr>l_parent = parent, l_progress = p, l_next = nxt\<rparr>)
                     (first_open_child (t_slug parent) ts))
       (filter (\<lambda>t. case t_session t of None \<Rightarrow> False | Some i \<Rightarrow> i \<in> set ids)
         (filter (\<lambda>t. t_state t = Wip) ts))"

section \<open>The queue\<close>

lemma set_queue: "set (queue ts) = {t \<in> set ts. t_relation t = Queued \<and> \<not> t_parallel t}"
  by (auto simp: queue_def)

lemma sorted_queue: "sorted (map queue_order (queue ts))"
  by (simp add: queue_def)

lemma distinct_queue: "distinct (map t_slug ts) \<Longrightarrow> distinct (map t_slug (queue ts))"
proof -
  assume "distinct (map t_slug ts)"
  then have "distinct (map t_slug (filter (\<lambda>t. t_relation t = Queued \<and> \<not> t_parallel t) ts))"
    by (rule distinct_map_filter)
  moreover have "mset (map t_slug (queue ts)) =
      mset (map t_slug (filter (\<lambda>t. t_relation t = Queued \<and> \<not> t_parallel t) ts))"
    by (simp add: queue_def)
  ultimately show ?thesis
    by (metis mset_eq_imp_distinct_iff)
qed

text \<open>The task right ahead of \<open>t\<close> in the queue.\<close>

definition ahead_of :: "task \<Rightarrow> task list \<Rightarrow> task option" where
  "ahead_of t ts =
     (case position (\<lambda>u. t_slug u = t_slug t) (queue ts) of
        Some (Suc p) \<Rightarrow> Some (queue ts ! p) | _ \<Rightarrow> None)"

lemma ahead_of_in: "ahead_of t ts = Some a \<Longrightarrow> a \<in> set (queue ts)"
  by (auto simp: ahead_of_def position_Some split: option.splits nat.splits)

lemma ahead_of_less:
  assumes "ahead_of t ts = Some a" and "t \<in> set (queue ts)" and "distinct (map t_slug ts)"
  shows "queue_order a \<le> queue_order t" "t_slug a \<noteq> t_slug t"
proof -
  obtain p where p: "position (\<lambda>u. t_slug u = t_slug t) (queue ts) = Some (Suc p)"
    and a: "a = queue ts ! p"
    using assms(1) by (auto simp: ahead_of_def split: option.splits nat.splits)
  have len: "Suc p < length (queue ts)" and eq: "t_slug (queue ts ! Suc p) = t_slug t"
    and before: "t_slug (queue ts ! p) \<noteq> t_slug t"
    using p by (auto simp: position_Some)
  show "t_slug a \<noteq> t_slug t"
    using before a by simp
  have "queue ts ! Suc p = t"
    using assms(2) len eq distinct_queue[OF assms(3)]
    by (metis (mono_tags, lifting) distinct_map inj_on_def nth_mem)
  then show "queue_order a \<le> queue_order t"
    using sorted_nth_mono[OF sorted_queue, of p "Suc p" ts] len a by simp
qed

lemma queue_block_None:
  assumes "t_state t = Open" "t_relation t = Queued" "\<not> t_parallel t"
  shows "queue_block t ts = None \<longleftrightarrow>
    (\<forall>u \<in> set (queue ts). t_slug u \<noteq> t_slug t \<longrightarrow> t_state u \<noteq> Wip) \<and>
    (\<forall>a. ahead_of t ts = Some a \<longrightarrow> t_state a = Done \<or> t_state a = Waiting)"
proof (cases "find (\<lambda>u. t_slug u \<noteq> t_slug t \<and> t_state u = Wip) (queue ts)")
  case None
  then have "\<forall>u \<in> set (queue ts). t_slug u \<noteq> t_slug t \<longrightarrow> t_state u \<noteq> Wip"
    by (auto simp: find_None_iff)
  then show ?thesis
    using assms None
    by (auto simp: queue_block_def ahead_of_def Let_def split: option.splits nat.splits)
next
  case (Some b)
  then have "b \<in> set (queue ts)" "t_slug b \<noteq> t_slug t" "t_state b = Wip"
    by (auto simp: find_Some_iff)
  then show ?thesis
    using assms Some by (auto simp: queue_block_def Let_def)
qed

section \<open>Descendants\<close>

inductive descendant :: "task list \<Rightarrow> string \<Rightarrow> string \<Rightarrow> bool" for ts where
  direct: "c \<in> set (children p ts) \<Longrightarrow> descendant ts p (t_slug c)"
| deeper: "descendant ts p q \<Longrightarrow> c \<in> set (children q ts) \<Longrightarrow> descendant ts p (t_slug c)"

definition child_succ :: "task list \<Rightarrow> string \<Rightarrow> string set" where
  "child_succ ts p = t_slug ` set (children p ts)"

lemma child_succ_iff: "x \<in> child_succ ts p \<longleftrightarrow> (\<exists>c \<in> set (children p ts). x = t_slug c)"
  by (auto simp: child_succ_def)

interpretation child_walk: graph_walk "child_succ ts" for ts .

lemma reach_descendant: "child_walk.reach ts {p} = insert p {x. descendant ts p x}"
proof (intro set_eqI iffI)
  fix x assume "x \<in> child_walk.reach ts {p}"
  then show "x \<in> insert p {x. descendant ts p x}"
  proof (induction rule: child_walk.reach_induct)
    case (step x z)
    then show ?case
      by (auto simp: child_succ_iff intro: descendant.intros)
  qed simp
next
  have "descendant ts p x \<Longrightarrow> x \<in> child_walk.reach ts {p}" for x
  proof (induction rule: descendant.induct)
    case (direct c p)
    then have "t_slug c \<in> child_succ ts p"
      by (auto simp: child_succ_iff)
    then show ?case
      using child_walk.reach_start[of "{p}" ts] by (blast intro: child_walk.reach_step)
  next
    case (deeper p q c)
    then have "t_slug c \<in> child_succ ts q"
      by (auto simp: child_succ_iff)
    then show ?case
      using deeper.IH by (blast intro: child_walk.reach_step)
  qed
  then show "x \<in> insert p {x. descendant ts p x} \<Longrightarrow> x \<in> child_walk.reach ts {p}" for x
    using child_walk.reach_start[of "{p}" ts] by auto
qed

text \<open>
  The invariant of the worklist: every slug seen is the root or reachable, everything seen is on
  the frontier or has all its children seen, and the tasks found are the seen ones (the root
  apart) that are not done.
\<close>

definition undone_inv ::
  "task list \<Rightarrow> string \<Rightarrow> string list \<Rightarrow> string list \<Rightarrow> task list \<Rightarrow> bool" where
  "undone_inv ts root seen frontier found \<longleftrightarrow>
     root \<in> set seen \<and> set frontier \<subseteq> set seen \<and> set seen \<subseteq> child_walk.reach ts {root} \<and>
     (\<forall>x \<in> set seen. x \<in> set frontier \<or> child_succ ts x \<subseteq> set seen) \<and>
     set found = {t \<in> set ts. t_slug t \<in> set seen \<and> t_slug t \<noteq> root \<and> t_state t \<noteq> Done} \<and>
     distinct found"

lemma visit_children_found:
  assumes "visit_children cs (seen, frontier, found) = (seen', frontier', found')"
    and "distinct (map t_slug ts)" and "set cs \<subseteq> set ts" and "root \<in> set seen"
    and "set found = {t \<in> set ts. t_slug t \<in> set seen \<and> t_slug t \<noteq> root \<and> t_state t \<noteq> Done}"
    and "distinct found"
  shows "set found' = {t \<in> set ts. t_slug t \<in> set seen' \<and> t_slug t \<noteq> root \<and> t_state t \<noteq> Done}
     \<and> distinct found'"
  using assms
proof (induction cs "(seen, frontier, found)" arbitrary: seen frontier found
    rule: visit_children.induct)
  case (2 c cs seen frontier found)
  show ?case
  proof (cases "t_slug c \<in> set seen")
    case True
    then show ?thesis using 2 by simp
  next
    case False
    let ?found = "if t_state c \<noteq> Done then found @ [c] else found"
    have c: "c \<in> set ts"
      using "2.prems"(3) by simp
    have same: "t \<in> set ts \<Longrightarrow> t_slug t = t_slug c \<longleftrightarrow> t = c" for t
      using "2.prems"(2) c by (auto simp: distinct_map inj_on_def)
    have "c \<notin> set found"
      using "2.prems"(5) False by auto
    moreover have "set ?found =
      {t \<in> set ts. t_slug t \<in> set (seen @ [t_slug c]) \<and> t_slug t \<noteq> root \<and> t_state t \<noteq> Done}"
      using "2.prems"(4,5) c same False by auto
    ultimately show ?thesis
      using "2.hyps"(2)[OF False, of ] "2.prems" False by simp
  qed
qed simp

lemma undone_loop_correct:
  assumes "undone_inv ts root seen frontier found" and "distinct (map t_slug ts)"
  shows "set (undone_loop ts seen frontier found) =
      {t \<in> set ts. t_slug t \<in> child_walk.reach ts {root} \<and> t_slug t \<noteq> root \<and> t_state t \<noteq> Done}
    \<and> distinct (undone_loop ts seen frontier found)"
  using assms
proof (induction ts seen frontier found rule: undone_loop.induct)
  case (1 ts seen found)
  have "set seen = child_walk.reach ts {root}"
    using "1.prems" by (intro child_walk.reach_eqI) (auto simp: undone_inv_def)
  then show ?case
    using "1.prems" by (simp add: undone_inv_def)
next
  case (2 ts seen cur frontier found)
  obtain seen' frontier' found' where
    v: "visit_children (children cur ts) (seen, frontier, found) = (seen', frontier', found')"
    by (metis prod_cases3)
  have s: "set seen' = set seen \<union> child_succ ts cur"
    using visit_children_seen[OF v] by (simp add: child_succ_def)
  obtain new where f: "frontier' = new @ frontier" "set new = set seen' - set seen"
    using visit_children_frontier[OF v] by auto
  have inv: "root \<in> set seen" "set (cur # frontier) \<subseteq> set seen"
    "set seen \<subseteq> child_walk.reach ts {root}"
    "\<forall>x \<in> set seen. x \<in> set (cur # frontier) \<or> child_succ ts x \<subseteq> set seen"
    "set found = {t \<in> set ts. t_slug t \<in> set seen \<and> t_slug t \<noteq> root \<and> t_state t \<noteq> Done}"
    "distinct found"
    using "2.prems"(1) unfolding undone_inv_def by blast+
  have cur: "cur \<in> child_walk.reach ts {root}"
    using inv(2,3) by auto
  have "set (children cur ts) \<subseteq> set ts"
    by (auto simp: children_def)
  note found = visit_children_found[OF v "2.prems"(2) this inv(1,5,6)]
  have "set seen' \<subseteq> child_walk.reach ts {root}"
    using s inv(3) child_walk.reach_step[OF cur] by blast
  moreover have "x \<in> set frontier' \<or> child_succ ts x \<subseteq> set seen'" if "x \<in> set seen'" for x
  proof (cases "x \<in> set seen \<and> x \<noteq> cur")
    case True
    then have "x \<in> set frontier \<or> child_succ ts x \<subseteq> set seen"
      using inv(4) by auto
    then show ?thesis using f s by auto
  next
    case False
    then show ?thesis using that f s by auto
  qed
  moreover have "root \<in> set seen'" "set frontier' \<subseteq> set seen'"
    using f s inv(1,2) by auto
  ultimately have "undone_inv ts root seen' frontier' found'"
    using found unfolding undone_inv_def by blast
  then show ?case
    using "2.IH"[OF v[symmetric] refl] "2.prems"(2) v by simp
qed

lemma undone_descendants_set:
  assumes "distinct (map t_slug ts)"
  shows "set (undone_descendants root ts) =
    {t \<in> set ts. descendant ts root (t_slug t) \<and> t_slug t \<noteq> root \<and> t_state t \<noteq> Done}"
proof -
  have "undone_inv ts root [root] [root] []"
    using child_walk.reach_start[of "{root}" ts] by (auto simp: undone_inv_def)
  from undone_loop_correct[OF this assms] show ?thesis
    by (auto simp: undone_descendants_def reach_descendant)
qed

lemma sorted_undone_descendants:
  "sorted (map queue_order (undone_descendants root ts))"
  by (simp add: undone_descendants_def)

lemma count_states_total:
  "count_state Done ts + count_state Wip ts + count_state Waiting ts + count_state Open ts = length ts"
  by (induction ts) (auto simp: count_state_def, metis task_state.exhaust)

lemma child_progress_total:
  "child_progress_of p ts = Some c \<Longrightarrow> cp_total c = length (children p ts) \<and> 0 < cp_total c"
  using count_states_total[of "children p ts"]
  by (auto simp: child_progress_of_def cp_total_def Let_def split: if_splits)

end
