(* ===== verification/Blockers.thy ===== *)
theory Blockers
  imports Relations
begin

text \<open>
  The blocker walk of \<open>crates/llmenv-task/src/blockers.rs\<close>: a \<open>blocked_on\<close> reference counts as
  done when its task and its whole subtree are done, where the subtree of the waiting task is
  left out.  \<open>undone_walk\<close> is the body of the inner function \<open>go\<close> together with the loop over the
  children that calls it; it threads the visited set.  The walk ends on every store, its answer
  is right, and it reports a loop only when the root of the walk is its own descendant.
\<close>

type_synonym task_map = "(string \<times> task) list"

definition by_slug :: "task list \<Rightarrow> task_map" where
  "by_slug ts = hash_collect t_slug ts"

definition subtree_kids :: "task_map \<Rightarrow> string \<Rightarrow> string \<Rightarrow> string list" where
  "subtree_kids m waiter slug =
     sort (map t_slug (filter (\<lambda>t. t_parent t = Some slug \<and> t_slug t \<noteq> waiter) (map snd m)))"

function undone_walk ::
  "task_map \<Rightarrow> string \<Rightarrow> string list \<Rightarrow> string list \<Rightarrow> err + (string option \<times> string list)" where
  "undone_walk m waiter [] visited = Inr (None, visited)"
| "undone_walk m waiter (slug # rest) visited =
     (if slug \<in> set visited then Inl (TaskE (BlockerLoop slug))
      else case map_of m slug of
        None \<Rightarrow> Inr (Some slug, slug # visited)
      | Some t \<Rightarrow>
          if t_state t \<noteq> Done then Inr (Some slug, slug # visited)
          else (case undone_walk m waiter (subtree_kids m waiter slug) (slug # visited) of
              Inl e \<Rightarrow> Inl e
            | Inr (Some u, visited') \<Rightarrow> Inr (Some u, visited')
            | Inr (None, visited') \<Rightarrow> undone_walk m waiter rest visited'))"
  by pat_completeness auto

definition undone_at :: "task_map \<Rightarrow> string \<Rightarrow> bool" where
  "undone_at m slug \<longleftrightarrow> (case map_of m slug of None \<Rightarrow> True | Some t \<Rightarrow> t_state t \<noteq> Done)"

lemma undone_walk_visited:
  "undone_walk_dom (m, waiter, todo, visited) \<Longrightarrow>
     undone_walk m waiter todo visited = Inr (r, visited') \<Longrightarrow> set visited \<subseteq> set visited'"
proof (induction arbitrary: r visited' rule: undone_walk.pinduct)
  case (2 m waiter slug rest visited)
  note unf = "2.prems"[unfolded undone_walk.psimps(2)[OF "2.hyps"]]
  show ?case
  proof (cases "undone_at m slug")
    case True
    then show ?thesis
      using unf by (auto simp: undone_at_def split: if_splits option.splits)
  next
    case False
    then obtain t where t: "map_of m slug = Some t" "\<not> t_state t \<noteq> Done"
      by (auto simp: undone_at_def split: option.splits)
    have new: "slug \<notin> set visited"
      using unf by (auto split: if_splits)
    obtain q v where kw: "undone_walk m waiter (subtree_kids m waiter slug) (slug # visited) = Inr (q, v)"
      using unf t new by (auto split: sum.splits)
    have v: "set visited \<subseteq> set v"
      using "2.IH"(1)[OF new t kw] by simp
    show ?thesis
    proof (cases q)
      case None
      then have "undone_walk m waiter rest v = Inr (r, visited')"
        using unf t new kw by simp
      then show ?thesis
        using "2.IH"(2)[OF new t kw refl None] v by blast
    next
      case (Some u)
      then show ?thesis using unf t new kw v by simp
    qed
  qed
qed (simp add: undone_walk.psimps)

termination undone_walk
proof (relation "inv_image (finite_psubset <*lex*> less_than)
    (\<lambda>(m, waiter, todo, visited). (fst ` set m - set visited, length todo))")
  fix m :: task_map and waiter slug rest visited t
  assume "slug \<notin> set visited" and "map_of m slug = Some t"
  then have "slug \<in> fst ` set m - set visited"
    by (force dest: map_of_SomeD)
  then have "fst ` set m - set (slug # visited) \<subset> fst ` set m - set visited"
    by auto
  then show "((m, waiter, subtree_kids m waiter slug, slug # visited), m, waiter, slug # rest, visited)
      \<in> inv_image (finite_psubset <*lex*> less_than)
        (\<lambda>(m, waiter, todo, visited). (fst ` set m - set visited, length todo))"
    by (simp add: finite_psubset_def)
next
  fix m :: task_map and waiter slug rest visited t x and r :: "string option" and visited'
  assume notin: "slug \<notin> set visited" and get: "map_of m slug = Some t"
    and dom: "undone_walk_dom (m, waiter, subtree_kids m waiter slug, slug # visited)"
    and eq: "undone_walk m waiter (subtree_kids m waiter slug) (slug # visited) = Inr x"
    and x: "(r, visited') = x"
  have "undone_walk m waiter (subtree_kids m waiter slug) (slug # visited) = Inr (r, visited')"
    using eq x by simp
  then have "set (slug # visited) \<subseteq> set visited'"
    by (rule undone_walk_visited[OF dom])
  moreover have "slug \<in> fst ` set m - set visited"
    using notin get by (force dest: map_of_SomeD)
  ultimately have "fst ` set m - set visited' \<subset> fst ` set m - set visited"
    by auto
  then show "((m, waiter, rest, visited'), m, waiter, slug # rest, visited)
      \<in> inv_image (finite_psubset <*lex*> less_than)
        (\<lambda>(m, waiter, todo, visited). (fst ` set m - set visited, length todo))"
    by (simp add: finite_psubset_def)
qed (auto)

definition first_undone_in_subtree :: "string \<Rightarrow> string \<Rightarrow> task_map \<Rightarrow> err + string option" where
  "first_undone_in_subtree slug waiter m =
     seqR (undone_walk m waiter [slug] []) (\<lambda>(r, _). Inr r)"

definition is_done_including_descendants :: "string \<Rightarrow> string \<Rightarrow> task_map \<Rightarrow> bool" where
  "is_done_including_descendants slug waiter m =
     (case first_undone_in_subtree slug waiter m of Inr r \<Rightarrow> r = None | Inl _ \<Rightarrow> False)"

definition is_actionable :: "task \<Rightarrow> task_map \<Rightarrow> bool" where
  "is_actionable t m \<longleftrightarrow>
     \<not> (t_state t = Done \<or> t_state t = Waiting) \<and>
     list_all (\<lambda>b. is_done_including_descendants b (t_slug t) m) (t_blocked_on t)"

section \<open>The subtree of a blocker\<close>

definition kid_succ :: "task_map \<Rightarrow> string \<Rightarrow> string \<Rightarrow> string set" where
  "kid_succ m waiter slug = set (subtree_kids m waiter slug)"

interpretation subtree: graph_walk "kid_succ m waiter" for m waiter .

lemma reach_kids:
  assumes "slug \<in> subtree.reach m waiter A"
  shows "subtree.reach m waiter (set (subtree_kids m waiter slug)) \<subseteq> subtree.reach m waiter A"
proof (rule subtree.reach_closed)
  show "set (subtree_kids m waiter slug) \<subseteq> subtree.reach m waiter A"
  proof
    fix x assume "x \<in> set (subtree_kids m waiter slug)"
    then have "x \<in> kid_succ m waiter slug" by (simp add: kid_succ_def)
    then show "x \<in> subtree.reach m waiter A" by (rule subtree.reach_step[OF assms])
  qed
qed (rule subtree.reach_step)

lemma undone_walk_sound:
  "undone_walk m waiter todo visited = Inr (Some u, visited') \<Longrightarrow>
     u \<in> subtree.reach m waiter (set todo) \<and> undone_at m u"
proof (induction m waiter todo visited arbitrary: u visited' rule: undone_walk.induct)
  case (2 m waiter slug rest visited)
  let ?R = "subtree.reach m waiter"
  have slug: "slug \<in> ?R (set (slug # rest))"
    using subtree.reach_start by fastforce
  have kids: "?R (set (subtree_kids m waiter slug)) \<subseteq> ?R (set (slug # rest))"
    by (rule reach_kids[OF slug])
  have rest: "?R (set rest) \<subseteq> ?R (set (slug # rest))"
    by (rule subtree.reach_mono) auto
  show ?case
  proof (cases "undone_at m slug")
    case True
    then show ?thesis
      using "2.prems" slug by (auto simp: undone_at_def split: if_splits option.splits)
  next
    case False
    then obtain t where t: "map_of m slug = Some t" "t_state t = Done"
      by (auto simp: undone_at_def split: option.splits)
    have new: "slug \<notin> set visited"
      using "2.prems" by (auto split: if_splits)
    obtain r v where kw: "undone_walk m waiter (subtree_kids m waiter slug) (slug # visited) = Inr (r, v)"
      using "2.prems" t new by (auto split: sum.splits)
    show ?thesis
    proof (cases r)
      case None
      then show ?thesis
        using "2.IH"(2)[OF new t(1) _ kw refl None] "2.prems" t new kw rest by auto
    next
      case (Some w)
      then show ?thesis
        using "2.IH"(1)[OF new t(1)] "2.prems" t new kw kids by auto
    qed
  qed
qed simp

lemma undone_walk_complete:
  "undone_walk m waiter todo visited = Inr (None, visited') \<Longrightarrow>
     set visited \<subseteq> set visited' \<and> set todo \<subseteq> set visited' \<and>
     (\<forall>x \<in> set visited' - set visited. \<not> undone_at m x \<and> kid_succ m waiter x \<subseteq> set visited')"
proof (induction m waiter todo visited arbitrary: visited' rule: undone_walk.induct)
  case (2 m waiter slug rest visited)
  have new: "slug \<notin> set visited"
    using "2.prems" by (auto split: if_splits)
  obtain t where t: "map_of m slug = Some t" "t_state t = Done"
    using "2.prems" new by (auto split: option.splits if_splits)
  obtain v where kw: "undone_walk m waiter (subtree_kids m waiter slug) (slug # visited) = Inr (None, v)"
    and rw: "undone_walk m waiter rest v = Inr (None, visited')"
    using "2.prems" t new by (auto split: sum.splits option.splits prod.splits)
  have k: "set (slug # visited) \<subseteq> set v \<and> set (subtree_kids m waiter slug) \<subseteq> set v \<and>
      (\<forall>x \<in> set v - set (slug # visited). \<not> undone_at m x \<and> kid_succ m waiter x \<subseteq> set v)"
    using "2.IH"(1)[OF new t(1)] t kw by blast
  have r: "set v \<subseteq> set visited' \<and> set rest \<subseteq> set visited' \<and>
      (\<forall>x \<in> set visited' - set v. \<not> undone_at m x \<and> kid_succ m waiter x \<subseteq> set visited')"
    using "2.IH"(2)[OF new t(1) _ kw refl refl] t rw by blast
  have s: "\<not> undone_at m slug \<and> kid_succ m waiter slug \<subseteq> set visited'"
    using t k r by (auto simp: undone_at_def kid_succ_def)
  have "\<not> undone_at m x \<and> kid_succ m waiter x \<subseteq> set visited'"
    if "x \<in> set visited' - set visited" for x
  proof (cases "x = slug")
    case True
    then show ?thesis using s by simp
  next
    case False
    show ?thesis
    proof (cases "x \<in> set v")
      case True
      then have "x \<in> set v - set (slug # visited)"
        using that False by simp
      with k have "\<not> undone_at m x \<and> kid_succ m waiter x \<subseteq> set v"
        by blast
      then show ?thesis using r by (meson subset_trans)
    next
      case False
      then have "x \<in> set visited' - set v"
        using that by simp
      with r show ?thesis by blast
    qed
  qed
  moreover have "set visited \<subseteq> set visited'" "set (slug # rest) \<subseteq> set visited'"
    using k r by auto
  ultimately show ?case by blast
qed simp

lemma subtree_done_iff:
  assumes "first_undone_in_subtree slug waiter m = Inr r"
  shows "r = None \<longleftrightarrow> (\<forall>x \<in> subtree.reach m waiter {slug}. \<not> undone_at m x)"
    and "r = Some u \<Longrightarrow> u \<in> subtree.reach m waiter {slug} \<and> undone_at m u"
proof -
  obtain v where w: "undone_walk m waiter [slug] [] = Inr (r, v)"
    using assms by (auto simp: first_undone_in_subtree_def seqR_ok)
  show "r = None \<longleftrightarrow> (\<forall>x \<in> subtree.reach m waiter {slug}. \<not> undone_at m x)"
  proof (cases r)
    case None
    then have c: "set [slug] \<subseteq> set v"
      "\<And>x. x \<in> set v \<Longrightarrow> \<not> undone_at m x \<and> kid_succ m waiter x \<subseteq> set v"
      using undone_walk_complete[of m waiter "[slug]" "[]" v] w by auto
    have "subtree.reach m waiter {slug} \<subseteq> set v"
      by (rule subtree.reach_closed) (use c in auto)
    then show ?thesis using c(2) None by blast
  next
    case (Some u)
    then show ?thesis
      using undone_walk_sound[of m waiter "[slug]" "[]" u v] w by auto
  qed
  show "r = Some u \<Longrightarrow> u \<in> subtree.reach m waiter {slug} \<and> undone_at m u"
    using undone_walk_sound[of m waiter "[slug]" "[]" u v] w by simp
qed

section \<open>Loops\<close>

text \<open>
  A task has one parent, so the walk comes back to a task other than its root only after it came
  back to that task's parent.  The first task it meets twice is therefore the root.
\<close>

definition parent_in :: "task_map \<Rightarrow> string \<Rightarrow> string option" where
  "parent_in m x = Option.bind (map_of m x) t_parent"

lemma subtree_kids_parent:
  assumes "distinct (map fst m)" and "\<And>k t. (k, t) \<in> set m \<Longrightarrow> k = t_slug t"
    and "x \<in> set (subtree_kids m waiter p)"
  shows "parent_in m x = Some p"
proof -
  obtain k t where "(k, t) \<in> set m" "t_parent t = Some p" "x = t_slug t"
    using assms(3) by (auto simp: subtree_kids_def)
  then show ?thesis
    using assms(1,2) by (auto simp: parent_in_def)
qed

lemma distinct_subtree_kids:
  assumes "distinct (map fst m)" and "\<And>k t. (k, t) \<in> set m \<Longrightarrow> k = t_slug t"
  shows "distinct (subtree_kids m waiter p)"
proof -
  have eq: "map fst m = map t_slug (map snd m)"
    unfolding map_map using assms(2) by (intro map_cong) auto
  have "distinct (map t_slug (map snd m))"
    using assms(1) unfolding eq .
  then show ?thesis
    unfolding subtree_kids_def distinct_sort by (rule distinct_map_filter)
qed

definition walk_inv :: "task_map \<Rightarrow> string \<Rightarrow> string list \<Rightarrow> string list \<Rightarrow> string \<Rightarrow> bool" where
  "walk_inv m root todo visited p \<longleftrightarrow>
     distinct todo \<and> p \<in> set visited \<and> root \<in> set visited \<and>
     (\<forall>x \<in> set todo. parent_in m x = Some p \<and> (x \<in> set visited \<longrightarrow> x = root)) \<and>
     (\<forall>x \<in> set visited. x \<noteq> root \<longrightarrow> (\<exists>q. parent_in m x = Some q \<and> q \<in> set visited))"

definition grown :: "task_map \<Rightarrow> string \<Rightarrow> string list \<Rightarrow> string list \<Rightarrow> string list \<Rightarrow> bool" where
  "grown m root todo visited v \<longleftrightarrow>
     set visited \<subseteq> set v \<and>
     (\<forall>x \<in> set v. x \<noteq> root \<longrightarrow> (\<exists>q. parent_in m x = Some q \<and> q \<in> set v)) \<and>
     (\<forall>x \<in> set v - set visited.
        x \<in> set todo \<or> (\<exists>q. parent_in m x = Some q \<and> q \<in> set v - set visited))"

lemma walk_inv_kids:
  assumes inv: "walk_inv m root (slug # rest) visited p" and new: "slug \<notin> set visited"
    and m: "distinct (map fst m)" "\<And>k t. (k, t) \<in> set m \<Longrightarrow> k = t_slug t"
  shows "walk_inv m root (subtree_kids m waiter slug) (slug # visited) slug"
proof -
  have kid: "parent_in m x = Some slug" if "x \<in> set (subtree_kids m waiter slug)" for x
    using subtree_kids_parent[OF m that] .
  have "x = root" if "x \<in> set (subtree_kids m waiter slug)" "x \<in> set (slug # visited)" for x
  proof (rule ccontr)
    assume "x \<noteq> root"
    show False
    proof (cases "x = slug")
      case True
      then have "slug = p" using kid[OF that(1)] inv by (simp add: walk_inv_def)
      then show False using inv new by (simp add: walk_inv_def)
    next
      case False
      then have "\<exists>q. parent_in m x = Some q \<and> q \<in> set visited"
        using that(2) \<open>x \<noteq> root\<close> inv by (auto simp: walk_inv_def)
      then show False using kid[OF that(1)] new by auto
    qed
  qed
  moreover have "\<exists>q. parent_in m x = Some q \<and> q \<in> set (slug # visited)"
    if "x \<in> set (slug # visited)" "x \<noteq> root" for x
    using that inv by (auto simp: walk_inv_def)
  ultimately show ?thesis
    using inv kid distinct_subtree_kids[OF m] by (auto simp: walk_inv_def)
qed

lemma walk_inv_rest:
  assumes inv: "walk_inv m root (slug # rest) visited p" and new: "slug \<notin> set visited"
    and g: "grown m root kids (slug # visited) v"
    and kid: "\<And>x. x \<in> set kids \<Longrightarrow> parent_in m x = Some slug"
  shows "walk_inv m root rest v p"
proof -
  have "x = root" if x: "x \<in> set rest" and xv: "x \<in> set v" for x
  proof (cases "x \<in> set (slug # visited)")
    case True
    then show ?thesis using x inv by (auto simp: walk_inv_def)
  next
    case False
    have px: "parent_in m x = Some p" and p: "p \<in> set visited"
      using x inv by (auto simp: walk_inv_def)
    have "x \<in> set kids \<or> (\<exists>q. parent_in m x = Some q \<and> q \<in> set v - set (slug # visited))"
      using g xv False by (simp add: grown_def)
    then show ?thesis
      using px p new kid by auto
  qed
  then show ?thesis
    using inv g by (auto simp: walk_inv_def grown_def)
qed

lemma grown_trans:
  assumes "grown m root kids (slug # visited) v" and "grown m root rest v v'"
    and kid: "\<And>x. x \<in> set kids \<Longrightarrow> parent_in m x = Some slug" and new: "slug \<notin> set visited"
  shows "grown m root (slug # rest) visited v'"
proof -
  have sub: "set (slug # visited) \<subseteq> set v" "set v \<subseteq> set v'"
    using assms(1,2) by (simp_all add: grown_def)
  have "x \<in> set (slug # rest) \<or> (\<exists>q. parent_in m x = Some q \<and> q \<in> set v' - set visited)"
    if x: "x \<in> set v' - set visited" for x
  proof (cases "x \<in> set v")
    case True
    show ?thesis
    proof (cases "x = slug")
      case False
      then have "x \<in> set kids \<or> (\<exists>q. parent_in m x = Some q \<and> q \<in> set v - set (slug # visited))"
        using assms(1) True x by (simp add: grown_def)
      then show ?thesis
        using kid new sub by auto
    qed simp
  next
    case False
    then have "x \<in> set rest \<or> (\<exists>q. parent_in m x = Some q \<and> q \<in> set v' - set v)"
      using assms(2) x by (simp add: grown_def)
    then show ?thesis using sub by auto
  qed
  moreover have "set visited \<subseteq> set v'"
    using sub by auto
  moreover have "\<forall>x \<in> set v'. x \<noteq> root \<longrightarrow> (\<exists>q. parent_in m x = Some q \<and> q \<in> set v')"
    using assms(2) by (simp add: grown_def)
  ultimately show ?thesis
    unfolding grown_def by blast
qed

lemma undone_walk_loop:
  assumes "distinct (map fst m)" and "\<And>k t. (k, t) \<in> set m \<Longrightarrow> k = t_slug t"
    and "walk_inv m root todo visited p"
  shows "undone_walk m waiter todo visited = Inl e \<Longrightarrow>
       e = TaskE (BlockerLoop root) \<and> root \<in> subtree.reach m waiter (set todo)"
    and "undone_walk m waiter todo visited = Inr (None, v) \<Longrightarrow> grown m root todo visited v"
  using assms
proof (induction m waiter todo visited arbitrary: p e v rule: undone_walk.induct)
  case (1 m waiter visited)
  {
    case 1
    then show ?case by simp
  next
    case 2
    then show ?case by (auto simp: walk_inv_def grown_def)
  }
next
  case (2 m waiter slug rest visited)
  let ?R = "subtree.reach m waiter"
  have start: "slug \<in> ?R (set (slug # rest))"
    using subtree.reach_start by fastforce
  have rest: "?R (set rest) \<subseteq> ?R (set (slug # rest))"
    by (rule subtree.reach_mono) auto
  note kids = reach_kids[OF start]
  {
    case 1
    show ?case
    proof (cases "slug \<in> set visited")
      case True
      then show ?thesis
        using "1" start by (auto simp: walk_inv_def)
    next
      case new: False
      obtain t where t: "map_of m slug = Some t" "\<not> t_state t \<noteq> Done"
        using "1"(1) new by (auto split: option.splits if_splits)
      note kinv = walk_inv_kids[OF "1"(4) new "1"(2,3)]
      show ?thesis
      proof (cases "undone_walk m waiter (subtree_kids m waiter slug) (slug # visited)")
        case (Inl e')
        then have "e' = e" using "1"(1) new t by simp
        then show ?thesis
          using "2.IH"(1)[OF new t Inl "1"(2,3) kinv] kids by blast
      next
        case (Inr x)
        then obtain v' where kw: "undone_walk m waiter (subtree_kids m waiter slug) (slug # visited)
            = Inr (None, v')" and rw: "undone_walk m waiter rest v' = Inl e"
          using "1"(1) new t by (cases x) (auto split: option.splits)
        have "grown m root (subtree_kids m waiter slug) (slug # visited) v'"
          using "2.IH"(2)[OF new t kw "1"(2,3) kinv] .
        then have "walk_inv m root rest v' p"
          using walk_inv_rest[OF "1"(4) new] subtree_kids_parent[OF "1"(2,3)] by blast
        then show ?thesis
          using "2.IH"(3)[OF new t kw refl refl rw "1"(2,3)] rest by blast
      qed
    qed
  next
    case 2
    have new: "slug \<notin> set visited"
      using "2"(1) by (auto split: if_splits)
    obtain t where t: "map_of m slug = Some t" "\<not> t_state t \<noteq> Done"
      using "2"(1) new by (auto split: option.splits if_splits)
    obtain v' where kw: "undone_walk m waiter (subtree_kids m waiter slug) (slug # visited)
        = Inr (None, v')" and rw: "undone_walk m waiter rest v' = Inr (None, v)"
      using "2"(1) new t by (auto split: sum.splits option.splits)
    note kinv = walk_inv_kids[OF "2"(4) new "2"(2,3)]
    have g: "grown m root (subtree_kids m waiter slug) (slug # visited) v'"
      using "2.IH"(2)[OF new t kw "2"(2,3) kinv] .
    then have "walk_inv m root rest v' p"
      using walk_inv_rest[OF "2"(4) new] subtree_kids_parent[OF "2"(2,3)] by blast
    then have "grown m root rest v' v"
      using "2.IH"(4)[OF new t kw refl refl rw "2"(2,3)] by blast
    then show ?case
      using grown_trans[OF g] subtree_kids_parent[OF "2"(2,3)] new by blast
  }
qed

text \<open>The walk fails exactly by coming back to its root through the root's own subtree.\<close>

lemma first_undone_loop:
  assumes "first_undone_in_subtree slug waiter (by_slug ts) = Inl e"
  shows "e = TaskE (BlockerLoop slug) \<and>
    slug \<in> subtree.reach (by_slug ts) waiter (kid_succ (by_slug ts) waiter slug)"
proof -
  let ?m = "by_slug ts"
  have m: "distinct (map fst ?m)" "\<And>k t. (k, t) \<in> set ?m \<Longrightarrow> k = t_slug t"
    unfolding by_slug_def using hash_collect_key[of _ _ t_slug ts]
    by (simp_all add: hash_collect_distinct)
  have w: "undone_walk ?m waiter [slug] [] = Inl e"
    using assms by (auto simp: first_undone_in_subtree_def seqR_err)
  then have k: "undone_walk ?m waiter (subtree_kids ?m waiter slug) [slug] = Inl e"
    by (auto split: option.splits if_splits sum.splits)
  have "walk_inv ?m slug (subtree_kids ?m waiter slug) [slug] slug"
    using subtree_kids_parent[OF m] distinct_subtree_kids[OF m] by (auto simp: walk_inv_def)
  from undone_walk_loop(1)[OF m this k] show ?thesis
    by (simp add: kid_succ_def)
qed

end
