(* ===== verification/Parents.thy ===== *)
theory Parents
  imports Blockers
begin

text \<open>
  The two walks up the parent links: \<open>ancestors_to_start\<close> (\<open>ancestors.rs\<close>), which collects the open
  ancestors that a sub-task starts with itself, and \<open>reject_cycle\<close> (\<open>parent_chain.rs\<close>), which refuses
  a new parent that would close a loop.  Both read the store, so a walk can meet a missing or an
  unreadable file, and both end on every store because a step adds a stored slug to the visited
  ones.  \<open>reject_cycle\<close> succeeds exactly on a parent whose chain ends and avoids the task, which is
  what keeps the parent graph acyclic under \<open>edit\<close>.
\<close>

section \<open>Walking the chain\<close>

definition stored_slugs :: "store \<Rightarrow> string set" where
  "stored_slugs s = set (json_names (entries (task_dir s)))"

lemma finite_stored_slugs [simp]: "finite (stored_slugs s)"
  by (simp add: stored_slugs_def)

lemma load_task_stored: "load_task s n = Inr t \<Longrightarrow> n \<in> stored_slugs s"
  by (auto simp: load_task_ok stored_slugs_def dest!: find_json_in json_file_name)

lemma visited_measure:
  assumes "load_task s n = Inr t" and "n \<notin> set seen"
  shows "card (stored_slugs s - set (n # seen)) < card (stored_slugs s - set seen)"
  using assms load_task_stored[OF assms(1)] by (intro psubset_card_mono) auto

definition queue_hold :: "task \<Rightarrow> task list \<Rightarrow> (string \<times> string \<times> string) option" where
  "queue_hold t ts = Option.bind (t_session t) (\<lambda>i. queue_block t (tasks_in_sessions ts {i}))"

function ancestors_loop ::
  "store \<Rightarrow> string \<Rightarrow> bool \<Rightarrow> task list \<Rightarrow> string list \<Rightarrow> task \<Rightarrow> task list \<Rightarrow> err + task list" where
  "ancestors_loop s child force ts seen current promoted =
     (if t_relation current \<noteq> Child then Inr promoted
      else case t_parent current of
        None \<Rightarrow> Inl (ParentE (SubTaskNoParent child (t_slug current)))
      | Some p \<Rightarrow>
          if p \<in> set seen then Inl (ParentE (AncestorLoop child p))
          else (case load_task s p of
              Inl e \<Rightarrow>
                Inl (if is_not_found e then ParentE (ParentMissing child p)
                     else InContext (CtxAncestorUnreadable child p) e)
            | Inr parent \<Rightarrow>
                if t_state parent = Done \<and> \<not> force then Inl (ParentE (ParentDone child p))
                else (case (if t_state parent = Open \<and> \<not> force then queue_hold parent ts else None) of
                    Some block \<Rightarrow> Inl (TaskE (ParentQueuedBehind child block))
                  | None \<Rightarrow>
                      ancestors_loop s child force ts (p # seen) parent
                        (if t_state parent = Open then promoted @ [parent] else promoted))))"
  by pat_completeness auto
termination
  by (relation "measure (\<lambda>(s, child, force, ts, seen, current, promoted).
      card (stored_slugs s - set seen))")
    (auto simp: visited_measure simp del: list.set)

declare ancestors_loop.simps [simp del]

definition ancestors_to_start :: "store \<Rightarrow> task \<Rightarrow> bool \<Rightarrow> task list \<Rightarrow> err + task list" where
  "ancestors_to_start s child force ts =
     ancestors_loop s (t_slug child) force ts [t_slug child] child []"

function reject_cycle_loop :: "store \<Rightarrow> string \<Rightarrow> string \<Rightarrow> string \<Rightarrow> string list \<Rightarrow> err + unit" where
  "reject_cycle_loop s slug new_parent current visited =
     (if current = slug then Inl (ParentE (OwnAncestor new_parent slug))
      else if current \<in> set visited then Inl (ParentE (ChainLoop slug new_parent current))
      else (case load_task s current of
          Inl e \<Rightarrow>
            Inl (if is_not_found e then ParentE (AncestorMissing slug new_parent current)
                 else InContext (CtxCheckParent new_parent slug current) e)
        | Inr t \<Rightarrow>
            (case t_parent t of
               None \<Rightarrow> Inr ()
             | Some p \<Rightarrow> reject_cycle_loop s slug new_parent p (current # visited))))"
  by pat_completeness auto
termination
  by (relation "measure (\<lambda>(s, slug, new_parent, current, visited).
      card (stored_slugs s - set visited))")
    (auto simp: visited_measure simp del: list.set)

declare reject_cycle_loop.simps [simp del]

definition reject_cycle :: "store \<Rightarrow> string \<Rightarrow> string \<Rightarrow> err + unit" where
  "reject_cycle s slug new_parent = reject_cycle_loop s slug new_parent new_parent []"

section \<open>The ancestors of a sub-task\<close>

inductive ancestor :: "store \<Rightarrow> task \<Rightarrow> task \<Rightarrow> bool" for s where
  parent: "t_relation t = Child \<Longrightarrow> t_parent t = Some p \<Longrightarrow> load_task s p = Inr q \<Longrightarrow> ancestor s t q"
| above: "t_relation t = Child \<Longrightarrow> t_parent t = Some p \<Longrightarrow> load_task s p = Inr q \<Longrightarrow>
    ancestor s q r \<Longrightarrow> ancestor s t r"

lemma ancestor_top: "t_relation t \<noteq> Child \<Longrightarrow> \<not> ancestor s t q"
  by (auto elim: ancestor.cases)

lemma ancestor_step:
  assumes "t_relation t = Child" "t_parent t = Some p" "load_task s p = Inr u"
  shows "ancestor s t q \<longleftrightarrow> q = u \<or> ancestor s u q"
  using assms by (auto elim: ancestor.cases intro: ancestor.intros)

lemma ancestors_loop_ok:
  "ancestors_loop s child force ts seen current promoted = Inr ps \<Longrightarrow>
     set ps = set promoted \<union> {q. ancestor s current q \<and> t_state q = Open} \<and>
     (\<not> force \<longrightarrow> (\<forall>q. ancestor s current q \<longrightarrow>
        t_state q \<noteq> Done \<and> (t_state q = Open \<longrightarrow> queue_hold q ts = None))) \<and>
     (\<forall>q. ancestor s current q \<longrightarrow> (\<exists>n. load_task s n = Inr q \<and> n \<notin> set seen))"
proof (induction s child force ts seen current promoted rule: ancestors_loop.induct)
  case (1 s child force ts seen current promoted)
  note unf = "1.prems"[unfolded ancestors_loop.simps[of s child force ts seen current promoted]]
  show ?case
  proof (cases "t_relation current = Child")
    case False
    then show ?thesis using unf by (simp add: ancestor_top)
  next
    case True
    obtain p where p: "t_parent current = Some p" "p \<notin> set seen"
      using unf True by (auto split: option.splits if_splits)
    obtain u where u: "load_task s p = Inr u"
      using unf True p by (auto split: sum.splits)
    have ok: "\<not> (t_state u = Done \<and> \<not> force)"
      using unf True p u by (auto split: if_splits)
    have hold: "(if t_state u = Open \<and> \<not> force then queue_hold u ts else None) = None"
      using unf True p u ok by (auto split: option.splits if_splits)
    have rec: "ancestors_loop s child force ts (p # seen) u
        (if t_state u = Open then promoted @ [u] else promoted) = Inr ps"
      using unf True p u ok hold by (simp split: if_splits)
    note IH = "1.IH"[of p u, OF _ p(1) p(2) u ok hold rec]
    note step = ancestor_step[OF True p(1) u]
    show ?thesis
    proof (intro conjI impI allI)
      show "set ps = set promoted \<union> {q. ancestor s current q \<and> t_state q = Open}"
        using IH True by (auto simp: step)
      fix q assume q: "ancestor s current q"
      show "\<exists>n. load_task s n = Inr q \<and> n \<notin> set seen"
        using IH True q u p(2) by (auto simp: step)
      assume f: "\<not> force"
      show "t_state q \<noteq> Done"
        using IH True f q ok by (auto simp: step)
      show "t_state q = Open \<Longrightarrow> queue_hold q ts = None"
        using IH True f q hold by (auto simp: step split: if_splits)
    qed
  qed
qed

lemma ancestors_to_start_ok:
  assumes "ancestors_to_start s child force ts = Inr ps"
  shows "set ps = {q. ancestor s child q \<and> t_state q = Open}"
    and "\<not> force \<Longrightarrow> ancestor s child q \<Longrightarrow> t_state q \<noteq> Done"
    and "\<not> force \<Longrightarrow> ancestor s child q \<Longrightarrow> t_state q = Open \<Longrightarrow> queue_hold q ts = None"
    and "ancestor s child q \<Longrightarrow> \<exists>n. load_task s n = Inr q \<and> n \<noteq> t_slug child"
  using ancestors_loop_ok[OF assms[unfolded ancestors_to_start_def]] by auto

lemma ancestors_to_start_queued:
  "t_relation child \<noteq> Child \<Longrightarrow> ancestors_to_start s child force ts = Inr []"
  by (simp add: ancestors_to_start_def ancestors_loop.simps)

section \<open>The parent graph\<close>

definition parent_edge :: "store \<Rightarrow> (string \<times> string) set" where
  "parent_edge s = {(a, b). \<exists>t. load_task s a = Inr t \<and> t_parent t = Some b}"

lemma parent_edge_iff: "(a, b) \<in> parent_edge s \<longleftrightarrow> (\<exists>t. load_task s a = Inr t \<and> t_parent t = Some b)"
  by (simp add: parent_edge_def)

lemma parent_edge_fun: "(a, b) \<in> parent_edge s \<Longrightarrow> (a, c) \<in> parent_edge s \<Longrightarrow> b = c"
  by (auto simp: parent_edge_iff)

text \<open>The end of a chain: a stored task with no parent.\<close>

definition chain_end :: "store \<Rightarrow> string \<Rightarrow> bool" where
  "chain_end s r \<longleftrightarrow> (\<exists>t. load_task s r = Inr t \<and> t_parent t = None)"

lemma ending_chain_acyclic:
  assumes "(p, r) \<in> (parent_edge s)\<^sup>*" and "chain_end s r"
  shows "(p, p) \<notin> (parent_edge s)\<^sup>+"
  using assms(1)
proof (induction rule: converse_rtrancl_induct)
  case base
  show ?case
    using assms(2) by (auto simp: chain_end_def parent_edge_iff dest!: tranclD)
next
  case (step p q)
  show ?case
  proof
    assume "(p, p) \<in> (parent_edge s)\<^sup>+"
    then obtain q' where "(p, q') \<in> parent_edge s" "(q', p) \<in> (parent_edge s)\<^sup>*"
      by (blast dest: tranclD)
    moreover from this have "q' = q"
      using step.hyps(1) by (blast intro: parent_edge_fun)
    ultimately have "(q, q) \<in> (parent_edge s)\<^sup>+"
      using step.hyps(1) by (blast intro: rtrancl_into_trancl1)
    then show False using step.IH by simp
  qed
qed

lemma reject_cycle_loop_sound:
  "reject_cycle_loop s slug np cur visited = Inr u \<Longrightarrow>
     (\<exists>r. (cur, r) \<in> (parent_edge s)\<^sup>* \<and> chain_end s r) \<and> (cur, slug) \<notin> (parent_edge s)\<^sup>*"
proof (induction s slug np cur visited rule: reject_cycle_loop.induct)
  case (1 s slug np cur visited)
  note unf = "1.prems"[unfolded reject_cycle_loop.simps[of s slug np cur visited]]
  obtain t where ne: "cur \<noteq> slug" and new: "cur \<notin> set visited" and t: "load_task s cur = Inr t"
    using unf by (auto split: if_splits sum.splits)
  show ?case
  proof (cases "t_parent t")
    case None
    then have "chain_end s cur"
      using t by (simp add: chain_end_def)
    moreover have "(cur, slug) \<notin> (parent_edge s)\<^sup>*"
      using t None ne by (auto simp: parent_edge_iff elim: converse_rtranclE)
    ultimately show ?thesis by blast
  next
    case (Some p)
    have IH: "(\<exists>r. (p, r) \<in> (parent_edge s)\<^sup>* \<and> chain_end s r) \<and> (p, slug) \<notin> (parent_edge s)\<^sup>*"
      using "1.IH"[OF ne new t Some] unf ne new t Some by simp
    have e: "(cur, p) \<in> parent_edge s"
      using t Some by (simp add: parent_edge_iff)
    have "(cur, slug) \<notin> (parent_edge s)\<^sup>*"
    proof
      assume "(cur, slug) \<in> (parent_edge s)\<^sup>*"
      then obtain q where "(cur, q) \<in> parent_edge s" "(q, slug) \<in> (parent_edge s)\<^sup>*"
        using ne by (blast elim: converse_rtranclE)
      then show False using IH parent_edge_fun[OF e] by blast
    qed
    then show ?thesis
      using IH e by (blast intro: converse_rtrancl_into_rtrancl)
  qed
qed

lemma reject_cycle_loop_complete:
  assumes "(cur, r) \<in> (parent_edge s)\<^sup>*" and "chain_end s r"
    and "(cur, slug) \<notin> (parent_edge s)\<^sup>*"
    and "\<And>v. v \<in> set visited \<Longrightarrow> (cur, v) \<notin> (parent_edge s)\<^sup>*"
  shows "reject_cycle_loop s slug np cur visited = Inr ()"
  using assms(1,3,4)
proof (induction arbitrary: visited rule: converse_rtrancl_induct)
  case base
  obtain t where "load_task s r = Inr t" "t_parent t = None"
    using assms(2) by (auto simp: chain_end_def)
  moreover have "r \<noteq> slug" "r \<notin> set visited"
    using base by blast+
  ultimately show ?case
    by (simp add: reject_cycle_loop.simps)
next
  case (step p q)
  obtain t where t: "load_task s p = Inr t" "t_parent t = Some q"
    using step.hyps(1) by (auto simp: parent_edge_iff)
  have ne: "p \<noteq> slug" "p \<notin> set visited"
    using step.prems by blast+
  have "(p, p) \<notin> (parent_edge s)\<^sup>+"
    using ending_chain_acyclic[of p r s] step.hyps assms(2)
    by (meson converse_rtrancl_into_rtrancl)
  then have nb: "(q, p) \<notin> (parent_edge s)\<^sup>*"
    using step.hyps(1) by (meson rtrancl_into_trancl2)
  have "(q, slug) \<notin> (parent_edge s)\<^sup>*"
    using step.prems(1) step.hyps(1) by (meson converse_rtrancl_into_rtrancl)
  moreover have "(q, v) \<notin> (parent_edge s)\<^sup>*" if "v \<in> set (p # visited)" for v
    using that nb step.prems(2) step.hyps(1)
    by (metis converse_rtrancl_into_rtrancl set_ConsD)
  ultimately have "reject_cycle_loop s slug np q (p # visited) = Inr ()"
    by (rule step.IH)
  then show ?case
    using t ne by (simp add: reject_cycle_loop.simps)
qed

lemma reject_cycle_iff:
  "reject_cycle s slug p = Inr () \<longleftrightarrow>
     (\<exists>r. (p, r) \<in> (parent_edge s)\<^sup>* \<and> chain_end s r) \<and> (p, slug) \<notin> (parent_edge s)\<^sup>*"
  using reject_cycle_loop_sound[of s slug p p "[]" "()"]
    reject_cycle_loop_complete[of p _ s slug "[]" p]
  unfolding reject_cycle_def by auto

section \<open>What a save does to the parent graph\<close>

lemma parent_edge_save:
  assumes "save_task t s = (Inr u, s')"
  shows "parent_edge s' =
    {(a, b) \<in> parent_edge s. a \<noteq> t_slug t} \<union>
    (case t_parent t of None \<Rightarrow> {} | Some p \<Rightarrow> {(t_slug t, p)})"
proof -
  have "(a, b) \<in> parent_edge s' \<longleftrightarrow>
      (if a = t_slug t then t_parent t = Some b else (a, b) \<in> parent_edge s)" for a b
    using load_save_same[OF assms] load_save_other[OF assms] by (auto simp: parent_edge_iff)
  then show ?thesis
    by (auto split: option.splits if_splits)
qed

lemma acyclic_repoint:
  assumes "acyclic E" and "(p, a) \<notin> E\<^sup>*"
  shows "acyclic ({(x, y) \<in> E. x \<noteq> a} \<union> {(a, p)})"
proof -
  let ?F = "{(x, y) \<in> E. x \<noteq> a}"
  have sub: "?F \<subseteq> E" by auto
  then have "acyclic ?F" "(p, a) \<notin> ?F\<^sup>*"
    using assms acyclic_subset rtrancl_mono by blast+
  then show ?thesis
    by (simp add: acyclic_insert)
qed

lemma acyclic_save_same_parent:
  assumes "acyclic (parent_edge s)" and "save_task t s = (Inr u, s')"
    and "load_task s (t_slug t) = Inr t0" and "t_parent t = t_parent t0 \<or> t_parent t = None"
  shows "acyclic (parent_edge s')"
proof (rule acyclic_subset[OF assms(1)])
  show "parent_edge s' \<subseteq> parent_edge s"
    using assms(3,4) by (auto simp: parent_edge_save[OF assms(2)] parent_edge_iff split: option.splits)
qed

lemma acyclic_save_checked_parent:
  assumes "acyclic (parent_edge s)" and "save_task t s = (Inr u, s')"
    and "t_parent t = Some p" and "(p, t_slug t) \<notin> (parent_edge s)\<^sup>*"
  shows "acyclic (parent_edge s')"
  using acyclic_repoint[OF assms(1,4)] assms(3) by (simp add: parent_edge_save[OF assms(2)])

end
