(* ===== verification/Resolve.thy ===== *)
theory Resolve
  imports Parents
begin

text \<open>
  From a typed name to the slug of a stored task (\<open>crates/llmenv-task/src/resolve.rs\<close>).  The open
  session of the caller is searched first; an exact slug beats a prefix; a prefix must be unique in
  the tasks it is searched in.
\<close>

definition check_identifier :: "string \<Rightarrow> err + unit" where
  "check_identifier input = ensureR (is_valid_short_name input) (LookupE (InvalidIdentifier input))"

definition pick :: "string list \<Rightarrow> string \<Rightarrow> err + string option" where
  "pick slugs input =
     (if input \<in> set slugs then Inr (Some input)
      else
        let matches = filter (\<lambda>x. starts_with x input) slugs in
        case matches of
          [] \<Rightarrow> Inr None
        | [m] \<Rightarrow> Inr (Some m)
        | _ \<Rightarrow> Inl (LookupE (AmbiguousTask input (sort matches))))"

definition preferred_sessions :: "store \<Rightarrow> identity \<Rightarrow> err + string list" where
  "preferred_sessions s owner =
     seqR (list_sessions_strict s) (\<lambda>xs.
       let opens = filter is_open xs in
       Inr (case pick_open_session opens owner of
              Inr x \<Rightarrow> [s_id x]
            | Inl _ \<Rightarrow> map s_id opens))"

definition slugs_in :: "task list \<Rightarrow> string list \<Rightarrow> string list" where
  "slugs_in ts ids =
     map t_slug (filter (\<lambda>t. case t_session t of None \<Rightarrow> False | Some i \<Rightarrow> i \<in> set ids) ts)"

definition resolve_with :: "store \<Rightarrow> string \<Rightarrow> identity \<Rightarrow> task list \<Rightarrow> err + string" where
  "resolve_with s input owner ts =
     (case preferred_sessions s owner of
        Inl e \<Rightarrow> Inl (InContext (CtxListingSessions input) e)
      | Inr preferred \<Rightarrow>
          seqR (if preferred \<noteq> [] then pick (slugs_in ts preferred) input else Inr None) (\<lambda>mine.
          case mine of
            Some slug \<Rightarrow> Inr slug
          | None \<Rightarrow>
              if file_exists (task_dir s) input then Inr input
              else seqR (pick (map t_slug ts) input) (\<lambda>found.
                case found of Some slug \<Rightarrow> Inr slug | None \<Rightarrow> Inl (LookupE (NoTaskMatches input)))))"

definition resolve_in :: "env \<Rightarrow> store \<Rightarrow> string \<Rightarrow> task list \<Rightarrow> err + string" where
  "resolve_in e s input ts = seqR (from_env e) (\<lambda>owner. resolve_with s input owner ts)"

definition resolve_identifier_for :: "store \<Rightarrow> string \<Rightarrow> identity \<Rightarrow> err + string" where
  "resolve_identifier_for s input owner =
     seqR (check_identifier input) (\<lambda>_.
     seqR (list_tasks_strict s) (\<lambda>ts. resolve_with s input owner ts))"

definition resolve_identifier :: "env \<Rightarrow> store \<Rightarrow> string \<Rightarrow> err + string" where
  "resolve_identifier e s input =
     seqR (from_env e) (\<lambda>owner. resolve_identifier_for s input owner)"

datatype task_target = Input string | Resolved string

fun target_check :: "task_target \<Rightarrow> err + unit" where
  "target_check (Input name) = check_identifier name"
| "target_check (Resolved name) = check_identifier name"

fun target_slug :: "env \<Rightarrow> task_target \<Rightarrow> store \<Rightarrow> err + string" where
  "target_slug e (Input input) s = resolve_identifier e s input"
| "target_slug e (Resolved slug) s = seqR (check_identifier slug) (\<lambda>_. Inr slug)"

fun target_slug_in :: "env \<Rightarrow> task_target \<Rightarrow> store \<Rightarrow> task list \<Rightarrow> err + string" where
  "target_slug_in e (Input input) s ts = seqR (check_identifier input) (\<lambda>_. resolve_in e s input ts)"
| "target_slug_in e (Resolved slug) s ts = seqR (check_identifier slug) (\<lambda>_. Inr slug)"

section \<open>What a resolved name is\<close>

lemma check_identifier_ok: "check_identifier n = Inr u \<longleftrightarrow> is_valid_short_name n"
  by (simp add: check_identifier_def)

lemma starts_with_refl [simp]: "starts_with x x"
  by (simp add: starts_with_def)

text \<open>An exact match, else the only slug with the prefix.\<close>

lemma pick_Some:
  "pick slugs input = Inr (Some m) \<longleftrightarrow>
     (input \<in> set slugs \<and> m = input) \<or>
     (input \<notin> set slugs \<and> filter (\<lambda>x. starts_with x input) slugs = [m])"
  by (auto simp: pick_def Let_def split: list.splits)

lemma pick_None:
  "pick slugs input = Inr None \<longleftrightarrow> (\<forall>x \<in> set slugs. \<not> starts_with x input)"
  by (auto simp: pick_def Let_def filter_empty_conv split: list.splits dest!: filter_eq_ConsD)

lemma pick_Inl:
  "pick slugs input = Inl e \<longleftrightarrow>
     input \<notin> set slugs \<and> 2 \<le> length (filter (\<lambda>x. starts_with x input) slugs) \<and>
     e = LookupE (AmbiguousTask input (sort (filter (\<lambda>x. starts_with x input) slugs)))"
  by (auto simp: pick_def Let_def split: list.splits)

lemma pick_member:
  "pick slugs input = Inr (Some m) \<Longrightarrow> m \<in> set slugs \<and> starts_with m input"
  by (auto simp: pick_Some dest!: filter_singleton_in)

lemma slugs_in_subset: "set (slugs_in ts ids) \<subseteq> t_slug ` set ts"
  by (auto simp: slugs_in_def)

lemma resolve_with_ok:
  assumes "resolve_with s input owner ts = Inr slug"
  shows "starts_with slug input"
    and "slug \<in> t_slug ` set ts \<or> (slug = input \<and> file_exists (task_dir s) input)"
proof -
  obtain preferred where p: "preferred_sessions s owner = Inr preferred"
    using assms by (auto simp: resolve_with_def split: sum.splits)
  obtain mine where m: "(if preferred \<noteq> [] then pick (slugs_in ts preferred) input else Inr None) = Inr mine"
    using assms p by (auto simp: resolve_with_def seqR_ok)
  have "starts_with slug input \<and>
      (slug \<in> t_slug ` set ts \<or> (slug = input \<and> file_exists (task_dir s) input))"
  proof (cases mine)
    case (Some x)
    then have "pick (slugs_in ts preferred) input = Inr (Some slug)"
      using assms p m by (auto simp: resolve_with_def split: if_splits)
    then show ?thesis
      using slugs_in_subset[of ts preferred] by (auto dest!: pick_member)
  next
    case None
    show ?thesis
    proof (cases "file_exists (task_dir s) input")
      case True
      then show ?thesis
        using assms p m None by (auto simp: resolve_with_def)
    next
      case False
      then have "pick (map t_slug ts) input = Inr (Some slug)"
        using assms p m None by (auto simp: resolve_with_def seqR_ok split: option.splits)
      then show ?thesis
        by (auto dest!: pick_member)
    qed
  qed
  then show "starts_with slug input"
    and "slug \<in> t_slug ` set ts \<or> (slug = input \<and> file_exists (task_dir s) input)" by auto
qed

text \<open>The caller's open session wins, and an exact slug in it wins over everything.\<close>

lemma resolve_with_preferred:
  assumes "preferred_sessions s owner = Inr ids" and "ids \<noteq> []"
  shows "input \<in> set (slugs_in ts ids) \<Longrightarrow> resolve_with s input owner ts = Inr input"
    and "filter (\<lambda>x. starts_with x input) (slugs_in ts ids) = [m] \<Longrightarrow>
      resolve_with s input owner ts = Inr m"
proof -
  show "input \<in> set (slugs_in ts ids) \<Longrightarrow> resolve_with s input owner ts = Inr input"
    using assms by (simp add: resolve_with_def pick_def)
  assume f: "filter (\<lambda>x. starts_with x input) (slugs_in ts ids) = [m]"
  have "pick (slugs_in ts ids) input = Inr (Some m)"
  proof (cases "input \<in> set (slugs_in ts ids)")
    case True
    then have "input \<in> set (filter (\<lambda>x. starts_with x input) (slugs_in ts ids))"
      by simp
    then have "input = m" using f by simp
    then show ?thesis using True by (simp add: pick_Some)
  qed (simp add: pick_Some f)
  then show "resolve_with s input owner ts = Inr m"
    using assms by (simp add: resolve_with_def)
qed

text \<open>A strict listing holds every existing task file, so a resolved name loads.\<close>

lemma exists_in_strict_listing:
  assumes "well_named_tasks s" and "list_tasks_strict s = Inr ts" and "file_exists (task_dir s) n"
  shows "n \<in> t_slug ` set ts"
proof -
  obtain f where f: "find_json n (entries (task_dir s)) = Some f"
    using assms(3) by (auto simp: file_exists_def split: option.splits)
  have mem: "JsonFile n f \<in> set (entries (task_dir s))"
    by (rule find_json_in[OF f])
  then have l: "listing_error (task_dir s) \<noteq> Some NotFound"
    using assms(1) by (auto simp: well_named_tasks_def well_named_dir_def)
  then have ts: "list_all readable (entries (task_dir s))" "ts = parsed (entries (task_dir s))"
    using assms(2)
    by (auto simp: list_tasks_strict_def read_tasks_def read_entries_Fail split: option.splits io_kind.splits)
  then have "readable (JsonFile n f)"
    using mem by (auto simp: list_all_iff)
  then obtain t where t: "f = Parsed t" by (cases f) auto
  then have "n = t_slug t"
    using mem assms(1) by (auto simp: well_named_tasks_def well_named_dir_def)
  moreover have "t \<in> set ts"
    using ts(2) mem t by (auto simp: parsed_in)
  ultimately show ?thesis by blast
qed

lemma resolved_slug_stored:
  assumes "well_named_tasks s" and "list_tasks_strict s = Inr ts"
    and "resolve_with s input owner ts = Inr slug"
  shows "\<exists>t \<in> set ts. t_slug t = slug \<and> load_task s slug = Inr t"
proof -
  have "slug \<in> t_slug ` set ts"
    using resolve_with_ok(2)[OF assms(3)] exists_in_strict_listing[OF assms(1,2)] by auto
  then show ?thesis
    using well_named_load[OF assms(1)] list_tasks_strict_ok[OF assms(2)] by auto
qed

lemma target_slug_in_valid:
  assumes "well_named_tasks s" and "list_tasks_strict s = Inr ts"
    and "target_slug_in e tgt s ts = Inr slug"
  shows "is_valid_short_name slug"
proof (cases tgt)
  case (Input input)
  then obtain owner where "resolve_with s input owner ts = Inr slug"
    using assms(3) by (auto simp: seqR_ok resolve_in_def)
  from resolved_slug_stored[OF assms(1,2) this] show ?thesis
    by (auto simp: load_task_ok)
next
  case (Resolved x)
  then show ?thesis using assms(3) by (auto simp: seqR_ok check_identifier_ok)
qed

end
