(* ===== verification/Ownership.thy ===== *)
theory Ownership
  imports Resolve
begin

text \<open>
  Who may act on a task (\<open>crates/llmenv-task/src/ownership.rs\<close>).  The caller is the one open
  session that its conversation may act for, or it is unidentified.  A task of another session is
  refused unless \<open>--other-session\<close> names that session; the override leaves a note.
\<close>

section \<open>Texts that end up in the store\<close>

definition quoted :: "string \<Rightarrow> string" where
  "quoted x = [CHR 0x27] @ x @ [CHR 0x27]"

definition em_dash :: string where
  "em_dash = [CHR 0xE2, CHR 0x80, CHR 0x94]"

definition ambiguity_message :: "pick_error \<Rightarrow> string \<Rightarrow> string option" where
  "ambiguity_message e fix_text =
     (case e of
        NoneOpen \<Rightarrow> None
      | Ambiguous n owned identified \<Rightarrow>
          Some (nat_str n @ '' open sessions for this project'' @
            (if \<not> identified then []
             else if owned = 0 then '', and none of them is owned by this conversation''
             else '', and this conversation owns '' @ nat_str owned @ '' of them'')
            @ '' '' @ em_dash @ '' '' @ fix_text))"

section \<open>The caller\<close>

datatype caller = CallerSession string | Unidentified string

primrec describe :: "caller \<Rightarrow> string" where
  "describe (CallerSession i) = ''session '' @ quoted i"
| "describe (Unidentified reason) = ''an unidentified caller ('' @ reason @ '')''"

definition caller_session :: "store \<Rightarrow> string \<Rightarrow> identity \<Rightarrow> err + caller" where
  "caller_session s project owner =
     seqR (open_sessions_strict s project) (\<lambda>opens.
     Inr (case pick_open_session opens owner of
            Inr x \<Rightarrow>
              if may_take_tasks x (i_session_id owner) then CallerSession (s_id x)
              else if i_session_id owner = None then
                Unidentified (''the only open session '' @ quoted (s_id x) @
                  '' belongs to another conversation, and this caller has no conversation id. '' @
                  ''Set CLAUDE_CODE_SESSION_ID'')
              else
                Unidentified (''the only open session '' @ quoted (s_id x) @
                  '' belongs to another conversation'')
          | Inl e \<Rightarrow>
              Unidentified
                (case ambiguity_message e
                        ''set CLAUDE_CODE_SESSION_ID, or pass --other-session <SESSION_ID>'' of
                   Some m \<Rightarrow> m
                 | None \<Rightarrow> ''no session of yours is open in this project'')))"

section \<open>Refusals and overrides\<close>

record override_note =
  o_slug :: string
  o_text :: string
  o_owner_less :: bool

definition refuse_unless_caller ::
  "string \<Rightarrow> caller \<Rightarrow> (string \<Rightarrow> ownership_error) \<Rightarrow> err + unit" where
  "refuse_unless_caller owner c what =
     (if c = CallerSession owner then Inr ()
      else Inl (OwnerE (what
        (case c of
           CallerSession i \<Rightarrow> ''your session is '' @ quoted i
         | Unidentified reason \<Rightarrow> reason))))"

definition ownership_note ::
  "string \<Rightarrow> task \<Rightarrow> caller \<Rightarrow> string option \<Rightarrow> err + override_note option" where
  "ownership_note slug t c other =
     (case t_session t of
        None \<Rightarrow>
          Inr (Some \<lparr>o_slug = slug,
            o_text = ''acted on a task with no session; caller: '' @ describe c,
            o_owner_less = True\<rparr>)
      | Some owner \<Rightarrow>
          if c = CallerSession owner then Inr None
          else (case other of
              Some named \<Rightarrow>
                if named = owner then
                  Inr (Some \<lparr>o_slug = slug,
                    o_text = ''acted on with --other-session '' @ owner @ ''; caller: '' @ describe c,
                    o_owner_less = False\<rparr>)
                else Inl (OwnerE (TaskOwnedBy slug owner named))
            | None \<Rightarrow>
                seqR (refuse_unless_caller owner c (RefusedTask slug owner)) (\<lambda>_. Inr None)))"

definition ensure_tasks_are_ours ::
  "env \<Rightarrow> store \<Rightarrow> string list \<Rightarrow> caller \<Rightarrow> string option \<Rightarrow> err + (string \<times> override_note option) list" where
  "ensure_tasks_are_ours e s inputs c other =
     seqR (each_res check_identifier inputs) (\<lambda>_.
     seqR (list_tasks_strict s) (\<lambda>ts.
     map_res (\<lambda>input.
       seqR (resolve_in e s input ts) (\<lambda>slug.
       case find (\<lambda>t. t_slug t = slug) ts of
         None \<Rightarrow> Inl (LookupE (TaskNotInStore slug))
       | Some t \<Rightarrow> seqR (ownership_note slug t c other) (\<lambda>note. Inr (slug, note)))) inputs))"

definition ensure_task_is_ours ::
  "env \<Rightarrow> store \<Rightarrow> string \<Rightarrow> caller \<Rightarrow> string option \<Rightarrow> err + string \<times> override_note option" where
  "ensure_task_is_ours e s input c other =
     seqR (ensure_tasks_are_ours e s [input] c other) (\<lambda>xs.
     case xs of x # _ \<Rightarrow> Inr x | [] \<Rightarrow> Inl (LookupE (NoTaskChecked input)))"

definition ensure_session_is_ours ::
  "string \<Rightarrow> caller \<Rightarrow> string option \<Rightarrow> err + string option" where
  "ensure_session_is_ours i c other =
     (if c = CallerSession i then Inr None
      else (case other of
          Some named \<Rightarrow>
            if named = i then
              Inr (Some (''acted on with --other-session '' @ i @ ''; caller: '' @ describe c))
            else Inl (OwnerE (ActsOnOther i named))
        | None \<Rightarrow> seqR (refuse_unless_caller i c (RefusedSession i)) (\<lambda>_. Inr None)))"

definition ensure_named_session_takes_tasks ::
  "store \<Rightarrow> string \<Rightarrow> identity \<Rightarrow> string option \<Rightarrow> err + bool" where
  "ensure_named_session_takes_tasks s i owner other =
     seqR (list_sessions_strict s) (\<lambda>xs.
     case find (\<lambda>x. s_id x = i) xs of
       None \<Rightarrow> Inr False
     | Some x \<Rightarrow>
         if may_take_tasks x (i_session_id owner) then Inr False
         else if other = Some i then Inr True
         else Inl (OwnerE (ForeignSession i)))"

definition ensure_parent_in_session ::
  "task option \<Rightarrow> string \<Rightarrow> string option \<Rightarrow> err + unit" where
  "ensure_parent_in_session parent parent_slug child_session =
     (case parent of
        None \<Rightarrow> Inl (ParentE (ParentNotFound parent_slug))
      | Some p \<Rightarrow>
          (case t_session p of
             Some i \<Rightarrow>
               if Some i = child_session then Inr ()
               else Inl (ParentE (ParentOtherSession (t_slug p) i))
           | None \<Rightarrow> Inl (ParentE (ParentNoSession (t_slug p)))))"

definition check_child_parent :: "task \<Rightarrow> string \<Rightarrow> err + unit" where
  "check_child_parent p i =
     (if t_state p = Done then Inl (ParentE (ChildParentDone (t_slug p)))
      else if t_session p = None then Inl (ParentE (ChildParentNoSession (t_slug p) i))
      else if t_session p \<noteq> Some i then Inl (ParentE (ChildParentOtherSession (t_slug p)))
      else Inr ())"

definition check_owner_less_delete :: "caller \<Rightarrow> err + unit" where
  "check_owner_less_delete c =
     (case c of CallerSession _ \<Rightarrow> Inr () | Unidentified reason \<Rightarrow> Inl (OwnerE (OwnerLessRefused reason)))"

definition record_owner_less_delete :: "caller \<Rightarrow> string list \<Rightarrow> unit task_cmd" where
  "record_owner_less_delete c slugs =
     (case c of
        Unidentified _ \<Rightarrow> lft (check_owner_less_delete c)
      | CallerSession i \<Rightarrow>
          map_error (InContext (CtxOwnerNoteUnsaved i))
            (append_override_note i
              (Some (''Deleted tasks with no session: '' @ join_str '', '' slugs @ ''. Caller: '' @
                 describe c @ ''.''))))"

section \<open>What the checks decide\<close>

text \<open>A caller is a session exactly when it was picked among the open ones and may take tasks.\<close>

lemma caller_session_iff:
  "caller_session s project owner = Inr (CallerSession i) \<longleftrightarrow>
     (\<exists>opens x. open_sessions_strict s project = Inr opens \<and> pick_open_session opens owner = Inr x \<and>
        may_take_tasks x (i_session_id owner) \<and> s_id x = i)"
proof (cases "open_sessions_strict s project")
  case (Inr opens)
  then show ?thesis
    by (cases "pick_open_session opens owner") (auto simp: caller_session_def)
qed (simp add: caller_session_def)

lemma caller_session_owned:
  assumes "caller_session s project owner = Inr (CallerSession i)"
  shows "\<exists>x \<in> set (store_sessions s). s_id x = i \<and> is_open x \<and> s_project x = project \<and>
    (s_owner_session x = None \<or> s_owner_session x = i_session_id owner)"
proof -
  obtain opens x where o: "open_sessions_strict s project = Inr opens"
    and p: "pick_open_session opens owner = Inr x"
    and m: "may_take_tasks x (i_session_id owner)" "s_id x = i"
    using assms by (auto simp: caller_session_iff)
  obtain xs where xs: "list_sessions_strict s = Inr xs" "opens = open_visible xs project None"
    using o by (auto simp: open_sessions_strict_def seqR_ok)
  have "x \<in> set (store_sessions s)" "is_open x" "s_project x = project"
    using pick_open_session_mem[OF p] xs list_sessions_strict_ok[OF xs(1)]
    by (auto simp: open_visible_def)
  then show ?thesis
    using m by (auto simp: may_take_tasks_def split: option.splits)
qed

text \<open>
  The whole decision table of \<open>ownership_note\<close>: no note for the caller's own task, a note for a
  task with no session or a matching override, a refusal otherwise.
\<close>

lemma ownership_note_iff:
  "(\<exists>n. ownership_note slug t c other = Inr n) \<longleftrightarrow>
     (case t_session t of None \<Rightarrow> True
      | Some owner \<Rightarrow> c = CallerSession owner \<or> other = Some owner)"
  by (auto simp: ownership_note_def refuse_unless_caller_def split: option.splits)

lemma ownership_note_None:
  "ownership_note slug t c other = Inr None \<longleftrightarrow>
     (\<exists>owner. t_session t = Some owner \<and> c = CallerSession owner)"
  by (auto simp: ownership_note_def refuse_unless_caller_def split: option.splits)

lemma ownership_note_Some:
  assumes "ownership_note slug t c other = Inr (Some n)"
  shows "o_slug n = slug" "o_owner_less n \<longleftrightarrow> t_session t = None"
    "\<not> o_owner_less n \<Longrightarrow> t_session t = other"
  using assms
  by (auto simp: ownership_note_def refuse_unless_caller_def split: option.splits if_splits)

lemma ensure_session_is_ours_iff:
  "(\<exists>n. ensure_session_is_ours i c other = Inr n) \<longleftrightarrow> c = CallerSession i \<or> other = Some i"
  by (auto simp: ensure_session_is_ours_def refuse_unless_caller_def split: option.splits)

lemma ensure_tasks_are_ours_ok:
  assumes "ensure_tasks_are_ours e s inputs c other = Inr rs" and "well_named_tasks s"
  shows "length rs = length inputs \<and>
    (\<forall>k < length rs. \<exists>t. load_task s (fst (rs ! k)) = Inr t \<and> starts_with (fst (rs ! k)) (inputs ! k) \<and>
       ownership_note (fst (rs ! k)) t c other = Inr (snd (rs ! k)))"
proof -
  obtain ts where ts: "list_tasks_strict s = Inr ts"
    and m: "list_all2 (\<lambda>input r.
       seqR (resolve_in e s input ts) (\<lambda>slug.
       case find (\<lambda>t. t_slug t = slug) ts of
         None \<Rightarrow> Inl (LookupE (TaskNotInStore slug))
       | Some t \<Rightarrow> seqR (ownership_note slug t c other) (\<lambda>note. Inr (slug, note))) = Inr r) inputs rs"
    using assms(1) by (auto simp: ensure_tasks_are_ours_def seqR_ok map_res_ok)
  have "\<exists>t. load_task s (fst (rs ! k)) = Inr t \<and> starts_with (fst (rs ! k)) (inputs ! k) \<and>
       ownership_note (fst (rs ! k)) t c other = Inr (snd (rs ! k))" if k: "k < length rs" for k
  proof -
    have len: "length inputs = length rs"
      by (rule list_all2_lengthD[OF m])
    obtain slug t where slug: "resolve_in e s (inputs ! k) ts = Inr slug"
      and f: "find (\<lambda>t. t_slug t = slug) ts = Some t"
      and n: "ownership_note slug t c other = Inr (snd (rs ! k))" "fst (rs ! k) = slug"
      using list_all2_nthD2[OF m k] by (cases "rs ! k") (auto simp: seqR_ok split: option.splits)
    have "t \<in> set ts" "t_slug t = slug"
      using f by (auto simp: find_Some_iff)
    then have "load_task s slug = Inr t"
      using well_named_load[OF assms(2)] list_tasks_strict_ok[OF ts] by auto
    moreover have "starts_with slug (inputs ! k)"
      using slug by (auto simp: resolve_in_def seqR_ok dest: resolve_with_ok(1))
    ultimately show ?thesis using n by auto
  qed
  then show ?thesis
    using list_all2_lengthD[OF m] by simp
qed

text \<open>A parent that passes the checks is in the session of the child.\<close>

lemma check_child_parent_ok:
  "check_child_parent p i = Inr u \<longleftrightarrow> t_state p \<noteq> Done \<and> t_session p = Some i"
  by (auto simp: check_child_parent_def)

lemma ensure_parent_in_session_ok:
  "ensure_parent_in_session parent n cs = Inr u \<longleftrightarrow>
     (\<exists>p i. parent = Some p \<and> t_session p = Some i \<and> cs = Some i)"
  by (auto simp: ensure_parent_in_session_def split: option.splits)

end
