(* ===== verification/Task_Ops.thy ===== *)
theory Task_Ops
  imports Ownership
begin

text \<open>
  The operations on tasks: \<open>add\<close>, \<open>start\<close>, \<open>delete\<close>, \<open>done\<close>, \<open>wait\<close> and \<open>block\<close> of
  \<open>crates/llmenv-task/src/lib.rs\<close>, \<open>edit.rs\<close>, \<open>note.rs\<close> and \<open>reopen.rs\<close>.  Each is a command on the
  store: its body runs under the store lock, and after a success the activity time of the task's
  session is touched, which never turns a saved change into an error.
\<close>

section \<open>Adding\<close>

datatype parent_spec = Explicit string | Detached

record new_task =
  nt_title :: string
  nt_detail :: "string option"
  nt_placement :: placement
  nt_after :: "string option"

text \<open>The names that a new task refers to, in the order of the array in the code.\<close>

definition add_names :: "new_task \<Rightarrow> parent_spec \<Rightarrow> string list" where
  "add_names new parent =
     (case parent of Explicit p \<Rightarrow> [p] | Detached \<Rightarrow> []) @
     (case nt_placement new of PlaceChild p \<Rightarrow> [p] | _ \<Rightarrow> []) @
     (case nt_after new of Some a \<Rightarrow> [a] | None \<Rightarrow> [])"

definition resolve_name :: "env \<Rightarrow> store \<Rightarrow> task list option \<Rightarrow> string \<Rightarrow> err + string" where
  "resolve_name e s all_tasks name =
     (case all_tasks of
        None \<Rightarrow> Inl (LookupE (StoreNotRead name))
      | Some ts \<Rightarrow> resolve_in e s name ts)"

definition add_links ::
  "env \<Rightarrow> new_task \<Rightarrow> parent_spec \<Rightarrow> string \<Rightarrow> store \<Rightarrow> err + string option \<times> relation \<times> bool \<times> string list" where
  "add_links e new parent i s =
     seqR (each_res check_identifier (add_names new parent)) (\<lambda>_.
     seqR (if add_names new parent = [] then Inr None
           else seqR (list_tasks_strict s) (\<lambda>ts. Inr (Some ts))) (\<lambda>all_tasks.
     seqR (case parent of
             Explicit p \<Rightarrow>
               seqR (resolve_name e s all_tasks p) (\<lambda>slug.
               let parent_task = Option.bind all_tasks (find (\<lambda>t. t_slug t = slug)) in
               seqR (ensure_parent_in_session parent_task slug (Some i)) (\<lambda>_. Inr (Some slug)))
           | Detached \<Rightarrow> Inr None) (\<lambda>explicit_parent.
     seqR (case nt_placement new of
             PlaceQueue \<Rightarrow> Inr (explicit_parent, Queued, False)
           | PlaceParallel \<Rightarrow> Inr (explicit_parent, Queued, True)
           | PlaceChild p \<Rightarrow>
               seqR (resolve_name e s all_tasks p) (\<lambda>slug.
               seqR (load_task s slug) (\<lambda>pt.
               seqR (check_child_parent pt i) (\<lambda>_. Inr (Some slug, Child, False))))) (\<lambda>(p, r, par).
     seqR (case nt_after new of
             Some a \<Rightarrow> seqR (resolve_name e s all_tasks a) (\<lambda>x. Inr [x])
           | None \<Rightarrow> Inr []) (\<lambda>blocked.
     Inr (p, r, par, blocked))))))"

definition base_slug :: "string \<Rightarrow> string \<Rightarrow> string" where
  "base_slug title now =
     (if slugify title = [] then ''task-'' @ filter (\<lambda>c. c \<noteq> CHR '':'' \<and> c \<noteq> CHR ''-'') now
      else slugify title)"

definition add_task_for_session_with ::
  "env \<Rightarrow> new_task \<Rightarrow> parent_spec \<Rightarrow> string \<Rightarrow> task task_cmd" where
  "add_task_for_session_with e new parent i =
     with_store_lock
       (bnd (rd (add_links e new parent i)) (\<lambda>(p, r, par, blocked).
        bnd now_rfc3339 (\<lambda>now.
        bnd (rd (\<lambda>s. Inr (unique_slug (task_dir s) (base_slug (nt_title new) now)))) (\<lambda>slug.
        let t = \<lparr>t_slug = slug, t_title = nt_title new, t_state = Open, t_parent = p,
                 t_relation = r, t_parallel = par, t_blocked_on = blocked, t_notes = [],
                 t_detail = (if nt_detail new = Some [] then None else nt_detail new),
                 t_session = Some i, t_created_at = now, t_updated_at = now\<rparr> in
        bnd (save_task t) (\<lambda>_. ret t)))))"

definition and_touch :: "task task_cmd \<Rightarrow> task task_cmd" where
  "and_touch m = bnd m (\<lambda>t. bnd (touch_task_session t) (\<lambda>_. ret t))"

definition add_task_with ::
  "env \<Rightarrow> new_task \<Rightarrow> parent_spec \<Rightarrow> session_choice \<Rightarrow> string \<Rightarrow> task task_cmd" where
  "add_task_with e new parent choice project =
     bnd (rd (\<lambda>s. resolve_session_for_add s choice project)) (\<lambda>i.
     and_touch (add_task_for_session_with e new parent i))"

definition add_task ::
  "env \<Rightarrow> string \<Rightarrow> parent_spec \<Rightarrow> session_choice \<Rightarrow> string \<Rightarrow> task task_cmd" where
  "add_task e title parent choice project =
     add_task_with e \<lparr>nt_title = title, nt_detail = None, nt_placement = PlaceQueue, nt_after = None\<rparr>
       parent choice project"

section \<open>Starting\<close>

text \<open>The blockers that are not done, each with the task of its subtree that holds it.\<close>

definition unmet_blockers :: "task_map \<Rightarrow> string \<Rightarrow> string list \<Rightarrow> err + (string \<times> string) list" where
  "unmet_blockers m slug blockers =
     seqR (map_res (\<lambda>b. first_undone_in_subtree b slug m) blockers) (\<lambda>us.
     Inr (List.map_filter (\<lambda>(b, u). map_option (\<lambda>x. (b, x)) u) (zip blockers us)))"

definition start_checks :: "env \<Rightarrow> task_target \<Rightarrow> bool \<Rightarrow> store \<Rightarrow> err + task \<times> task list" where
  "start_checks e tgt force s =
     seqR (target_check tgt) (\<lambda>_.
     seqR (list_tasks_strict s) (\<lambda>ts.
     seqR (target_slug_in e tgt s ts) (\<lambda>slug.
     seqR (load_task s slug) (\<lambda>t.
     if t_state t = Done then Inl (TaskE (AlreadyDone slug))
     else
       seqR (if \<not> force \<and> t_blocked_on t \<noteq> []
             then seqR (unmet_blockers (by_slug ts) slug (t_blocked_on t)) (\<lambda>unmet.
                  if unmet \<noteq> [] then Inl (TaskE (BlockedOn slug unmet)) else Inr ())
             else Inr ()) (\<lambda>_.
       seqR (case (if force then None else queue_hold t ts) of
               Some (a, b, c) \<Rightarrow> Inl (TaskE (QueuedBehind a b c))
             | None \<Rightarrow> Inr ()) (\<lambda>_.
       seqR (ancestors_to_start s t force ts) (\<lambda>promoted.
       Inr (t, promoted))))))))"

definition set_wip :: "string \<Rightarrow> task \<Rightarrow> task" where
  "set_wip now t = t\<lparr>t_state := Wip, t_updated_at := now\<rparr>"

definition start_task :: "env \<Rightarrow> task_target \<Rightarrow> bool \<Rightarrow> task task_cmd" where
  "start_task e tgt force =
     and_touch (with_store_lock
       (bnd (rd (start_checks e tgt force)) (\<lambda>(t, promoted).
        bnd now_rfc3339 (\<lambda>now.
        bnd (each (\<lambda>a. save_task (set_wip now a)) promoted) (\<lambda>_.
        bnd (save_task (set_wip now t)) (\<lambda>_. ret (set_wip now t)))))))"

section \<open>Deleting\<close>

definition remove_task_file :: "string \<Rightarrow> unit task_cmd" where
  "remove_task_file slug s =
     (case remove_json slug (task_dir s) of
        Inl k \<Rightarrow> (Inl (IoError k), s)
      | Inr d \<Rightarrow> (Inr (), s\<lparr>task_dir := d\<rparr>))"

definition delete_task :: "env \<Rightarrow> task_target \<Rightarrow> task task_cmd" where
  "delete_task e tgt =
     with_store_lock
       (bnd (rd (target_slug e tgt)) (\<lambda>slug.
        bnd (rd (\<lambda>s. load_task s slug)) (\<lambda>t.
        bnd (remove_task_file slug) (\<lambda>_. ret t))))"

section \<open>Completing\<close>

record completed =
  c_task :: task
  c_prior :: task_state
  c_undone_children :: "string list"

definition undone_children_note :: "completed \<Rightarrow> string option" where
  "undone_children_note c =
     (if c_undone_children c = [] then None
      else Some (''Note: '' @ quoted (t_slug (c_task c)) @
        '' was closed while its sub-tasks were not done ('' @
        join_str '', '' (c_undone_children c) @ ''); --force skipped the check.''))"

definition skipped_start_note :: "completed \<Rightarrow> string option" where
  "skipped_start_note c =
     (if c_prior c \<noteq> Open then None
      else Some (''Note: '' @ quoted (t_slug (c_task c)) @
        '' was never started (open -> done); --force skipped the start. If its work is not '' @
        ''finished, run `llmenv task start --reopen '' @ t_slug (c_task c) @ ''`.''))"

definition forced_close_text :: "task_state \<Rightarrow> caller \<Rightarrow> string" where
  "forced_close_text prior c =
     ''Closed by done --force from '' @ as_str prior @ '' (by '' @ describe c @ '').''"

definition close_checks :: "env \<Rightarrow> task_target \<Rightarrow> bool \<Rightarrow> store \<Rightarrow> err + task \<times> string list" where
  "close_checks e tgt force s =
     seqR (target_check tgt) (\<lambda>_.
     seqR (list_tasks_strict s) (\<lambda>ts.
     seqR (target_slug_in e tgt s ts) (\<lambda>slug.
     seqR (load_task s slug) (\<lambda>t.
     if t_state t = Open \<and> \<not> force then Inl (TaskE (NeverStarted slug))
     else
       let undone = undone_descendants slug ts in
       if \<not> force \<and> undone \<noteq> [] then
         Inl (TaskE (UndoneChildren slug (map (\<lambda>u. (t_slug u, t_state u)) undone)))
       else Inr (t, map t_slug undone)))))"

definition close_task ::
  "env \<Rightarrow> task_target \<Rightarrow> bool \<Rightarrow> caller option \<Rightarrow> completed task_cmd" where
  "close_task e tgt force c =
     bnd (with_store_lock
       (bnd (rd (close_checks e tgt force)) (\<lambda>(t, undone).
        if t_state t \<noteq> Done then
          bnd now_rfc3339 (\<lambda>now.
          let notes = (case c of
                Some cl \<Rightarrow>
                  if force then [\<lparr>n_at = now, n_text = forced_close_text (t_state t) cl\<rparr>] else []
              | None \<Rightarrow> []);
              t' = t\<lparr>t_notes := t_notes t @ notes, t_state := Done, t_updated_at := now\<rparr> in
          bnd (save_task t') (\<lambda>_.
          ret \<lparr>c_task = t', c_prior = t_state t, c_undone_children = undone\<rparr>))
        else ret \<lparr>c_task = t, c_prior = t_state t, c_undone_children = undone\<rparr>)))
     (\<lambda>r. bnd (touch_task_session (c_task r)) (\<lambda>_. ret r))"

definition complete_task :: "env \<Rightarrow> task_target \<Rightarrow> bool \<Rightarrow> completed task_cmd" where
  "complete_task e tgt force = close_task e tgt force None"

definition complete_task_by :: "env \<Rightarrow> task_target \<Rightarrow> bool \<Rightarrow> caller \<Rightarrow> completed task_cmd" where
  "complete_task_by e tgt force c = close_task e tgt force (Some c)"

section \<open>Waiting, blocking, noting\<close>

text \<open>The shared frame: resolve, load, change, stamp, save.\<close>

definition stamped_save :: "task \<Rightarrow> task task_cmd" where
  "stamped_save t =
     bnd now_rfc3339 (\<lambda>now.
     let t' = t\<lparr>t_updated_at := now\<rparr> in
     bnd (save_task t') (\<lambda>_. ret t'))"

definition add_note :: "string \<Rightarrow> task \<Rightarrow> task task_cmd" where
  "add_note text t =
     bnd now_rfc3339 (\<lambda>at_time. ret (t\<lparr>t_notes := t_notes t @ [\<lparr>n_at = at_time, n_text = text\<rparr>]\<rparr>))"

definition wait_task :: "env \<Rightarrow> task_target \<Rightarrow> string \<Rightarrow> task task_cmd" where
  "wait_task e tgt reason =
     and_touch (with_store_lock
       (bnd (rd (target_slug e tgt)) (\<lambda>slug.
        bnd (rd (\<lambda>s. load_task s slug)) (\<lambda>t.
        if t_state t = Done then bail (TaskE (WaitDone slug))
        else bnd (add_note (''Waiting: '' @ reason) (t\<lparr>t_state := Waiting\<rparr>)) stamped_save))))"

definition push_blocker :: "string \<Rightarrow> task \<Rightarrow> task" where
  "push_blocker b t =
     (if b \<in> set (t_blocked_on t) then t else t\<lparr>t_blocked_on := t_blocked_on t @ [b]\<rparr>)"

definition block_checks :: "env \<Rightarrow> task_target \<Rightarrow> string \<Rightarrow> store \<Rightarrow> err + task \<times> string" where
  "block_checks e tgt on s =
     seqR (target_check tgt) (\<lambda>_.
     seqR (check_identifier on) (\<lambda>_.
     seqR (list_tasks_strict s) (\<lambda>ts.
     seqR (target_slug_in e tgt s ts) (\<lambda>slug.
     seqR (resolve_in e s on ts) (\<lambda>on_slug.
     if slug = on_slug then Inl (TaskE (BlockedOnItself slug))
     else seqR (load_task s slug) (\<lambda>t. Inr (t, on_slug)))))))"

definition block_task :: "env \<Rightarrow> task_target \<Rightarrow> string \<Rightarrow> task task_cmd" where
  "block_task e tgt on =
     with_store_lock
       (bnd (rd (block_checks e tgt on)) (\<lambda>(t, on_slug). stamped_save (push_blocker on_slug t)))"

definition note_task :: "env \<Rightarrow> task_target \<Rightarrow> string \<Rightarrow> task task_cmd" where
  "note_task e tgt text =
     and_touch (with_store_lock
       (bnd (rd (target_slug e tgt)) (\<lambda>slug.
        bnd (rd (\<lambda>s. load_task s slug)) (\<lambda>t.
        bnd (add_note text t) stamped_save))))"

definition record_note :: "env \<Rightarrow> override_note \<Rightarrow> unit task_cmd" where
  "record_note e n =
     bnd (map_error (InContext (CtxTaskNoteUnsaved (o_slug n)))
       (note_task e (Input (o_slug n)) (o_text n))) (\<lambda>_. ret ())"

section \<open>Editing\<close>

record task_edit =
  ed_title :: "string option"
  ed_parent :: "string option"
  ed_no_parent :: bool
  ed_block_on :: "string list"
  ed_unblock :: "string list"
  ed_add_note :: "string option"
  ed_delete_note :: "string option"
  ed_detail :: "string option"

definition usize_max :: nat where "usize_max = 2 ^ 64 - 1"

definition resolve_note_index :: "task_note list \<Rightarrow> string \<Rightarrow> err + nat" where
  "resolve_note_index notes i =
     (case parse_unsigned usize_max i of
        Some idx \<Rightarrow>
          if idx < length notes then Inr idx
          else Inl (TaskE (NoteIndexRange idx (length notes)))
      | None \<Rightarrow>
          (case position (\<lambda>n. n_at n = i) notes of
             Some idx \<Rightarrow> Inr idx
           | None \<Rightarrow> Inl (TaskE (NoteNotFound i))))"

definition remove_nth :: "nat \<Rightarrow> 'a list \<Rightarrow> 'a list" where
  "remove_nth k xs = take k xs @ drop (Suc k) xs"

definition edit_parent :: "env \<Rightarrow> task_edit \<Rightarrow> store \<Rightarrow> task list \<Rightarrow> string \<Rightarrow> task \<Rightarrow> err + task" where
  "edit_parent e ed s ts slug t =
     (case ed_parent ed of
        Some p \<Rightarrow>
          seqR (resolve_in e s p ts) (\<lambda>parent_slug.
          if parent_slug = slug then Inl (ParentE (OwnParent slug))
          else
            seqR (ensure_parent_in_session (find (\<lambda>u. t_slug u = parent_slug) ts) parent_slug
                    (t_session t)) (\<lambda>_.
            seqR (reject_cycle s slug parent_slug) (\<lambda>_.
            Inr (t\<lparr>t_parent := Some parent_slug\<rparr>))))
      | None \<Rightarrow> Inr (if ed_no_parent ed then t\<lparr>t_parent := None\<rparr> else t))"

fun edit_block :: "env \<Rightarrow> store \<Rightarrow> task list \<Rightarrow> string \<Rightarrow> string list \<Rightarrow> task \<Rightarrow> err + task" where
  "edit_block e s ts slug [] t = Inr t"
| "edit_block e s ts slug (on # ons) t =
     seqR (resolve_in e s on ts) (\<lambda>on_slug.
     if on_slug = slug then Inl (TaskE (BlockedOnItself slug))
     else edit_block e s ts slug ons (push_blocker on_slug t))"

fun edit_unblock :: "env \<Rightarrow> store \<Rightarrow> task list \<Rightarrow> string list \<Rightarrow> task \<Rightarrow> err + task" where
  "edit_unblock e s ts [] t = Inr t"
| "edit_unblock e s ts (on # ons) t =
     seqR (resolve_in e s on ts) (\<lambda>on_slug.
     edit_unblock e s ts ons (t\<lparr>t_blocked_on := filter (\<lambda>b. b \<noteq> on_slug) (t_blocked_on t)\<rparr>))"

definition edit_names :: "task_edit \<Rightarrow> string list" where
  "edit_names ed =
     (case ed_parent ed of Some p \<Rightarrow> [p] | None \<Rightarrow> []) @ ed_block_on ed @ ed_unblock ed"

definition edit_links :: "env \<Rightarrow> task_target \<Rightarrow> task_edit \<Rightarrow> store \<Rightarrow> err + task" where
  "edit_links e tgt ed s =
     seqR (target_check tgt) (\<lambda>_.
     seqR (each_res check_identifier (edit_names ed)) (\<lambda>_.
     seqR (list_tasks_strict s) (\<lambda>ts.
     seqR (target_slug_in e tgt s ts) (\<lambda>slug.
     seqR (load_task s slug) (\<lambda>t0.
     let t1 = (case ed_title ed of Some x \<Rightarrow> t0\<lparr>t_title := x\<rparr> | None \<Rightarrow> t0) in
     seqR (edit_parent e ed s ts slug t1) (\<lambda>t2.
     seqR (edit_block e s ts slug (ed_block_on ed) t2) (\<lambda>t3.
     edit_unblock e s ts (ed_unblock ed) t3)))))))"

definition edit_notes :: "task_edit \<Rightarrow> task \<Rightarrow> task task_cmd" where
  "edit_notes ed t =
     bnd (case ed_add_note ed of Some text \<Rightarrow> add_note text t | None \<Rightarrow> ret t) (\<lambda>t1.
     case ed_delete_note ed of
       Some i \<Rightarrow>
         bnd (lft (resolve_note_index (t_notes t1) i)) (\<lambda>idx.
         ret (t1\<lparr>t_notes := remove_nth idx (t_notes t1)\<rparr>))
     | None \<Rightarrow> ret t1)"

definition edit_detail :: "task_edit \<Rightarrow> task \<Rightarrow> task" where
  "edit_detail ed t =
     (case ed_detail ed of
        Some d \<Rightarrow> t\<lparr>t_detail := (if d = [] then None else Some d)\<rparr>
      | None \<Rightarrow> t)"

definition edit_task :: "env \<Rightarrow> task_target \<Rightarrow> task_edit \<Rightarrow> task task_cmd" where
  "edit_task e tgt ed =
     and_touch (with_store_lock
       (bnd (rd (edit_links e tgt ed)) (\<lambda>t.
        bnd (edit_notes ed t) (\<lambda>t1.
        stamped_save (edit_detail ed t1)))))"

section \<open>Reopening\<close>

definition mark_reopened :: "string \<Rightarrow> task \<Rightarrow> task task_cmd" where
  "mark_reopened command t =
     bnd now_rfc3339 (\<lambda>now.
     ret (t\<lparr>t_state := Open,
            t_notes := t_notes t @
              [\<lparr>n_at = now, n_text = ''Reopened (`'' @ command @ ''`) after it was marked done.''\<rparr>],
            t_updated_at := now\<rparr>))"

definition reopen_task :: "env \<Rightarrow> task_target \<Rightarrow> task task_cmd" where
  "reopen_task e tgt =
     and_touch (with_store_lock
       (bnd (rd (target_slug e tgt)) (\<lambda>slug.
        bnd (rd (\<lambda>s. load_task s slug)) (\<lambda>t.
        if t_state t \<noteq> Done then ret t
        else bnd (mark_reopened ''task start --reopen'' t) (\<lambda>t'.
          bnd (save_task t') (\<lambda>_. ret t'))))))"

fun load_targets ::
  "env \<Rightarrow> store \<Rightarrow> task list \<Rightarrow> task_target list \<Rightarrow> task list \<Rightarrow> err + task list" where
  "load_targets e s ts [] acc = Inr acc"
| "load_targets e s ts (tgt # tgts) acc =
     seqR (target_slug_in e tgt s ts) (\<lambda>slug.
     if list_all (\<lambda>t. t_slug t \<noteq> slug) acc
     then seqR (load_task s slug) (\<lambda>t. load_targets e s ts tgts (acc @ [t]))
     else load_targets e s ts tgts acc)"

fun refuse_done_parents_loop :: "store \<Rightarrow> task list \<Rightarrow> string list \<Rightarrow> task list \<Rightarrow> err + unit" where
  "refuse_done_parents_loop s named open_parents [] = Inr ()"
| "refuse_done_parents_loop s named open_parents (t # ts) =
     (case t_parent t of
        None \<Rightarrow> refuse_done_parents_loop s named open_parents ts
      | Some p \<Rightarrow>
          if p \<in> set open_parents \<or> list_ex (\<lambda>u. t_slug u = p) named
          then refuse_done_parents_loop s named open_parents ts
          else (case load_task s p of
              Inl err \<Rightarrow> Inl (InContext (CtxParentUnreadable p (t_slug t)) err)
            | Inr parent \<Rightarrow>
                if t_state parent = Done then Inl (ParentE (ReopenDoneParent (t_slug t) p))
                else refuse_done_parents_loop s named (p # open_parents) ts))"

definition refuse_done_parents :: "store \<Rightarrow> task list \<Rightarrow> err + unit" where
  "refuse_done_parents s ts =
     refuse_done_parents_loop s ts [] (filter (\<lambda>t. t_relation t = Child) ts)"

definition reopen_checks :: "env \<Rightarrow> task_target list \<Rightarrow> store \<Rightarrow> err + task list" where
  "reopen_checks e tgts s =
     seqR (each_res target_check tgts) (\<lambda>_.
     seqR (list_tasks_strict s) (\<lambda>ts.
     seqR (load_targets e s ts tgts []) (\<lambda>tasks.
     let refused = filter (\<lambda>t. t_state t \<noteq> Done) tasks in
     if refused \<noteq> [] then Inl (TaskE (NotDone (map (\<lambda>t. (t_slug t, t_state t)) refused)))
     else seqR (refuse_done_parents s tasks) (\<lambda>_. Inr tasks))))"

fun reopen_each :: "task list \<Rightarrow> string list \<Rightarrow> task list task_cmd" where
  "reopen_each [] reopened = ret []"
| "reopen_each (t # ts) reopened =
     bnd (mark_reopened ''task reopen'' t) (\<lambda>t'.
     bnd (map_error (InContext (CtxSaveReopened (t_slug t) reopened)) (save_task t')) (\<lambda>_.
     bnd (reopen_each ts (reopened @ [t_slug t])) (\<lambda>ts'. ret (t' # ts'))))"

fun touch_each :: "task list \<Rightarrow> string list \<Rightarrow> unit task_cmd" where
  "touch_each [] touched = ret ()"
| "touch_each (t # ts) touched =
     (case t_session t of
        None \<Rightarrow> touch_each ts touched
      | Some i \<Rightarrow>
          if i \<in> set touched then touch_each ts touched
          else bnd (touch_task_session t) (\<lambda>_. touch_each ts (i # touched)))"

definition reopen_targets :: "env \<Rightarrow> task_target list \<Rightarrow> task list task_cmd" where
  "reopen_targets e tgts =
     bnd (with_store_lock (bnd (rd (reopen_checks e tgts)) (\<lambda>tasks. reopen_each tasks []))) (\<lambda>tasks.
     bnd (touch_each tasks []) (\<lambda>_. ret tasks))"

definition reopen_resolved :: "env \<Rightarrow> string list \<Rightarrow> task list task_cmd" where
  "reopen_resolved e slugs = reopen_targets e (map Resolved slugs)"

end
