(* ===== verification/Store_Invariant.thy ===== *)
theory Store_Invariant
  imports Task_Ops
begin

text \<open>
  What every command keeps of the store.  From a well-named store every command leads to a
  well-named store, and a session that was finished or abandoned stays so: no command reopens it,
  not even one that fails half way.  Both are one preorder on stores, \<open>good_step\<close>, kept by each
  primitive write and so by every command built from them.
\<close>

definition closed_stays :: "store \<Rightarrow> store \<Rightarrow> bool" where
  "closed_stays s s' \<longleftrightarrow>
     (\<forall>i x. find_json i (entries (session_dir s)) = Some (Parsed x) \<and> \<not> is_open x \<longrightarrow>
        (\<exists>y. find_json i (entries (session_dir s')) = Some (Parsed y) \<and> \<not> is_open y))"

definition good_step :: "store \<Rightarrow> store \<Rightarrow> bool" where
  "good_step s s' \<longleftrightarrow> (well_named s \<longrightarrow> well_named s' \<and> closed_stays s s')"

interpretation good: state_preorder good_step
proof
  fix s t u
  show "good_step s s"
    by (simp add: good_step_def closed_stays_def)
  assume "good_step s t" "good_step t u"
  then show "good_step s u"
    unfolding good_step_def closed_stays_def by meson
qed

lemma good_step_same_sessions:
  assumes "session_dir s' = session_dir s" and "well_named_tasks s \<Longrightarrow> well_named_tasks s'"
  shows "good_step s s'"
  using assms by (auto simp: good_step_def closed_stays_def well_named_def well_named_sessions_def)

section \<open>The primitive writes\<close>

lemma keeps_now: "keeps good_step now_rfc3339"
  unfolding keeps_def
  by (auto simp: now_rfc3339_def well_named_tasks_def intro!: good_step_same_sessions)

lemma keeps_save_task: "keeps good_step (save_task t)"
  unfolding keeps_def by (auto intro!: good_step_same_sessions well_named_tasks_save)

lemma keeps_remove_task_file: "keeps good_step (remove_task_file slug)"
  unfolding keeps_def
  by (auto simp: remove_task_file_def well_named_tasks_def split: sum.splits
      intro!: good_step_same_sessions elim: well_named_remove)

lemma keeps_with_store_lock:
  assumes "keeps good_step m"
  shows "keeps good_step (with_store_lock m)"
  unfolding keeps_def
proof
  fix s
  show "good_step s (snd (with_store_lock m s))"
  proof (cases "make_dir (task_dir s)")
    case (Inl k)
    then show ?thesis by (simp add: with_store_lock_def good.refl)
  next
    case (Inr d)
    let ?s = "s\<lparr>task_dir := d\<rparr>"
    have s: "good_step s ?s"
      using well_named_make_dir[OF _ Inr]
      by (intro good_step_same_sessions) (auto simp: well_named_tasks_def)
    moreover have "good_step ?s (snd (m ?s))"
      using assms by (simp add: keeps_def)
    ultimately show ?thesis
      using Inr by (auto simp: with_store_lock_def split: option.splits intro: good.trans)
  qed
qed

text \<open>Saving a session keeps the names, and reopens nothing if the file it replaces was not closed
  or the new value is closed too.\<close>

lemma save_session_fst_cases:
  obtains e where "save_session x s = (Inl e, snd (save_session x s))"
    "entries (session_dir (snd (save_session x s))) = entries (session_dir s)"
  | "save_session x s = (Inr (), snd (save_session x s))"
    "entries (session_dir (snd (save_session x s))) =
       put_json (s_id x) (Parsed x) (entries (session_dir s))"
    "is_valid_short_name (s_id x)"
proof (cases "save_session x s")
  case (Pair r s')
  show ?thesis
  proof (cases r)
    case (Inl e)
    then show ?thesis
      using that(1) save_session_err[of x s e s'] Pair by simp
  next
    case (Inr u)
    then show ?thesis
      using that(2) save_session_ok[of x s u s'] Pair by simp
  qed
qed

lemma save_session_well_named:
  assumes "well_named_sessions s"
  shows "well_named_sessions (snd (save_session x s))"
proof (cases "is_valid_short_name (s_id x)")
  case valid: True
  show ?thesis
  proof (cases "make_dir (session_dir s)")
    case (Inl k)
    then show ?thesis
      using assms valid by (simp add: save_session_def ensure_plain_name_def ensureR_def)
  next
    case (Inr d)
    have d: "well_named_dir s_id d"
      using well_named_make_dir[OF _ Inr] assms by (simp add: well_named_sessions_def)
    show ?thesis
    proof (cases "write_json (s_id x) x d")
      case (Inl k)
      then show ?thesis
        using Inr d valid
        by (simp add: save_session_def ensure_plain_name_def ensureR_def well_named_sessions_def)
    next
      case w: (Inr d')
      have "well_named_dir s_id d'"
        using well_named_write[OF d make_dir_ok(2)[OF Inr] w valid] .
      then show ?thesis
        using Inr w valid
        by (simp add: save_session_def ensure_plain_name_def ensureR_def well_named_sessions_def)
    qed
  qed
next
  case False
  then show ?thesis
    using assms by (simp add: save_session_def ensure_plain_name_def ensureR_def)
qed

lemma good_step_save_session:
  assumes "\<And>y. well_named s \<Longrightarrow> find_json (s_id x) (entries (session_dir s)) = Some (Parsed y) \<Longrightarrow>
    \<not> is_open y \<Longrightarrow> \<not> is_open x"
  shows "good_step s (snd (save_session x s))"
  unfolding good_step_def
proof (intro impI conjI)
  assume wn: "well_named s"
  then show "well_named (snd (save_session x s))"
    by (simp add: well_named_def save_session_well_named well_named_tasks_def)
  show "closed_stays s (snd (save_session x s))"
  proof (rule save_session_fst_cases[of x s])
    assume "entries (session_dir (snd (save_session x s))) = entries (session_dir s)"
    then show ?thesis by (simp add: closed_stays_def)
  next
    assume "entries (session_dir (snd (save_session x s))) =
        put_json (s_id x) (Parsed x) (entries (session_dir s))"
    then show ?thesis
      using assms[OF wn] by (auto simp: closed_stays_def json_dir.get_put)
  qed
qed

lemma well_named_session_id:
  "well_named s \<Longrightarrow> find_json i (entries (session_dir s)) = Some (Parsed x) \<Longrightarrow> s_id x = i"
  by (auto simp: well_named_def well_named_sessions_def well_named_dir_def dest!: find_json_in)

text \<open>A command that loads a session, changes it without reopening it, and saves it.\<close>

lemma good_step_resave:
  assumes "find_json i (entries (session_dir s)) = Some (Parsed x)"
    and "s_id x' = s_id x" and "\<not> is_open x \<Longrightarrow> \<not> is_open x'"
  shows "good_step s (snd (save_session x' s))"
proof (rule good_step_save_session)
  fix y assume wn: "well_named s" and y: "find_json (s_id x') (entries (session_dir s)) = Some (Parsed y)"
    "\<not> is_open y"
  have "s_id x = i" using well_named_session_id[OF wn assms(1)] .
  then show "\<not> is_open x'" using assms y by simp
qed

lemma keeps_touch_last_activity: "keeps good_step (touch_last_activity i)"
  unfolding touch_last_activity_def
proof (rule keeps_with_store_lock, unfold keeps_def, rule)
  fix s
  let ?b = "\<lambda>s. case load_session s i of
      Inl e \<Rightarrow> if is_not_found e then (Inr (), s) else (Inl (InContext (CtxTouch i) e), s)
    | Inr x \<Rightarrow> if \<not> is_open x then (Inr (), s)
        else bnd now_rfc3339 (\<lambda>now. save_session (x\<lparr>s_last_activity := now\<rparr>)) s"
  show "good_step s (snd (?b s))"
  proof (cases "load_session s i")
    case (Inl e)
    then show ?thesis by (simp add: good.refl)
  next
    case (Inr x)
    let ?s = "s\<lparr>ticks := Suc (ticks s)\<rparr>"
    have "good_step s ?s"
      by (rule good_step_same_sessions) (simp_all add: well_named_tasks_def)
    moreover have "good_step ?s (snd (save_session (x\<lparr>s_last_activity := now\<rparr>) ?s))" for now
      using Inr by (intro good_step_resave[of i _ x]) (auto simp: load_session_ok is_open_def)
    ultimately have "good_step s (snd (save_session (x\<lparr>s_last_activity := now\<rparr>) ?s))" for now
      by (rule good.trans)
    then show ?thesis
      using Inr by (simp add: bnd_def now_rfc3339_def good.refl)
  qed
qed

lemma keeps_append_override_note: "keeps good_step (append_override_note i note)"
  unfolding append_override_note_def
proof (intro good.keeps_option good.keeps_map_error good.keeps_ret keeps_with_store_lock,
    unfold keeps_def, rule)
  fix tx s
  show "good_step s (snd (bnd (rd (\<lambda>s. load_existing_session s i))
      (\<lambda>x. save_session (x\<lparr>s_resume := append_note tx (s_resume x)\<rparr>)) s))"
    by (auto simp: bnd_rd load_existing_session_ok is_open_def good.refl split: sum.splits
        intro!: good_step_resave[of i])
qed

lemma keeps_update_resume: "keeps good_step (update_resume i f)"
  unfolding update_resume_def
proof (rule keeps_with_store_lock, unfold keeps_def, rule)
  fix s
  let ?body = "\<lambda>x. if \<not> is_open x then bail (SessionE (SessionClosed i))
      else bnd now_rfc3339 (\<lambda>now.
        let x' = x\<lparr>s_resume := f (s_resume x), s_last_activity := now\<rparr> in
        bnd (save_session x') (\<lambda>_. ret x'))"
  show "good_step s (snd (bnd (rd (\<lambda>s. load_existing_session s i)) ?body s))"
  proof (cases "load_existing_session s i")
    case (Inl e)
    then show ?thesis by (simp add: bnd_rd good.refl)
  next
    case (Inr x)
    let ?s = "s\<lparr>ticks := Suc (ticks s)\<rparr>" and ?now = "clock s (ticks s)"
    let ?x = "x\<lparr>s_resume := f (s_resume x), s_last_activity := ?now\<rparr>"
    have "good_step s ?s"
      by (rule good_step_same_sessions) (simp_all add: well_named_tasks_def)
    moreover have "good_step ?s (snd (save_session ?x ?s))"
      using Inr by (intro good_step_resave[of i _ x]) (auto simp: load_existing_session_ok is_open_def)
    ultimately have "good_step s (snd (save_session ?x ?s))"
      by (rule good.trans)
    then show ?thesis
      using Inr by (auto simp: bnd_rd bnd_def now_rfc3339_def Let_def good.refl split: prod.splits sum.splits)
  qed
qed

lemma keeps_touch_task_session: "keeps good_step (touch_task_session t)"
  unfolding touch_task_session_def
  by (intro good.keeps_intros keeps_touch_last_activity)

lemmas keeps_prims =
  keeps_now keeps_save_task keeps_remove_task_file keeps_with_store_lock keeps_touch_task_session
  keeps_append_override_note keeps_update_resume

section \<open>The task operations\<close>

lemma keeps_and_touch: "keeps good_step m \<Longrightarrow> keeps good_step (and_touch m)"
  unfolding and_touch_def by (intro good.keeps_intros keeps_prims)

lemma keeps_stamped_save: "keeps good_step (stamped_save t)"
  unfolding stamped_save_def by (intro good.keeps_intros keeps_prims)

lemma keeps_add_note: "keeps good_step (add_note text t)"
  unfolding add_note_def by (intro good.keeps_intros keeps_prims)

lemma keeps_mark_reopened: "keeps good_step (mark_reopened command t)"
  unfolding mark_reopened_def by (intro good.keeps_intros keeps_prims)

lemmas keeps_helpers =
  keeps_prims keeps_and_touch keeps_stamped_save keeps_add_note keeps_mark_reopened

lemma keeps_add_task_with: "keeps good_step (add_task_with e new parent choice project)"
  unfolding add_task_with_def add_task_for_session_with_def
  by (intro good.keeps_intros keeps_helpers)

lemma keeps_start_task: "keeps good_step (start_task e tgt force)"
  unfolding start_task_def by (intro good.keeps_intros keeps_helpers)

lemma keeps_delete_task: "keeps good_step (delete_task e tgt)"
  unfolding delete_task_def by (intro good.keeps_intros keeps_helpers)

lemma keeps_close_task: "keeps good_step (close_task e tgt force c)"
  unfolding close_task_def by (intro good.keeps_intros keeps_helpers)

lemma keeps_wait_task: "keeps good_step (wait_task e tgt reason)"
  unfolding wait_task_def by (intro good.keeps_intros keeps_helpers)

lemma keeps_block_task: "keeps good_step (block_task e tgt on)"
  unfolding block_task_def by (intro good.keeps_intros keeps_helpers)

lemma keeps_note_task: "keeps good_step (note_task e tgt text)"
  unfolding note_task_def by (intro good.keeps_intros keeps_helpers)

lemma keeps_record_note: "keeps good_step (record_note e n)"
  unfolding record_note_def by (intro good.keeps_intros keeps_note_task)

lemma keeps_edit_notes: "keeps good_step (edit_notes ed t)"
  unfolding edit_notes_def by (intro good.keeps_intros keeps_helpers)

lemma keeps_edit_task: "keeps good_step (edit_task e tgt ed)"
  unfolding edit_task_def by (intro good.keeps_intros keeps_helpers keeps_edit_notes)

lemma keeps_reopen_task: "keeps good_step (reopen_task e tgt)"
  unfolding reopen_task_def by (intro good.keeps_intros keeps_helpers)

lemma keeps_reopen_each: "keeps good_step (reopen_each ts reopened)"
  by (induction ts arbitrary: reopened) (auto intro!: good.keeps_intros keeps_helpers)

lemma keeps_touch_each: "keeps good_step (touch_each ts touched)"
proof (induction ts arbitrary: touched)
  case (Cons t ts)
  then show ?case
    by (cases "t_session t") (auto intro!: good.keeps_intros keeps_helpers)
qed (auto intro: good.keeps_ret)

lemma keeps_reopen_targets: "keeps good_step (reopen_targets e tgts)"
  unfolding reopen_targets_def
  by (intro good.keeps_intros keeps_helpers keeps_reopen_each keeps_touch_each)

lemma keeps_record_owner_less_delete: "keeps good_step (record_owner_less_delete c slugs)"
  unfolding record_owner_less_delete_def
  by (cases c) (auto intro!: good.keeps_intros keeps_prims)

lemmas keeps_task_ops =
  keeps_add_task_with keeps_start_task keeps_delete_task keeps_close_task keeps_wait_task
  keeps_block_task keeps_note_task keeps_record_note keeps_edit_task keeps_reopen_task
  keeps_reopen_targets keeps_record_owner_less_delete

end
