(* ===== verification/Session_Ops.thy ===== *)
theory Session_Ops
  imports Store_Invariant
begin

text \<open>
  Starting, resuming, replacing and finishing sessions: \<open>crates/llmenv-task/src/session.rs\<close> with
  \<open>session/checkpoint.rs\<close> and \<open>session/finish.rs\<close>.  Main results: a session never finishes over an
  unfinished task unless the caller asks to abandon it, and then every unfinished task is untagged
  before the session closes; starting never overwrites a stored session; each operation keeps
  \<open>good_step\<close>.
\<close>

section \<open>Starting\<close>

record start_request =
  q_name :: "string option"
  q_description :: "string option"
  q_project :: string
  q_owner :: identity
  q_resume :: resume_context

datatype start_decision = Auto | ResumeId string | Replace | New

datatype start_outcome = Created session | Resumed session | Replaced session "session list"

definition make_sessions_dir :: "unit task_cmd" where
  "make_sessions_dir s =
     (case make_dir (session_dir s) of
        Inl k \<Rightarrow> (Inl (IoError k), s)
      | Inr d \<Rightarrow> (Inr (), s\<lparr>session_dir := d\<rparr>))"

definition session_base_slug :: "string option \<Rightarrow> string" where
  "session_base_slug name =
     (case name of
        None \<Rightarrow> ''session''
      | Some n \<Rightarrow> if slugify n = [] then ''session'' else slugify n)"

definition create_session :: "start_request \<Rightarrow> session task_cmd" where
  "create_session q =
     bnd make_sessions_dir (\<lambda>_.
     bnd (rd (\<lambda>s. Inr (unique_slug (session_dir s) (session_base_slug (q_name q))))) (\<lambda>i.
     bnd now_rfc3339 (\<lambda>now.
     let x = claim (q_owner q)
           \<lparr>s_id = i, s_name = q_name q, s_project = q_project q, s_description = q_description q,
            s_started_at = now, s_last_activity = now, s_finished_at = None, s_abandoned_at = None,
            s_owner_session = None, s_owner_pid = None, s_resume = q_resume q\<rparr> in
     bnd (save_session x) (\<lambda>_. ret x))))"

definition resume :: "session \<Rightarrow> start_request \<Rightarrow> session task_cmd" where
  "resume x q =
     bnd now_rfc3339 (\<lambda>now.
     let x1 = claim (q_owner q) (x\<lparr>s_last_activity := now\<rparr>);
         x2 = x1\<lparr>s_resume := apply_resume (q_resume q) (s_resume x1)\<rparr> in
     bnd (save_session x2) (\<lambda>_. ret x2))"

text \<open>The refusal lists the open sessions; its wording is not part of the model.\<close>

definition checkpoint_error :: "session list \<Rightarrow> identity \<Rightarrow> err" where
  "checkpoint_error existing owner = SessionE (SessionsOpen (map s_id existing))"

section \<open>Untagging and abandoning\<close>

definition untag :: "string \<Rightarrow> string \<Rightarrow> task \<Rightarrow> task" where
  "untag now note t =
     t\<lparr>t_notes := t_notes t @ [\<lparr>n_at = now, n_text = note\<rparr>], t_session := None,
       t_updated_at := now\<rparr>"

fun untag_each ::
  "string \<Rightarrow> string \<Rightarrow> string \<Rightarrow> task list \<Rightarrow> task list \<Rightarrow> task list task_cmd" where
  "untag_each i now note untagged [] = ret untagged"
| "untag_each i now note untagged (t # ts) =
     bnd (map_error (InContext (CtxUntagging (t_slug t) i (length untagged)))
           (save_task (untag now note t))) (\<lambda>_.
     untag_each i now note (untagged @ [untag now note t]) ts)"

definition untag_unfinished :: "string \<Rightarrow> task list \<Rightarrow> string \<Rightarrow> string \<Rightarrow> task list task_cmd" where
  "untag_unfinished i ts now note =
     untag_each i now note [] (filter (\<lambda>t. t_state t \<noteq> Done) ts)"

definition tasks_of :: "string \<Rightarrow> task list \<Rightarrow> task list" where
  "tasks_of i ts = filter (\<lambda>t. t_session t = Some i) ts"

definition try_tasks_in_session :: "store \<Rightarrow> string \<Rightarrow> err + task list" where
  "try_tasks_in_session s i = seqR (read_tasks Fail s) (\<lambda>ts. Inr (tasks_of i ts))"

definition abandon_session :: "session \<Rightarrow> task list \<Rightarrow> session task_cmd" where
  "abandon_session x ts =
     bnd now_rfc3339 (\<lambda>now.
     let label = (case s_name x of Some n \<Rightarrow> n | None \<Rightarrow> s_id x);
         note = ''Orphaned: session '' @ quoted label @ '' was abandoned (`session start --replace`) ''
                @ ''before this task was finished.'' in
     bnd (untag_unfinished (s_id x) ts now note) (\<lambda>_.
     let x' = x\<lparr>s_abandoned_at := Some now\<rparr> in
     bnd (save_session x') (\<lambda>_. ret x')))"

fun abandon_each :: "session list \<Rightarrow> task list \<Rightarrow> session list \<Rightarrow> session list task_cmd" where
  "abandon_each [] ts abandoned = ret abandoned"
| "abandon_each (x # xs) ts abandoned =
     bnd (map_error (InContext (CtxAbandon (s_id x) (length abandoned)))
           (abandon_session x (tasks_of (s_id x) ts))) (\<lambda>y.
     abandon_each xs (filter (\<lambda>t. t_session t \<noteq> Some (s_id x)) ts) (abandoned @ [y]))"

definition start_auto :: "env \<Rightarrow> start_request \<Rightarrow> session list \<Rightarrow> start_outcome task_cmd" where
  "start_auto e q existing =
     (if existing = [] then bnd (create_session q) (\<lambda>x. ret (Created x))
      else
        let started = Option.bind (i_pid (q_owner q)) (engine_start e) in
        case only_own_session e existing (q_owner q) started of
          Some own \<Rightarrow> bnd (resume own q) (\<lambda>x. ret (Resumed x))
        | None \<Rightarrow> bail (checkpoint_error existing (q_owner q)))"

definition start_session_as :: "env \<Rightarrow> start_request \<Rightarrow> start_decision \<Rightarrow> start_outcome task_cmd" where
  "start_session_as e q d =
     with_store_lock
       (case d of
          Auto \<Rightarrow>
            bnd (rd (\<lambda>s. open_sessions_strict s (q_project q))) (start_auto e q)
        | ResumeId i \<Rightarrow>
            bnd (rd (\<lambda>s. load_existing_session s i)) (\<lambda>x.
            if \<not> is_open x then bail (SessionE (SessionClosed i))
            else bnd (resume x q) (\<lambda>y. ret (Resumed y)))
        | Replace \<Rightarrow>
            bnd (rd (\<lambda>s. open_sessions_strict s (q_project q))) (\<lambda>existing.
            bnd (rd (\<lambda>s. if existing = [] then Inr [] else read_tasks Fail s)) (\<lambda>ts.
            bnd (abandon_each existing ts []) (\<lambda>abandoned.
            bnd (create_session q) (\<lambda>x. ret (Replaced x abandoned)))))
        | New \<Rightarrow> bnd (create_session q) (\<lambda>x. ret (Created x)))"

section \<open>Finishing\<close>

record finish_outcome =
  f_session :: session
  f_done :: nat
  f_total :: nat
  f_abandoned :: "task list"

definition unfinished_error :: "string \<Rightarrow> task list \<Rightarrow> err" where
  "unfinished_error i ts = SessionE (UnfinishedTasks i (map (\<lambda>t. (t_state t, t_slug t)) ts))"

definition finish_checks :: "string \<Rightarrow> bool \<Rightarrow> store \<Rightarrow> err + session \<times> task list" where
  "finish_checks i abandon_open s =
     seqR (load_existing_session s i) (\<lambda>x.
     if \<not> is_open x then Inl (SessionE (SessionAlreadyClosed i))
     else
       seqR (try_tasks_in_session s (s_id x)) (\<lambda>ts.
       let unfinished = filter (\<lambda>t. t_state t \<noteq> Done) ts in
       if unfinished \<noteq> [] \<and> \<not> abandon_open then Inl (unfinished_error i unfinished)
       else Inr (x, ts)))"

definition finish_note :: "session \<Rightarrow> string" where
  "finish_note x =
     ''Dropped: session '' @ quoted (s_id x) @ '' finished (`session finish --abandon-open`) '' @
     ''before this task was finished.''"

definition finish_session :: "string \<Rightarrow> bool \<Rightarrow> finish_outcome task_cmd" where
  "finish_session i abandon_open =
     with_store_lock
       (bnd (rd (finish_checks i abandon_open)) (\<lambda>(x, ts).
        bnd now_rfc3339 (\<lambda>now.
        bnd (untag_unfinished (s_id x) ts now (finish_note x)) (\<lambda>abandoned.
        let x' = x\<lparr>s_finished_at := Some now\<rparr> in
        bnd (map_error (InContext (CtxStaysOpen i (length abandoned))) (save_session x')) (\<lambda>_.
        ret \<lparr>f_session = x', f_done = length ts - length (filter (\<lambda>t. t_state t \<noteq> Done) ts),
             f_total = length ts, f_abandoned = abandoned\<rparr>)))))"

fun delete_each :: "string \<Rightarrow> nat \<Rightarrow> nat \<Rightarrow> task list \<Rightarrow> unit task_cmd" where
  "delete_each i n_all k [] = ret ()"
| "delete_each i n_all k (t # ts) =
     bnd (map_error (InContext (CtxDelete (t_slug t) k n_all i)) (remove_task_file (t_slug t))) (\<lambda>_.
     delete_each i n_all (Suc k) ts)"

definition delete_tasks_in_session :: "string \<Rightarrow> task list task_cmd" where
  "delete_tasks_in_session i =
     with_store_lock
       (bnd (rd (\<lambda>s. try_tasks_in_session s i)) (\<lambda>ts.
        bnd (delete_each i (length ts) 0 ts) (\<lambda>_. ret ts)))"

section \<open>Every session operation is a good step\<close>

lemma fresh_not_parsed: "\<not> file_exists d n \<Longrightarrow> find_json n (entries d) \<noteq> Some (Parsed v)"
  by (auto simp: file_exists_def)

lemma good_step_ticks: "good_step s (s\<lparr>ticks := k\<rparr>)"
  by (rule good_step_same_sessions) (simp_all add: well_named_tasks_def)

lemma session_in_store:
  assumes "well_named s" and "x \<in> set (store_sessions s)"
  shows "find_json (s_id x) (entries (session_dir s)) = Some (Parsed x)"
proof -
  obtain n where n: "JsonFile n (Parsed x) \<in> set (entries (session_dir s))"
    using assms(2) by (auto simp: store_sessions_def parsed_in split: if_splits)
  then have "n = s_id x" "distinct (json_names (entries (session_dir s)))"
    using assms(1) by (auto simp: well_named_def well_named_sessions_def well_named_dir_def)
  then show ?thesis
    using find_json_distinct n by auto
qed

lemma save_session_snd_bnd: "snd (bnd (save_session x) (\<lambda>_. ret y) s) = snd (save_session x s)"
  by (auto simp: bnd_def split: prod.splits sum.splits)

lemma good_step_resume:
  assumes "\<And>y. well_named s \<Longrightarrow> find_json (s_id x) (entries (session_dir s)) = Some (Parsed y) \<Longrightarrow>
    \<not> is_open y \<Longrightarrow> \<not> is_open x"
  shows "good_step s (snd (resume x q s))"
proof -
  let ?s = "s\<lparr>ticks := Suc (ticks s)\<rparr>"
  let ?x1 = "claim (q_owner q) (x\<lparr>s_last_activity := clock s (ticks s)\<rparr>)"
  let ?x = "?x1\<lparr>s_resume := apply_resume (q_resume q) (s_resume ?x1)\<rparr>"
  have open_same: "is_open ?x = is_open x"
    using is_open_claim[of "q_owner q" "x\<lparr>s_last_activity := clock s (ticks s)\<rparr>"]
    by (simp add: is_open_def)
  have id_same: "s_id ?x = s_id x"
    using s_id_claim[of "q_owner q" "x\<lparr>s_last_activity := clock s (ticks s)\<rparr>"] by simp
  have "good_step ?s (snd (save_session ?x ?s))"
  proof (rule good_step_save_session)
    fix y assume wn: "well_named ?s"
      and y: "find_json (s_id ?x) (entries (session_dir ?s)) = Some (Parsed y)" "\<not> is_open y"
    have "well_named s"
      using wn by (simp add: well_named_def well_named_tasks_def well_named_sessions_def)
    then show "\<not> is_open ?x"
      using assms[of y] y unfolding open_same id_same by simp
  qed
  then have "good_step s (snd (save_session ?x ?s))"
    by (rule good.trans[OF good_step_ticks])
  then show ?thesis
    by (simp add: resume_def bnd_def now_rfc3339_def Let_def
        save_session_snd_bnd[unfolded bnd_def])
qed

lemma good_step_save_closed: "\<not> is_open x \<Longrightarrow> good_step s (snd (save_session x s))"
  by (rule good_step_save_session) simp

lemma keeps_make_sessions_dir: "keeps good_step make_sessions_dir"
  unfolding keeps_def
proof
  fix s
  show "good_step s (snd (make_sessions_dir s))"
  proof (cases "make_dir (session_dir s)")
    case (Inr d)
    have "well_named (s\<lparr>session_dir := d\<rparr>)" if "well_named s"
      using that well_named_make_dir[OF _ Inr]
      by (simp add: well_named_def well_named_tasks_def well_named_sessions_def)
    then show ?thesis
      using Inr make_dir_ok(1)[OF Inr]
      by (simp add: make_sessions_dir_def good_step_def closed_stays_def)
  qed (simp add: make_sessions_dir_def good.refl)
qed

lemma keeps_create_session: "keeps good_step (create_session q)"
  unfolding create_session_def
proof (rule good.keeps_bnd[OF keeps_make_sessions_dir], unfold keeps_def, rule)
  fix u :: unit and s :: store
  let ?i = "unique_slug (session_dir s) (session_base_slug (q_name q))"
  let ?s = "s\<lparr>ticks := Suc (ticks s)\<rparr>"
  let ?x = "claim (q_owner q) \<lparr>s_id = ?i, s_name = q_name q, s_project = q_project q,
      s_description = q_description q, s_started_at = clock s (ticks s),
      s_last_activity = clock s (ticks s), s_finished_at = None, s_abandoned_at = None,
      s_owner_session = None, s_owner_pid = None, s_resume = q_resume q\<rparr>"
  have "find_json (s_id ?x) (entries (session_dir ?s)) \<noteq> Some (Parsed y)" for y
    using fresh_not_parsed[OF unique_slug_fresh] by simp
  then have "good_step ?s (snd (save_session ?x ?s))"
    by (intro good_step_save_session) blast
  then have "good_step s (snd (save_session ?x ?s))"
    by (rule good.trans[OF good_step_ticks])
  then show "good_step s (snd (bnd (rd (\<lambda>s. Inr (unique_slug (session_dir s) (session_base_slug (q_name q)))))
      (\<lambda>i. bnd now_rfc3339 (\<lambda>now.
       let x = claim (q_owner q)
           \<lparr>s_id = i, s_name = q_name q, s_project = q_project q, s_description = q_description q,
            s_started_at = now, s_last_activity = now, s_finished_at = None, s_abandoned_at = None,
            s_owner_session = None, s_owner_pid = None, s_resume = q_resume q\<rparr> in
       bnd (save_session x) (\<lambda>_. ret x))) s))"
    by (simp add: bnd_rd bnd_def[of now_rfc3339] now_rfc3339_def Let_def save_session_snd_bnd)
qed

lemma keeps_untag_unfinished: "keeps good_step (untag_unfinished i ts now note)"
proof -
  have "keeps good_step (untag_each i now note acc us)" for acc us
    by (induction us arbitrary: acc) (auto intro!: good.keeps_intros keeps_prims)
  then show ?thesis by (simp add: untag_unfinished_def)
qed

lemma keeps_save_closed: "\<not> is_open x \<Longrightarrow> keeps good_step (save_session x)"
  by (simp add: keeps_def good_step_save_closed)

lemma keeps_abandon_session: "keeps good_step (abandon_session x ts)"
  unfolding abandon_session_def Let_def
  by (intro good.keeps_intros keeps_prims keeps_untag_unfinished keeps_save_closed)
    (simp add: is_open_def)

lemma keeps_abandon_each: "keeps good_step (abandon_each xs ts acc)"
  by (induction xs arbitrary: ts acc) (auto intro!: good.keeps_intros keeps_abandon_session)

lemma keeps_finish_session: "keeps good_step (finish_session i a)"
  unfolding finish_session_def Let_def
  by (intro good.keeps_intros keeps_prims keeps_untag_unfinished keeps_save_closed)
    (simp add: is_open_def)

lemma keeps_delete_tasks_in_session: "keeps good_step (delete_tasks_in_session i)"
proof -
  have "keeps good_step (delete_each i n_all k ts)" for n_all k ts
    by (induction ts arbitrary: k) (auto intro!: good.keeps_intros keeps_prims)
  then show ?thesis
    unfolding delete_tasks_in_session_def by (intro good.keeps_intros keeps_prims)
qed

lemma snd_bnd_ret: "snd (bnd m (\<lambda>x. ret (f x)) s) = snd (m s)"
  by (auto simp: bnd_def split: prod.splits sum.splits)

lemma only_own_session_mem:
  "only_own_session e xs owner started = Some x \<Longrightarrow> x \<in> set xs"
  by (auto simp: only_own_session_def split: list.splits dest!: filter_singleton_in)

lemma open_sessions_strict_mem:
  "open_sessions_strict s project = Inr xs \<Longrightarrow> x \<in> set xs \<Longrightarrow>
     x \<in> set (store_sessions s) \<and> is_open x \<and> s_project x = project"
  by (auto simp: open_sessions_strict_def seqR_ok open_visible_def dest!: list_sessions_strict_ok)

lemma keeps_start_auto:
  "keeps good_step (bnd (rd (\<lambda>s. open_sessions_strict s (q_project q))) (start_auto e q))"
  unfolding keeps_def
proof
  fix s
  show "good_step s (snd (bnd (rd (\<lambda>s. open_sessions_strict s (q_project q))) (start_auto e q) s))"
  proof (cases "open_sessions_strict s (q_project q)")
    case (Inl err)
    then show ?thesis by (simp add: bnd_rd good.refl)
  next
    case (Inr xs)
    show ?thesis
    proof (cases "xs = []")
      case True
      then show ?thesis
        using Inr keeps_create_session[of q] by (simp add: bnd_rd start_auto_def snd_bnd_ret keeps_def)
    next
      case False
      show ?thesis
      proof (cases "only_own_session e xs (q_owner q) (Option.bind (i_pid (q_owner q)) (engine_start e))")
        case None
        then show ?thesis using Inr False by (simp add: bnd_rd start_auto_def good.refl)
      next
        case (Some x)
        have x: "x \<in> set (store_sessions s)" "is_open x"
          using open_sessions_strict_mem[OF Inr only_own_session_mem[OF Some]] by auto
        have "good_step s (snd (resume x q s))"
          by (rule good_step_resume) (use x session_in_store in auto)
        then show ?thesis
          using Inr False Some by (simp add: bnd_rd start_auto_def snd_bnd_ret)
      qed
    qed
  qed
qed

lemma keeps_resume_id:
  "keeps good_step (bnd (rd (\<lambda>s. load_existing_session s i)) (\<lambda>x.
     if \<not> is_open x then bail (SessionE (SessionClosed i))
     else bnd (resume x q) (\<lambda>y. ret (Resumed y))))"
  unfolding keeps_def
proof
  fix s
  let ?m = "bnd (rd (\<lambda>s. load_existing_session s i)) (\<lambda>x.
     if \<not> is_open x then bail (SessionE (SessionClosed i))
     else bnd (resume x q) (\<lambda>y. ret (Resumed y)))"
  show "good_step s (snd (?m s))"
  proof (cases "load_existing_session s i")
    case (Inr x)
    then have x: "find_json i (entries (session_dir s)) = Some (Parsed x)"
      by (simp add: load_existing_session_ok)
    have "good_step s (snd (resume x q s))" if "is_open x"
    proof (rule good_step_resume)
      fix y assume wn: "well_named s"
        and y: "find_json (s_id x) (entries (session_dir s)) = Some (Parsed y)" "\<not> is_open y"
      show "\<not> is_open x"
        using well_named_session_id[OF wn x] x y by simp
    qed
    then show ?thesis
      using Inr by (simp add: bnd_rd snd_bnd_ret good.refl)
  qed (simp add: bnd_rd good.refl)
qed

lemma keeps_start_session_as: "keeps good_step (start_session_as e q d)"
  unfolding start_session_as_def
proof (rule keeps_with_store_lock, cases d)
  case Auto
  then show "keeps good_step (case d of Auto \<Rightarrow> bnd (rd (\<lambda>s. open_sessions_strict s (q_project q))) (start_auto e q)
        | ResumeId i \<Rightarrow> bnd (rd (\<lambda>s. load_existing_session s i)) (\<lambda>x.
            if \<not> is_open x then bail (SessionE (SessionClosed i))
            else bnd (resume x q) (\<lambda>y. ret (Resumed y)))
        | Replace \<Rightarrow> bnd (rd (\<lambda>s. open_sessions_strict s (q_project q))) (\<lambda>existing.
            bnd (rd (\<lambda>s. if existing = [] then Inr [] else read_tasks Fail s)) (\<lambda>ts.
            bnd (abandon_each existing ts []) (\<lambda>abandoned.
            bnd (create_session q) (\<lambda>x. ret (Replaced x abandoned)))))
        | New \<Rightarrow> bnd (create_session q) (\<lambda>x. ret (Created x)))"
    by (simp add: keeps_start_auto)
qed (auto intro!: keeps_resume_id good.keeps_intros keeps_abandon_each keeps_create_session)

lemmas keeps_session_ops =
  keeps_start_session_as keeps_finish_session keeps_delete_tasks_in_session

end
