(* ===== verification/Display.thy ===== *)
theory Display
  imports Session_Ops
begin

text \<open>
  The listing order and the lookups over it: \<open>filter_by_state\<close>, \<open>display_rows\<close> with \<open>append_forest\<close>
  and \<open>visit\<close>, \<open>execution_order\<close>, the current and the next task (\<open>lib.rs\<close>), the counts of
  \<open>progress.rs\<close>, and the rollup \<open>session_summary\<close> of \<open>session.rs\<close>.  The listing drops nothing and
  repeats nothing, and each indented row stands under its parent's row, whatever the parent links
  look like.
\<close>

record display_row =
  d_depth :: nat
  d_task :: task

definition filter_by_state :: "task list \<Rightarrow> task_state list \<Rightarrow> task list" where
  "filter_by_state ts states =
     (if states = [] then ts else filter (\<lambda>t. t_state t \<in> set states) ts)"

definition session_rank :: "string option \<Rightarrow> string list \<Rightarrow> nat \<times> nat \<times> string" where
  "session_rank key priority =
     (case key of
        Some i \<Rightarrow> (case position (\<lambda>p. p = i) priority of Some k \<Rightarrow> (0, k, []) | None \<Rightarrow> (1, 0, i))
      | None \<Rightarrow> (2, 0, []))"

section \<open>The forest of a group\<close>

definition forest_kids :: "task list \<Rightarrow> string \<Rightarrow> task list" where
  "forest_kids g p =
     (if p \<in> set (map t_slug g) then sort_key queue_order (filter (\<lambda>t. t_parent t = Some p) g) else [])"

text \<open>\<open>visit\<close> over a list of siblings: the visited set is threaded, the rows are appended.\<close>

function visit_list ::
  "task list \<Rightarrow> nat \<Rightarrow> task list \<Rightarrow> string list \<Rightarrow> string list \<times> display_row list" where
  "visit_list g depth [] visited = (visited, [])"
| "visit_list g depth (t # ts) visited =
     (if t_slug t \<in> set visited then visit_list g depth ts visited
      else
        case visit_list g (Suc depth) (forest_kids g (t_slug t)) (t_slug t # visited) of (v1, rows1) \<Rightarrow>
        case visit_list g depth ts v1 of (v2, rows2) \<Rightarrow>
          (v2, \<lparr>d_depth = depth, d_task = t\<rparr> # rows1 @ rows2))"
  by pat_completeness auto

lemma visit_list_visited:
  "visit_list_dom (g, depth, ts, visited) \<Longrightarrow> set visited \<subseteq> set (fst (visit_list g depth ts visited))"
proof (induction rule: visit_list.pinduct)
  case (2 g depth t ts visited)
  show ?case
  proof (cases "t_slug t \<in> set visited")
    case True
    then show ?thesis using 2 by (simp add: visit_list.psimps)
  next
    case False
    obtain v1 rows1 where v1:
      "visit_list g (Suc depth) (forest_kids g (t_slug t)) (t_slug t # visited) = (v1, rows1)"
      by fastforce
    obtain v2 rows2 where v2: "visit_list g depth ts v1 = (v2, rows2)" by fastforce
    have "set visited \<subseteq> set v1"
      using "2.IH"(2)[OF False] v1 by simp
    also have "\<dots> \<subseteq> set v2"
      using "2.IH"(3)[OF False v1[symmetric]] v2 by simp
    finally show ?thesis
      using False v1 v2 "2.hyps" by (simp add: visit_list.psimps)
  qed
qed (simp add: visit_list.psimps)

lemma forest_kids_in: "set (forest_kids g p) \<subseteq> set g"
  by (auto simp: forest_kids_def)

definition unvisited :: "task list \<Rightarrow> task list \<Rightarrow> string list \<Rightarrow> nat" where
  "unvisited g ts visited = card (t_slug ` (set g \<union> set ts) - set visited)"

lemma unvisited_less:
  assumes "t_slug t \<notin> set visited" and "insert (t_slug t) (set visited) \<subseteq> set v"
    and "set us \<subseteq> set g \<union> set ts"
  shows "unvisited g us v < unvisited g (t # ts) visited"
  unfolding unvisited_def using assms by (intro psubset_card_mono) auto

termination visit_list
proof (relation "measures [\<lambda>(g, depth, ts, visited). unvisited g ts visited,
    \<lambda>(g, depth, ts, visited). length ts]")
  fix g ts :: "task list" and depth :: nat and t :: task and visited :: "string list"
  have "unvisited g ts visited \<le> unvisited g (t # ts) visited"
    unfolding unvisited_def by (intro card_mono) auto
  then show "((g, depth, ts, visited), g, depth, t # ts, visited) \<in>
      measures [\<lambda>(g, depth, ts, visited). unvisited g ts visited,
        \<lambda>(g, depth, ts, visited). length ts]"
    by auto
next
  fix g ts :: "task list" and depth :: nat and t :: task and visited :: "string list"
  assume "t_slug t \<notin> set visited"
  then show "((g, Suc depth, forest_kids g (t_slug t), t_slug t # visited), g, depth, t # ts, visited) \<in>
      measures [\<lambda>(g, depth, ts, visited). unvisited g ts visited,
        \<lambda>(g, depth, ts, visited). length ts]"
    using unvisited_less[of t visited "t_slug t # visited" "forest_kids g (t_slug t)" g ts]
      forest_kids_in[of g "t_slug t"] by auto
next
  fix g ts :: "task list" and depth :: nat and t :: task and visited v1 :: "string list" and rows1
  assume n: "t_slug t \<notin> set visited"
    and v: "(v1, rows1) = visit_list g (Suc depth) (forest_kids g (t_slug t)) (t_slug t # visited)"
    and d: "visit_list_dom (g, Suc depth, forest_kids g (t_slug t), t_slug t # visited)"
  have "set (t_slug t # visited) \<subseteq> set v1"
    using visit_list_visited[OF d] v by (metis fst_conv)
  then show "((g, depth, ts, v1), g, depth, t # ts, visited) \<in>
      measures [\<lambda>(g, depth, ts, visited). unvisited g ts visited,
        \<lambda>(g, depth, ts, visited). length ts]"
    using unvisited_less[OF n, of v1 ts g ts] by auto
qed simp

definition is_root :: "task list \<Rightarrow> task \<Rightarrow> bool" where
  "is_root g t = (case t_parent t of Some p \<Rightarrow> p \<notin> set (map t_slug g) | None \<Rightarrow> True)"

definition append_forest :: "task list \<Rightarrow> display_row list" where
  "append_forest g =
     (case visit_list g 0 (sort_key queue_order (filter (is_root g) g)) [] of (v1, rows1) \<Rightarrow>
      case visit_list g 0 (sort_key queue_order (filter (\<lambda>t. t_slug t \<notin> set v1) g)) v1 of (v2, rows2) \<Rightarrow>
        rows1 @ rows2)"

definition display_rows :: "task list \<Rightarrow> string list \<Rightarrow> display_row list" where
  "display_rows ts priority =
     concat (map (\<lambda>key. append_forest (filter (\<lambda>t. t_session t = key) ts))
       (sort_key (\<lambda>key. session_rank key priority) (remdups (map t_session ts))))"

definition execution_order :: "task list \<Rightarrow> task list" where
  "execution_order ts = map d_task (display_rows ts [])"

section \<open>The current and the next task\<close>

definition most_recently_updated :: "task list \<Rightarrow> task option" where
  "most_recently_updated ts = max_by_key t_updated_at ts"

definition resolve_current_task :: "task list \<Rightarrow> task option" where
  "resolve_current_task ts =
     (case most_recently_updated (filter (\<lambda>t. t_state t = Wip) ts) of
        Some t \<Rightarrow> Some t
      | None \<Rightarrow> most_recently_updated (filter (\<lambda>t. t_state t \<noteq> Done) ts))"

definition resolve_next_task :: "task list \<Rightarrow> task list \<Rightarrow> task \<Rightarrow> task option" where
  "resolve_next_task all_tasks session_tasks current =
     (let order = execution_order session_tasks in
      case position (\<lambda>t. t_slug t = t_slug current) order of
        None \<Rightarrow> None
      | Some pos \<Rightarrow> find (\<lambda>t. is_actionable t (by_slug all_tasks)) (drop (pos + 1) order))"

definition filter_tasks_for_project :: "session list \<Rightarrow> string \<Rightarrow> task list \<Rightarrow> task list" where
  "filter_tasks_for_project xs project ts = tasks_in_sessions ts (ids_visible xs project None)"

section \<open>Counts and the rollup\<close>

definition progress_in :: "task list \<Rightarrow> string \<Rightarrow> nat \<times> nat" where
  "progress_in ts i =
     (let mine = tasks_of i ts in (length (filter (\<lambda>t. t_state t = Done) mine), length mine))"

definition wip_title_in :: "task list \<Rightarrow> string list \<Rightarrow> string option" where
  "wip_title_in ts ids =
     map_option t_title (most_recently_updated
       (filter (\<lambda>t. (t_state t = Wip \<or> t_state t = Waiting) \<and>
          (case t_session t of Some i \<Rightarrow> i \<in> set ids | None \<Rightarrow> False)) ts))"

definition try_session_progress :: "store \<Rightarrow> string \<Rightarrow> err + nat \<times> nat" where
  "try_session_progress s i = seqR (list_tasks_strict s) (\<lambda>ts. Inr (progress_in ts i))"

record summary_task =
  st_slug :: string
  st_title :: string
  st_state :: task_state
  st_parent :: "string option"
  st_blocked_on :: "string list"
  st_notes :: "task_note list"
  st_detail :: "string option"

record 'agent session_summary =
  ss_id :: string
  ss_name :: "string option"
  ss_description :: "string option"
  ss_done :: nat
  ss_total :: nat
  ss_tasks :: "summary_task list"
  ss_resume :: resume_context
  ss_agent :: "'agent option"

definition summary_task_of :: "task \<Rightarrow> summary_task" where
  "summary_task_of t =
     \<lparr>st_slug = t_slug t, st_title = t_title t, st_state = t_state t, st_parent = t_parent t,
      st_blocked_on = t_blocked_on t, st_notes = t_notes t, st_detail = t_detail t\<rparr>"

definition session_summary_with_agent ::
  "store \<Rightarrow> string \<Rightarrow> (string \<Rightarrow> 'agent option) \<Rightarrow> err + 'agent session_summary" where
  "session_summary_with_agent s i load_agent =
     seqR (load_existing_session s i) (\<lambda>x.
     seqR (try_tasks_in_session s i) (\<lambda>ts.
     Inr \<lparr>ss_id = s_id x, ss_name = s_name x, ss_description = s_description x,
          ss_done = length (filter (\<lambda>t. t_state t = Done) ts), ss_total = length ts,
          ss_tasks = map (\<lambda>r. summary_task_of (d_task r)) (append_forest ts),
          ss_resume = s_resume x, ss_agent = Option.bind (s_owner_session x) load_agent\<rparr>))"

definition session_summary :: "store \<Rightarrow> string \<Rightarrow> err + unit session_summary" where
  "session_summary s i = session_summary_with_agent s i (\<lambda>_. None)"

section \<open>Nothing is dropped, nothing is repeated\<close>

abbreviation row_slugs :: "display_row list \<Rightarrow> string list" where
  "row_slugs rows \<equiv> map (\<lambda>r. t_slug (d_task r)) rows"

lemma visit_list_props:
  "visit_list g depth ts v = (v', rows) \<Longrightarrow>
     set v' = set v \<union> set (row_slugs rows) \<and> distinct (row_slugs rows) \<and>
     set (row_slugs rows) \<inter> set v = {} \<and> t_slug ` set ts \<subseteq> set v' \<and>
     d_task ` set rows \<subseteq> set ts \<union> set g"
proof (induction g depth ts v arbitrary: v' rows rule: visit_list.induct)
  case (2 g depth t ts v)
  show ?case
  proof (cases "t_slug t \<in> set v")
    case True
    then have "visit_list g depth ts v = (v', rows)"
      using "2.prems" by simp
    from "2.IH"(1)[OF True this] show ?thesis
      using True by auto
  next
    case False
    obtain v1 rows1 where v1:
      "visit_list g (Suc depth) (forest_kids g (t_slug t)) (t_slug t # v) = (v1, rows1)"
      by fastforce
    obtain v2 rows2 where v2: "visit_list g depth ts v1 = (v2, rows2)" by fastforce
    have eq: "v' = v2" "rows = \<lparr>d_depth = depth, d_task = t\<rparr> # rows1 @ rows2"
      using "2.prems" False v1 v2 by simp_all
    note A = "2.IH"(2)[OF False v1]
    note B = "2.IH"(3)[OF False v1[symmetric] v2]
    have "set v' = set v \<union> set (row_slugs rows)"
      using A B eq by auto
    moreover have "distinct (row_slugs rows)" "set (row_slugs rows) \<inter> set v = {}"
      using A B eq False by auto
    moreover have "t_slug ` set (t # ts) \<subseteq> set v'"
      using A B eq by auto
    moreover have "d_task ` set rows \<subseteq> set (t # ts) \<union> set g"
      using A B eq forest_kids_in[of g "t_slug t"] by auto
    ultimately show ?thesis by blast
  qed
qed simp

lemma append_forest_perm:
  assumes "distinct (map t_slug g)"
  shows "mset (map d_task (append_forest g)) = mset g"
proof -
  obtain v1 rows1 where v1: "visit_list g 0 (sort_key queue_order (filter (is_root g) g)) [] = (v1, rows1)"
    by fastforce
  obtain v2 rows2 where v2:
    "visit_list g 0 (sort_key queue_order (filter (\<lambda>t. t_slug t \<notin> set v1) g)) v1 = (v2, rows2)"
    by fastforce
  have eq: "append_forest g = rows1 @ rows2"
    using v1 v2 by (simp add: append_forest_def)
  note A = visit_list_props[OF v1] and B = visit_list_props[OF v2]
  have dist: "distinct (row_slugs (append_forest g))"
    using A B eq by auto
  have sub: "d_task ` set (append_forest g) \<subseteq> set g"
    using A B eq by auto
  have all: "t_slug ` set g \<subseteq> set (row_slugs (append_forest g))"
  proof
    fix x assume "x \<in> t_slug ` set g"
    then obtain t where t: "t \<in> set g" "x = t_slug t" by blast
    have "x \<in> set v2"
      using A B t by (cases "x \<in> set v1") auto
    then show "x \<in> set (row_slugs (append_forest g))"
      using A B eq by auto
  qed
  have "set g \<subseteq> d_task ` set (append_forest g)"
  proof
    fix t assume t: "t \<in> set g"
    then have "t_slug t \<in> set (row_slugs (append_forest g))"
      using all by blast
    then obtain r where r: "r \<in> set (append_forest g)" "t_slug (d_task r) = t_slug t"
      by auto
    have "inj_on t_slug (set g)"
      using assms by (simp add: distinct_map)
    then have "d_task r = t"
      using r t sub by (meson imageI inj_onD subsetD)
    then show "t \<in> d_task ` set (append_forest g)" using r by blast
  qed
  then have "set (map d_task (append_forest g)) = set g"
    using sub by auto
  moreover have "distinct (map d_task (append_forest g))"
    using dist distinct_map[of t_slug "map d_task (append_forest g)"] by (simp add: comp_def)
  moreover have "distinct g"
    using assms by (simp add: distinct_map)
  ultimately show ?thesis
    using set_eq_iff_mset_eq_distinct by blast
qed

lemma sum_single_key:
  "distinct keys \<Longrightarrow> (\<Sum>k\<leftarrow>keys. if k = a then X else {#}) = (if a \<in> set keys then X else {#})"
  by (induction keys) auto

lemma mset_groups:
  assumes "distinct keys" and "f ` set ts \<subseteq> set keys"
  shows "(\<Sum>k\<leftarrow>keys. mset (filter (\<lambda>t. f t = k) ts)) = mset ts"
  using assms
proof (induction ts)
  case Nil
  then show ?case by (induction keys) auto
next
  case (Cons t ts)
  have "(\<Sum>k\<leftarrow>keys. mset (filter (\<lambda>u. f u = k) (t # ts))) =
      (\<Sum>k\<leftarrow>keys. (if k = f t then {#t#} else {#})) + (\<Sum>k\<leftarrow>keys. mset (filter (\<lambda>u. f u = k) ts))"
    by (induction keys) auto
  also have "(\<Sum>k\<leftarrow>keys. (if k = f t then {#t#} else {#})) = {#t#}"
    using Cons.prems by (simp add: sum_single_key)
  finally show ?case using Cons by simp
qed

lemma display_rows_perm:
  assumes "distinct (map t_slug ts)"
  shows "mset (map d_task (display_rows ts priority)) = mset ts"
proof -
  let ?keys = "sort_key (\<lambda>key. session_rank key priority) (remdups (map t_session ts))"
  have "mset (map d_task (append_forest (filter (\<lambda>t. t_session t = key) ts))) =
      mset (filter (\<lambda>t. t_session t = key) ts)" for key
    by (rule append_forest_perm) (rule distinct_map_filter[OF assms])
  then have "mset (map d_task (display_rows ts priority)) =
      (\<Sum>key\<leftarrow>?keys. mset (filter (\<lambda>t. t_session t = key) ts))"
    by (simp add: display_rows_def map_concat mset_concat comp_def)
  also have "\<dots> = mset ts"
    by (rule mset_groups) auto
  finally show ?thesis .
qed

text \<open>The order of the groups does not depend on the order in which the set of keys is read.\<close>

lemma session_rank_inject: "session_rank a pr = session_rank b pr \<Longrightarrow> a = b"
  by (auto simp: session_rank_def position_Some split: option.splits)

section \<open>Each indented row stands under its parent\<close>

definition nested :: "nat \<Rightarrow> display_row list \<Rightarrow> bool" where
  "nested base rows \<longleftrightarrow>
     (\<forall>r \<in> set rows. base \<le> d_depth r) \<and>
     (\<forall>pre r post. rows = pre @ r # post \<longrightarrow> base < d_depth r \<longrightarrow>
        (\<exists>before q mid. pre = before @ q # mid \<and> d_depth r = Suc (d_depth q) \<and>
           t_parent (d_task r) = Some (t_slug (d_task q)) \<and> (\<forall>m \<in> set mid. d_depth r \<le> d_depth m)))"

lemma nestedD:
  assumes "nested base rows" and "rows = pre @ r # post" and "base < d_depth r"
  obtains before q mid where "pre = before @ q # mid" "d_depth r = Suc (d_depth q)"
    "t_parent (d_task r) = Some (t_slug (d_task q))" "\<forall>m \<in> set mid. d_depth r \<le> d_depth m"
  using assms unfolding nested_def by blast

lemma nested_Nil [simp]: "nested base []"
  by (simp add: nested_def)

lemma nested_append:
  assumes "nested base xs" and "nested base ys"
  shows "nested base (xs @ ys)"
  unfolding nested_def
proof (intro conjI allI impI)
  show "\<forall>r \<in> set (xs @ ys). base \<le> d_depth r"
    using assms by (auto simp: nested_def)
  fix pre r post assume eq: "xs @ ys = pre @ r # post" and d: "base < d_depth r"
  show "\<exists>before q mid. pre = before @ q # mid \<and> d_depth r = Suc (d_depth q) \<and>
      t_parent (d_task r) = Some (t_slug (d_task q)) \<and> (\<forall>m \<in> set mid. d_depth r \<le> d_depth m)"
  proof (cases "length pre < length xs")
    case True
    then obtain us where "xs = pre @ r # us"
      using eq by (auto simp: append_eq_append_conv2 append_eq_Cons_conv)
    from nestedD[OF assms(1) this d] show ?thesis by metis
  next
    case False
    then obtain us where us: "pre = xs @ us" "ys = us @ r # post"
      using eq by (auto simp: append_eq_append_conv2 Cons_eq_append_conv)
    from nestedD[OF assms(2) us(2) d] obtain before q mid where "us = before @ q # mid"
      "d_depth r = Suc (d_depth q)" "t_parent (d_task r) = Some (t_slug (d_task q))"
      "\<forall>m \<in> set mid. d_depth r \<le> d_depth m" .
    then show ?thesis
      using us(1) by (intro exI[of _ "xs @ before"] exI[of _ q] exI[of _ mid]) simp
  qed
qed

lemma nested_node:
  assumes "nested (Suc base) rows"
    and "\<And>r. r \<in> set rows \<Longrightarrow> d_depth r = Suc base \<Longrightarrow> t_parent (d_task r) = Some (t_slug t)"
  shows "nested base (\<lparr>d_depth = base, d_task = t\<rparr> # rows)"
  unfolding nested_def
proof (intro conjI allI impI)
  let ?x = "\<lparr>d_depth = base, d_task = t\<rparr>"
  show "\<forall>r \<in> set (?x # rows). base \<le> d_depth r"
    using assms(1) by (auto simp: nested_def intro: Suc_leD)
  fix pre r post assume eq: "?x # rows = pre @ r # post" and d: "base < d_depth r"
  then obtain us where us: "pre = ?x # us" "rows = us @ r # post"
    by (auto simp: Cons_eq_append_conv)
  show "\<exists>before q mid. pre = before @ q # mid \<and> d_depth r = Suc (d_depth q) \<and>
      t_parent (d_task r) = Some (t_slug (d_task q)) \<and> (\<forall>m \<in> set mid. d_depth r \<le> d_depth m)"
  proof (cases "d_depth r = Suc base")
    case True
    have "\<forall>m \<in> set us. Suc base \<le> d_depth m"
      using assms(1) us(2) by (auto simp: nested_def)
    then show ?thesis
      using True us assms(2)[of r] by (intro exI[of _ "[]"] exI[of _ ?x] exI[of _ us]) simp
  next
    case False
    then have "Suc base < d_depth r" using d by simp
    from nestedD[OF assms(1) us(2) this] obtain before q mid where "us = before @ q # mid"
      "d_depth r = Suc (d_depth q)" "t_parent (d_task r) = Some (t_slug (d_task q))"
      "\<forall>m \<in> set mid. d_depth r \<le> d_depth m" .
    then show ?thesis
      using us(1) by (intro exI[of _ "?x # before"] exI[of _ q] exI[of _ mid]) simp
  qed
qed

lemma visit_list_nested:
  "visit_list g depth ts v = (v', rows) \<Longrightarrow>
     nested depth rows \<and> (\<forall>r \<in> set rows. d_depth r = depth \<longrightarrow> d_task r \<in> set ts)"
proof (induction g depth ts v arbitrary: v' rows rule: visit_list.induct)
  case (2 g depth t ts v)
  show ?case
  proof (cases "t_slug t \<in> set v")
    case True
    then show ?thesis using 2 by auto
  next
    case False
    obtain v1 rows1 where v1:
      "visit_list g (Suc depth) (forest_kids g (t_slug t)) (t_slug t # v) = (v1, rows1)"
      by fastforce
    obtain v2 rows2 where v2: "visit_list g depth ts v1 = (v2, rows2)" by fastforce
    have eq: "rows = (\<lparr>d_depth = depth, d_task = t\<rparr> # rows1) @ rows2"
      using "2.prems" False v1 v2 by simp
    note A = "2.IH"(2)[OF False v1]
    note B = "2.IH"(3)[OF False v1[symmetric] v2]
    have "t_parent u = Some (t_slug t)" if "u \<in> set (forest_kids g (t_slug t))" for u
      using that by (auto simp: forest_kids_def split: if_splits)
    then have "nested depth (\<lparr>d_depth = depth, d_task = t\<rparr> # rows1)"
      using A by (intro nested_node) auto
    then have "nested depth rows"
      unfolding eq using B by (intro nested_append) auto
    moreover have "d_task r \<in> set (t # ts)" if "r \<in> set rows" "d_depth r = depth" for r
    proof -
      have "r \<notin> set rows1"
        using A that(2) by (auto simp: nested_def)
      then have "r = \<lparr>d_depth = depth, d_task = t\<rparr> \<or> r \<in> set rows2"
        using that(1) eq by auto
      then show ?thesis using that(2) B by (elim disjE) simp_all
    qed
    ultimately show ?thesis by blast
  qed
qed simp

lemma append_forest_nested: "nested 0 (append_forest g)"
proof -
  obtain v1 rows1 where v1: "visit_list g 0 (sort_key queue_order (filter (is_root g) g)) [] = (v1, rows1)"
    by fastforce
  obtain v2 rows2 where v2:
    "visit_list g 0 (sort_key queue_order (filter (\<lambda>t. t_slug t \<notin> set v1) g)) v1 = (v2, rows2)"
    by fastforce
  show ?thesis
    using visit_list_nested[OF v1] visit_list_nested[OF v2] v1 v2
    by (simp add: append_forest_def nested_append)
qed

lemma display_rows_nested: "nested 0 (display_rows ts priority)"
proof -
  have "nested 0 (concat (map (\<lambda>k. append_forest (f k)) ks))" for f :: "'k \<Rightarrow> task list" and ks
    by (induction ks) (auto intro: nested_append append_forest_nested)
  then show ?thesis by (simp add: display_rows_def)
qed

section \<open>The current and the next task are what they claim\<close>

lemma resolve_current_task_ok:
  assumes "resolve_current_task ts = Some t"
  shows "t \<in> set ts" "t_state t \<noteq> Done"
    "(\<exists>u \<in> set ts. t_state u = Wip) \<Longrightarrow> t_state t = Wip"
    "u \<in> set ts \<Longrightarrow> t_state u = t_state t \<Longrightarrow> t_updated_at u \<le> t_updated_at t"
  using assms
  by (auto simp: resolve_current_task_def most_recently_updated_def filter_empty_conv
      split: option.splits dest!: max_by_key_Some)

lemma resolve_next_task_ok:
  assumes "resolve_next_task all_tasks ts current = Some t"
  shows "is_actionable t (by_slug all_tasks)"
    "\<exists>pos k. position (\<lambda>u. t_slug u = t_slug current) (execution_order ts) = Some pos \<and>
       pos < k \<and> k < length (execution_order ts) \<and> execution_order ts ! k = t \<and>
       (\<forall>j. pos < j \<and> j < k \<longrightarrow> \<not> is_actionable (execution_order ts ! j) (by_slug all_tasks))"
proof -
  let ?o = "execution_order ts"
  obtain pos where p: "position (\<lambda>u. t_slug u = t_slug current) ?o = Some pos"
    and f: "find (\<lambda>t. is_actionable t (by_slug all_tasks)) (drop (pos + 1) ?o) = Some t"
    using assms by (auto simp: resolve_next_task_def Let_def split: option.splits)
  obtain i where i: "i < length (drop (pos + 1) ?o)" "is_actionable (drop (pos + 1) ?o ! i) (by_slug all_tasks)"
    "t = drop (pos + 1) ?o ! i"
    "\<forall>j<i. \<not> is_actionable (drop (pos + 1) ?o ! j) (by_slug all_tasks)"
    using f by (auto simp: find_Some_iff)
  show "is_actionable t (by_slug all_tasks)" using i by simp
  have "\<not> is_actionable (?o ! j) (by_slug all_tasks)" if "pos < j" "j < pos + 1 + i" for j
    using i(4)[rule_format, of "j - (pos + 1)"] i(1) that by simp
  then show "\<exists>pos k. position (\<lambda>u. t_slug u = t_slug current) ?o = Some pos \<and>
       pos < k \<and> k < length ?o \<and> ?o ! k = t \<and>
       (\<forall>j. pos < j \<and> j < k \<longrightarrow> \<not> is_actionable (?o ! j) (by_slug all_tasks))"
    using p i by (intro exI[of _ pos] exI[of _ "pos + 1 + i"]) auto
qed

end
