(* ===== verification/Task_Laws.thy ===== *)
theory Task_Laws
  imports Display
begin

text \<open>
  What the task operations do to the store, on success and on failure.  \<open>files\<close> is the content of
  the tasks folder; loads, listings and the parent graph depend only on it.  Each operation writes
  at the end of its body, so a refused operation changes no task file; the exceptions are the
  operations that save several tasks, whose laws name what they wrote.
\<close>

definition files :: "store \<Rightarrow> task dir_entry list" where
  "files s = entries (task_dir s)"

lemma load_task_files: "files s = files s' \<Longrightarrow> load_task s = load_task s'"
  by (simp add: fun_eq_iff load_task_def files_def)

lemma parent_edge_files: "files s = files s' \<Longrightarrow> parent_edge s = parent_edge s'"
  using load_task_files[of s s'] by (simp add: parent_edge_def)

lemma ancestor_files:
  assumes "files s = files s'"
  shows "ancestor s = ancestor s'"
proof -
  have "ancestor s t q \<Longrightarrow> ancestor s' t q" if "files s = files s'" for s s' t q
    by (induction rule: ancestor.induct)
      (auto simp: load_task_files[OF that] intro: ancestor.intros)
  from this[OF assms] this[OF assms[symmetric]] show ?thesis
    by (intro ext iffI)
qed

section \<open>The lock and the touch\<close>

definition locked :: "store \<Rightarrow> store \<Rightarrow> bool" where
  "locked s s0 \<longleftrightarrow> (\<exists>d. make_dir (task_dir s) = Inr d \<and> s0 = s\<lparr>task_dir := d\<rparr>)"

lemma with_store_lock_cases:
  obtains (early) k where "with_store_lock m s = (Inl k, snd (with_store_lock m s))"
    "files (snd (with_store_lock m s)) = files s"
    "session_dir (snd (with_store_lock m s)) = session_dir s"
  | (body) s0 where "locked s s0" "with_store_lock m s = m s0"
proof (cases "make_dir (task_dir s)")
  case (Inl k)
  then show ?thesis
    using early[of "IoError k"] by (simp add: with_store_lock_def files_def)
next
  case (Inr d)
  show ?thesis
  proof (cases "lock_error s")
    case None
    then show ?thesis
      using body[of "s\<lparr>task_dir := d\<rparr>"] Inr by (simp add: with_store_lock_def locked_def)
  next
    case (Some k)
    then show ?thesis
      using early[of "LockFailed k"] Inr
      by (simp add: with_store_lock_def files_def make_dir_ok(1)[OF Inr])
  qed
qed

lemma with_store_lock_okE:
  assumes "with_store_lock m s = (Inr a, s')"
  obtains s0 where "locked s s0" "m s0 = (Inr a, s')"
  using assms by (cases rule: with_store_lock_cases[of m s]) auto

lemma locked_files [simp]: "locked s s0 \<Longrightarrow> files s0 = files s"
  by (auto simp: locked_def files_def make_dir_ok)

lemma locked_session_dir [simp]: "locked s s0 \<Longrightarrow> session_dir s0 = session_dir s"
  by (auto simp: locked_def)

lemma locked_load [simp]: "locked s s0 \<Longrightarrow> load_task s0 = load_task s"
  by (rule load_task_files) simp

lemma locked_well_named: "locked s s0 \<Longrightarrow> well_named_tasks s \<Longrightarrow> well_named_tasks s0"
  by (auto simp: locked_def well_named_tasks_def intro: well_named_make_dir)

lemma locked_listing:
  assumes "locked s s0" and "well_named_tasks s" and "list_tasks_strict s0 = Inr ts"
  shows "ts = store_tasks s"
proof -
  have "ts = parsed (files s)"
    using list_tasks_strict_ok[OF assms(3)] assms(1) make_dir_ok[of "task_dir s"]
    by (auto simp: store_tasks_def locked_def files_def)
  then show ?thesis
    using assms(2) by (auto simp: store_tasks_def files_def well_named_tasks_def well_named_dir_def)
qed

lemma touch_last_activity_files: "files (snd (touch_last_activity i s)) = files s"
proof (cases rule: with_store_lock_cases[of "\<lambda>s. case load_session s i of
         Inl e \<Rightarrow> if is_not_found e then (Inr (), s) else (Inl (InContext (CtxTouch i) e), s)
       | Inr x \<Rightarrow>
           if \<not> is_open x then (Inr (), s)
           else bnd now_rfc3339 (\<lambda>now. save_session (x\<lparr>s_last_activity := now\<rparr>)) s" s])
  case (early k)
  then show ?thesis by (simp add: touch_last_activity_def)
next
  case (body s0)
  then show ?thesis
    by (auto simp: touch_last_activity_def files_def bnd_def now_rfc3339_def
        split: sum.splits dest: locked_files[unfolded files_def])
qed

lemma touch_task_session_ok:
  "touch_task_session t s = (Inr (), snd (touch_task_session t s))"
  "files (snd (touch_task_session t s)) = files s"
  using touch_last_activity_files[of _ s]
  by (auto simp: touch_task_session_def bnd_def attempt_def split: option.splits prod.splits)
    (metis snd_conv)

lemma and_touch_okE:
  assumes "and_touch m s = (Inr t, s')"
  obtains s1 where "m s = (Inr t, s1)" "files s' = files s1"
proof -
  obtain a s1 where a: "m s = (Inr a, s1)" "bnd (touch_task_session a) (\<lambda>_. ret a) s1 = (Inr t, s')"
    using assms by (auto simp: and_touch_def elim: bnd_okE)
  then have "t = a" "s' = snd (touch_task_session a s1)"
    using touch_task_session_ok(1)[of a s1] by (auto simp: bnd_def split: prod.splits)
  then show ?thesis
    using that a touch_task_session_ok(2) by simp
qed

lemma and_touch_files: "files (snd (and_touch m s)) = files (snd (m s))"
  using touch_task_session_ok(2)
  by (auto simp: and_touch_def bnd_def split: prod.splits sum.splits) (metis snd_conv)+

lemma now_files [simp]: "now_rfc3339 s = (Inr now, s1) \<Longrightarrow> files s1 = files s"
  by (auto simp: now_rfc3339_def files_def)

section \<open>Saving several tasks\<close>

lemma each_save_ok:
  assumes "each (\<lambda>a. save_task (f a)) ps s = (Inr u, s')"
  shows "a \<in> set ps \<Longrightarrow> \<exists>b \<in> set ps. t_slug (f b) = t_slug (f a) \<and> load_task s' (t_slug (f a)) = Inr (f b)"
    and "n \<notin> (\<lambda>a. t_slug (f a)) ` set ps \<Longrightarrow> load_task s' n = load_task s n"
  using assms
proof (induction ps arbitrary: s a n)
  case Nil
  {
    case 1 then show ?case by simp
  next
    case 2 then show ?case by simp
  }
next
  case (Cons p ps)
  {
    case 1
    obtain s1 where s1: "save_task (f p) s = (Inr (), s1)" "each (\<lambda>a. save_task (f a)) ps s1 = (Inr u, s')"
      using 1(2) by (auto simp: bnd_ok)
    show ?case
    proof (cases "t_slug (f a) \<in> (\<lambda>a. t_slug (f a)) ` set ps")
      case True
      then obtain b where b: "b \<in> set ps" "t_slug (f b) = t_slug (f a)" by auto
      from Cons.IH(1)[OF b(1) s1(2)] show ?thesis using b by auto
    next
      case False
      then have "a = p" using 1(1) by auto
      moreover have "load_task s' (t_slug (f a)) = load_task s1 (t_slug (f a))"
        using Cons.IH(2)[OF False s1(2)] .
      ultimately show ?thesis
        using load_save_same[OF s1(1)] by auto
    qed
  next
    case 2
    obtain s1 where s1: "save_task (f p) s = (Inr (), s1)" "each (\<lambda>a. save_task (f a)) ps s1 = (Inr u, s')"
      using 2(2) by (auto simp: bnd_ok)
    show ?case
      using Cons.IH(2)[OF _ s1(2), of n] load_save_other[OF s1(1), of n] 2(1) by auto
  }
qed

section \<open>Starting a task\<close>

lemma set_wip_simps [simp]:
  "t_slug (set_wip now t) = t_slug t" "t_state (set_wip now t) = Wip"
  "t_parent (set_wip now t) = t_parent t" "t_relation (set_wip now t) = t_relation t"
  "t_blocked_on (set_wip now t) = t_blocked_on t" "t_session (set_wip now t) = t_session t"
  by (simp_all add: set_wip_def)

lemma unmet_blockers_Nil:
  "unmet_blockers m slug bs = Inr [] \<longleftrightarrow> (\<forall>b \<in> set bs. first_undone_in_subtree b slug m = Inr None)"
proof
  assume "unmet_blockers m slug bs = Inr []"
  then obtain us where us: "list_all2 (\<lambda>b u. first_undone_in_subtree b slug m = Inr u) bs us"
    and f: "List.map_filter (\<lambda>(b, u). map_option (\<lambda>x. (b, x)) u) (zip bs us) = []"
    by (auto simp: unmet_blockers_def seqR_ok map_res_ok)
  from us f show "\<forall>b \<in> set bs. first_undone_in_subtree b slug m = Inr None"
    by (induction rule: list_all2_induct) (auto simp: List.map_filter_def split: if_splits)
next
  assume all: "\<forall>b \<in> set bs. first_undone_in_subtree b slug m = Inr None"
  have "map_res (\<lambda>b. first_undone_in_subtree b slug m) bs = Inr (replicate (length bs) None)"
    using all by (induction bs) auto
  moreover have "List.map_filter (\<lambda>(b, u). map_option (\<lambda>x. (b, x)) u)
      (zip bs (replicate (length bs) None)) = ([] :: (string \<times> string) list)"
    by (induction bs) (auto simp: List.map_filter_def)
  ultimately show "unmet_blockers m slug bs = Inr []"
    by (simp add: unmet_blockers_def)
qed

lemma start_checks_ok:
  assumes "start_checks e tgt force s = Inr (t, ps)" and "well_named_tasks s"
    and "list_tasks_strict s = Inr ts"
  shows "load_task s (t_slug t) = Inr t" "t_state t \<noteq> Done"
    "ancestors_to_start s t force ts = Inr ps"
    "\<not> force \<Longrightarrow> \<forall>b \<in> set (t_blocked_on t). first_undone_in_subtree b (t_slug t) (by_slug ts) = Inr None"
    "\<not> force \<Longrightarrow> queue_hold t ts = None"
proof -
  obtain slug where ld: "load_task s slug = Inr t" and nd: "t_state t \<noteq> Done"
    and bl: "\<not> force \<Longrightarrow> t_blocked_on t \<noteq> [] \<Longrightarrow> unmet_blockers (by_slug ts) slug (t_blocked_on t) = Inr []"
    and q: "(if force then None else queue_hold t ts) = None"
    and anc: "ancestors_to_start s t force ts = Inr ps"
    using assms(1,3)
    by (auto simp: start_checks_def seqR_ok split: if_splits option.splits)
  have slug: "t_slug t = slug"
    by (rule well_named_load_slug[OF assms(2) ld])
  show "load_task s (t_slug t) = Inr t" "t_state t \<noteq> Done" "ancestors_to_start s t force ts = Inr ps"
    using ld nd anc slug by simp_all
  show "\<not> force \<Longrightarrow> queue_hold t ts = None"
    using q by (simp split: if_splits)
  show "\<not> force \<Longrightarrow> \<forall>b \<in> set (t_blocked_on t). first_undone_in_subtree b (t_slug t) (by_slug ts) = Inr None"
    using bl slug unmet_blockers_Nil by (cases "t_blocked_on t = []") auto
qed

lemma start_checks_listing:
  "start_checks e tgt force s = Inr r \<Longrightarrow> \<exists>ts. list_tasks_strict s = Inr ts"
  by (auto simp: start_checks_def seqR_ok)

lemma start_task_run:
  assumes "start_task e tgt force s = (Inr t', s')" and "well_named_tasks s"
  obtains t ps s0 now where "locked s s0" "start_checks e tgt force s0 = Inr (t, ps)"
    "list_tasks_strict s0 = Inr (store_tasks s)" "t' = set_wip now t"
    "load_task s' (t_slug t) = Inr t'"
    "\<And>q. q \<in> set ps \<Longrightarrow> t_slug q \<noteq> t_slug t \<Longrightarrow> \<exists>r. load_task s' (t_slug q) = Inr r \<and> t_state r = Wip"
    "\<And>n. n \<noteq> t_slug t \<Longrightarrow> n \<notin> t_slug ` set ps \<Longrightarrow> load_task s' n = load_task s n"
proof -
  obtain s1 where m: "with_store_lock
       (bnd (rd (start_checks e tgt force)) (\<lambda>(t, promoted).
        bnd now_rfc3339 (\<lambda>now.
        bnd (each (\<lambda>a. save_task (set_wip now a)) promoted) (\<lambda>_.
        bnd (save_task (set_wip now t)) (\<lambda>_. ret (set_wip now t)))))) s = (Inr t', s1)"
    and f: "files s' = files s1"
    using assms(1) unfolding start_task_def by (rule and_touch_okE)
  from m obtain s0 where l: "locked s s0"
    and b: "bnd (rd (start_checks e tgt force)) (\<lambda>(t, promoted).
        bnd now_rfc3339 (\<lambda>now.
        bnd (each (\<lambda>a. save_task (set_wip now a)) promoted) (\<lambda>_.
        bnd (save_task (set_wip now t)) (\<lambda>_. ret (set_wip now t))))) s0 = (Inr t', s1)"
    by (rule with_store_lock_okE)
  obtain t ps where c: "start_checks e tgt force s0 = Inr (t, ps)"
    and b2: "bnd now_rfc3339 (\<lambda>now.
        bnd (each (\<lambda>a. save_task (set_wip now a)) ps) (\<lambda>_.
        bnd (save_task (set_wip now t)) (\<lambda>_. ret (set_wip now t)))) s0 = (Inr t', s1)"
    using b by (auto simp: bnd_rd split: sum.splits prod.splits)
  obtain now s2 s3 where n: "now_rfc3339 s0 = (Inr now, s2)"
    and ea: "each (\<lambda>a. save_task (set_wip now a)) ps s2 = (Inr (), s3)"
    and sv: "save_task (set_wip now t) s3 = (Inr (), s1)" and t': "t' = set_wip now t"
    using b2 by (auto simp: bnd_ok)
  have ld: "load_task s' = load_task s1" "load_task s2 = load_task s"
    using load_task_files[OF f] load_task_files[OF now_files[OF n]] l by auto
  obtain ts where ts: "list_tasks_strict s0 = Inr ts"
    using start_checks_listing[OF c] by blast
  have "ts = store_tasks s"
    by (rule locked_listing[OF l assms(2) ts])
  show ?thesis
  proof (rule that[OF l c _ t'])
    show "list_tasks_strict s0 = Inr (store_tasks s)"
      using ts \<open>ts = store_tasks s\<close> by simp
    show "load_task s' (t_slug t) = Inr t'"
      using load_save_same[OF sv] ld t' by simp
    show "\<exists>r. load_task s' (t_slug q) = Inr r \<and> t_state r = Wip"
      if "q \<in> set ps" "t_slug q \<noteq> t_slug t" for q
      using each_save_ok(1)[OF ea that(1)] load_save_other[OF sv, of "t_slug q"] that(2) ld by auto
    show "load_task s' n = load_task s n" if "n \<noteq> t_slug t" "n \<notin> t_slug ` set ps" for n
      using each_save_ok(2)[OF ea, of n] load_save_other[OF sv, of n] that ld by auto
  qed
qed

lemma store_tasks_listing:
  assumes "well_named_tasks s"
  shows "map_of (by_slug (store_tasks s)) x = Some t \<longleftrightarrow> t \<in> set (store_tasks s) \<and> t_slug t = x"
proof
  assume "map_of (by_slug (store_tasks s)) x = Some t"
  then show "t \<in> set (store_tasks s) \<and> t_slug t = x"
    unfolding by_slug_def using hash_collect_key[of x t t_slug] by (auto dest: map_of_SomeD)
next
  assume "t \<in> set (store_tasks s) \<and> t_slug t = x"
  then show "map_of (by_slug (store_tasks s)) x = Some t"
    unfolding by_slug_def
    using hash_collect_distinct_get[OF well_named_distinct_slugs[OF assms]] by auto
qed

lemma not_undone_at:
  assumes "well_named_tasks s"
  shows "\<not> undone_at (by_slug (store_tasks s)) x \<Longrightarrow> \<exists>u. load_task s x = Inr u \<and> t_state u = Done"
proof -
  assume "\<not> undone_at (by_slug (store_tasks s)) x"
  then obtain u where "map_of (by_slug (store_tasks s)) x = Some u" "t_state u = Done"
    by (auto simp: undone_at_def split: option.splits)
  then show ?thesis
    using store_tasks_listing[OF assms, of x u] well_named_load[OF assms, of u] by auto
qed

section \<open>Completing a task\<close>

lemma close_checks_ok:
  assumes "close_checks e tgt force s = Inr (t, undone)" and "well_named_tasks s"
    and "list_tasks_strict s = Inr ts"
  shows "load_task s (t_slug t) = Inr t" "\<not> force \<Longrightarrow> t_state t \<noteq> Open"
    "undone = map t_slug (undone_descendants (t_slug t) ts)" "\<not> force \<Longrightarrow> undone = []"
    "tgt = Resolved x \<Longrightarrow> t_slug t = x"
proof -
  obtain slug where ld: "load_task s slug = Inr t" and o: "\<not> force \<Longrightarrow> t_state t \<noteq> Open"
    and u: "undone = map t_slug (undone_descendants slug ts)" "\<not> force \<Longrightarrow> undone = []"
    and tg: "target_slug_in e tgt s ts = Inr slug"
    using assms(1,3) by (auto simp: close_checks_def seqR_ok Let_def split: if_splits)
  have slug: "t_slug t = slug"
    by (rule well_named_load_slug[OF assms(2) ld])
  show "load_task s (t_slug t) = Inr t" "\<not> force \<Longrightarrow> t_state t \<noteq> Open"
    "undone = map t_slug (undone_descendants (t_slug t) ts)" "\<not> force \<Longrightarrow> undone = []"
    using ld o u slug by simp_all
  show "tgt = Resolved x \<Longrightarrow> t_slug t = x"
    using tg slug by (simp add: seqR_ok)
qed

lemma close_task_run:
  assumes "close_task e tgt force c s = (Inr r, s')" and "well_named_tasks s"
  obtains t where "load_task s (t_slug t) = Inr t" "c_prior r = t_state t"
    "\<not> force \<Longrightarrow> t_state t \<noteq> Open"
    "c_undone_children r = map t_slug (undone_descendants (t_slug t) (store_tasks s))"
    "\<not> force \<Longrightarrow> c_undone_children r = []"
    "t_slug (c_task r) = t_slug t" "t_state (c_task r) = Done"
    "load_task s' (t_slug t) = Inr (c_task r)"
    "\<And>n. n \<noteq> t_slug t \<Longrightarrow> load_task s' n = load_task s n"
    "t_state t = Done \<Longrightarrow> files s' = files s \<and> c_task r = t"
    "t_parent (c_task r) = t_parent t"
    "\<And>cl. c = Some cl \<Longrightarrow> force \<Longrightarrow> t_state t \<noteq> Done \<Longrightarrow>
       \<exists>n. t_notes (c_task r) = t_notes t @ [n] \<and> n_text n = forced_close_text (t_state t) cl"
    "\<And>x. tgt = Resolved x \<Longrightarrow> t_slug t = x"
proof -
  let ?body = "bnd (rd (close_checks e tgt force)) (\<lambda>(t, undone).
        if t_state t \<noteq> Done then
          bnd now_rfc3339 (\<lambda>now.
          let notes = (case c of
                Some cl \<Rightarrow>
                  if force then [\<lparr>n_at = now, n_text = forced_close_text (t_state t) cl\<rparr>] else []
              | None \<Rightarrow> []);
              t' = t\<lparr>t_notes := t_notes t @ notes, t_state := Done, t_updated_at := now\<rparr> in
          bnd (save_task t') (\<lambda>_.
          ret \<lparr>c_task = t', c_prior = t_state t, c_undone_children = undone\<rparr>))
        else ret \<lparr>c_task = t, c_prior = t_state t, c_undone_children = undone\<rparr>)"
  obtain r1 s1 where m: "with_store_lock ?body s = (Inr r1, s1)"
    and tc: "bnd (touch_task_session (c_task r1)) (\<lambda>_. ret r1) s1 = (Inr r, s')"
    using assms(1) unfolding close_task_def by (rule bnd_okE)
  have r: "r = r1" and f: "files s' = files s1"
    using tc touch_task_session_ok[of "c_task r1" s1] by (auto simp: bnd_def split: prod.splits)
  obtain s0 where l: "locked s s0" and b: "?body s0 = (Inr r, s1)"
    using m[folded r] by (rule with_store_lock_okE)
  obtain t undone where c: "close_checks e tgt force s0 = Inr (t, undone)"
    using b by (auto simp: bnd_rd split: sum.splits prod.splits)
  obtain ts where ts: "list_tasks_strict s0 = Inr ts"
    using c by (auto simp: close_checks_def seqR_ok)
  have tseq: "ts = store_tasks s"
    by (rule locked_listing[OF l assms(2) ts])
  note ck = close_checks_ok[OF c locked_well_named[OF l assms(2)] ts]
  have ld: "load_task s (t_slug t) = Inr t"
    using ck(1) l by simp
  show ?thesis
  proof (cases "t_state t = Done")
    case True
    then have "r = \<lparr>c_task = t, c_prior = t_state t, c_undone_children = undone\<rparr>" "s1 = s0"
      using b c by (auto simp: bnd_rd)
    moreover have "load_task s' = load_task s" "files s' = files s"
      using load_task_files[OF f] f calculation(2) l by auto
    ultimately show ?thesis
      using that[of t] ld ck tseq True by simp
  next
    case False
    obtain now s2 where n: "now_rfc3339 s0 = (Inr now, s2)" by (simp add: now_rfc3339_def)
    define nts where "nts = (case c of
          Some cl \<Rightarrow> if force then [\<lparr>n_at = now, n_text = forced_close_text (t_state t) cl\<rparr>] else []
        | None \<Rightarrow> [])"
    define t' where "t' = t\<lparr>t_notes := t_notes t @ nts, t_state := Done, t_updated_at := now\<rparr>"
    have sv: "save_task t' s2 = (Inr (), s1)"
      and req: "r = \<lparr>c_task = t', c_prior = t_state t, c_undone_children = undone\<rparr>"
      using b c False n by (auto simp: bnd_rd bnd_ok bnd_def[of now_rfc3339] Let_def t'_def nts_def)
    have l1: "load_task s' = load_task s1" "load_task s2 = load_task s"
      using load_task_files[OF f] load_task_files[OF now_files[OF n]] l by auto
    have slug: "t_slug t' = t_slug t" by (simp add: t'_def)
    show ?thesis
    proof (rule that[of t])
      show "load_task s' (t_slug t) = Inr (c_task r)"
        using load_save_same[OF sv] l1 slug req by simp
      show "load_task s' n = load_task s n" if "n \<noteq> t_slug t" for n
        using load_save_other[OF sv, of n] l1 slug that by simp
      show "\<exists>n. t_notes (c_task r) = t_notes t @ [n] \<and> n_text n = forced_close_text (t_state t) cl"
        if "c = Some cl" "force" for cl
        using that req by (simp add: t'_def nts_def)
    qed (use ld ck tseq req False in \<open>simp_all add: t'_def\<close>)
  qed
qed

section \<open>Adding a task\<close>

lemma file_exists_files: "files s = files s' \<Longrightarrow> file_exists (task_dir s) n = file_exists (task_dir s') n"
  by (simp add: file_exists_def files_def)

lemma add_task_run:
  assumes "add_task_with e new parent choice project s = (Inr t, s')"
  obtains i s0 where "resolve_session_for_add s choice project = Inr i" "locked s s0"
    "add_links e new parent i s0 = Inr (t_parent t, t_relation t, t_parallel t, t_blocked_on t)"
    "t_session t = Some i" "t_state t = Open" "t_title t = nt_title new" "t_notes t = []"
    "\<not> file_exists (task_dir s) (t_slug t)"
    "load_task s' (t_slug t) = Inr t" "\<And>n. n \<noteq> t_slug t \<Longrightarrow> load_task s' n = load_task s n"
proof -
  obtain i where i: "resolve_session_for_add s choice project = Inr i"
    and at: "and_touch (add_task_for_session_with e new parent i) s = (Inr t, s')"
    using assms by (auto simp: add_task_with_def bnd_rd split: sum.splits)
  obtain s1 where m: "add_task_for_session_with e new parent i s = (Inr t, s1)"
    and f: "files s' = files s1"
    using at by (rule and_touch_okE)
  obtain s0 where l: "locked s s0"
    and b: "bnd (rd (add_links e new parent i)) (\<lambda>(p, r, par, blocked).
        bnd now_rfc3339 (\<lambda>now.
        bnd (rd (\<lambda>s. Inr (unique_slug (task_dir s) (base_slug (nt_title new) now)))) (\<lambda>slug.
        let t = \<lparr>t_slug = slug, t_title = nt_title new, t_state = Open, t_parent = p,
                 t_relation = r, t_parallel = par, t_blocked_on = blocked, t_notes = [],
                 t_detail = (if nt_detail new = Some [] then None else nt_detail new),
                 t_session = Some i, t_created_at = now, t_updated_at = now\<rparr> in
        bnd (save_task t) (\<lambda>_. ret t)))) s0 = (Inr t, s1)"
    using m unfolding add_task_for_session_with_def by (rule with_store_lock_okE)
  obtain p r par blocked where lk: "add_links e new parent i s0 = Inr (p, r, par, blocked)"
    using b by (auto simp: bnd_rd split: sum.splits)
  obtain now s2 where n: "now_rfc3339 s0 = (Inr now, s2)" by (simp add: now_rfc3339_def)
  have sv: "save_task t s2 = (Inr (), s1)"
    and t: "t_slug t = unique_slug (task_dir s2) (base_slug (nt_title new) now)"
      "t_parent t = p" "t_relation t = r" "t_parallel t = par" "t_blocked_on t = blocked"
      "t_session t = Some i" "t_state t = Open" "t_title t = nt_title new" "t_notes t = []"
    using b lk n by (auto simp: bnd_rd bnd_ok bnd_def[of now_rfc3339] Let_def)
  have ld: "load_task s' = load_task s1" "load_task s2 = load_task s" "files s2 = files s"
    using load_task_files[OF f] load_task_files[OF now_files[OF n]] now_files[OF n] l by auto
  have "\<not> file_exists (task_dir s) (t_slug t)"
    using unique_slug_fresh[of "task_dir s2"] file_exists_files[OF ld(3)] t(1) by simp
  moreover have "load_task s' (t_slug t) = Inr t"
    using load_save_same[OF sv] ld by simp
  moreover have "load_task s' n = load_task s n" if "n \<noteq> t_slug t" for n
    using load_save_other[OF sv that] ld by simp
  ultimately show ?thesis
    using that[OF i l] lk t by simp
qed

lemma add_links_child:
  assumes "add_links e new parent i s = Inr (p, Child, par, blocked)"
  shows "\<exists>slug q. p = Some slug \<and> load_task s slug = Inr q \<and> t_state q \<noteq> Done \<and> t_session q = Some i"
  using assms
  by (cases "nt_placement new") (auto simp: add_links_def seqR_ok Let_def check_child_parent_ok)

lemma not_exists_not_loaded: "\<not> file_exists (task_dir s) n \<Longrightarrow> load_task s n \<noteq> Inr t"
  by (auto simp: load_task_ok file_exists_def)

lemma parent_edge_add:
  assumes "load_task s' (t_slug t) = Inr t" and "\<And>n. n \<noteq> t_slug t \<Longrightarrow> load_task s' n = load_task s n"
    and "\<not> file_exists (task_dir s) (t_slug t)"
  shows "parent_edge s' = parent_edge s \<union> (case t_parent t of None \<Rightarrow> {} | Some p \<Rightarrow> {(t_slug t, p)})"
proof -
  have "(a, b) \<in> parent_edge s' \<longleftrightarrow> (a, b) \<in> parent_edge s \<or> (a = t_slug t \<and> t_parent t = Some b)" for a b
    using assms(1,2) not_exists_not_loaded[OF assms(3)]
    by (cases "a = t_slug t") (auto simp: parent_edge_iff)
  then show ?thesis by (auto split: option.splits)
qed

section \<open>Editing a task\<close>

lemma push_blocker_simps [simp]:
  "t_slug (push_blocker b t) = t_slug t" "t_parent (push_blocker b t) = t_parent t"
  "t_relation (push_blocker b t) = t_relation t" "t_state (push_blocker b t) = t_state t"
  "t_session (push_blocker b t) = t_session t"
  by (simp_all add: push_blocker_def)

lemma edit_block_ok:
  "edit_block e s ts slug ons t = Inr t' \<Longrightarrow>
     t_slug t' = t_slug t \<and> t_parent t' = t_parent t \<and> t_relation t' = t_relation t \<and>
     t_state t' = t_state t \<and> t_session t' = t_session t"
  by (induction e s ts slug ons t rule: edit_block.induct) (auto simp: seqR_ok split: if_splits)

lemma edit_unblock_ok:
  "edit_unblock e s ts ons t = Inr t' \<Longrightarrow>
     t_slug t' = t_slug t \<and> t_parent t' = t_parent t \<and> t_relation t' = t_relation t \<and>
     t_state t' = t_state t \<and> t_session t' = t_session t"
  by (induction e s ts ons t rule: edit_unblock.induct) (auto simp: seqR_ok)

text \<open>An edit keeps the slug, the relation, the state and the session; a new parent passed the
  cycle check.\<close>

lemma edit_links_ok:
  assumes "edit_links e tgt ed s = Inr t'" and "well_named_tasks s"
  obtains t where "load_task s (t_slug t') = Inr t" "t_relation t' = t_relation t"
    "t_state t' = t_state t" "t_session t' = t_session t"
    "case ed_parent ed of
       Some _ \<Rightarrow> \<exists>p. t_parent t' = Some p \<and> p \<noteq> t_slug t' \<and> reject_cycle s (t_slug t') p = Inr ()
     | None \<Rightarrow> t_parent t' = (if ed_no_parent ed then None else t_parent t)"
proof -
  obtain ts slug t0 t2 t3 where ld: "load_task s slug = Inr t0"
    and p: "edit_parent e ed s ts slug (case ed_title ed of Some x \<Rightarrow> t0\<lparr>t_title := x\<rparr> | None \<Rightarrow> t0) = Inr t2"
    and b: "edit_block e s ts slug (ed_block_on ed) t2 = Inr t3"
    and u: "edit_unblock e s ts (ed_unblock ed) t3 = Inr t'"
    using assms(1) by (auto simp: edit_links_def seqR_ok Let_def)
  let ?t1 = "case ed_title ed of Some x \<Rightarrow> t0\<lparr>t_title := x\<rparr> | None \<Rightarrow> t0"
  have slug: "t_slug t0 = slug"
    by (rule well_named_load_slug[OF assms(2) ld])
  have t1: "t_slug ?t1 = slug" "t_relation ?t1 = t_relation t0" "t_state ?t1 = t_state t0"
    "t_session ?t1 = t_session t0" "t_parent ?t1 = t_parent t0"
    using slug by (auto split: option.splits)
  have t2: "t_slug t2 = slug" "t_relation t2 = t_relation t0" "t_state t2 = t_state t0"
    "t_session t2 = t_session t0"
    using p t1 by (auto simp: edit_parent_def seqR_ok split: option.splits if_splits)
  have t': "t_slug t' = slug" "t_parent t' = t_parent t2"
    using edit_block_ok[OF b] edit_unblock_ok[OF u] t2 by simp_all
  have "case ed_parent ed of
       Some _ \<Rightarrow> \<exists>p. t_parent t2 = Some p \<and> p \<noteq> slug \<and> reject_cycle s slug p = Inr ()
     | None \<Rightarrow> t_parent t2 = (if ed_no_parent ed then None else t_parent t0)"
    using p t1 by (auto simp: edit_parent_def seqR_ok split: option.splits if_splits)
  then show ?thesis
    using that[of t0] ld t' t2 edit_block_ok[OF b] edit_unblock_ok[OF u]
    by (auto split: option.splits)
qed

lemma edit_notes_run:
  "edit_notes ed t s = (Inr t', s') \<Longrightarrow>
     files s' = files s \<and> t_slug t' = t_slug t \<and> t_parent t' = t_parent t \<and>
     t_relation t' = t_relation t \<and> t_state t' = t_state t \<and> t_session t' = t_session t"
  by (auto simp: edit_notes_def add_note_def bnd_ok split: option.splits)

lemma edit_notes_files: "files (snd (edit_notes ed t s)) = files s"
  by (auto simp: edit_notes_def add_note_def bnd_def now_rfc3339_def files_def split: option.splits sum.splits)

lemma edit_detail_simps [simp]:
  "t_slug (edit_detail ed t) = t_slug t" "t_parent (edit_detail ed t) = t_parent t"
  "t_relation (edit_detail ed t) = t_relation t" "t_state (edit_detail ed t) = t_state t"
  "t_session (edit_detail ed t) = t_session t"
  by (auto simp: edit_detail_def split: option.splits)

lemma stamped_save_okE:
  assumes "stamped_save t s = (Inr t', s')"
  obtains now s1 where "t' = t\<lparr>t_updated_at := now\<rparr>" "files s1 = files s" "save_task t' s1 = (Inr (), s')"
proof -
  obtain now s1 where n: "now_rfc3339 s = (Inr now, s1)" and t': "t' = t\<lparr>t_updated_at := now\<rparr>"
    and sv: "save_task t' s1 = (Inr (), s')"
    using assms by (auto simp: stamped_save_def bnd_ok Let_def)
  show ?thesis by (rule that[OF t' now_files[OF n] sv])
qed

lemma stamped_save_err: "stamped_save t s = (Inl x, s') \<Longrightarrow> files s' = files s"
  by (auto simp: stamped_save_def bnd_err Let_def files_def now_rfc3339_def dest: save_task_err)

lemma edit_task_run:
  assumes "edit_task e tgt ed s = (Inr t', s')" and "well_named_tasks s"
  obtains s0 t t1 s1 where "locked s s0" "edit_links e tgt ed s0 = Inr t1"
    "load_task s (t_slug t') = Inr t" "t_slug t' = t_slug t1" "t_parent t' = t_parent t1"
    "t_relation t' = t_relation t" "t_state t' = t_state t" "t_session t' = t_session t"
    "files s1 = files s" "save_task t' s1 = (Inr (), snd (save_task t' s1))"
    "files s' = files (snd (save_task t' s1))"
proof -
  obtain sx where m: "with_store_lock (bnd (rd (edit_links e tgt ed)) (\<lambda>t.
        bnd (edit_notes ed t) (\<lambda>t1. stamped_save (edit_detail ed t1)))) s = (Inr t', sx)"
    and f: "files s' = files sx"
    using assms(1) unfolding edit_task_def by (rule and_touch_okE)
  obtain s0 where l: "locked s s0" and b: "bnd (rd (edit_links e tgt ed)) (\<lambda>t.
        bnd (edit_notes ed t) (\<lambda>t1. stamped_save (edit_detail ed t1))) s0 = (Inr t', sx)"
    using m by (rule with_store_lock_okE)
  obtain t1 t2 s2 where lk: "edit_links e tgt ed s0 = Inr t1"
    and n: "edit_notes ed t1 s0 = (Inr t2, s2)" and sv: "stamped_save (edit_detail ed t2) s2 = (Inr t', sx)"
    using b by (auto simp: bnd_rd bnd_ok split: sum.splits)
  obtain now s3 where t': "t' = (edit_detail ed t2)\<lparr>t_updated_at := now\<rparr>" and f3: "files s3 = files s2"
    and sv3: "save_task t' s3 = (Inr (), sx)"
    using sv by (rule stamped_save_okE)
  note en = edit_notes_run[OF n]
  obtain t where t: "load_task s0 (t_slug t1) = Inr t" "t_relation t1 = t_relation t"
    "t_state t1 = t_state t" "t_session t1 = t_session t"
    using edit_links_ok[OF lk locked_well_named[OF l assms(2)]] by metis
  show ?thesis
    by (rule that[OF l lk, of t s3]) (use t t' en f3 f sv3 l in simp_all)
qed

text \<open>Whatever an edit does, it keeps the parent graph acyclic.\<close>

lemma edit_task_err_files: "edit_task e tgt ed s = (Inl x, s') \<Longrightarrow> files s' = files s"
proof -
  let ?body = "bnd (rd (edit_links e tgt ed)) (\<lambda>t.
        bnd (edit_notes ed t) (\<lambda>t1. stamped_save (edit_detail ed t1)))"
  assume a: "edit_task e tgt ed s = (Inl x, s')"
  have "with_store_lock ?body s = (Inl x, s')"
    using a touch_task_session_ok(1)
    by (auto simp: edit_task_def and_touch_def bnd_err) (metis Inl_Inr_False prod.inject)
  then show ?thesis
  proof (cases rule: with_store_lock_cases[of ?body s])
    case (early k)
    then show ?thesis using \<open>with_store_lock ?body s = (Inl x, s')\<close> by simp
  next
    case (body s0)
    then have b: "?body s0 = (Inl x, s')"
      using \<open>with_store_lock ?body s = (Inl x, s')\<close> by simp
    have "files s' = files s0"
    proof (cases "edit_links e tgt ed s0")
      case (Inl y)
      then show ?thesis using b by (simp add: bnd_rd)
    next
      case (Inr t1)
      then have "bnd (edit_notes ed t1) (\<lambda>t1. stamped_save (edit_detail ed t1)) s0 = (Inl x, s')"
        using b by (simp add: bnd_rd)
      then show ?thesis
        using edit_notes_files[of ed t1 s0] stamped_save_err by (auto simp: bnd_err)
    qed
    then show ?thesis using body(1) by simp
  qed
qed

lemma edit_task_acyclic:
  assumes "acyclic (parent_edge s)" and "well_named_tasks s"
  shows "acyclic (parent_edge (snd (edit_task e tgt ed s)))"
proof (cases "edit_task e tgt ed s")
  case (Pair r s')
  show ?thesis
  proof (cases r)
    case (Inl x)
    then have "files s' = files s"
      using edit_task_err_files Pair by blast
    then show ?thesis
      using assms(1) Pair parent_edge_files[of s' s] by simp
  next
    case (Inr t')
    obtain s0 t t1 s1 where l: "locked s s0" and lk: "edit_links e tgt ed s0 = Inr t1"
      and t: "load_task s (t_slug t') = Inr t" "t_slug t' = t_slug t1" "t_parent t' = t_parent t1"
        "t_relation t' = t_relation t" "t_state t' = t_state t" "t_session t' = t_session t"
      and f: "files s1 = files s" "save_task t' s1 = (Inr (), snd (save_task t' s1))"
        "files s' = files (snd (save_task t' s1))"
      by (rule edit_task_run[OF Pair[unfolded Inr] assms(2)])
    obtain t0 where t0: "load_task s0 (t_slug t1) = Inr t0" "t_relation t1 = t_relation t0"
        "t_state t1 = t_state t0" "t_session t1 = t_session t0"
      and par: "case ed_parent ed of
         Some _ \<Rightarrow> \<exists>p. t_parent t1 = Some p \<and> p \<noteq> t_slug t1 \<and> reject_cycle s0 (t_slug t1) p = Inr ()
       | None \<Rightarrow> t_parent t1 = (if ed_no_parent ed then None else t_parent t0)"
      by (rule edit_links_ok[OF lk locked_well_named[OF l assms(2)]])
    have e: "parent_edge s1 = parent_edge s" "parent_edge s0 = parent_edge s"
      "load_task s1 = load_task s" "load_task s0 = load_task s"
      using parent_edge_files[OF f(1)] parent_edge_files[of s0 s] load_task_files[OF f(1)] l by simp_all
    have "acyclic (parent_edge (snd (save_task t' s1)))"
    proof (cases "ed_parent ed")
      case None
      then have "t_parent t' = t_parent t0 \<or> t_parent t' = None"
        using par t(3) by auto
      then show ?thesis
        using acyclic_save_same_parent[OF _ f(2), of t0] assms(1) t0(1) t(2) e by simp
    next
      case (Some x)
      then obtain p where p: "t_parent t1 = Some p" "reject_cycle s0 (t_slug t1) p = Inr ()"
        using par by auto
      then have "(p, t_slug t') \<notin> (parent_edge s1)\<^sup>*"
        using reject_cycle_iff[of s0 "t_slug t1" p] t(2) e by simp
      then show ?thesis
        using acyclic_save_checked_parent[OF _ f(2), of p] assms(1) p t(3) e by simp
    qed
    then show ?thesis
      using parent_edge_files[OF f(3)] Pair by simp
  qed
qed

section \<open>Deleting a task\<close>

lemma delete_task_run:
  assumes "delete_task e tgt s = (Inr t, s')" and "well_named_tasks s"
  shows "load_task s (t_slug t) = Inr t" "\<not> file_exists (task_dir s') (t_slug t)"
    "n \<noteq> t_slug t \<Longrightarrow> load_task s' n = load_task s n"
proof -
  obtain s0 where l: "locked s s0" and b: "bnd (rd (target_slug e tgt)) (\<lambda>slug.
        bnd (rd (\<lambda>s. load_task s slug)) (\<lambda>t.
        bnd (remove_task_file slug) (\<lambda>_. ret t))) s0 = (Inr t, s')"
    using assms(1) unfolding delete_task_def by (rule with_store_lock_okE)
  obtain slug where ld: "load_task s0 slug = Inr t" and rm: "remove_task_file slug s0 = (Inr (), s')"
    using b by (auto simp: bnd_rd bnd_ok split: sum.splits)
  have slug: "t_slug t = slug"
    using well_named_load_slug[OF assms(2)] ld l by simp
  have e: "entries (task_dir s') = del_json slug (entries (task_dir s0))"
    using rm by (auto simp: remove_task_file_def remove_json_def split: sum.splits option.splits if_splits)
  show "load_task s (t_slug t) = Inr t"
    using ld l slug by simp
  show "\<not> file_exists (task_dir s') (t_slug t)"
    by (simp add: file_exists_def e slug json_dir.get_del_same)
  show "load_task s' n = load_task s n" if "n \<noteq> t_slug t"
  proof -
    have "load_task s' n = load_task s0 n"
      using that slug by (simp add: load_task_def e json_dir.get_del_other)
    then show ?thesis using l by simp
  qed
qed

end
