(* ===== verification/Task_Cli.thy ===== *)
theory Task_Cli
  imports Task_Laws
begin

text \<open>
  The \<open>llmenv task\<close> commands: \<open>run_task_command\<close> and \<open>run_task_session_command\<close> of
  \<open>src/cli/mod.rs\<close> with \<open>task_guard.rs\<close>, \<open>task_done.rs\<close>, \<open>task_add.rs\<close>, \<open>task_session_pick.rs\<close> and
  \<open>task_clear.rs\<close>.  A command checks ownership, acts, and records an override, all under one store
  lock.  What it prints is left out.  A run of commands, in any order and from any callers, is a
  fold of \<open>command_step\<close>.
\<close>

section \<open>Guards\<close>

definition caller_session_for_task :: "env \<Rightarrow> store \<Rightarrow> err + caller" where
  "caller_session_for_task e s =
     seqR (e_project e) (\<lambda>project.
     seqR (from_env e) (\<lambda>owner. caller_session s project owner))"

definition guard_task :: "env \<Rightarrow> string \<Rightarrow> string option \<Rightarrow> (string \<times> override_note option) task_cmd" where
  "guard_task e i other =
     rd (\<lambda>s. seqR (caller_session_for_task e s) (\<lambda>c. ensure_task_is_ours e s i c other))"

definition guard_tasks ::
  "env \<Rightarrow> string list \<Rightarrow> string option \<Rightarrow> (string \<times> override_note option) list task_cmd" where
  "guard_tasks e ids other =
     rd (\<lambda>s. if ids = [] then Inr []
       else seqR (caller_session_for_task e s) (\<lambda>c. ensure_tasks_are_ours e s ids c other))"

definition guard_session :: "env \<Rightarrow> string \<Rightarrow> string option \<Rightarrow> string option task_cmd" where
  "guard_session e i other =
     rd (\<lambda>s. seqR (caller_session_for_task e s) (\<lambda>c. ensure_session_is_ours i c other))"

definition record_override :: "env \<Rightarrow> override_note option \<Rightarrow> unit task_cmd" where
  "record_override e audit = (case audit of None \<Rightarrow> ret () | Some n \<Rightarrow> record_note e n)"

text \<open>The shape of a guarded command: check, act on the checked slug, record the override.\<close>

definition guarded ::
  "env \<Rightarrow> string \<Rightarrow> string option \<Rightarrow> (task_target \<Rightarrow> 'a task_cmd) \<Rightarrow> 'a task_cmd" where
  "guarded e i other act =
     with_store_lock
       (bnd (guard_task e i other) (\<lambda>(slug, audit).
        bnd (act (Resolved slug)) (\<lambda>r.
        bnd (record_override e audit) (\<lambda>_. ret r))))"

section \<open>Task commands\<close>

record add_args =
  a_title :: string
  a_parent :: "string option"
  a_child_of :: "string option"
  a_parallel :: bool
  a_after :: "string option"
  a_session :: "string option"
  a_other_session :: "string option"
  a_detail :: "string option"

definition parent_spec_of :: "add_args \<Rightarrow> parent_spec" where
  "parent_spec_of a = (case a_parent a of Some p \<Rightarrow> Explicit p | None \<Rightarrow> Detached)"

definition placement_of :: "add_args \<Rightarrow> placement" where
  "placement_of a =
     (case a_child_of a of
        Some p \<Rightarrow> PlaceChild p
      | None \<Rightarrow> if a_parallel a then PlaceParallel else PlaceQueue)"

definition task_add :: "env \<Rightarrow> add_args \<Rightarrow> task task_cmd" where
  "task_add e a =
     bnd (lft (e_project e)) (\<lambda>project.
     bnd (lft (from_env e)) (\<lambda>owner.
     bnd (case a_session a of
            Some i \<Rightarrow> rd (\<lambda>s. ensure_named_session_takes_tasks s i owner (a_other_session a))
          | None \<Rightarrow> ret False) (\<lambda>overridden.
     let choice = (case a_session a of Some i \<Rightarrow> Named i | None \<Rightarrow> Resolve owner);
         new = \<lparr>nt_title = a_title a, nt_detail = a_detail a, nt_placement = placement_of a,
                nt_after = a_after a\<rparr> in
     bnd (add_task_with e new (parent_spec_of a) choice project) (\<lambda>t.
     bnd (case (overridden, a_session a) of
            (True, Some i) \<Rightarrow>
              bnd (map_error (InContext (CtxAddedNoteUnsaved (t_slug t)))
                (note_task e (Input (t_slug t))
                  (''Added with --other-session, which names the owner of session '' @ quoted i @ ''.'')))
              (\<lambda>_. ret ())
          | _ \<Rightarrow> ret ()) (\<lambda>_. ret t)))))"

definition cmd_add :: "env \<Rightarrow> add_args \<Rightarrow> task task_cmd" where
  "cmd_add e a = with_store_lock (task_add e a)"

definition cmd_start :: "env \<Rightarrow> string \<Rightarrow> bool \<Rightarrow> bool \<Rightarrow> string option \<Rightarrow> task task_cmd" where
  "cmd_start e i force reopen other =
     guarded e i other (\<lambda>tgt.
       bnd (if reopen then bnd (reopen_task e tgt) (\<lambda>_. ret ()) else ret ()) (\<lambda>_.
       if reopen then map_error (InContext (CtxReopenedNotStarted i)) (start_task e tgt force)
       else start_task e tgt force))"

definition cmd_done :: "env \<Rightarrow> string \<Rightarrow> bool \<Rightarrow> string option \<Rightarrow> completed task_cmd" where
  "cmd_done e i force other =
     bnd (with_store_lock
       (bnd (rd (caller_session_for_task e)) (\<lambda>c.
        bnd (rd (\<lambda>s. ensure_task_is_ours e s i c other)) (\<lambda>(slug, audit).
        bnd (complete_task_by e (Resolved slug) force c) (\<lambda>r.
        bnd (attempt (record_override e audit)) (\<lambda>audit_result.
        ret (r, audit_result))))))) (\<lambda>(r, audit_result).
     bnd (lft audit_result) (\<lambda>_. ret r))"

definition failures :: "(err + unit) list \<Rightarrow> err list" where
  "failures rs = List.map_filter (\<lambda>r. case r of Inl x \<Rightarrow> Some x | Inr _ \<Rightarrow> None) rs"

definition cmd_reopen :: "env \<Rightarrow> string list \<Rightarrow> string option \<Rightarrow> task list task_cmd" where
  "cmd_reopen e ids other =
     with_store_lock
       (bnd (guard_tasks e ids other) (\<lambda>checked.
        bnd (reopen_resolved e (map fst checked)) (\<lambda>reopened.
        bnd (collect (\<lambda>audit. attempt (record_override e audit)) (map snd checked)) (\<lambda>rs.
        if failures rs = [] then ret reopened else bail (FailedNotes (failures rs))))))"

definition cmd_note :: "env \<Rightarrow> string \<Rightarrow> string \<Rightarrow> string option \<Rightarrow> task task_cmd" where
  "cmd_note e i text other = guarded e i other (\<lambda>tgt. note_task e tgt text)"

definition cmd_wait :: "env \<Rightarrow> string \<Rightarrow> string \<Rightarrow> string option \<Rightarrow> task task_cmd" where
  "cmd_wait e i reason other = guarded e i other (\<lambda>tgt. wait_task e tgt reason)"

definition cmd_block :: "env \<Rightarrow> string \<Rightarrow> string \<Rightarrow> string option \<Rightarrow> task task_cmd" where
  "cmd_block e i on other = guarded e i other (\<lambda>tgt. block_task e tgt on)"

definition cmd_edit :: "env \<Rightarrow> string \<Rightarrow> task_edit \<Rightarrow> string option \<Rightarrow> task task_cmd" where
  "cmd_edit e i ed other = guarded e i other (\<lambda>tgt. edit_task e tgt ed)"

section \<open>Clearing\<close>

type_synonym checked_task = "string \<times> override_note option"

definition session_slugs :: "string \<Rightarrow> store \<Rightarrow> err + string list" where
  "session_slugs named s =
     seqR (list_tasks_strict s) (\<lambda>ts. Inr (map t_slug (tasks_of named ts)))"

text \<open>The deletes report what left the store even when they stop half way.\<close>

fun clear_ids :: "env \<Rightarrow> checked_task list \<Rightarrow> string list \<Rightarrow> ((err + unit) \<times> string list) task_cmd" where
  "clear_ids e [] deleted = ret (Inr (), deleted)"
| "clear_ids e ((slug, _) # rest) deleted =
     bnd (attempt (delete_task e (Resolved slug))) (\<lambda>r.
     case r of
       Inl err \<Rightarrow> ret (Inl (InContext (CtxClearStopped slug (length deleted)) err), deleted)
     | Inr t \<Rightarrow> clear_ids e rest (deleted @ [t_slug t]))"

definition clear_session :: "string \<Rightarrow> ((err + unit) \<times> string list) task_cmd" where
  "clear_session named =
     bnd (attempt (rd (session_slugs named))) (\<lambda>b.
     case b of
       Inl err \<Rightarrow> ret (Inl err, [])
     | Inr before \<Rightarrow>
         bnd (attempt (delete_tasks_in_session named)) (\<lambda>r.
         case r of
           Inr cleared \<Rightarrow> ret (Inr (), map t_slug cleared)
         | Inl err \<Rightarrow>
             bnd (attempt (rd (session_slugs named))) (\<lambda>a.
             case a of
               Inr remaining \<Rightarrow> ret (Inl err, filter (\<lambda>x. x \<notin> set remaining) before)
             | Inl _ \<Rightarrow> ret (Inl (InContext CtxStoreUnreadAfterDelete err), []))))"

definition is_owner_less :: "checked_task list \<Rightarrow> string \<Rightarrow> bool" where
  "is_owner_less checked slug =
     list_ex (\<lambda>(c, note). c = slug \<and> (case note of Some n \<Rightarrow> o_owner_less n | None \<Rightarrow> False)) checked"

definition overridden_slugs ::
  "string option \<Rightarrow> string \<Rightarrow> caller \<Rightarrow> checked_task list \<Rightarrow> string list \<Rightarrow> string list" where
  "overridden_slugs sess owner c checked deleted =
     (case sess of
        Some named \<Rightarrow> if owner = named \<and> c \<noteq> CallerSession named then deleted else []
      | None \<Rightarrow>
          filter (\<lambda>slug. list_ex (\<lambda>(k, note). k = slug \<and>
            (case note of Some n \<Rightarrow> \<not> o_owner_less n | None \<Rightarrow> False)) checked) deleted)"

definition record_clear_override :: "string \<Rightarrow> string \<Rightarrow> string list \<Rightarrow> unit task_cmd" where
  "record_clear_override owner who deleted =
     map_error (InContext (CtxSessionNoteUnsaved owner))
       (append_override_note owner
         (Some (''Cleared with --other-session by '' @ who @ ''. Deleted tasks: '' @
            join_str '', '' deleted @ ''.'')))"

definition record_notes ::
  "string option \<Rightarrow> string option \<Rightarrow> caller \<Rightarrow> checked_task list \<Rightarrow> string list \<Rightarrow> string option \<Rightarrow> unit task_cmd" where
  "record_notes sess other c checked deleted session_note =
     (let owner_less = filter (is_owner_less checked) deleted in
      bnd (if owner_less \<noteq> [] then record_owner_less_delete c owner_less else ret ()) (\<lambda>_.
      case other of
        None \<Rightarrow> ret ()
      | Some owner \<Rightarrow>
          let covered = overridden_slugs sess owner c checked deleted in
          if covered \<noteq> [] then record_clear_override owner (describe c) covered
          else (case (sess, session_note) of
              (Some named, Some text) \<Rightarrow>
                map_error (InContext (CtxSessionNoteUnsaved named))
                  (append_override_note named (Some text))
            | _ \<Rightarrow> ret ())))"

definition task_clear :: "env \<Rightarrow> string list \<Rightarrow> string option \<Rightarrow> string option \<Rightarrow> string list task_cmd" where
  "task_clear e ids sess other =
     bnd (case sess of
            Some named \<Rightarrow> guard_session e named other
          | None \<Rightarrow> if ids = [] then bail (OwnerE NothingToClear) else ret None) (\<lambda>session_note.
     bnd (guard_tasks e ids other) (\<lambda>checked.
     bnd (rd (caller_session_for_task e)) (\<lambda>c.
     bnd (if list_ex (\<lambda>(_, note). case note of Some n \<Rightarrow> o_owner_less n | None \<Rightarrow> False) checked
          then lft (check_owner_less_delete c) else ret ()) (\<lambda>_.
     bnd (case sess of
            Some named \<Rightarrow> clear_session named
          | None \<Rightarrow> clear_ids e checked []) (\<lambda>(outcome, deleted).
     bnd (attempt (record_notes sess other c checked deleted session_note)) (\<lambda>noted.
     case (outcome, noted) of
       (Inr _, Inr _) \<Rightarrow> ret deleted
     | (Inr _, Inl n) \<Rightarrow> bail n
     | (Inl err, Inr _) \<Rightarrow> bail err
     | (Inl err, Inl n) \<Rightarrow> bail (BothFailed err n)))))))"

definition cmd_clear :: "env \<Rightarrow> string list \<Rightarrow> string option \<Rightarrow> string option \<Rightarrow> string list task_cmd" where
  "cmd_clear e ids sess other = with_store_lock (task_clear e ids sess other)"

section \<open>Session commands\<close>

definition resolve_session_id :: "env \<Rightarrow> string \<Rightarrow> string option \<Rightarrow> store \<Rightarrow> err + string" where
  "resolve_session_id e project i s =
     (case i of
        Some x \<Rightarrow> Inr x
      | None \<Rightarrow>
          seqR (open_sessions_strict s project) (\<lambda>opens.
          seqR (from_env e) (\<lambda>owner.
          case pick_open_session opens owner of
            Inr x \<Rightarrow> Inr (s_id x)
          | Inl NoneOpen \<Rightarrow> Inl (SessionE NoneOpenForProject)
          | Inl (Ambiguous n k b) \<Rightarrow> Inl (SessionE (AmbiguousSession n k b)))))"

definition resolve_session_for_read :: "env \<Rightarrow> string \<Rightarrow> string option \<Rightarrow> store \<Rightarrow> err + string" where
  "resolve_session_for_read e project i s =
     (case i of
        Some x \<Rightarrow> Inr x
      | None \<Rightarrow>
          seqR (resolve_session_id e project None s) (\<lambda>picked.
          seqR (caller_session_for_task e s) (\<lambda>c.
          case ensure_session_is_ours picked c None of
            Inl _ \<Rightarrow> Inl (SessionE (ReadsOtherSession picked))
          | Inr _ \<Rightarrow> Inr picked)))"

record session_start_args =
  sa_name :: "string option"
  sa_description :: "string option"
  sa_resume :: "string option"
  sa_replace :: bool
  sa_new :: bool
  sa_tasks :: "string list"
  sa_context :: resume_context
  sa_branch :: "err + string option"

definition start_decision_of :: "session_start_args \<Rightarrow> start_decision" where
  "start_decision_of a =
     (case sa_resume a of
        Some i \<Rightarrow> ResumeId i
      | None \<Rightarrow> if sa_replace a then Replace else if sa_new a then New else Auto)"

fun outcome_id :: "start_outcome \<Rightarrow> string" where
  "outcome_id (Created x) = s_id x"
| "outcome_id (Resumed x) = s_id x"
| "outcome_id (Replaced x _) = s_id x"

definition cmd_session_start :: "env \<Rightarrow> session_start_args \<Rightarrow> start_outcome task_cmd" where
  "cmd_session_start e a =
     bnd (lft (e_project e)) (\<lambda>project.
     bnd (lft (sa_branch a)) (\<lambda>branch.
     bnd (lft (from_env e)) (\<lambda>owner.
     let q = \<lparr>q_name = sa_name a, q_description = sa_description a, q_project = project,
              q_owner = owner,
              q_resume = (if sa_resume a \<noteq> None then sa_context a
                          else fill_detected branch (sa_context a))\<rparr> in
     bnd (start_session_as e q (start_decision_of a)) (\<lambda>out.
     bnd (each (\<lambda>title.
            bnd (map_error (InContext (CtxTaskNotAdded (outcome_id out) title))
              (add_task_with e
                \<lparr>nt_title = title, nt_detail = None, nt_placement = PlaceQueue, nt_after = None\<rparr>
                Detached (Named (outcome_id out)) project)) (\<lambda>_. ret ())) (sa_tasks a)) (\<lambda>_.
     ret out)))))"

definition session_change ::
  "env \<Rightarrow> string option \<Rightarrow> string option \<Rightarrow> (string \<Rightarrow> 'a task_cmd) \<Rightarrow> 'a task_cmd" where
  "session_change e i other act =
     bnd (lft (e_project e)) (\<lambda>project.
     with_store_lock
       (bnd (rd (resolve_session_id e project i)) (\<lambda>x.
        bnd (guard_session e x other) (\<lambda>audit.
        bnd (act x) (\<lambda>r.
        bnd (append_override_note x audit) (\<lambda>_. ret r))))))"

definition cmd_session_edit ::
  "env \<Rightarrow> string option \<Rightarrow> resume_context \<Rightarrow> string option \<Rightarrow> session task_cmd" where
  "cmd_session_edit e i update other =
     session_change e i other (\<lambda>x. update_resume x (apply_resume update))"

definition cmd_session_note ::
  "env \<Rightarrow> string option \<Rightarrow> string \<Rightarrow> string option \<Rightarrow> session task_cmd" where
  "cmd_session_note e i text other =
     bnd (lft (e_project e)) (\<lambda>_.
     if trim_end text = [] then bail (SessionE EmptyNote)
     else session_change e i other (\<lambda>x. update_resume x (append_note (trim_end text))))"

definition cmd_session_finish ::
  "env \<Rightarrow> string option \<Rightarrow> bool \<Rightarrow> string option \<Rightarrow> finish_outcome task_cmd" where
  "cmd_session_finish e i abandon_open other =
     session_change e i other (\<lambda>x. finish_session x abandon_open)"

section \<open>Read-only commands\<close>

definition task_ls ::
  "env \<Rightarrow> string option \<Rightarrow> bool \<Rightarrow> task_state list \<Rightarrow> bool \<Rightarrow> bool \<Rightarrow> store \<Rightarrow> err + task list" where
  "task_ls e sess all_sessions states hide_done current_project s =
     (if sess = None \<and> \<not> all_sessions then Inl (SessionE ListNeedsSession)
      else
        seqR (try_list_tasks s) (\<lambda>ts0.
        seqR (if current_project then
                seqR (e_project e) (\<lambda>project.
                seqR (list_sessions_strict s) (\<lambda>xs. Inr (filter_tasks_for_project xs project ts0)))
              else Inr ts0) (\<lambda>ts1.
        let ts2 = (case sess of Some i \<Rightarrow> tasks_of i ts1 | None \<Rightarrow> ts1);
            ts3 = filter_by_state ts2 states in
        Inr (if hide_done then filter (\<lambda>t. t_state t \<noteq> Done) ts3 else ts3))))"

datatype show_target = ShowCurrent | ShowNext

definition show_current_or_next ::
  "env \<Rightarrow> show_target \<Rightarrow> store \<Rightarrow> err + (string \<times> task option) list" where
  "show_current_or_next e target s =
     seqR (e_project e) (\<lambda>project.
     seqR (open_sessions_strict s project) (\<lambda>opens.
     if opens = [] then Inl (SessionE NoneOpenForProject)
     else
       seqR (list_tasks_strict s) (\<lambda>ts.
       Inr (map (\<lambda>x.
         let mine = tasks_of (s_id x) ts in
         (s_id x, Option.bind (resolve_current_task mine) (\<lambda>cur.
            case target of ShowCurrent \<Rightarrow> Some cur | ShowNext \<Rightarrow> resolve_next_task ts mine cur))) opens))))"

section \<open>Runs of commands\<close>

datatype command =
    Add add_args
  | Start string bool bool "string option"
  | DoneCmd string bool "string option"
  | Reopen "string list" "string option"
  | Note string string "string option"
  | Wait string string "string option"
  | Block string string "string option"
  | Edit string task_edit "string option"
  | Clear "string list" "string option" "string option"
  | SessionStart session_start_args
  | SessionEdit "string option" resume_context "string option"
  | SessionNote "string option" string "string option"
  | SessionFinish "string option" bool "string option"

definition discard :: "'a task_cmd \<Rightarrow> unit task_cmd" where
  "discard m = bnd m (\<lambda>_. ret ())"

fun run_task_command :: "env \<Rightarrow> command \<Rightarrow> unit task_cmd" where
  "run_task_command e (Add a) = discard (cmd_add e a)"
| "run_task_command e (Start i force reopen other) = discard (cmd_start e i force reopen other)"
| "run_task_command e (DoneCmd i force other) = discard (cmd_done e i force other)"
| "run_task_command e (Reopen ids other) = discard (cmd_reopen e ids other)"
| "run_task_command e (Note i text other) = discard (cmd_note e i text other)"
| "run_task_command e (Wait i reason other) = discard (cmd_wait e i reason other)"
| "run_task_command e (Block i on other) = discard (cmd_block e i on other)"
| "run_task_command e (Edit i ed other) = discard (cmd_edit e i ed other)"
| "run_task_command e (Clear ids sess other) = discard (cmd_clear e ids sess other)"
| "run_task_command e (SessionStart a) = discard (cmd_session_start e a)"
| "run_task_command e (SessionEdit i upd other) = discard (cmd_session_edit e i upd other)"
| "run_task_command e (SessionNote i text other) = discard (cmd_session_note e i text other)"
| "run_task_command e (SessionFinish i ab other) = discard (cmd_session_finish e i ab other)"

definition command_step :: "env \<times> command \<Rightarrow> store \<Rightarrow> store" where
  "command_step ec s = snd (run_task_command (fst ec) (snd ec) s)"

section \<open>Every command is a good step\<close>

lemma keeps_discard: "keeps good_step m \<Longrightarrow> keeps good_step (discard m)"
  unfolding discard_def by (intro good.keeps_intros)

lemma keeps_record_override: "keeps good_step (record_override e audit)"
  unfolding record_override_def by (intro good.keeps_intros keeps_task_ops)

lemma keeps_guarded: "(\<And>tgt. keeps good_step (act tgt)) \<Longrightarrow> keeps good_step (guarded e i other act)"
  unfolding guarded_def guard_task_def
  by (intro good.keeps_intros keeps_prims keeps_record_override)

lemma keeps_task_add: "keeps good_step (task_add e a)"
  unfolding task_add_def Let_def
  by (intro good.keeps_intros keeps_task_ops) (auto intro!: good.keeps_intros keeps_task_ops split: bool.splits)

lemma keeps_cmd_done: "keeps good_step (cmd_done e i force other)"
  unfolding cmd_done_def complete_task_by_def
  by (intro good.keeps_intros keeps_prims keeps_task_ops keeps_record_override)

lemma keeps_cmd_reopen: "keeps good_step (cmd_reopen e ids other)"
  unfolding cmd_reopen_def guard_tasks_def reopen_resolved_def
  by (intro good.keeps_intros keeps_prims keeps_task_ops keeps_record_override)

lemma keeps_clear_ids: "keeps good_step (clear_ids e checked deleted)"
proof (induction e checked deleted rule: clear_ids.induct)
  case (1 e deleted)
  show ?case unfolding clear_ids.simps by (rule good.keeps_ret)
next
  case (2 e slug nt rest deleted)
  show ?case
    unfolding clear_ids.simps by (intro good.keeps_intros keeps_task_ops 2)
qed

lemma keeps_clear_session: "keeps good_step (clear_session named)"
  unfolding clear_session_def by (intro good.keeps_intros keeps_session_ops)

lemma keeps_record_notes: "keeps good_step (record_notes sess other c checked deleted note)"
  unfolding record_notes_def record_clear_override_def Let_def
  by (intro good.keeps_intros keeps_prims keeps_task_ops)

lemma keeps_task_clear: "keeps good_step (task_clear e ids sess other)"
  unfolding task_clear_def guard_session_def guard_tasks_def
  by (intro good.keeps_intros keeps_clear_ids keeps_clear_session keeps_record_notes)

lemma keeps_session_change:
  "(\<And>x. keeps good_step (act x)) \<Longrightarrow> keeps good_step (session_change e i other act)"
  unfolding session_change_def guard_session_def by (intro good.keeps_intros keeps_prims)

lemma keeps_cmd_session_start: "keeps good_step (cmd_session_start e a)"
  unfolding cmd_session_start_def Let_def
  by (intro good.keeps_intros keeps_session_ops keeps_task_ops)

lemma keeps_run_task_command: "keeps good_step (run_task_command e c)"
  by (cases c)
    (auto simp: cmd_add_def cmd_start_def cmd_note_def cmd_wait_def cmd_block_def cmd_edit_def
      cmd_clear_def cmd_session_edit_def cmd_session_note_def cmd_session_finish_def
      intro!: keeps_discard keeps_guarded keeps_session_change keeps_task_ops keeps_session_ops
      keeps_prims keeps_task_add keeps_task_clear keeps_cmd_done keeps_cmd_reopen
      keeps_cmd_session_start good.keeps_intros)

lemma command_step_good: "good_step s (command_step ec s)"
  using keeps_run_task_command[of "fst ec" "snd ec"] by (simp add: keeps_def command_step_def)

interpretation command_run: invariant_run command_step well_named
  by unfold_locales (use command_step_good in \<open>auto simp: good_step_def\<close>)

lemma run_good: "good_step s (fold command_step ecs s)"
proof (induction ecs arbitrary: s)
  case (Cons ec ecs)
  show ?case
    using good.trans[OF command_step_good Cons.IH] by simp
qed (simp add: good.refl)

end
