(* ===== verification/Reminders.thy ===== *)
theory Reminders
  imports Task_Cli
begin

text \<open>
  What the hooks tell an agent about the store: the shared strict read of \<open>reminder_store.rs\<close>, the
  tracking state of \<open>tracking.rs\<close>, and the SessionStart and Stop reminders of \<open>lib.rs\<close>,
  \<open>finish_hints.rs\<close>, \<open>session/context_reminder.rs\<close> and \<open>session/resume_text.rs\<close>.  A reminder line is
  a value that holds the session, the task and the numbers its text names; the fixed prose around
  them is left out.
\<close>

section \<open>One read of the store\<close>

record stored =
  sd_tasks :: "err + task list"
  sd_sessions :: "err + session list"

definition stored_read :: "store \<Rightarrow> stored" where
  "stored_read s = \<lparr>sd_tasks = list_tasks_strict s, sd_sessions = list_sessions_strict s\<rparr>"

definition open_sessions_visible_to :: "stored \<Rightarrow> string \<Rightarrow> string option \<Rightarrow> err + session list" where
  "open_sessions_visible_to st project c =
     seqR (sd_sessions st) (\<lambda>xs. Inr (open_visible xs project c))"

definition session_ids_visible_to :: "stored \<Rightarrow> string \<Rightarrow> string option \<Rightarrow> err + string set" where
  "session_ids_visible_to st project c =
     seqR (sd_sessions st) (\<lambda>xs. Inr (ids_visible xs project c))"

definition store_for_reminder :: "string \<Rightarrow> stored \<Rightarrow> err + task list" where
  "store_for_reminder project st =
     (case seqR (open_sessions_visible_to st project None) (\<lambda>_. sd_tasks st) of
        Inl e \<Rightarrow> Inl (InContext CtxStoreUnread e)
      | Inr ts \<Rightarrow> Inr ts)"

section \<open>Tracking\<close>

datatype tracking =
    UnknownTracking err
  | NoSession
  | NoTasks
  | Tracked "string option" bool "string list" "string option" nat

definition tracking_of :: "session list \<Rightarrow> task list \<Rightarrow> string option \<Rightarrow> tracking" where
  "tracking_of visible ts c =
     (let ids = map s_id visible in
      if ids = [] then NoSession
      else
        let unfinished = filter (\<lambda>t. t_state t \<noteq> Done \<and>
              (case t_session t of Some i \<Rightarrow> i \<in> set ids | None \<Rightarrow> False)) ts in
        if unfinished = [] then NoTasks
        else
          let wip_task = find (\<lambda>t. t_state t = Wip) unfinished;
              ownerless = (c \<noteq> None \<and>
                (case Option.bind wip_task t_session of
                   Some i \<Rightarrow> list_ex (\<lambda>x. s_id x = i \<and> s_owner_session x = None) visible
                 | None \<Rightarrow> False));
              opens = filter (\<lambda>t. t_state t = Open) unfinished in
          Tracked (map_option t_slug wip_task) ownerless
            (map t_slug (filter (\<lambda>t. t_state t = Waiting) unfinished))
            (map_option t_slug (min_by_key queue_order opens)) (length opens))"

definition tracking_in :: "env \<Rightarrow> stored \<Rightarrow> string option \<Rightarrow> tracking" where
  "tracking_in e st c =
     (case e_project e of
        Inl err \<Rightarrow> UnknownTracking err
      | Inr project \<Rightarrow>
          (case (open_sessions_visible_to st project None, sd_tasks st) of
             (Inl err, _) \<Rightarrow> UnknownTracking err
           | (Inr _, Inl err) \<Rightarrow> UnknownTracking err
           | (Inr xs, Inr ts) \<Rightarrow> tracking_of (filter (\<lambda>x. visible_to x c) xs) ts c))"

section \<open>Reminder lines\<close>

datatype reminder =
    StoreWarning err
  | ResumeLine session
  | WipLine task progress_suffix
  | WaitingLine task
  | FinishLine session nat
  | EmptySessionLine session
  | StalledParent stalled_line
  | IdleLine session task nat
  | MissingContext session
  | ContextNotChecked session err

text \<open>Empty parts and repeated parts are dropped; the first of equal parts stays.\<close>

fun combine_from :: "'a list list \<Rightarrow> 'a list list \<Rightarrow> 'a list list" where
  "combine_from seen [] = []"
| "combine_from seen (p # ps) =
     (if p = [] \<or> p \<in> set seen then combine_from seen ps else p # combine_from (p # seen) ps)"

definition combine_reminders :: "'a list list \<Rightarrow> 'a list list" where
  "combine_reminders parts = combine_from [] parts"

definition for_current_project :: "env \<Rightarrow> (string \<Rightarrow> reminder list) \<Rightarrow> reminder list" where
  "for_current_project e f = (case e_project e of Inr project \<Rightarrow> f project | Inl _ \<Rightarrow> [])"

definition wip_reminder :: "task list \<Rightarrow> reminder list" where
  "wip_reminder ts =
     map (\<lambda>t. WipLine t (progress_suffix_of (t_slug t) ts)) (filter (\<lambda>t. t_state t = Wip) ts)"

definition waiting_reminder :: "task list \<Rightarrow> reminder list" where
  "waiting_reminder ts = map WaitingLine (filter (\<lambda>t. t_state t = Waiting) ts)"

definition finish_reminder_lines ::
  "string \<Rightarrow> string option \<Rightarrow> task list \<Rightarrow> stored \<Rightarrow> reminder list" where
  "finish_reminder_lines project c ts st =
     (case open_sessions_visible_to st project c of
        Inl err \<Rightarrow> [StoreWarning err]
      | Inr opens \<Rightarrow>
          List.map_filter (\<lambda>x.
            case progress_in ts (s_id x) of (done_n, all_n) \<Rightarrow>
              if all_n = 0 \<or> done_n < all_n then None else Some (FinishLine x all_n)) opens)"

definition session_finish_reminders :: "env \<Rightarrow> string option \<Rightarrow> stored \<Rightarrow> reminder list" where
  "session_finish_reminders e c st =
     for_current_project e (\<lambda>project.
       case store_for_reminder project st of
         Inl w \<Rightarrow> [StoreWarning w]
       | Inr ts \<Rightarrow> finish_reminder_lines project c ts st)"

definition last_task_hint :: "store \<Rightarrow> task \<Rightarrow> err + bool" where
  "last_task_hint s t =
     (case t_session t of
        None \<Rightarrow> Inr False
      | Some i \<Rightarrow>
          seqR (try_session_progress s i) (\<lambda>(done_n, all_n).
          Inr (\<not> (all_n = 0 \<or> done_n < all_n))))"

record idle_session =
  id_session :: session
  id_next :: task
  id_open_count :: nat

definition idle_of :: "task list \<Rightarrow> session \<Rightarrow> idle_session option" where
  "idle_of all_tasks x =
     (let ts = tasks_of (s_id x) all_tasks in
      if list_ex (\<lambda>t. t_state t = Wip \<or> t_state t = Waiting) ts then None
      else
        let opens = filter (\<lambda>t. t_state t = Open) (execution_order ts) in
        case find (\<lambda>t. is_actionable t (by_slug all_tasks)) opens of
          Some t \<Rightarrow> Some \<lparr>id_session = x, id_next = t, id_open_count = length opens\<rparr>
        | None \<Rightarrow>
            (case opens of
               t # _ \<Rightarrow> Some \<lparr>id_session = x, id_next = t, id_open_count = length opens\<rparr>
             | [] \<Rightarrow> None))"

definition idle_sessions :: "session list \<Rightarrow> task list \<Rightarrow> idle_session list" where
  "idle_sessions opens all_tasks = List.map_filter (idle_of all_tasks) opens"

definition empty_session_lines ::
  "stored \<Rightarrow> task list \<Rightarrow> string \<Rightarrow> string option \<Rightarrow> reminder list" where
  "empty_session_lines st ts project c =
     (case open_sessions_visible_to st project c of
        Inl err \<Rightarrow> [StoreWarning err]
      | Inr opens \<Rightarrow>
          map EmptySessionLine
            (filter (\<lambda>x. \<not> list_ex (\<lambda>t. t_session t = Some (s_id x)) ts) opens))"

definition idle_reminder_lines :: "string \<Rightarrow> string option \<Rightarrow> stored \<Rightarrow> reminder list" where
  "idle_reminder_lines project c st =
     (case store_for_reminder project st of
        Inl w \<Rightarrow> [StoreWarning w]
      | Inr ts \<Rightarrow>
          (case open_sessions_visible_to st project c of
             Inl err \<Rightarrow> [StoreWarning err]
           | Inr opens \<Rightarrow>
               empty_session_lines st ts project c @
               map StalledParent (stalled_parent_lines ts (map s_id opens)) @
               map (\<lambda>i. IdleLine (id_session i) (id_next i) (id_open_count i)) (idle_sessions opens ts)))"

definition idle_session_reminders :: "env \<Rightarrow> string option \<Rightarrow> stored \<Rightarrow> reminder list" where
  "idle_session_reminders e c st =
     for_current_project e (\<lambda>project. idle_reminder_lines project c st)"

definition missing_context_reminders :: "string \<Rightarrow> string option \<Rightarrow> stored \<Rightarrow> reminder list" where
  "missing_context_reminders project c st =
     (case open_sessions_visible_to st project c of
        Inl err \<Rightarrow> [StoreWarning err]
      | Inr xs \<Rightarrow>
          List.map_filter (\<lambda>x.
            case sd_tasks st of
              Inr ts \<Rightarrow>
                if list_ex (\<lambda>t. t_session t = Some (s_id x) \<and> t_state t \<noteq> Done) ts
                then Some (MissingContext x) else None
            | Inl err \<Rightarrow> Some (ContextNotChecked x err))
          (filter (\<lambda>x. needs_nudge (s_resume x)) xs))"

definition resume_reminder_lines :: "err + session list \<Rightarrow> reminder list" where
  "resume_reminder_lines opens =
     (case opens of
        Inl err \<Rightarrow> [StoreWarning err]
      | Inr xs \<Rightarrow> map ResumeLine (filter (\<lambda>x. \<not> resume_is_empty (s_resume x)) xs))"

definition tasks_for_current_project :: "env \<Rightarrow> stored \<Rightarrow> task list \<Rightarrow> err + task list" where
  "tasks_for_current_project e st ts =
     (case e_project e of
        Inl _ \<Rightarrow> Inr []
      | Inr project \<Rightarrow>
          seqR (session_ids_visible_to st project None) (\<lambda>ids. Inr (tasks_in_sessions ts ids)))"

definition tasks_visible_to :: "env \<Rightarrow> string option \<Rightarrow> stored \<Rightarrow> err + task list" where
  "tasks_visible_to e c st =
     (case e_project e of
        Inl err \<Rightarrow> Inl (InContext CtxTagUnresolved err)
      | Inr project \<Rightarrow>
          seqR (session_ids_visible_to st project None) (\<lambda>project_ids.
          seqR (case sd_tasks st of Inl err \<Rightarrow> Inl (InContext CtxStoreUnread err) | Inr ts \<Rightarrow> Inr ts) (\<lambda>all_tasks.
          let ts = tasks_in_sessions all_tasks project_ids in
          if c \<noteq> None then
            seqR (session_ids_visible_to st project c) (\<lambda>visible. Inr (tasks_in_sessions ts visible))
          else Inr ts)))"

section \<open>The hooks\<close>

definition session_start_reminder :: "env \<Rightarrow> store \<Rightarrow> reminder list list" where
  "session_start_reminder e s =
     (let st = stored_read s;
          (read_warning, ts) =
            (case sd_tasks st of
               Inr all_tasks \<Rightarrow>
                 (case tasks_for_current_project e st all_tasks of
                    Inr ts \<Rightarrow> ([], ts)
                  | Inl err \<Rightarrow> ([StoreWarning err], []))
             | Inl err \<Rightarrow> ([StoreWarning (InContext CtxStoreUnread err)], [])) in
      combine_reminders
        [read_warning,
         for_current_project e (\<lambda>project. resume_reminder_lines (open_sessions_visible_to st project None)),
         wip_reminder ts,
         waiting_reminder ts,
         session_finish_reminders e None st,
         for_current_project e (\<lambda>project.
           case store_for_reminder project st of
             Inr all_tasks \<Rightarrow> empty_session_lines st all_tasks project None
           | Inl w \<Rightarrow> [StoreWarning w])])"

definition stop_hook_reminder :: "env \<Rightarrow> stored \<Rightarrow> string option \<Rightarrow> reminder list list" where
  "stop_hook_reminder e st c =
     (let (ts, store_warning) =
            (case tasks_visible_to e c st of
               Inr ts \<Rightarrow> (ts, [])
             | Inl err \<Rightarrow> ([], [StoreWarning err])) in
      combine_reminders
        [wip_reminder ts,
         session_finish_reminders e c st,
         idle_session_reminders e c st,
         for_current_project e (\<lambda>project. missing_context_reminders project c st),
         store_warning])"

section \<open>What tracking says\<close>

lemma tracking_of_NoSession: "tracking_of visible ts c = NoSession \<longleftrightarrow> visible = []"
  by (auto simp: tracking_of_def Let_def)

definition live_tasks :: "session list \<Rightarrow> task list \<Rightarrow> task list" where
  "live_tasks visible ts =
     filter (\<lambda>t. t_state t \<noteq> Done \<and>
       (case t_session t of Some i \<Rightarrow> i \<in> set (map s_id visible) | None \<Rightarrow> False)) ts"

lemma tracking_of_NoTasks:
  "tracking_of visible ts c = NoTasks \<longleftrightarrow> visible \<noteq> [] \<and> live_tasks visible ts = []"
  by (auto simp: tracking_of_def live_tasks_def Let_def)

lemma tracking_of_Tracked:
  assumes "tracking_of visible ts c = Tracked wip own waiting nxt queued"
  shows "wip = map_option t_slug (find (\<lambda>t. t_state t = Wip) (live_tasks visible ts))"
    "waiting = map t_slug (filter (\<lambda>t. t_state t = Waiting) (live_tasks visible ts))"
    "nxt = map_option t_slug (min_by_key queue_order (filter (\<lambda>t. t_state t = Open) (live_tasks visible ts)))"
    "queued = length (filter (\<lambda>t. t_state t = Open) (live_tasks visible ts))"
    "own \<Longrightarrow> c \<noteq> None"
  using assms by (auto simp: tracking_of_def live_tasks_def Let_def split: if_splits)

section \<open>Each open session has one place\<close>

text \<open>
  The tasks of a session decide which line it gets: none at all, all done, something running or
  parked, or only open and done ones.
\<close>

lemma set_execution_order:
  assumes "distinct (map t_slug ts)"
  shows "set (execution_order ts) = set ts"
  using display_rows_perm[OF assms, of "[]"] unfolding execution_order_def by (metis set_mset_mset)

lemma find_mem: "find p xs = Some x \<Longrightarrow> x \<in> set xs \<and> p x"
  by (auto simp: find_Some_iff)

lemma distinct_tasks_of: "distinct (map t_slug ts) \<Longrightarrow> distinct (map t_slug (tasks_of i ts))"
  unfolding tasks_of_def by (rule distinct_map_filter)

lemma idle_of_Some:
  assumes "distinct (map t_slug ts)" and "idle_of ts x = Some i"
  shows "id_session i = x" "id_next i \<in> set (tasks_of (s_id x) ts)" "t_state (id_next i) = Open"
    "\<exists>t \<in> set (tasks_of (s_id x) ts). t_state t = Open \<and> is_actionable t (by_slug ts) \<Longrightarrow>
       is_actionable (id_next i) (by_slug ts)"
    "\<not> (\<exists>t \<in> set (tasks_of (s_id x) ts). t_state t = Wip \<or> t_state t = Waiting)"
proof -
  let ?ts = "tasks_of (s_id x) ts"
  let ?opens = "filter (\<lambda>t. t_state t = Open) (execution_order ?ts)"
  have eo: "set (execution_order ?ts) = set ?ts"
    by (rule set_execution_order[OF distinct_tasks_of[OF assms(1)]])
  have none: "\<not> list_ex (\<lambda>t. t_state t = Wip \<or> t_state t = Waiting) ?ts"
    using assms(2) by (auto simp: idle_of_def Let_def split: if_splits)
  then show "\<not> (\<exists>t \<in> set ?ts. t_state t = Wip \<or> t_state t = Waiting)"
    by (auto simp: list_ex_iff)
  have cases: "(\<exists>t. find (\<lambda>t. is_actionable t (by_slug ts)) ?opens = Some t \<and>
        i = \<lparr>id_session = x, id_next = t, id_open_count = length ?opens\<rparr>) \<or>
      (find (\<lambda>t. is_actionable t (by_slug ts)) ?opens = None \<and>
       (\<exists>t us. ?opens = t # us \<and> i = \<lparr>id_session = x, id_next = t, id_open_count = length ?opens\<rparr>))"
    using assms(2) none by (auto simp: idle_of_def Let_def split: option.splits list.splits)
  then have mem: "id_next i \<in> set ?opens" and "id_session i = x"
    by (auto dest: find_mem intro: list.set_intros(1) simp del: set_filter)
  then show "id_session i = x" "id_next i \<in> set ?ts" "t_state (id_next i) = Open"
    using eo by auto
  assume "\<exists>t \<in> set ?ts. t_state t = Open \<and> is_actionable t (by_slug ts)"
  then have "find (\<lambda>t. is_actionable t (by_slug ts)) ?opens \<noteq> None"
    using eo by (auto simp: find_None_iff)
  then show "is_actionable (id_next i) (by_slug ts)"
    using cases by (auto dest: find_mem)
qed

lemma idle_of_None:
  assumes "distinct (map t_slug ts)"
  shows "idle_of ts x = None \<longleftrightarrow>
    (\<exists>t \<in> set (tasks_of (s_id x) ts). t_state t = Wip \<or> t_state t = Waiting) \<or>
    (\<forall>t \<in> set (tasks_of (s_id x) ts). t_state t \<noteq> Open)"
proof -
  let ?ts = "tasks_of (s_id x) ts"
  have eo: "set (execution_order ?ts) = set ?ts"
    by (rule set_execution_order[OF distinct_tasks_of[OF assms]])
  show ?thesis
  proof (cases "list_ex (\<lambda>t. t_state t = Wip \<or> t_state t = Waiting) ?ts")
    case True
    then show ?thesis by (auto simp: idle_of_def Let_def list_ex_iff)
  next
    case False
    let ?opens = "filter (\<lambda>t. t_state t = Open) (execution_order ?ts)"
    have "idle_of ts x = None \<longleftrightarrow> ?opens = []"
      using False by (auto simp: idle_of_def Let_def split: option.splits list.splits)
    also have "\<dots> \<longleftrightarrow> (\<forall>t \<in> set ?ts. t_state t \<noteq> Open)"
      using eo by (auto simp: filter_empty_conv)
    finally show ?thesis using False by (auto simp: list_ex_iff)
  qed
qed

end
