(* ===== verification/Store_Lock.thy ===== *)
theory Store_Lock
  imports Base
begin

text \<open>
  The re-entrant lock of \<open>crates/llmenv-task/src/store_lock.rs\<close>.  \<open>held\<close> is the thread-local list of
  canonical store folders, newest first; \<open>os_locks\<close> are the exclusive file locks that the thread
  owns, where opening the lock file again and locking it waits for the first lock to go away.  A
  body is a tree of nested calls; a run that would wait for itself is \<open>None\<close>.  The commands of
  \<open>Task_Ops\<close> nest their locks, so they rest on the result here: a nested call never waits for its
  own thread, and every call gives back what it took, also after an error.
\<close>

record lock_state =
  held :: "string list"
  os_locks :: "string list"

text \<open>What a locked body does: end well or with an error, call again under a lock, go on.\<close>

datatype lock_prog = Work bool | Under string lock_prog | Then lock_prog lock_prog

text \<open>\<open>canon\<close> makes the folder and resolves it; the system can refuse either.\<close>

fun run_locked ::
  "(string \<Rightarrow> string option) \<Rightarrow> lock_prog \<Rightarrow> lock_state \<Rightarrow> (bool \<times> lock_state) option" where
  "run_locked canon (Work ok) st = Some (ok, st)"
| "run_locked canon (Then p q) st =
     (case run_locked canon p st of
        None \<Rightarrow> None
      | Some (ok, st') \<Rightarrow> if ok then run_locked canon q st' else Some (False, st'))"
| "run_locked canon (Under dir p) st =
     (case canon dir of
        None \<Rightarrow> Some (False, st)
      | Some d \<Rightarrow>
          if d \<in> set (held st) then run_locked canon p st
          else if d \<in> set (os_locks st) then None
          else
            (case run_locked canon p (st\<lparr>os_locks := d # os_locks st, held := d # held st\<rparr>) of
               None \<Rightarrow> None
             | Some (ok, st') \<Rightarrow>
                 Some (ok, st'\<lparr>held := tl (held st'), os_locks := remove1 d (os_locks st')\<rparr>)))"

text \<open>Every file lock the thread owns is on its list.\<close>

definition lock_inv :: "lock_state \<Rightarrow> bool" where
  "lock_inv st \<longleftrightarrow> set (os_locks st) \<subseteq> set (held st)"

lemma run_locked_restores:
  "lock_inv st \<Longrightarrow> \<exists>ok. run_locked canon p st = Some (ok, st)"
proof (induction canon p st rule: run_locked.induct)
  case (1 canon ok st)
  then show ?case by simp
next
  case (2 canon p q st)
  then obtain ok where p: "run_locked canon p st = Some (ok, st)" by blast
  then show ?case
    using 2 by (cases ok) auto
next
  case (3 canon dir p st)
  show ?case
  proof (cases "canon dir")
    case (Some d)
    show ?thesis
    proof (cases "d \<in> set (held st)")
      case True
      then show ?thesis using 3 Some by simp
    next
      case False
      then have free: "d \<notin> set (os_locks st)"
        using "3.prems" by (auto simp: lock_inv_def)
      let ?st = "st\<lparr>os_locks := d # os_locks st, held := d # held st\<rparr>"
      have "lock_inv ?st"
        using "3.prems" by (auto simp: lock_inv_def)
      then obtain ok where "run_locked canon p ?st = Some (ok, ?st)"
        using "3.IH"(2)[OF Some False free] by blast
      then show ?thesis using Some False free by simp
    qed
  next
    case None
    then show ?thesis by (intro exI[of _ False]) simp
  qed
qed

end
