(* ===== verification/Session_Laws.thy ===== *)
theory Session_Laws
  imports Reminders Store_Lock
begin

text \<open>
  What the session operations leave behind: after a finish no unfinished task is tagged to the
  session; after a replace the new session is the only open one of the project; a start without a
  flag never opens a second session.
\<close>

section \<open>Stored tasks and loads\<close>

lemma load_in_store:
  assumes "well_named_tasks s" and "load_task s n = Inr t"
  shows "t \<in> set (store_tasks s)" "t_slug t = n"
proof -
  have "JsonFile n (Parsed t) \<in> set (entries (task_dir s))"
    using assms(2) by (auto simp: load_task_ok dest: find_json_in)
  then show "t \<in> set (store_tasks s)"
    using assms(1)
    by (auto simp: store_tasks_def parsed_in well_named_tasks_def well_named_dir_def)
  show "t_slug t = n"
    by (rule well_named_load_slug[OF assms])
qed

lemma untag_simps [simp]:
  "t_slug (untag now nt t) = t_slug t" "t_session (untag now nt t) = None"
  "t_state (untag now nt t) = t_state t" "t_parent (untag now nt t) = t_parent t"
  by (simp_all add: untag_def)

lemma map_error_ok [simp]: "map_error f m s = (Inr a, s') \<longleftrightarrow> m s = (Inr a, s')"
  by (auto simp: map_error_def split: prod.splits sum.splits)

lemma untag_each_ok:
  assumes "untag_each i now nt acc us s = (Inr r, s')"
  shows "r = acc @ map (untag now nt) us"
    and "u \<in> set us \<Longrightarrow> \<exists>v \<in> set us. t_slug v = t_slug u \<and> load_task s' (t_slug u) = Inr (untag now nt v)"
    and "n \<notin> t_slug ` set us \<Longrightarrow> load_task s' n = load_task s n"
    and "session_dir s' = session_dir s"
  using assms
proof (induction us arbitrary: acc s u n)
  case Nil
  {
    case 1 then show ?case by simp
  next
    case 2 then show ?case by simp
  next
    case 3 then show ?case by simp
  next
    case 4 then show ?case by simp
  }
next
  case (Cons p us)
  have split: "\<exists>s1. save_task (untag now nt p) s = (Inr (), s1) \<and>
      untag_each i now nt (acc @ [untag now nt p]) us s1 = (Inr r, s')"
    if "untag_each i now nt acc (p # us) s = (Inr r, s')" for acc s
    using that by (auto simp: bnd_ok)
  {
    case 1
    then obtain s1 where s1: "save_task (untag now nt p) s = (Inr (), s1)"
      "untag_each i now nt (acc @ [untag now nt p]) us s1 = (Inr r, s')"
      using split by blast
    from Cons.IH(1)[OF s1(2)] show ?case by simp
  next
    case 2
    then obtain s1 where s1: "save_task (untag now nt p) s = (Inr (), s1)"
      "untag_each i now nt (acc @ [untag now nt p]) us s1 = (Inr r, s')"
      using split by blast
    show ?case
    proof (cases "t_slug u \<in> t_slug ` set us")
      case True
      then obtain v where v: "v \<in> set us" "t_slug v = t_slug u" by auto
      from Cons.IH(2)[OF v(1) s1(2)] show ?thesis using v by auto
    next
      case False
      then have "u = p" using 2(1) by auto
      moreover have "load_task s' (t_slug u) = load_task s1 (t_slug u)"
        using Cons.IH(3)[OF False s1(2)] .
      ultimately show ?thesis
        using load_save_same[OF s1(1)] by auto
    qed
  next
    case 3
    then obtain s1 where s1: "save_task (untag now nt p) s = (Inr (), s1)"
      "untag_each i now nt (acc @ [untag now nt p]) us s1 = (Inr r, s')"
      using split by blast
    show ?case
      using Cons.IH(3)[OF _ s1(2), of n] load_save_other[OF s1(1), of n] 3(1) by auto
  next
    case 4
    then obtain s1 where s1: "save_task (untag now nt p) s = (Inr (), s1)"
      "untag_each i now nt (acc @ [untag now nt p]) us s1 = (Inr r, s')"
      using split by blast
    from Cons.IH(4)[OF s1(2)] show ?case
      using save_task_ok(3)[OF s1(1)] by simp
  }
qed

section \<open>Finishing\<close>

lemma read_tasks_locked:
  assumes "locked s s0" and "well_named_tasks s" and "read_tasks Fail s0 = Inr ts"
  shows "ts = store_tasks s"
  by (rule locked_listing[OF assms(1,2)]) (simp add: list_tasks_strict_def assms(3))

lemma save_session_files: "files (snd (save_session x s)) = files s"
  by (simp add: files_def)

lemma finish_session_run:
  assumes "finish_session i a s = (Inr out, s')" and "well_named s"
  obtains x now where "load_existing_session s i = Inr x" "is_open x" "s_id x = i"
    "\<not> a \<Longrightarrow> \<forall>t \<in> set (tasks_of i (store_tasks s)). t_state t = Done"
    "f_session out = x\<lparr>s_finished_at := Some now\<rparr>"
    "load_existing_session s' i = Inr (f_session out)"
    "f_total out = length (tasks_of i (store_tasks s))"
    "f_abandoned out = map (untag now (finish_note x))
       (filter (\<lambda>t. t_state t \<noteq> Done) (tasks_of i (store_tasks s)))"
    "\<And>n. n \<notin> t_slug ` set (filter (\<lambda>t. t_state t \<noteq> Done) (tasks_of i (store_tasks s))) \<Longrightarrow>
       load_task s' n = load_task s n"
    "\<And>t. t \<in> set (filter (\<lambda>t. t_state t \<noteq> Done) (tasks_of i (store_tasks s))) \<Longrightarrow>
       load_task s' (t_slug t) = Inr (untag now (finish_note x) t)"
proof -
  have wt: "well_named_tasks s" using assms(2) by (simp add: well_named_def)
  obtain s0 where l: "locked s s0"
    and b: "bnd (rd (finish_checks i a)) (\<lambda>(x, ts).
        bnd now_rfc3339 (\<lambda>now.
        bnd (untag_unfinished (s_id x) ts now (finish_note x)) (\<lambda>abandoned.
        let x' = x\<lparr>s_finished_at := Some now\<rparr> in
        bnd (map_error (InContext (CtxStaysOpen i (length abandoned))) (save_session x')) (\<lambda>_.
        ret \<lparr>f_session = x', f_done = length ts - length (filter (\<lambda>t. t_state t \<noteq> Done) ts),
             f_total = length ts, f_abandoned = abandoned\<rparr>)))) s0 = (Inr out, s')"
    using assms(1) unfolding finish_session_def by (rule with_store_lock_okE)
  obtain x ts where c: "finish_checks i a s0 = Inr (x, ts)"
    using b by (auto simp: bnd_rd split: sum.splits prod.splits)
  have ldx: "load_existing_session s0 i = Inr x" and op: "is_open x"
    and rt: "\<exists>all_ts. read_tasks Fail s0 = Inr all_ts \<and> ts = tasks_of (s_id x) all_ts"
    and unf: "\<not> a \<Longrightarrow> \<forall>t \<in> set ts. t_state t = Done"
    using c by (auto simp: finish_checks_def seqR_ok try_tasks_in_session_def Let_def filter_empty_conv
        split: if_splits)
  have ld0: "load_existing_session s0 i = load_existing_session s i"
    using l by (simp add: load_existing_session_def)
  have idx: "s_id x = i"
    using ldx ld0 well_named_session_id[OF assms(2)] by (simp add: load_existing_session_ok)
  have ts: "ts = tasks_of i (store_tasks s)"
    using rt read_tasks_locked[OF l wt] idx by auto
  obtain now s1 where n: "now_rfc3339 s0 = (Inr now, s1)" by (simp add: now_rfc3339_def)
  let ?us = "filter (\<lambda>t. t_state t \<noteq> Done) ts"
  let ?x' = "x\<lparr>s_finished_at := Some now\<rparr>"
  obtain ab s2 where u: "untag_each i now (finish_note x) [] ?us s1 = (Inr ab, s2)"
    and sv: "save_session ?x' s2 = (Inr (), s')"
    and out: "f_session out = ?x'" "f_total out = length ts" "f_abandoned out = ab"
    using b c n idx
    by (auto simp: bnd_rd bnd_ok bnd_def[of now_rfc3339] Let_def untag_unfinished_def)
  note U = untag_each_ok[OF u]
  have f: "files s' = files s2"
    using save_session_files[of ?x' s2] sv by simp
  have ld: "load_task s' = load_task s2" "load_task s1 = load_task s"
    using load_task_files[OF f] load_task_files[OF now_files[OF n]] l by auto
  have uniq: "v = w" if "v \<in> set ?us" "w \<in> set ?us" "t_slug v = t_slug w" for v w
    using that well_named_distinct_slugs[OF wt] ts
    by (auto simp: tasks_of_def distinct_map inj_on_def)
  have "load_existing_session s' i = Inr ?x'"
    using save_session_ok[OF sv] idx by (simp add: load_existing_session_ok json_dir.get_put_same)
  moreover have "load_task s' (t_slug t) = Inr (untag now (finish_note x) t)" if "t \<in> set ?us" for t
    using U(2)[OF that] uniq[OF _ that] ld by auto
  moreover have "load_task s' n = load_task s n" if "n \<notin> t_slug ` set ?us" for n
    using U(3)[OF that] ld by simp
  ultimately show ?thesis
    using that[of x now] ldx ld0 op idx unf out U(1) ts by simp
qed

section \<open>Replacing\<close>

lemma abandon_session_ok:
  assumes "abandon_session x ts s = (Inr y, s')"
  shows "s_id y = s_id x" "\<not> is_open y" "s_abandoned_at y \<noteq> None"
    "entries (session_dir s') = put_json (s_id x) (Parsed y) (entries (session_dir s))"
proof -
  obtain now s1 where n: "now_rfc3339 s = (Inr now, s1)" by (simp add: now_rfc3339_def)
  let ?nt = "''Orphaned: session '' @ quoted (case s_name x of Some n \<Rightarrow> n | None \<Rightarrow> s_id x) @
      '' was abandoned (`session start --replace`) '' @ ''before this task was finished.''"
  obtain ab s2 where u: "untag_unfinished (s_id x) ts now ?nt s1 = (Inr ab, s2)"
    and sv: "save_session (x\<lparr>s_abandoned_at := Some now\<rparr>) s2 = (Inr (), s')"
    and y: "y = x\<lparr>s_abandoned_at := Some now\<rparr>"
    using assms n
    by (auto simp: abandon_session_def bnd_ok bnd_def[of now_rfc3339] Let_def)
  have "session_dir s2 = session_dir s"
    using untag_each_ok(4)[OF u[unfolded untag_unfinished_def]] n by (auto simp: now_rfc3339_def)
  then show "s_id y = s_id x" "\<not> is_open y" "s_abandoned_at y \<noteq> None"
    "entries (session_dir s') = put_json (s_id x) (Parsed y) (entries (session_dir s))"
    using save_session_ok(2)[OF sv] y by (simp_all add: is_open_def)
qed

lemma abandon_each_ok:
  assumes "abandon_each xs ts acc s = (Inr ys, s')"
  shows "x \<in> set xs \<Longrightarrow>
      \<exists>y. find_json (s_id x) (entries (session_dir s')) = Some (Parsed y) \<and> \<not> is_open y"
    and "i \<notin> s_id ` set xs \<Longrightarrow>
      find_json i (entries (session_dir s')) = find_json i (entries (session_dir s))"
  using assms
proof (induction xs arbitrary: ts acc s x i)
  case Nil
  {
    case 1 then show ?case by simp
  next
    case 2 then show ?case by simp
  }
next
  case (Cons z xs)
  have split: "\<exists>y s1. abandon_session z (tasks_of (s_id z) ts) s = (Inr y, s1) \<and>
      abandon_each xs (filter (\<lambda>t. t_session t \<noteq> Some (s_id z)) ts) (acc @ [y]) s1 = (Inr ys, s')"
    if "abandon_each (z # xs) ts acc s = (Inr ys, s')" for ts acc s
    using that by (auto simp: bnd_ok)
  {
    case 1
    then obtain y s1 where s1: "abandon_session z (tasks_of (s_id z) ts) s = (Inr y, s1)"
      "abandon_each xs (filter (\<lambda>t. t_session t \<noteq> Some (s_id z)) ts) (acc @ [y]) s1 = (Inr ys, s')"
      using split by blast
    show ?case
    proof (cases "s_id x \<in> s_id ` set xs")
      case True
      then obtain w where w: "w \<in> set xs" "s_id w = s_id x" by auto
      from Cons.IH(1)[OF w(1) s1(2)] show ?thesis using w(2) by simp
    next
      case False
      then have "x = z" using 1(1) by auto
      then show ?thesis
        using Cons.IH(2)[OF False s1(2)] abandon_session_ok[OF s1(1)]
        by (auto simp: json_dir.get_put_same)
    qed
  next
    case 2
    then obtain y s1 where s1: "abandon_session z (tasks_of (s_id z) ts) s = (Inr y, s1)"
      "abandon_each xs (filter (\<lambda>t. t_session t \<noteq> Some (s_id z)) ts) (acc @ [y]) s1 = (Inr ys, s')"
      using split by blast
    show ?case
      using Cons.IH(2)[OF _ s1(2), of i] abandon_session_ok(4)[OF s1(1)] 2(1)
      by (auto simp: json_dir.get_put_other)
  }
qed

lemma create_session_ok:
  assumes "create_session q s = (Inr x, s')"
  shows "is_open x" "s_project x = q_project q"
    "\<not> file_exists (session_dir s) (s_id x)"
    "entries (session_dir s') = put_json (s_id x) (Parsed x) (entries (session_dir s))"
proof -
  obtain s1 d where m: "make_dir (session_dir s) = Inr d" "s1 = s\<lparr>session_dir := d\<rparr>"
    and r: "bnd (rd (\<lambda>s. Inr (unique_slug (session_dir s) (session_base_slug (q_name q))))) (\<lambda>i.
     bnd now_rfc3339 (\<lambda>now.
     let x = claim (q_owner q)
           \<lparr>s_id = i, s_name = q_name q, s_project = q_project q, s_description = q_description q,
            s_started_at = now, s_last_activity = now, s_finished_at = None, s_abandoned_at = None,
            s_owner_session = None, s_owner_pid = None, s_resume = q_resume q\<rparr> in
     bnd (save_session x) (\<lambda>_. ret x))) s1 = (Inr x, s')"
    using assms by (auto simp: create_session_def bnd_ok make_sessions_dir_def split: sum.splits)
  obtain now s2 where n: "now_rfc3339 s1 = (Inr now, s2)" by (simp add: now_rfc3339_def)
  let ?i = "unique_slug (session_dir s1) (session_base_slug (q_name q))"
  let ?x0 = "\<lparr>s_id = ?i, s_name = q_name q, s_project = q_project q, s_description = q_description q,
            s_started_at = now, s_last_activity = now, s_finished_at = None, s_abandoned_at = None,
            s_owner_session = None, s_owner_pid = None, s_resume = q_resume q\<rparr>"
  have x: "x = claim (q_owner q) ?x0" and sv: "save_session x s2 = (Inr (), s')"
    using r n by (auto simp: bnd_rd bnd_ok bnd_def[of now_rfc3339] Let_def)
  have e: "entries (session_dir s2) = entries (session_dir s)"
    using n m make_dir_ok(1)[OF m(1)] by (auto simp: now_rfc3339_def)
  show "is_open x" "s_project x = q_project q"
    unfolding x by (simp_all add: is_open_def claim_def Let_def split: option.splits)
  show "entries (session_dir s') = put_json (s_id x) (Parsed x) (entries (session_dir s))"
    using save_session_ok(2)[OF sv] e by simp
  have "\<not> file_exists (session_dir s1) (s_id x)"
    unfolding x using unique_slug_fresh by simp
  then show "\<not> file_exists (session_dir s) (s_id x)"
    using m make_dir_ok(1)[OF m(1)] by (simp add: file_exists_def)
qed

lemma open_sessions_set:
  assumes "open_sessions_strict s project = Inr opens"
  shows "set opens = {x \<in> set (store_sessions s). is_open x \<and> s_project x = project}"
  using assms list_sessions_strict_ok[of s]
  by (auto simp: open_sessions_strict_def seqR_ok open_visible_def visible_to_def owner_visible_def)

lemma open_sessions_locked:
  assumes "locked s s0"
  shows "open_sessions_strict s0 project = open_sessions_strict s project"
  unfolding open_sessions_strict_def list_sessions_strict_def locked_session_dir[OF assms] ..

lemma replace_run:
  assumes "start_session_as e q Replace s = (Inr out, s')" and "well_named s"
  obtains x ys where "out = Replaced x ys" "is_open x" "s_project x = q_project q"
    "find_json (s_id x) (entries (session_dir s')) = Some (Parsed x)"
    "\<And>i y. find_json i (entries (session_dir s')) = Some (Parsed y) \<Longrightarrow> is_open y \<Longrightarrow>
       s_project y = q_project q \<Longrightarrow> y = x"
proof -
  obtain s0 where l: "locked s s0"
    and b: "bnd (rd (\<lambda>s. open_sessions_strict s (q_project q))) (\<lambda>existing.
            bnd (rd (\<lambda>s. if existing = [] then Inr [] else read_tasks Fail s)) (\<lambda>ts.
            bnd (abandon_each existing ts []) (\<lambda>abandoned.
            bnd (create_session q) (\<lambda>x. ret (Replaced x abandoned))))) s0 = (Inr out, s')"
    using assms(1) unfolding start_session_as_def start_decision.case by (rule with_store_lock_okE)
  obtain existing where ex: "open_sessions_strict s (q_project q) = Inr existing"
    using b open_sessions_locked[OF l] by (auto simp: bnd_rd split: sum.splits)
  obtain ts ys s1 x where ab: "abandon_each existing ts [] s0 = (Inr ys, s1)"
    and cr: "create_session q s1 = (Inr x, s')" and out: "out = Replaced x ys"
    using b ex open_sessions_locked[OF l] by (auto simp: bnd_rd bnd_ok split: sum.splits)
  note C = create_session_ok[OF cr] and A = abandon_each_ok[OF ab]
  have only: "y = x" if y: "find_json i (entries (session_dir s')) = Some (Parsed y)" "is_open y"
    "s_project y = q_project q" for i y
  proof (cases "i = s_id x")
    case True
    then show ?thesis using y(1) C(4) by (simp add: json_dir.get_put_same)
  next
    case False
    then have y1: "find_json i (entries (session_dir s1)) = Some (Parsed y)"
      using y(1) C(4) by (simp add: json_dir.get_put_other)
    have "False"
    proof (cases "i \<in> s_id ` set existing")
      case True
      then show False using A(1) y1 y(2) by fastforce
    next
      case notin: False
      then have f: "find_json i (entries (session_dir s)) = Some (Parsed y)"
        using A(2) y1 l by simp
      then have "y \<in> set (store_sessions s)" "s_id y = i"
        using assms(2) well_named_session_id[OF assms(2) f] find_json_in[OF f]
        by (auto simp: store_sessions_def parsed_in well_named_def well_named_sessions_def
            well_named_dir_def)
      then show False
        using open_sessions_set[OF ex] y(2,3) notin by auto
    qed
    then show ?thesis ..
  qed
  show ?thesis
    by (rule that[OF out C(1,2) _ only]) (simp add: C(4) json_dir.get_put_same)
qed

section \<open>Starting without a flag\<close>

lemma only_own_session_ours:
  assumes "only_own_session e xs owner started = Some x"
  shows "x \<in> set xs" "ownership_of x owner \<noteq> ByNone"
    "y \<in> set xs \<Longrightarrow> ownership_of y owner = ByConversation \<Longrightarrow> y = x"
proof -
  let ?p = "\<lambda>x. case ownership_of x owner of
             ByConversation \<Rightarrow> True
           | ByProcess \<Rightarrow> (case started of None \<Rightarrow> False | Some st \<Rightarrow> active_since e x st)
           | ByNone \<Rightarrow> False"
  have f: "filter ?p xs = [x]"
    using assms by (auto simp: only_own_session_def split: list.splits)
  then have "x \<in> set xs \<and> ?p x"
    by (rule filter_singleton_in)
  then show "x \<in> set xs" "ownership_of x owner \<noteq> ByNone"
    by auto
  assume "y \<in> set xs" "ownership_of y owner = ByConversation"
  then have "y \<in> set (filter ?p xs)" by simp
  then show "y = x" unfolding f by simp
qed

lemma resume_ok:
  assumes "resume x q s = (Inr y, s')"
  shows "s_id y = s_id x" "is_open y = is_open x"
    "entries (session_dir s') = put_json (s_id x) (Parsed y) (entries (session_dir s))"
proof -
  obtain now s1 where n: "now_rfc3339 s = (Inr now, s1)" by (simp add: now_rfc3339_def)
  let ?x1 = "claim (q_owner q) (x\<lparr>s_last_activity := now\<rparr>)"
  have y: "y = ?x1\<lparr>s_resume := apply_resume (q_resume q) (s_resume ?x1)\<rparr>"
    and sv: "save_session y s1 = (Inr (), s')"
    using assms n by (auto simp: resume_def bnd_ok bnd_def[of now_rfc3339] Let_def)
  have "is_open y = is_open ?x1"
    unfolding y by (simp add: is_open_def)
  also have "\<dots> = is_open x"
    unfolding is_open_claim by (simp add: is_open_def)
  finally show "is_open y = is_open x" .
  show "s_id y = s_id x"
    using y by simp
  then show "entries (session_dir s') = put_json (s_id x) (Parsed y) (entries (session_dir s))"
    using save_session_ok(2)[OF sv] n by (auto simp: now_rfc3339_def)
qed

lemma auto_run:
  assumes "start_session_as e q Auto s = (Inr out, s')"
  obtains x where "out = Created x" "open_sessions_strict s (q_project q) = Inr []"
    "is_open x" "\<not> file_exists (session_dir s) (s_id x)"
    "entries (session_dir s') = put_json (s_id x) (Parsed x) (entries (session_dir s))"
  | x y opens where "out = Resumed y" "open_sessions_strict s (q_project q) = Inr opens"
    "x \<in> set opens" "ownership_of x (q_owner q) \<noteq> ByNone" "s_id y = s_id x" "is_open y = is_open x"
    "entries (session_dir s') = put_json (s_id x) (Parsed y) (entries (session_dir s))"
proof -
  obtain s0 where l: "locked s s0"
    and b: "bnd (rd (\<lambda>s. open_sessions_strict s (q_project q))) (start_auto e q) s0 = (Inr out, s')"
    using assms(1) unfolding start_session_as_def start_decision.case by (rule with_store_lock_okE)
  obtain opens where ex: "open_sessions_strict s (q_project q) = Inr opens"
    and r: "start_auto e q opens s0 = (Inr out, s')"
    using b open_sessions_locked[OF l] by (auto simp: bnd_rd split: sum.splits)
  show ?thesis
  proof (cases "opens = []")
    case True
    then obtain x where x: "create_session q s0 = (Inr x, s')" "out = Created x"
      using r by (auto simp: start_auto_def bnd_ok)
    show ?thesis
      using that(1)[OF x(2)] ex True create_session_ok[OF x(1)] l by simp
  next
    case False
    then obtain x y where x: "only_own_session e opens (q_owner q)
          (Option.bind (i_pid (q_owner q)) (engine_start e)) = Some x"
      and y: "resume x q s0 = (Inr y, s')" "out = Resumed y"
      using r by (auto simp: start_auto_def bnd_ok Let_def split: option.splits)
    show ?thesis
      using that(2)[OF y(2) ex only_own_session_ours(1,2)[OF x]] resume_ok[OF y(1)] l by simp
  qed
qed

section \<open>Refusing to finish\<close>

lemma locked_check_fails:
  assumes "\<And>s0 a. locked s s0 \<Longrightarrow> chk s0 \<noteq> Inr a"
  shows "files (snd (with_store_lock (bnd (rd chk) f) s)) = files s"
    and "session_dir (snd (with_store_lock (bnd (rd chk) f) s)) = session_dir s"
proof -
  have "snd (bnd (rd chk) f s0) = s0" if "locked s s0" for s0
    using assms[OF that] by (cases "chk s0") (auto simp: bnd_rd)
  then have "files (snd (with_store_lock (bnd (rd chk) f) s)) = files s \<and>
      session_dir (snd (with_store_lock (bnd (rd chk) f) s)) = session_dir s"
    by (cases rule: with_store_lock_cases[of "bnd (rd chk) f" s]) simp_all
  then show "files (snd (with_store_lock (bnd (rd chk) f) s)) = files s"
    "session_dir (snd (with_store_lock (bnd (rd chk) f) s)) = session_dir s"
    by simp_all
qed

lemma finish_session_refused:
  assumes "well_named s" and "t \<in> set (tasks_of i (store_tasks s))" and "t_state t \<noteq> Done"
  shows "\<exists>x. fst (finish_session i False s) = Inl x"
    and "files (snd (finish_session i False s)) = files s"
    and "session_dir (snd (finish_session i False s)) = session_dir s"
proof -
  show "\<exists>x. fst (finish_session i False s) = Inl x"
  proof (rule ccontr)
    assume "\<not> ?thesis"
    then obtain out s' where r: "finish_session i False s = (Inr out, s')"
      by (cases "finish_session i False s"; cases "fst (finish_session i False s)") auto
    show False
      by (rule finish_session_run[OF r assms(1)]) (use assms(2,3) in auto)
  qed
  have wt: "well_named_tasks s"
    using assms(1) by (simp add: well_named_def)
  have "finish_checks i False s0 \<noteq> Inr c" if l: "locked s s0" for s0 c
  proof
    assume c: "finish_checks i False s0 = Inr c"
    obtain x ts where "c = (x, ts)" by (cases c)
    then have ld: "load_existing_session s0 i = Inr x"
      and ts: "\<exists>all_ts. read_tasks Fail s0 = Inr all_ts \<and> ts = tasks_of (s_id x) all_ts"
      and unf: "\<forall>t \<in> set ts. t_state t = Done"
      using c by (auto simp: finish_checks_def seqR_ok try_tasks_in_session_def Let_def
          filter_empty_conv split: if_splits)
    have "s_id x = i"
      using ld l well_named_session_id[OF assms(1)] by (simp add: load_existing_session_ok)
    then show False
      using ts unf assms(2,3) read_tasks_locked[OF l wt] by auto
  qed
  then show "files (snd (finish_session i False s)) = files s"
    "session_dir (snd (finish_session i False s)) = session_dir s"
    unfolding finish_session_def by (auto intro: locked_check_fails)
qed

end
