(* ===== verification/Command_Laws.thy ===== *)
theory Command_Laws
  imports Session_Laws
begin

text \<open>
  What the guarded commands do with the names they are given: a name that was resolved once resolves
  to itself again, the ownership check comes before any change, and \<open>reopen\<close> never leaves an open
  sub-task under a done parent.
\<close>

section \<open>Resolving a resolved name\<close>

lemma starts_with_trans: "starts_with x y \<Longrightarrow> starts_with y z \<Longrightarrow> starts_with x z"
  unfolding starts_with_def by (metis append_take_drop_id append_eq_conv_conj take_append min.absorb2
      take_take length_take min_le_iff_disj nat_le_linear)

lemma loaded_file_exists: "load_task s n = Inr t \<Longrightarrow> file_exists (task_dir s) n"
  by (simp add: load_task_ok file_exists_def)

lemma resolve_with_again:
  assumes "well_named_tasks s" and "list_tasks_strict s = Inr ts"
    and "resolve_with s input owner ts = Inr slug"
  shows "resolve_with s slug owner ts = Inr slug"
proof -
  obtain ids where p: "preferred_sessions s owner = Inr ids"
    using assms(3) by (auto simp: resolve_with_def split: sum.splits)
  have ex: "file_exists (task_dir s) slug"
    using resolved_slug_stored[OF assms] loaded_file_exists by blast
  show ?thesis
  proof (cases "slug \<in> set (slugs_in ts ids) \<and> ids \<noteq> []")
    case True
    then show ?thesis using resolve_with_preferred(1)[OF p] by blast
  next
    case False
    have none: "ids \<noteq> [] \<Longrightarrow> pick (slugs_in ts ids) input = Inr None"
    proof -
      assume ne: "ids \<noteq> []"
      have "pick (slugs_in ts ids) input \<noteq> Inr (Some m)" for m
      proof
        assume m: "pick (slugs_in ts ids) input = Inr (Some m)"
        then have "m = slug"
          using assms(3) p ne by (simp add: resolve_with_def)
        then show False using False ne pick_member[OF m] by simp
      qed
      then show ?thesis
        using assms(3) p ne
        by (cases "pick (slugs_in ts ids) input") (auto simp: resolve_with_def split: option.splits)
    qed
    have "pick (slugs_in ts ids) slug = Inr None" if "ids \<noteq> []"
      using none[OF that] resolve_with_ok(1)[OF assms(3)] starts_with_trans
      unfolding pick_None by blast
    then show ?thesis
      using p ex by (simp add: resolve_with_def)
  qed
qed

section \<open>Check, then act\<close>

lemma caller_session_for_task_locked:
  assumes "locked s s0"
  shows "caller_session_for_task e s0 = caller_session_for_task e s"
  unfolding caller_session_for_task_def caller_session_def open_sessions_locked[OF assms] ..

lemma ensure_task_is_ours_ok:
  assumes "ensure_task_is_ours e s i c other = Inr (slug, audit)" and "well_named_tasks s"
  shows "\<exists>t. load_task s slug = Inr t \<and> starts_with slug i \<and> ownership_note slug t c other = Inr audit"
proof -
  obtain xs where xs: "ensure_tasks_are_ours e s [i] c other = Inr xs"
    and h: "(case xs of x # _ \<Rightarrow> Inr x | [] \<Rightarrow> Inl (LookupE (NoTaskChecked i))) = Inr (slug, audit)"
    using assms(1) unfolding ensure_task_is_ours_def seqR_ok by blast
  obtain rs where rs: "ensure_tasks_are_ours e s [i] c other = Inr ((slug, audit) # rs)"
    using xs h by (cases xs) auto
  from ensure_tasks_are_ours_ok[OF rs assms(2)] show ?thesis by force
qed

lemma guarded_cases:
  assumes "well_named_tasks s"
  obtains (refused) x where "fst (guarded e i other act s) = Inl x"
    "files (snd (guarded e i other act s)) = files s"
    "session_dir (snd (guarded e i other act s)) = session_dir s"
  | (acted) s0 c slug t audit where "locked s s0" "caller_session_for_task e s = Inr c"
    "load_task s slug = Inr t" "starts_with slug i" "ownership_note slug t c other = Inr audit"
    "guarded e i other act s =
       bnd (act (Resolved slug)) (\<lambda>r. bnd (record_override e audit) (\<lambda>_. ret r)) s0"
proof (cases rule: with_store_lock_cases[of "bnd (guard_task e i other) (\<lambda>(slug, audit).
        bnd (act (Resolved slug)) (\<lambda>r. bnd (record_override e audit) (\<lambda>_. ret r)))" s])
  case (early k)
  note run = early[folded guarded_def]
  have "fst (guarded e i other act s) = Inl k"
    by (subst run(1)) (rule fst_conv)
  then show ?thesis
    using run(2,3) by (rule refused)
next
  case (body s0)
  note run = body(2)[folded guarded_def]
  let ?g = "seqR (caller_session_for_task e s0) (\<lambda>c. ensure_task_is_ours e s0 i c other)"
  show ?thesis
  proof (cases ?g)
    case (Inl x)
    then have "guarded e i other act s = (Inl x, s0)"
      using run by (simp add: guard_task_def bnd_rd)
    then show ?thesis
      using refused[of x] body(1) by simp
  next
    case (Inr r)
    obtain slug audit where r: "r = (slug, audit)" by (cases r)
    obtain c where c: "caller_session_for_task e s0 = Inr c"
      and ours: "ensure_task_is_ours e s0 i c other = Inr (slug, audit)"
      using Inr r by (auto simp: seqR_ok)
    have "guarded e i other act s =
       bnd (act (Resolved slug)) (\<lambda>r. bnd (record_override e audit) (\<lambda>_. ret r)) s0"
      using run Inr r by (simp add: guard_task_def bnd_rd)
    moreover obtain t where "load_task s0 slug = Inr t" "starts_with slug i"
      "ownership_note slug t c other = Inr audit"
      using ensure_task_is_ours_ok[OF ours locked_well_named[OF body(1) assms]] by blast
    ultimately show ?thesis
      using acted[OF body(1)] c caller_session_for_task_locked[OF body(1)] body(1) by simp
  qed
qed

section \<open>Reopening\<close>

lemma load_targets_resolved:
  assumes "load_targets e s ts (map Resolved slugs) acc = Inr us" and "well_named_tasks s"
    and "distinct (map t_slug acc)" and "\<And>t. t \<in> set acc \<Longrightarrow> load_task s (t_slug t) = Inr t"
  shows "distinct (map t_slug us) \<and> set (map t_slug us) = set (map t_slug acc) \<union> set slugs \<and>
    (\<forall>t \<in> set us. load_task s (t_slug t) = Inr t)"
  using assms(1,3,4)
proof (induction slugs arbitrary: acc)
  case (Cons x slugs)
  show ?case
  proof (cases "list_all (\<lambda>t. t_slug t \<noteq> x) acc")
    case True
    then obtain t where t: "load_task s x = Inr t"
      and r: "load_targets e s ts (map Resolved slugs) (acc @ [t]) = Inr us"
      using Cons.prems(1) by (auto simp: seqR_ok)
    have x: "t_slug t = x" by (rule well_named_load_slug[OF assms(2) t])
    have "distinct (map t_slug (acc @ [t]))"
      using Cons.prems(2) True x by (auto simp: list_all_iff)
    moreover have "load_task s (t_slug u) = Inr u" if "u \<in> set (acc @ [t])" for u
      using that Cons.prems(3) t x by auto
    ultimately show ?thesis
      using Cons.IH[OF r] x by simp
  next
    case False
    then have "load_targets e s ts (map Resolved slugs) acc = Inr us"
      using Cons.prems(1) by (auto simp: seqR_ok split: if_splits)
    moreover have "x \<in> set (map t_slug acc)"
      using False by (auto simp: list_all_iff)
    ultimately show ?thesis
      using Cons.IH Cons.prems(2,3) by (simp add: insert_absorb)
  qed
qed simp

lemma refuse_done_parents_loop_ok:
  assumes "refuse_done_parents_loop s named open_parents ts = Inr ()"
    and "\<And>p. p \<in> set open_parents \<Longrightarrow> \<exists>q. load_task s p = Inr q \<and> t_state q \<noteq> Done"
    and "t \<in> set ts" and "t_parent t = Some p"
  shows "p \<in> t_slug ` set named \<or> (\<exists>q. load_task s p = Inr q \<and> t_state q \<noteq> Done)"
  using assms
proof (induction s named open_parents ts rule: refuse_done_parents_loop.induct)
  case (2 s named open_parents u ts)
  show ?case
  proof (cases "t_parent u")
    case None
    then show ?thesis using 2 by auto
  next
    case (Some p')
    show ?thesis
    proof (cases "p' \<in> set open_parents \<or> list_ex (\<lambda>u. t_slug u = p') named")
      case True
      then have r: "refuse_done_parents_loop s named open_parents ts = Inr ()"
        using "2.prems"(1) Some by simp
      show ?thesis
      proof (cases "t = u")
        case t: True
        then show ?thesis
          using True Some "2.prems"(2)[of p] "2.prems"(4) by (auto simp: list_ex_iff)
      next
        case f: False
        show ?thesis
          using "2.IH"(2)[OF Some True r] "2.prems"(2,3,4) f by auto
      qed
    next
      case False
      then obtain q where q: "load_task s p' = Inr q" "t_state q \<noteq> Done"
        and r: "refuse_done_parents_loop s named (p' # open_parents) ts = Inr ()"
        using "2.prems"(1) Some by (auto split: sum.splits if_splits)
      have "\<exists>q. load_task s x = Inr q \<and> t_state q \<noteq> Done" if "x \<in> set (p' # open_parents)" for x
        using that q "2.prems"(2) by auto
      then show ?thesis
        using "2.IH"(3)[OF Some False q(1,2) r] "2.prems"(3,4) Some q by auto
    qed
  qed
qed simp

lemma mark_reopened_run:
  assumes "mark_reopened cmd t s = (r, s')"
  obtains u where "r = Inr u" "t_slug u = t_slug t" "t_state u = Open" "t_parent u = t_parent t"
    "t_relation u = t_relation t" "t_session u = t_session t" "files s' = files s"
  using assms by (auto simp: mark_reopened_def bnd_def now_rfc3339_def files_def)

lemma reopen_each_ok:
  assumes "reopen_each ts done_slugs s = (Inr us, s')" and "distinct (map t_slug ts)"
  shows "map t_slug us = map t_slug ts"
    and "n \<notin> t_slug ` set ts \<Longrightarrow> load_task s' n = load_task s n"
    and "n \<in> t_slug ` set ts \<Longrightarrow> \<exists>u. load_task s' n = Inr u \<and> t_state u = Open"
  using assms
proof (induction ts arbitrary: done_slugs s us n)
  case Nil
  {
    case 1 then show ?case by simp
  next
    case 2 then show ?case by simp
  next
    case 3 then show ?case by simp
  }
next
  case (Cons t ts)
  have split: "\<exists>u vs s1 s2. us = u # vs \<and> t_slug u = t_slug t \<and> t_state u = Open \<and> files s1 = files s \<and>
      save_task u s1 = (Inr (), s2) \<and> reopen_each ts (done_slugs @ [t_slug t]) s2 = (Inr vs, s')"
    if run: "reopen_each (t # ts) done_slugs s = (Inr us, s')" for done_slugs s us
  proof -
    obtain u s1 s2 vs where m: "mark_reopened ''task reopen'' t s = (Inr u, s1)"
      and r: "save_task u s1 = (Inr (), s2)" "reopen_each ts (done_slugs @ [t_slug t]) s2 = (Inr vs, s')"
        "us = u # vs"
      using run by (auto simp: bnd_ok)
    show ?thesis
      by (rule mark_reopened_run[OF m]) (use r in auto)
  qed
  {
    case 1
    then show ?case using split Cons.IH(1) by fastforce
  next
    case 2
    then obtain u vs s1 s2 where r: "us = u # vs" "t_slug u = t_slug t" "files s1 = files s"
      "save_task u s1 = (Inr (), s2)" "reopen_each ts (done_slugs @ [t_slug t]) s2 = (Inr vs, s')"
      using split by blast
    then show ?case
      using Cons.IH(2)[OF _ r(5), of n] load_save_other[OF r(4), of n] load_task_files[OF r(3)] 2 by simp
  next
    case 3
    then obtain u vs s1 s2 where r: "us = u # vs" "t_slug u = t_slug t" "t_state u = Open"
      "save_task u s1 = (Inr (), s2)" "reopen_each ts (done_slugs @ [t_slug t]) s2 = (Inr vs, s')"
      using split by blast
    show ?case
    proof (cases "n \<in> t_slug ` set ts")
      case True
      then show ?thesis using Cons.IH(3)[OF True r(5)] 3 by simp
    next
      case False
      then show ?thesis
        using Cons.IH(2)[OF False r(5)] load_save_same[OF r(4)] r(2,3) 3 by auto
    qed
  }
qed

lemma touch_each_ok:
  "touch_each ts touched s = (Inr (), snd (touch_each ts touched s)) \<and>
   files (snd (touch_each ts touched s)) = files s"
proof (induction ts touched arbitrary: s rule: touch_each.induct)
  case (2 t ts touched)
  obtain s1 where s1: "touch_task_session t s = (Inr (), s1)" "files s1 = files s"
    using touch_task_session_ok[of t s] by blast
  have go: "bnd (touch_task_session t) (\<lambda>_. touch_each ts ts') s = touch_each ts ts' s1" for ts'
    using s1(1) by (simp add: bnd_def)
  show ?case
    using 2 s1(2) by (cases "t_session t") (auto simp: go)
qed simp

lemma reopen_run:
  assumes "reopen_resolved e slugs s = (Inr us, s')" and "well_named_tasks s"
  obtains ts where "distinct (map t_slug ts)" "set (map t_slug ts) = set slugs"
    "\<And>t. t \<in> set ts \<Longrightarrow> load_task s (t_slug t) = Inr t \<and> t_state t = Done"
    "\<And>t p. t \<in> set ts \<Longrightarrow> t_relation t = Child \<Longrightarrow> t_parent t = Some p \<Longrightarrow>
       p \<in> set slugs \<or> (\<exists>q. load_task s p = Inr q \<and> t_state q \<noteq> Done)"
    "\<And>n. n \<in> set slugs \<Longrightarrow> \<exists>u. load_task s' n = Inr u \<and> t_state u = Open"
    "\<And>n. n \<notin> set slugs \<Longrightarrow> load_task s' n = load_task s n"
proof -
  obtain us' s1 where w: "with_store_lock (bnd (rd (reopen_checks e (map Resolved slugs)))
      (\<lambda>tasks. reopen_each tasks [])) s = (Inr us', s1)" and f: "files s' = files s1"
    using assms(1) touch_each_ok
    by (auto simp: reopen_resolved_def reopen_targets_def bnd_ok) (metis snd_conv)
  obtain s0 where l: "locked s s0"
    and b: "bnd (rd (reopen_checks e (map Resolved slugs))) (\<lambda>tasks. reopen_each tasks []) s0 = (Inr us', s1)"
    using w by (rule with_store_lock_okE)
  obtain ts where c: "reopen_checks e (map Resolved slugs) s0 = Inr ts"
    and r: "reopen_each ts [] s0 = (Inr us', s1)"
    using b by (auto simp: bnd_rd split: sum.splits)
  obtain all_ts where lt: "load_targets e s0 all_ts (map Resolved slugs) [] = Inr ts"
    and dn: "\<forall>t \<in> set ts. t_state t = Done" and rf: "refuse_done_parents s0 ts = Inr ()"
    using c by (auto simp: reopen_checks_def seqR_ok Let_def filter_empty_conv split: if_splits)
  have T: "distinct (map t_slug ts)" "set (map t_slug ts) = set slugs"
    "\<forall>t \<in> set ts. load_task s (t_slug t) = Inr t"
    using load_targets_resolved[OF lt locked_well_named[OF l assms(2)]] l by auto
  have "p \<in> set slugs \<or> (\<exists>q. load_task s p = Inr q \<and> t_state q \<noteq> Done)"
    if "t \<in> set ts" "t_relation t = Child" "t_parent t = Some p" for t p
    using refuse_done_parents_loop_ok[OF rf[unfolded refuse_done_parents_def], of t p] that T(2) l
    by simp
  moreover have "load_task s' = load_task s1"
    by (rule load_task_files[OF f])
  ultimately show ?thesis
    using that[of ts] T dn reopen_each_ok(2,3)[OF r T(1)] l by simp
qed

end
