(* ===== verification/Elapsed.thy ===== *)
theory Elapsed
  imports Sessions
begin

text \<open>
  The elapsed time that \<open>ps\<close> prints (\<open>session/checkpoint.rs\<close>): every accepted text is small enough
  that the checked arithmetic of \<open>parse_etime\<close> never fails, and the parser reads back what a
  printer of days, hours, minutes and seconds writes.
\<close>

lemma number_nat_str:
  assumes "n \<le> mx" and "n < 10 ^ 7"
  shows "number (nat_str n) mx = Some n"
proof -
  have "length (nat_str n) \<le> Suc k" if "n < 10 ^ Suc k" for n k
    using that
  proof (induction k arbitrary: n)
    case (Suc k)
    show ?case
    proof (cases "n < 10")
      case False
      have "n div 10 < 10 ^ Suc k"
        using Suc.prems by (simp add: less_mult_imp_div_less mult.commute)
      from Suc.IH[OF this] show ?thesis
        using False by (subst nat_str.simps) simp
    qed (subst nat_str.simps, simp)
  qed (subst nat_str.simps, simp)
  from this[of n 6] have "length (nat_str n) \<le> 7"
    using assms(2) by simp
  moreover have "n \<le> u64_max"
    using assms(2) by (simp add: u64_max_def)
  ultimately show ?thesis
    using assms(1) nat_str_digits[of n]
    by (simp add: number_def parse_unsigned_nat_str Suc_le_eq)
qed

lemma split_once_digits:
  "list_all is_ascii_digit a \<Longrightarrow> split_once (CHR ''-'') (a @ CHR ''-'' # b) = Some (a, b)"
  by (induction a) (auto simp: is_ascii_digit_def byte_def)

lemma number_parts_fit:
  assumes "days < 10 ^ 7" and "h \<le> 23" and "m \<le> 59" and "x \<le> 59"
  shows "Option.bind (checked_mul days 86400) (\<lambda>d. checked_add d (h * 3600 + m * 60 + x)) =
    Some (days * 86400 + (h * 3600 + m * 60 + x))"
proof -
  have "days * 86400 + (h * 3600 + m * 60 + x) \<le> u64_max"
    using assms by (simp add: u64_max_def)
  moreover have "days * 86400 \<le> u64_max"
    using assms(1) by (simp add: u64_max_def)
  ultimately show ?thesis
    by (simp add: checked_mul_def checked_add_def)
qed

text \<open>The days and the clock that a text splits into.\<close>

definition etime_days :: "string \<Rightarrow> (nat \<times> string) option" where
  "etime_days text =
     (case split_once (CHR ''-'') text of
        Some (ds, clk) \<Rightarrow> map_option (\<lambda>d. (d, clk)) (number ds u64_max)
      | None \<Rightarrow> Some (0, text))"

lemma parse_etime_fields:
  "parse_etime text = Some v \<longleftrightarrow>
     (\<exists>days clk h m x. etime_days text = Some (days, clk) \<and>
        clock_fields (split_on (\<lambda>c. c = CHR '':'') clk) = Some (h, m, x) \<and>
        v = days * 86400 + (h * 3600 + m * 60 + x))"
proof -
  have small: "days < 10 ^ 7" if "etime_days text = Some (days, clk)" for days clk
    using that by (auto simp: etime_days_def split: option.splits dest: number_bound)
  have fit: "Option.bind (checked_mul days 86400) (\<lambda>d. checked_add d (h * 3600 + m * 60 + x)) =
      Some (days * 86400 + (h * 3600 + m * 60 + x))"
    if "etime_days text = Some (days, clk)"
      "clock_fields (split_on (\<lambda>c. c = CHR '':'') clk) = Some (h, m, x)" for days clk h m x
    using number_parts_fit[OF small[OF that(1)]] clock_fields_bound[OF that(2)] by blast
  show ?thesis
  proof
    assume "parse_etime text = Some v"
    then obtain days clk h m x where f: "etime_days text = Some (days, clk)"
      "clock_fields (split_on (\<lambda>c. c = CHR '':'') clk) = Some (h, m, x)"
      and v: "Option.bind (checked_mul days 86400) (\<lambda>d. checked_add d (h * 3600 + m * 60 + x)) = Some v"
      unfolding parse_etime_def etime_days_def[symmetric]
      by (cases "etime_days text") (auto simp del: bind_eq_Some_conv simp: bind_eq_Some_conv[of "clock_fields _"])
    then show "\<exists>days clk h m x. etime_days text = Some (days, clk) \<and>
        clock_fields (split_on (\<lambda>c. c = CHR '':'') clk) = Some (h, m, x) \<and>
        v = days * 86400 + (h * 3600 + m * 60 + x)"
      unfolding fit[OF f] by blast
  next
    assume "\<exists>days clk h m x. etime_days text = Some (days, clk) \<and>
        clock_fields (split_on (\<lambda>c. c = CHR '':'') clk) = Some (h, m, x) \<and>
        v = days * 86400 + (h * 3600 + m * 60 + x)"
    then obtain days clk h m x where f: "etime_days text = Some (days, clk)"
      "clock_fields (split_on (\<lambda>c. c = CHR '':'') clk) = Some (h, m, x)"
      and v: "v = days * 86400 + (h * 3600 + m * 60 + x)" by blast
    show "parse_etime text = Some v"
      unfolding parse_etime_def etime_days_def[symmetric] f(1) bind.bind_lunit prod.case f(2)
        fit[OF f] v ..
  qed
qed

lemma digits_no_colon: "list_all is_ascii_digit a \<Longrightarrow> c \<in> set a \<Longrightarrow> c \<noteq> CHR '':''"
  by (auto simp: list_all_iff is_ascii_digit_def byte_def)

lemma parse_etime_printed:
  assumes "d < 10 ^ 7" and "h \<le> 23" and "m \<le> 59" and "x \<le> 59"
  shows "parse_etime (nat_str d @ ''-'' @ join_str '':'' [nat_str h, nat_str m, nat_str x]) =
    Some (d * 86400 + (h * 3600 + m * 60 + x))"
proof -
  let ?clk = "join_str '':'' [nat_str h, nat_str m, nat_str x]"
  have days: "etime_days (nat_str d @ ''-'' @ ?clk) = Some (d, ?clk)"
    using split_once_digits[OF nat_str_digits, of d ?clk] number_nat_str[of d u64_max] assms(1)
    by (simp add: etime_days_def u64_max_def)
  have "split_on (\<lambda>c. c = CHR '':'') ?clk = [nat_str h, nat_str m, nat_str x]"
    using digits_no_colon[OF nat_str_digits] by (intro split_on_join) auto
  then have "clock_fields (split_on (\<lambda>c. c = CHR '':'') ?clk) = Some (h, m, x)"
    using assms(2-4) number_nat_str by (simp add: clock_fields_def)
  then show ?thesis
    unfolding parse_etime_fields using days by blast
qed

end
