(* ===== verification/Samples.thy ===== *)
theory Samples
  imports Command_Laws Elapsed
begin

text \<open>
  A small concrete store and caller on which the operations are evaluated: one open session with a
  parent task, a sub-task that is blocked on a finished task, and a session of another
  conversation.  The properties are applied to it, so their hypotheses are known to hold somewhere.
\<close>

definition mk_dir :: "'a dir_entry list \<Rightarrow> 'a directory" where
  "mk_dir es =
     \<lparr>listing_error = None, entries = es, mkdir_error = None, write_error = (\<lambda>_. None),
      remove_error = (\<lambda>_. None)\<rparr>"

definition mk_task ::
  "string \<Rightarrow> task_state \<Rightarrow> string option \<Rightarrow> relation \<Rightarrow> string list \<Rightarrow> string option \<Rightarrow> string \<Rightarrow> task" where
  "mk_task slug st p r blocked sess created =
     \<lparr>t_slug = slug, t_title = slug, t_state = st, t_parent = p, t_relation = r, t_parallel = False,
      t_blocked_on = blocked, t_notes = [], t_detail = None, t_session = sess,
      t_created_at = created, t_updated_at = created\<rparr>"

definition mk_session :: "string \<Rightarrow> string option \<Rightarrow> string option \<Rightarrow> session" where
  "mk_session i owner finished =
     \<lparr>s_id = i, s_name = None, s_project = ''proj'', s_description = None, s_started_at = ''2026'',
      s_last_activity = ''2026'', s_finished_at = finished, s_abandoned_at = None,
      s_owner_session = owner, s_owner_pid = None, s_resume = empty_resume\<rparr>"

definition task_entry :: "task \<Rightarrow> task dir_entry" where
  "task_entry t = JsonFile (t_slug t) (Parsed t)"

definition session_entry :: "session \<Rightarrow> session dir_entry" where
  "session_entry x = JsonFile (s_id x) (Parsed x)"

definition mk_store :: "task list \<Rightarrow> session list \<Rightarrow> store" where
  "mk_store ts xs =
     \<lparr>task_dir = mk_dir (map task_entry ts), session_dir = mk_dir (map session_entry xs),
      lock_error = None, clock = (\<lambda>n. ''2027-'' @ nat_str n), ticks = 0\<rparr>"

definition sample_env :: env where
  "sample_env =
     \<lparr>e_session_id_var = VarIs ''conv'', e_pid_var = NotPresent, e_project = Inr ''proj'',
      e_now = 0, e_ps = (\<lambda>_. PsFailed), e_parse_rfc3339 = (\<lambda>_. None)\<rparr>"

definition sample_tasks :: "task list" where
  "sample_tasks =
     [mk_task ''plan'' Open None Queued [] (Some ''mine'') ''2026-1'',
      mk_task ''part'' Open (Some ''plan'') Child [''base''] (Some ''mine'') ''2026-2'',
      mk_task ''base'' Done None Queued [] (Some ''mine'') ''2026-0'',
      mk_task ''other'' Wip None Queued [] (Some ''theirs'') ''2026-3'']"

definition sample_sessions :: "session list" where
  "sample_sessions =
     [mk_session ''mine'' (Some ''conv'') None, mk_session ''theirs'' (Some ''else'') None,
      mk_session ''old'' (Some ''conv'') (Some ''2025'')]"

definition sample_store :: store where
  "sample_store = mk_store sample_tasks sample_sessions"

definition succeeds :: "('e, 's, 'a) cmd \<Rightarrow> 's \<Rightarrow> bool" where
  "succeeds m s = (case fst (m s) of Inr _ \<Rightarrow> True | Inl _ \<Rightarrow> False)"

lemma succeedsE:
  assumes "succeeds m s"
  obtains r s' where "m s = (Inr r, s')"
  using assms by (cases "m s") (auto simp: succeeds_def split: sum.splits)

lemma well_named_dir_exec:
  "well_named_dir key d \<longleftrightarrow>
     (listing_error d = Some NotFound \<longrightarrow> entries d = []) \<and> distinct (json_names (entries d)) \<and>
     list_all (\<lambda>e. case e of
        JsonFile n f \<Rightarrow> (case f of Parsed v \<Rightarrow> n = key v \<and> is_valid_short_name n | _ \<Rightarrow> True)
      | _ \<Rightarrow> True) (entries d)"
  unfolding well_named_dir_def list_all_iff
  by (rule conj_cong[OF refl], rule conj_cong[OF refl])
    (force split: dir_entry.splits json_file.splits)

lemma well_named_sample: "well_named sample_store"
  unfolding well_named_def well_named_tasks_def well_named_sessions_def well_named_dir_exec
  by code_simp

lemma sample_start: "succeeds (start_task sample_env (Resolved ''part'') False) sample_store"
  by code_simp

lemma acyclic_sample: "acyclic (parent_edge sample_store)"
proof -
  have ts: "store_tasks sample_store = sample_tasks"
    by code_simp
  have "parent_edge sample_store \<subseteq> {(''part'', ''plan'')}"
  proof clarify
    fix a b assume "(a, b) \<in> parent_edge sample_store"
    then obtain t where "load_task sample_store a = Inr t" "t_parent t = Some b"
      by (auto simp: parent_edge_iff)
    moreover have "well_named_tasks sample_store"
      using well_named_sample by (simp add: well_named_def)
    ultimately have "t \<in> set sample_tasks" "t_slug t = a" "t_parent t = Some b"
      using load_in_store[of sample_store a t] ts by auto
    then show "a = ''part'' \<and> b = ''plan''"
      by (auto simp: sample_tasks_def mk_task_def)
  qed
  moreover have "acyclic {(''part'', ''plan'')}"
    by (simp add: acyclic_def trancl_insert)
  ultimately show ?thesis
    by (rule acyclic_subset[rotated])
qed

end
