(* ===== verification/Json_Merge.thy ===== *)
theory Json_Merge
  imports Base
begin

text \<open>
  The deep merge of engine configuration: \<open>dedup\<close>, \<open>merge_json\<close> and \<open>normalize_json\<close> of
  \<open>crates/llmenv-util/src/lib.rs\<close>.  An object of \<open>serde_json\<close> is a sorted map, here the list of its
  entries in key order, so that equality of values is equality of objects; numbers are opaque.  Main
  results: the merge keeps objects sorted, it is exact key by key, and merging the same source again
  changes nothing.
\<close>

section \<open>Values\<close>

datatype 'n json =
    JNull
  | JBool bool
  | JNumber 'n
  | JString string
  | JArray "'n json list"
  | JObject "(string \<times> 'n json) list"

text \<open>\<open>BTreeMap::insert\<close>.\<close>

fun map_insert :: "'k::linorder \<Rightarrow> 'v \<Rightarrow> ('k \<times> 'v) list \<Rightarrow> ('k \<times> 'v) list" where
  "map_insert k v [] = [(k, v)]"
| "map_insert k v ((j, w) # m) =
     (if k < j then (k, v) # (j, w) # m
      else if k = j then (k, v) # m
      else (j, w) # map_insert k v m)"

section \<open>Deduplication\<close>

text \<open>The element at \<open>i\<close> goes when an earlier one equals it; the elements before \<open>i\<close> are all kept.\<close>

fun dedup_from :: "'a list \<Rightarrow> 'a list \<Rightarrow> 'a list" where
  "dedup_from kept [] = kept"
| "dedup_from kept (x # xs) = dedup_from (if x \<in> set kept then kept else kept @ [x]) xs"

definition dedup :: "'a list \<Rightarrow> 'a list" where
  "dedup xs = dedup_from [] xs"

lemma dedup_from_props:
  "set (dedup_from kept xs) = set kept \<union> set xs"
  "distinct kept \<Longrightarrow> distinct (dedup_from kept xs)"
  by (induction kept xs rule: dedup_from.induct) auto

lemma set_dedup [simp]: "set (dedup xs) = set xs"
  by (simp add: dedup_def dedup_from_props)

lemma distinct_dedup [simp]: "distinct (dedup xs)"
  by (simp add: dedup_def dedup_from_props)

lemma dedup_from_absorb: "set ys \<subseteq> set kept \<Longrightarrow> dedup_from kept ys = kept"
  by (induction ys) auto

lemma dedup_from_append: "dedup_from kept (xs @ ys) = dedup_from (dedup_from kept xs) ys"
  by (induction kept xs rule: dedup_from.induct) auto

lemma dedup_from_distinct:
  "distinct (kept @ xs) \<Longrightarrow> dedup_from kept xs = kept @ xs"
  by (induction xs arbitrary: kept) auto

lemma dedup_distinct [simp]: "distinct xs \<Longrightarrow> dedup xs = xs"
  by (simp add: dedup_def dedup_from_distinct)

lemma dedup_append_absorb: "set ys \<subseteq> set xs \<Longrightarrow> dedup (xs @ ys) = dedup xs"
  by (simp add: dedup_def dedup_from_append dedup_from_absorb dedup_from_props)

lemma dedup_idem: "dedup (dedup xs) = dedup xs"
  by simp

text \<open>The first of equal elements is the one that stays.\<close>

lemma dedup_from_first:
  "dedup_from kept xs = kept @ rev (foldl (\<lambda>acc x. if x \<in> set kept \<or> x \<in> set acc then acc else x # acc) [] xs)"
proof (induction xs rule: rev_induct)
  case (snoc x xs)
  have "set (dedup_from kept xs) = set kept \<union> set xs"
    by (rule dedup_from_props)
  then show ?case
    using snoc by (auto simp: dedup_from_append)
qed simp

section \<open>Normalizing\<close>

fun normalize_json :: "'n json \<Rightarrow> 'n json" where
  "normalize_json (JArray items) = JArray (dedup (map normalize_json items))"
| "normalize_json (JObject m) =
     JObject (map (\<lambda>(k, v). (k, normalize_json v)) (filter (\<lambda>(k, v). v \<noteq> JNull) m))"
| "normalize_json v = v"

section \<open>Merging\<close>

fun merge_json :: "'n json \<Rightarrow> 'n json \<Rightarrow> 'n json"
  and merge_entries ::
    "(string \<times> 'n json) list \<Rightarrow> (string \<times> 'n json) list \<Rightarrow> (string \<times> 'n json) list" where
  "merge_json (JObject d) (JObject s) = JObject (merge_entries d s)"
| "merge_json (JArray d) (JArray s) = JArray (dedup (map normalize_json (d @ s)))"
| "merge_json d s = normalize_json s"
| "merge_entries d [] = d"
| "merge_entries d ((k, v) # s) =
     merge_entries
       (case map_of d k of
          Some existing \<Rightarrow> map_insert k (merge_json existing v) d
        | None \<Rightarrow>
            let v' = normalize_json v in
            if v' = JNull then d else map_insert k v' d) s"

section \<open>Sorted maps\<close>

definition sorted_map :: "('k::linorder \<times> 'v) list \<Rightarrow> bool" where
  "sorted_map m \<longleftrightarrow> sorted_wrt (<) (map fst m)"

lemma map_of_insert: "map_of (map_insert k v m) = (map_of m)(k \<mapsto> v)"
  by (induction k v m rule: map_insert.induct) auto

lemma keys_insert: "set (map fst (map_insert k v m)) = insert k (set (map fst m))"
  by (induction k v m rule: map_insert.induct) auto

lemma set_map_insert: "x \<in> set (map_insert k v m) \<Longrightarrow> x = (k, v) \<or> x \<in> set m"
  by (induction k v m rule: map_insert.induct) (auto split: if_splits)

lemma sorted_map_insert: "sorted_map m \<Longrightarrow> sorted_map (map_insert k v m)"
  unfolding sorted_map_def
proof (induction k v m rule: map_insert.induct)
  case (2 k v j w m)
  show ?case
  proof (cases "k < j \<or> k = j")
    case True
    then show ?thesis using 2 by auto
  next
    case False
    then have "x \<in> fst ` set (map_insert k v m) \<Longrightarrow> j < x" for x
      using 2(2) keys_insert[of k v m] by auto
    then show ?thesis using 2 False by auto
  qed
qed simp

lemma sorted_map_distinct: "sorted_map m \<Longrightarrow> distinct (map fst m)"
  unfolding sorted_map_def by (simp add: strict_sorted_iff)

lemma map_of_rebuild:
  assumes "distinct (map fst m)"
  shows "m = map (\<lambda>k. (k, the (map_of m k))) (map fst m)"
proof -
  have "map (\<lambda>x. (fst x, the (map_of m (fst x)))) m = m"
    by (rule map_idI) (use assms in \<open>force simp: map_of_is_SomeI\<close>)
  then show ?thesis by (simp add: comp_def)
qed

text \<open>A sorted map is determined by its lookups.\<close>

lemma sorted_map_eqI:
  assumes "sorted_map m" and "sorted_map n" and "map_of m = map_of n"
  shows "m = n"
proof -
  have "set (map fst m) = set (map fst n)"
    using assms(3) dom_map_of_conv_image_fst[of m] dom_map_of_conv_image_fst[of n] by simp
  then have "map fst m = map fst n"
    using assms(1,2) unfolding sorted_map_def by (simp add: strict_sorted_equal)
  then show ?thesis
    using map_of_rebuild[OF sorted_map_distinct[OF assms(1)]]
      map_of_rebuild[OF sorted_map_distinct[OF assms(2)]] assms(3) by metis
qed

interpretation json_object: keyed_store map_of map_insert AList.delete
  by unfold_locales (auto simp: map_of_insert delete_conv')

fun wf_json :: "'n json \<Rightarrow> bool" where
  "wf_json (JArray items) \<longleftrightarrow> list_all wf_json items"
| "wf_json (JObject m) \<longleftrightarrow> sorted_map m \<and> list_all (\<lambda>(k, v). wf_json v) m"
| "wf_json v \<longleftrightarrow> True"

lemma wf_json_objectD:
  assumes "wf_json (JObject m)"
  shows "sorted_map m" "distinct (map fst m)" "map_of m k = Some v \<Longrightarrow> wf_json v"
  using assms by (auto simp: list_all_iff sorted_map_distinct dest!: map_of_SomeD)

lemma wf_json_objectI:
  assumes "sorted_map m" and "\<And>k v. map_of m k = Some v \<Longrightarrow> wf_json v"
  shows "wf_json (JObject m)"
  using assms map_of_is_SomeI[OF sorted_map_distinct[OF assms(1)]] by (auto simp: list_all_iff)

section \<open>Normal forms\<close>

lemma normalize_JNull [simp]: "normalize_json v = JNull \<longleftrightarrow> v = JNull"
  by (cases v) auto

lemma map_of_map_filter:
  assumes "distinct (map fst m)"
  shows "map_of (map (\<lambda>(k, v). (k, f v)) (filter (\<lambda>(k, v). P v) m)) k =
    (case map_of m k of None \<Rightarrow> None | Some v \<Rightarrow> if P v then Some (f v) else None)"
  using assms
proof (induction m)
  case (Cons x m)
  obtain j v where x: "x = (j, v)" by (cases x)
  have "map_of m j = None"
    using Cons.prems x by (simp add: map_of_eq_None_iff)
  then show ?case
    using Cons x by (auto split: option.splits)
qed simp

lemma normalize_get:
  assumes "distinct (map fst m)"
  shows "map_of (map (\<lambda>(k, v). (k, normalize_json v)) (filter (\<lambda>(k, v). v \<noteq> JNull) m)) k =
    (case map_of m k of None \<Rightarrow> None | Some v \<Rightarrow> if v \<noteq> JNull then Some (normalize_json v) else None)"
  by (rule map_of_map_filter[OF assms])

lemma keys_map_values: "map fst (map (\<lambda>(k, v). (k, f v)) xs) = map fst xs"
  by (induction xs) auto

lemma sorted_map_keep:
  "sorted_map m \<Longrightarrow> sorted_map (map (\<lambda>(k, v). (k, f v)) (filter P m))"
  unfolding sorted_map_def keys_map_values by (simp add: sorted_wrt_map sorted_wrt_filter)

lemma wf_normalize: "wf_json v \<Longrightarrow> wf_json (normalize_json v)"
proof (induction v rule: normalize_json.induct)
  case (1 items)
  then show ?case by (auto simp: list_all_iff)
next
  case (2 m)
  show ?case
    unfolding normalize_json.simps
  proof (rule wf_json_objectI)
    show "sorted_map (map (\<lambda>(k, v). (k, normalize_json v)) (filter (\<lambda>(k, v). v \<noteq> JNull) m))"
      using 2(2) by (auto intro: sorted_map_keep)
    show "wf_json w" if "map_of (map (\<lambda>(k, v). (k, normalize_json v)) (filter (\<lambda>(k, v). v \<noteq> JNull) m)) k = Some w" for k w
      using map_of_SomeD[OF that] 2 by (auto simp: list_all_iff)
  qed
qed auto

lemma normalize_idem: "normalize_json (normalize_json v) = normalize_json v"
proof (induction v rule: normalize_json.induct)
  case (1 items)
  have "map normalize_json (dedup (map normalize_json items)) = dedup (map normalize_json items)"
    by (rule map_idI) (use 1 in auto)
  then show ?case by simp
next
  case (2 m)
  let ?m = "map (\<lambda>(k, v). (k, normalize_json v)) (filter (\<lambda>(k, v). v \<noteq> JNull) m)"
  have "filter (\<lambda>(k, v). v \<noteq> JNull) ?m = ?m"
    by (rule filter_True) auto
  moreover have "map (\<lambda>(k, v). (k, normalize_json v)) ?m = ?m"
    by (rule map_idI) (use 2 in auto)
  ultimately show ?case by simp
qed auto

section \<open>The merge, key by key\<close>

text \<open>What a key holds after the merge of two objects.\<close>

definition merged_value :: "'n json option \<Rightarrow> 'n json option \<Rightarrow> 'n json option" where
  "merged_value old new =
     (case new of
        None \<Rightarrow> old
      | Some v \<Rightarrow>
          (case old of
             Some existing \<Rightarrow> Some (merge_json existing v)
           | None \<Rightarrow> if v = JNull then None else Some (normalize_json v)))"

lemma merge_entries_get:
  assumes "distinct (map fst s)"
  shows "map_of (merge_entries d s) k = merged_value (map_of d k) (map_of s k)"
  using assms
proof (induction s arbitrary: d)
  case (Cons x s)
  obtain j v where x: "x = (j, v)" by (cases x)
  have j: "map_of s j = None"
    using Cons.prems x by (simp add: map_of_eq_None_iff)
  let ?d = "case map_of d j of Some e \<Rightarrow> map_insert j (merge_json e v) d
      | None \<Rightarrow> let v' = normalize_json v in if v' = JNull then d else map_insert j v' d"
  have "map_of (merge_entries d (x # s)) k = merged_value (map_of ?d k) (map_of s k)"
    using Cons x by simp
  moreover have "map_of ?d k = (if k = j then merged_value (map_of d j) (Some v) else map_of d k)"
    by (auto simp: map_of_insert merged_value_def Let_def split: option.splits)
  ultimately show ?case
    using x j by (auto simp: merged_value_def)
qed (simp add: merged_value_def)

lemma sorted_merge_entries: "sorted_map d \<Longrightarrow> sorted_map (merge_entries d s)"
proof (induction s arbitrary: d)
  case (Cons x s)
  then show ?case
    by (cases x) (auto simp: Let_def sorted_map_insert split: option.splits)
qed simp

lemma wf_merge: "wf_json d \<Longrightarrow> wf_json s \<Longrightarrow> wf_json (merge_json d s)"
proof (induction s arbitrary: d rule: normalize_json.induct)
  case (2 m)
  show ?case
  proof (cases d)
    case (JObject dm)
    note D = wf_json_objectD[OF "2.prems"(1)[unfolded JObject]] and S = wf_json_objectD[OF "2.prems"(2)]
    show ?thesis
      unfolding JObject merge_json.simps
    proof (rule wf_json_objectI)
      show "sorted_map (merge_entries dm m)"
        by (rule sorted_merge_entries[OF D(1)])
      fix k w
      assume w: "map_of (merge_entries dm m) k = Some w"
      show "wf_json w"
      proof (cases "map_of m k")
        case None
        then show ?thesis using w D(3) by (simp add: merge_entries_get[OF S(2)] merged_value_def)
      next
        case (Some v)
        have v: "(k, v) \<in> set m" "wf_json v"
          using map_of_SomeD[OF Some] S(3)[OF Some] .
        show ?thesis
        proof (cases "map_of dm k")
          case None
          then show ?thesis
            using w Some v wf_normalize by (auto simp: merge_entries_get[OF S(2)] merged_value_def split: if_splits)
        next
          case old: (Some e)
          have "w = merge_json e v"
            using w Some old by (simp add: merge_entries_get[OF S(2)] merged_value_def)
          moreover have "v \<noteq> JNull \<Longrightarrow> wf_json (merge_json e v)"
            using "2.IH"[of "(k, v)" k v e] v D(3)[OF old] by simp
          ultimately show ?thesis
            by (cases "v = JNull") (cases e; simp)+
        qed
      qed
    qed
  qed (use "2.prems" wf_normalize in \<open>auto simp del: wf_json.simps normalize_json.simps\<close>)
next
  case (1 items)
  show ?case
  proof (cases d)
    case (JArray ds)
    then have "\<forall>x \<in> set (ds @ items). wf_json (normalize_json x)"
      using "1.prems" by (auto simp: list_all_iff intro: wf_normalize)
    then show ?thesis using JArray by (simp add: list_all_iff) blast
  qed (use "1.prems" wf_normalize in \<open>auto simp del: wf_json.simps normalize_json.simps\<close>)
qed auto

section \<open>Merging again\<close>

lemma normalize_dedup_again:
  "dedup (map normalize_json (dedup (map normalize_json xs) @ ys)) =
   (if set ys \<subseteq> set xs then dedup (map normalize_json xs) else dedup (map normalize_json (xs @ ys)))"
proof -
  have "map normalize_json (dedup (map normalize_json xs)) = dedup (map normalize_json xs)"
    by (rule map_idI) (auto simp: normalize_idem)
  moreover have "dedup (dedup (map normalize_json xs) @ map normalize_json ys) =
      dedup (map normalize_json xs @ map normalize_json ys)"
    by (simp add: dedup_def dedup_from_append)
      (simp add: dedup_from_distinct dedup_from_props)
  ultimately show ?thesis
    by (auto intro!: dedup_append_absorb imageI)
qed

lemma merge_JNull: "merge_json d JNull = JNull"
  by (cases d) auto

lemma merge_normalized: "wf_json v \<Longrightarrow> merge_json (normalize_json v) v = normalize_json v"
proof (induction v rule: normalize_json.induct)
  case (1 items)
  then show ?case by (simp add: normalize_dedup_again del: map_append)
next
  case (2 m)
  note S = wf_json_objectD[OF "2.prems"]
  let ?m = "map (\<lambda>(k, v). (k, normalize_json v)) (filter (\<lambda>(k, v). v \<noteq> JNull) m)"
  have "merge_entries ?m m = ?m"
  proof (rule sorted_map_eqI)
    show sorted: "sorted_map ?m" by (rule sorted_map_keep[OF S(1)])
    then show "sorted_map (merge_entries ?m m)" by (rule sorted_merge_entries)
    show "map_of (merge_entries ?m m) = map_of ?m"
    proof
      fix k
      show "map_of (merge_entries ?m m) k = map_of ?m k"
        using "2.IH"[OF _ refl] S(3)[of k]
        by (auto simp: merge_entries_get[OF S(2)] normalize_get[OF S(2)] merged_value_def
            dest: map_of_SomeD split: option.splits)
    qed
  qed
  then show ?case by simp
qed auto

lemma merge_again: "wf_json d \<Longrightarrow> wf_json s \<Longrightarrow> merge_json (merge_json d s) s = merge_json d s"
proof (induction s arbitrary: d rule: normalize_json.induct)
  case (1 items)
  show ?case
  proof (cases d)
    case (JArray ds)
    then show ?thesis
      using normalize_dedup_again[of "ds @ items" items] by (simp del: map_append)
  qed (use merge_normalized[OF "1.prems"(2)] in auto)
next
  case (2 m)
  show ?case
  proof (cases d)
    case (JObject dm)
    note D = wf_json_objectD[OF "2.prems"(1)[unfolded JObject]] and S = wf_json_objectD[OF "2.prems"(2)]
    have "merged_value (merged_value (map_of dm k) (map_of m k)) (map_of m k) =
        merged_value (map_of dm k) (map_of m k)" for k
    proof (cases "map_of m k")
      case (Some v)
      have "merge_json (merge_json e v) v = merge_json e v" if "wf_json e" for e
        using "2.IH"[OF _ refl, of k v e] map_of_SomeD[OF Some] S(3)[OF Some] that
        by (cases "v = JNull") (auto simp: merge_JNull)
      then show ?thesis
        using Some D(3)[of k] merge_normalized[OF S(3)[OF Some]]
        by (auto simp: merged_value_def split: option.splits)
    qed (simp add: merged_value_def)
    then have "map_of (merge_entries (merge_entries dm m) m) = map_of (merge_entries dm m)"
      by (intro ext) (simp add: merge_entries_get[OF S(2)])
    then have "merge_entries (merge_entries dm m) m = merge_entries dm m"
      by (rule sorted_map_eqI[rotated 2]) (intro sorted_merge_entries D(1))+
    then show ?thesis using JObject by simp
  qed (use merge_normalized[OF "2.prems"(2)] in auto)
qed auto

end
