(* ===== verification/Precedence.thy ===== *)
theory Precedence
  imports Json_Merge
begin

text \<open>
  Resolution by precedence: \<open>src/merge/precedence.rs\<close>.  A contributor has a name, a precedence and
  the capabilities it declares; a field of the capabilities is read by a selector.  A Rust \<open>BTreeMap\<close>
  is the list of its entries in key order.  Main results: a field fails to resolve exactly when two
  contributors of equal precedence disagree on it, otherwise it holds the value of the highest
  contributor that sets it, so the order of the contributors does not matter; a map field behaves
  like one such field per key.
\<close>

section \<open>Model\<close>

record 'c contributor =
  c_name :: string
  c_precedence :: nat
  c_capabilities :: 'c

text \<open>A conflict names the field, the two contributors, and for a map field the key.\<close>

datatype conflict = SamePrecedence string "string option" string string

type_synonym ('c, 'v) entry = "'c contributor \<times> 'v"

fun ties_from ::
  "(string \<Rightarrow> string \<Rightarrow> conflict) \<Rightarrow> (nat \<rightharpoonup> ('c, 'v) entry) \<Rightarrow> ('c, 'v) entry list \<Rightarrow> conflict + unit"
  where
  "ties_from what first_at [] = Inr ()"
| "ties_from what first_at ((c, value) # es) =
     (case first_at (c_precedence c) of
        None \<Rightarrow> ties_from what (first_at(c_precedence c \<mapsto> (c, value))) es
      | Some (first, first_value) \<Rightarrow>
          if first_value \<noteq> value then Inl (what (c_name first) (c_name c))
          else ties_from what first_at es)"

definition check_same_precedence_ties ::
  "(string \<Rightarrow> string \<Rightarrow> conflict) \<Rightarrow> ('c, 'v) entry list \<Rightarrow> conflict + unit" where
  "check_same_precedence_ties what es = ties_from what Map.empty es"

definition entries_of :: "('c \<Rightarrow> 'v option) \<Rightarrow> 'c contributor list \<Rightarrow> ('c, 'v) entry list" where
  "entries_of pick cs =
     List.map_filter (\<lambda>c. map_option (Pair c) (pick (c_capabilities c))) cs"

definition highest_precedence ::
  "'c contributor list \<Rightarrow> string \<Rightarrow> ('c \<Rightarrow> 'v option) \<Rightarrow> conflict + 'v option" where
  "highest_precedence cs field_name pick =
     (let es = entries_of pick cs in
      seqR (check_same_precedence_ties (SamePrecedence field_name None) es) (\<lambda>_.
      Inr (map_option snd (max_by_key (\<lambda>(c, _). c_precedence c) es))))"

text \<open>The entries of every key, in the order of the contributors.\<close>

definition push_entry ::
  "'c contributor \<Rightarrow> string \<times> 'v \<Rightarrow> (string \<times> ('c, 'v) entry list) list \<Rightarrow>
   (string \<times> ('c, 'v) entry list) list" where
  "push_entry c = (\<lambda>(key, value) by_key.
     map_insert key ((case map_of by_key key of None \<Rightarrow> [] | Some es \<Rightarrow> es) @ [(c, value)]) by_key)"

definition by_key ::
  "('c \<Rightarrow> (string \<times> 'v) list) \<Rightarrow> 'c contributor list \<Rightarrow> (string \<times> ('c, 'v) entry list) list" where
  "by_key pick cs =
     fold (\<lambda>c. fold (push_entry c) (pick (c_capabilities c))) cs []"

fun resolve_keys ::
  "string \<Rightarrow> (string \<times> ('c, 'v) entry list) list \<Rightarrow> (string \<times> 'v) list \<Rightarrow> conflict + (string \<times> 'v) list"
  where
  "resolve_keys label [] result = Inr result"
| "resolve_keys label ((key, es) # rest) result =
     seqR (check_same_precedence_ties (SamePrecedence label (Some key)) es) (\<lambda>_.
     resolve_keys label rest
       (case max_by_key (\<lambda>(c, _). c_precedence c) es of
          Some (_, value) \<Rightarrow> map_insert key value result
        | None \<Rightarrow> result))"

definition resolve_per_key ::
  "'c contributor list \<Rightarrow> string \<Rightarrow> ('c \<Rightarrow> (string \<times> 'v) list) \<Rightarrow> conflict + (string \<times> 'v) list" where
  "resolve_per_key cs label pick = resolve_keys label (by_key pick cs) []"

section \<open>Ties\<close>

text \<open>The check passes exactly when one value per precedence fits the entries.\<close>

lemma ties_from_ok:
  "ties_from what m es = Inr () \<longleftrightarrow>
     (\<exists>F. (\<forall>p d w. m p = Some (d, w) \<longrightarrow> F p = w) \<and> (\<forall>e \<in> set es. snd e = F (c_precedence (fst e))))"
proof (induction what m es rule: ties_from.induct)
  case (1 what m)
  show ?case by (auto intro!: exI[of _ "\<lambda>p. snd (the (m p))"])
next
  case (2 what m c v es)
  show ?case
  proof (cases "m (c_precedence c)")
    case None
    have "(\<forall>p d w. (m(c_precedence c \<mapsto> (c, v))) p = Some (d, w) \<longrightarrow> F p = w) \<longleftrightarrow>
        F (c_precedence c) = v \<and> (\<forall>p d w. m p = Some (d, w) \<longrightarrow> F p = w)" for F
    proof -
      have "m p = Some (d, w) \<Longrightarrow> p \<noteq> c_precedence c" for p d w using None by auto
      then show ?thesis by (simp add: fun_upd_def) (metis Pair_inject)
    qed
    then show ?thesis
      using 2(1)[OF None] None by (simp del: fun_upd_apply) metis
  next
    case (Some p)
    obtain d w where p: "p = (d, w)" by (cases p)
    have "F (c_precedence c) = w" if "\<forall>p d w. m p = Some (d, w) \<longrightarrow> F p = w" for F
      using that Some p by blast
    then show ?thesis
      using 2(2)[OF Some p[symmetric]] Some p by (cases "w = v") auto
  qed
qed

text \<open>Every pair is compared, at every precedence.\<close>

definition agreed :: "('c, 'v) entry list \<Rightarrow> bool" where
  "agreed es \<longleftrightarrow>
     (\<forall>c v d w. (c, v) \<in> set es \<longrightarrow> (d, w) \<in> set es \<longrightarrow> c_precedence c = c_precedence d \<longrightarrow> v = w)"

lemma check_ties_ok: "check_same_precedence_ties what es = Inr u \<longleftrightarrow> agreed es"
proof -
  let ?F = "\<lambda>p. SOME v. \<exists>c. (c, v) \<in> set es \<and> c_precedence c = p"
  have "v = ?F (c_precedence c)" if "agreed es" "(c, v) \<in> set es" for c v
    by (rule some_equality[symmetric]) (use that in \<open>auto simp: agreed_def\<close>)
  then have "agreed es \<longleftrightarrow> (\<exists>F. \<forall>e \<in> set es. snd e = F (c_precedence (fst e)))"
  proof -
    assume fits: "\<And>c v. agreed es \<Longrightarrow> (c, v) \<in> set es \<Longrightarrow> v = ?F (c_precedence c)"
    have "\<forall>e \<in> set es. snd e = ?F (c_precedence (fst e))" if "agreed es"
      using fits[OF that] by auto
    moreover have "agreed es" if "\<forall>e \<in> set es. snd e = F (c_precedence (fst e))" for F
    proof -
      have "v = F (c_precedence c)" if "(c, v) \<in> set es" for c v
        using that \<open>\<forall>e \<in> set es. snd e = F (c_precedence (fst e))\<close> by fastforce
      then show ?thesis unfolding agreed_def by metis
    qed
    ultimately show ?thesis by (intro iffI exI[of _ ?F]) auto
  qed
  then show ?thesis
    by (cases u) (simp add: check_same_precedence_ties_def ties_from_ok)
qed

lemma agreed_subset: "agreed es \<Longrightarrow> set fs \<subseteq> set es \<Longrightarrow> agreed fs"
  unfolding agreed_def by blast

text \<open>A conflict names two contributors that disagree.\<close>

lemma ties_from_names:
  assumes "ties_from what m es = Inl e"
    and "\<And>p d w. m p = Some (d, w) \<Longrightarrow> c_precedence d = p \<and> (d, w) \<in> S" and "set es \<subseteq> S"
  shows "\<exists>c v d w. (d, w) \<in> S \<and> (c, v) \<in> S \<and>
     c_precedence c = c_precedence d \<and> v \<noteq> w \<and> e = what (c_name d) (c_name c)"
  using assms
proof (induction what m es rule: ties_from.induct)
  case (2 what m c v es)
  show ?case
  proof (cases "m (c_precedence c)")
    case None
    show ?thesis
    proof (rule 2(1)[OF None])
      show "ties_from what (m(c_precedence c \<mapsto> (c, v))) es = Inl e"
        using 2(3) None by simp
      show "c_precedence d = p \<and> (d, w) \<in> S" if "(m(c_precedence c \<mapsto> (c, v))) p = Some (d, w)" for p d w
        using that 2(4,5) by (cases "p = c_precedence c") auto
    qed (use 2(5) in simp)
  next
    case (Some p)
    obtain d w where p: "p = (d, w)" by (cases p)
    show ?thesis
    proof (cases "w = v")
      case False
      have "(d, w) \<in> S" "c_precedence c = c_precedence d"
        using 2(4) Some p by auto
      moreover have "(c, v) \<in> S" "e = what (c_name d) (c_name c)"
        using 2(3,5) Some p False by auto
      ultimately show ?thesis using False by blast
    next
      case True
      show ?thesis
        by (rule 2(2)[OF Some p[symmetric] _ _ 2(4)]) (use 2(3,5) Some p True in auto)
    qed
  qed
qed simp

section \<open>One field\<close>

lemma set_entries_of:
  "(c, v) \<in> set (entries_of pick cs) \<longleftrightarrow> c \<in> set cs \<and> pick (c_capabilities c) = Some v"
  by (auto simp: entries_of_def map_filter_def image_iff)

text \<open>The contributors agree on a field at every precedence.\<close>

definition no_conflict :: "('c \<Rightarrow> 'v option) \<Rightarrow> 'c contributor set \<Rightarrow> bool" where
  "no_conflict pick C \<longleftrightarrow>
     (\<forall>c \<in> C. \<forall>d \<in> C. c_precedence c = c_precedence d \<longrightarrow>
        (case (pick (c_capabilities c), pick (c_capabilities d)) of
           (Some v, Some w) \<Rightarrow> v = w | _ \<Rightarrow> True))"

text \<open>The value of the highest contributor that sets the field.\<close>

definition wins :: "('c \<Rightarrow> 'v option) \<Rightarrow> 'c contributor set \<Rightarrow> 'v \<Rightarrow> bool" where
  "wins pick C v \<longleftrightarrow>
     (\<exists>c \<in> C. pick (c_capabilities c) = Some v \<and>
        (\<forall>d \<in> C. pick (c_capabilities d) \<noteq> None \<longrightarrow> c_precedence d \<le> c_precedence c))"

lemma no_conflict_alt:
  "no_conflict pick C \<longleftrightarrow>
     (\<forall>c d v w. c \<in> C \<longrightarrow> d \<in> C \<longrightarrow> c_precedence c = c_precedence d \<longrightarrow>
        pick (c_capabilities c) = Some v \<longrightarrow> pick (c_capabilities d) = Some w \<longrightarrow> v = w)"
proof -
  have "(case (x, y) of (Some v, Some w) \<Rightarrow> v = w | _ \<Rightarrow> True) \<longleftrightarrow>
      (\<forall>v w. x = Some v \<longrightarrow> y = Some w \<longrightarrow> v = w)" for x y :: "'b option"
    by (cases x; cases y) auto
  then show ?thesis unfolding no_conflict_def by blast
qed

lemma agreed_entries: "agreed (entries_of pick cs) \<longleftrightarrow> no_conflict pick (set cs)"
  unfolding no_conflict_alt agreed_def set_entries_of by blast

lemma wins_unique: "no_conflict pick C \<Longrightarrow> wins pick C v \<Longrightarrow> wins pick C w \<Longrightarrow> v = w"
  unfolding no_conflict_alt wins_def by (metis antisym option.distinct(1))

lemma max_entry_wins:
  assumes "map_option snd (max_by_key (\<lambda>(c, _). c_precedence c) (entries_of pick cs)) = Some v"
  shows "wins pick (set cs) v"
proof -
  obtain c where m: "max_by_key (\<lambda>(c, _). c_precedence c) (entries_of pick cs) = Some (c, v)"
    using assms by auto
  have "c \<in> set cs \<and> pick (c_capabilities c) = Some v"
    using max_by_key_Some[OF m] by (simp add: set_entries_of)
  moreover have "c_precedence d \<le> c_precedence c"
    if "d \<in> set cs" "pick (c_capabilities d) \<noteq> None" for d
  proof -
    have "(d, the (pick (c_capabilities d))) \<in> set (entries_of pick cs)"
      using that by (auto simp: set_entries_of)
    then show ?thesis using max_by_key_Some[OF m] by fastforce
  qed
  ultimately show ?thesis unfolding wins_def by blast
qed

lemma entries_of_empty: "entries_of pick cs = [] \<longleftrightarrow> (\<forall>c \<in> set cs. pick (c_capabilities c) = None)"
proof -
  have "entries_of pick cs = [] \<longleftrightarrow> (\<forall>c v. (c, v) \<notin> set (entries_of pick cs))"
    by (cases "entries_of pick cs") auto
  then show ?thesis by (simp add: set_entries_of) blast
qed

lemma highest_precedence_ok:
  "highest_precedence cs f pick = Inr r \<longleftrightarrow>
     no_conflict pick (set cs) \<and>
     (case r of None \<Rightarrow> \<forall>c \<in> set cs. pick (c_capabilities c) = None | Some v \<Rightarrow> wins pick (set cs) v)"
proof -
  let ?m = "map_option snd (max_by_key (\<lambda>(c, _). c_precedence c) (entries_of pick cs))"
  have run: "highest_precedence cs f pick = Inr r \<longleftrightarrow> no_conflict pick (set cs) \<and> r = ?m"
    by (auto simp: highest_precedence_def Let_def seqR_ok check_ties_ok agreed_entries)
  show ?thesis
  proof (cases ?m)
    case None
    then have "\<forall>c \<in> set cs. pick (c_capabilities c) = None" by (simp add: entries_of_empty)
    then show ?thesis
      unfolding run None by (auto simp: wins_def split: option.splits)
  next
    case (Some v)
    have w: "wins pick (set cs) v" by (rule max_entry_wins[OF Some])
    then have "\<not> (\<forall>c \<in> set cs. pick (c_capabilities c) = None)"
      by (auto simp: wins_def)
    then show ?thesis
      unfolding run Some using w wins_unique[of pick "set cs"] by (auto split: option.splits)
  qed
qed

lemma highest_precedence_ErrD:
  assumes "highest_precedence cs f pick = Inl e"
  obtains c d v w where "c \<in> set cs" "d \<in> set cs" "c_precedence c = c_precedence d"
    "pick (c_capabilities c) = Some v" "pick (c_capabilities d) = Some w" "v \<noteq> w"
    "e = SamePrecedence f None (c_name d) (c_name c)"
proof -
  have "ties_from (SamePrecedence f None) Map.empty (entries_of pick cs) = Inl e"
    using assms by (simp add: highest_precedence_def Let_def check_same_precedence_ties_def seqR_err)
  from ties_from_names[OF this _ order_refl] obtain c v d w where
    "(d, w) \<in> set (entries_of pick cs)" "(c, v) \<in> set (entries_of pick cs)"
    "c_precedence c = c_precedence d" "v \<noteq> w" "e = SamePrecedence f None (c_name d) (c_name c)"
    by auto
  then show ?thesis
    unfolding set_entries_of by (intro that[of c d v w]) auto
qed

text \<open>Only the set of contributors counts.\<close>

lemma highest_precedence_order:
  assumes "set cs = set ds" and "highest_precedence cs f pick = Inr r"
  shows "highest_precedence ds f pick = Inr r"
  using assms(2) unfolding highest_precedence_ok assms(1) .

section \<open>One map\<close>

definition listed :: "'a list option \<Rightarrow> 'a list" where
  "listed r = (case r of None \<Rightarrow> [] | Some xs \<Rightarrow> xs)"

lemma push_entries_get:
  assumes "distinct (map fst kvs)"
  shows "map_of (fold (push_entry c) kvs m) k =
    (case map_of kvs k of None \<Rightarrow> map_of m k | Some v \<Rightarrow> Some (listed (map_of m k) @ [(c, v)]))"
  using assms
proof (induction kvs arbitrary: m)
  case (Cons x kvs)
  obtain j v where x: "x = (j, v)" by (cases x)
  have "map_of kvs j = None" using Cons.prems x by (simp add: map_of_eq_None_iff)
  then show ?case
    using Cons x by (auto simp: push_entry_def map_of_insert listed_def split: option.splits)
qed simp

lemma entries_of_Cons:
  "entries_of pick (c # cs) =
     (case pick (c_capabilities c) of None \<Rightarrow> [] | Some v \<Rightarrow> [(c, v)]) @ entries_of pick cs"
  by (simp add: entries_of_def map_filter_simps split: option.splits)

lemma by_key_from:
  assumes "\<forall>c \<in> set cs. distinct (map fst (pick (c_capabilities c)))"
  shows "map_of (fold (\<lambda>c. fold (push_entry c) (pick (c_capabilities c))) cs m) k =
    (let es = entries_of (\<lambda>c. map_of (pick c) k) cs in
     if es = [] then map_of m k else Some (listed (map_of m k) @ es))"
  using assms
proof (induction cs arbitrary: m)
  case Nil
  show ?case by (simp add: entries_of_def map_filter_simps)
next
  case (Cons c cs)
  then show ?case
    by (auto simp: entries_of_Cons push_entries_get listed_def Let_def split: option.splits)
qed

lemma by_key_get:
  assumes "\<forall>c \<in> set cs. distinct (map fst (pick (c_capabilities c)))"
  shows "map_of (by_key pick cs) k =
    (let es = entries_of (\<lambda>c. map_of (pick c) k) cs in if es = [] then None else Some es)"
  unfolding by_key_def by_key_from[where pick = pick, OF assms] by (simp add: listed_def Let_def)

lemma sorted_by_key: "sorted_map (by_key pick cs)"
proof -
  have "sorted_map m \<Longrightarrow> sorted_map (fold (push_entry c) kvs m)" for m c and kvs :: "(string \<times> 'b) list"
    by (induction kvs arbitrary: m) (auto simp: push_entry_def sorted_map_insert split: prod.split)
  then have "sorted_map m \<Longrightarrow> sorted_map (fold (\<lambda>c. fold (push_entry c) (pick (c_capabilities c))) cs m)" for m
    by (induction cs arbitrary: m) auto
  then show ?thesis by (simp add: by_key_def sorted_map_def)
qed

lemma resolve_keys_ok:
  assumes "distinct (map fst bk)"
  shows "resolve_keys label bk res = Inr m \<Longrightarrow>
    map_of m k = (case map_of bk k of None \<Rightarrow> map_of res k
      | Some es \<Rightarrow> (case max_by_key (\<lambda>(c, _). c_precedence c) es of None \<Rightarrow> map_of res k | Some (_, v) \<Rightarrow> Some v))"
  using assms
proof (induction label bk res rule: resolve_keys.induct)
  case (2 label key es rest res)
  have rest: "map_of rest key = None" using "2.prems" by (simp add: map_of_eq_None_iff)
  show ?case
    using 2(1) "2.prems" rest
    by (auto simp: seqR_ok map_of_insert split: option.splits prod.splits)
qed simp

lemma resolve_keys_total:
  "(\<exists>m. resolve_keys label bk res = Inr m) \<longleftrightarrow> (\<forall>(k, es) \<in> set bk. agreed es)"
proof (induction label bk res rule: resolve_keys.induct)
  case (2 label key es rest res)
  then show ?case by (auto simp: seqR_ok check_ties_ok)
qed simp

lemma sorted_resolve_keys:
  "resolve_keys label bk res = Inr m \<Longrightarrow> sorted_map res \<Longrightarrow> sorted_map m"
proof (induction label bk res rule: resolve_keys.induct)
  case (2 label key es rest res)
  then show ?case
    by (auto simp: seqR_ok sorted_map_insert split: option.splits prod.splits)
qed simp

text \<open>A map field resolves like one scalar field per key.\<close>

lemma resolve_per_key_ok:
  assumes "\<forall>c \<in> set cs. distinct (map fst (pick (c_capabilities c)))"
  shows "resolve_per_key cs label pick = Inr m \<longleftrightarrow>
    sorted_map m \<and> (\<forall>k. highest_precedence cs f (\<lambda>c. map_of (pick c) k) = Inr (map_of m k))"
    (is "?run \<longleftrightarrow> _ \<and> ?keys m")
proof -
  let ?pick = "\<lambda>k c. map_of (pick c) k"
  let ?best = "\<lambda>k. map_option snd (max_by_key (\<lambda>(c, _). c_precedence c) (entries_of (?pick k) cs))"
  note get = by_key_get[where pick = pick, OF assms]
  have distinct: "distinct (map fst (by_key pick cs))"
    by (rule sorted_map_distinct[OF sorted_by_key])
  have one: "highest_precedence cs f (?pick k) = Inr r \<longleftrightarrow> agreed (entries_of (?pick k) cs) \<and> r = ?best k" for k r
    by (auto simp: highest_precedence_def Let_def seqR_ok check_ties_ok)
  have "(\<forall>(k, es) \<in> set (by_key pick cs). agreed es) \<longleftrightarrow> (\<forall>k. agreed (entries_of (?pick k) cs))"
  proof -
    have "(k, es) \<in> set (by_key pick cs) \<longleftrightarrow> es = entries_of (?pick k) cs \<and> es \<noteq> []" for k es
      unfolding map_of_eq_Some_iff[OF distinct, symmetric] get by (auto simp: Let_def)
    moreover have "agreed ([] :: ('a, 'b) entry list)" by (simp add: agreed_def)
    ultimately show ?thesis by (simp add: Ball_def split_paired_All) metis
  qed
  then have total: "(\<exists>m. resolve_per_key cs label pick = Inr m) \<longleftrightarrow> (\<forall>k. agreed (entries_of (?pick k) cs))"
    unfolding resolve_per_key_def resolve_keys_total .
  have best: "map_of m k = ?best k" if "resolve_per_key cs label pick = Inr m" for m k
    using resolve_keys_ok[OF distinct that[unfolded resolve_per_key_def], of k]
    by (auto simp: get Let_def split: option.splits prod.splits)
  have sorted: "sorted_map m" if "resolve_per_key cs label pick = Inr m" for m
    using sorted_resolve_keys[OF that[unfolded resolve_per_key_def]] by (simp add: sorted_map_def)
  show ?thesis
  proof
    assume ?run
    then show "sorted_map m \<and> ?keys m"
      using total best sorted unfolding one by metis
  next
    assume m: "sorted_map m \<and> ?keys m"
    then obtain n where n: "resolve_per_key cs label pick = Inr n"
      using total unfolding one by blast
    have "map_of m = map_of n"
      using m best[OF n] unfolding one by (simp add: fun_eq_iff)
    then have "m = n" using m by (intro sorted_map_eqI[OF _ sorted[OF n]]) auto
    then show ?run using n by simp
  qed
qed

end
