(* ===== verification/Yaml_Merge.thy ===== *)
theory Yaml_Merge
  imports Json_Merge
begin

text \<open>
  The deep merge of opaque per-engine fragments: \<open>merge_yaml\<close> and \<open>normalize_yaml\<close> of
  \<open>crates/llmenv-util/src/lib.rs\<close>, and \<open>merge_native_feature\<close> of \<open>src/merge/precedence.rs\<close>.  A
  mapping of \<open>serde_yaml\<close> keeps its insertion order but compares without it, so values are compared
  by \<open>yaml_eq\<close>, never by the equality of the logic.  Numbers are opaque, and a tag is kept without
  its leading exclamation mark, as its comparison does.
\<close>

datatype 'n yaml =
    YNull
  | YBool bool
  | YNumber 'n
  | YString string
  | YSequence "'n yaml list"
  | YMapping "('n yaml \<times> 'n yaml) list"
  | YTagged string "'n yaml"

lemma size_yaml_item [termination_simp]: "x \<in> set xs \<Longrightarrow> size x < Suc (size_list size xs)"
  by (induction xs) auto

lemma size_yaml_entry [termination_simp]:
  assumes "(k, v) \<in> set m"
  shows "size k < Suc (size_list (size_prod size size) m)" "size v < Suc (size_list (size_prod size size) m)"
  using assms by (induction m) auto

lemma size_yaml_zip [termination_simp]: "(x, y) \<in> set (zip xs ys) \<Longrightarrow> size x < Suc (size_list size xs)"
  by (auto dest!: set_zip_leftD intro: size_yaml_item)

section \<open>Equality\<close>

fun yaml_eq :: "'n yaml \<Rightarrow> 'n yaml \<Rightarrow> bool" where
  "yaml_eq (YSequence xs) (YSequence ys) \<longleftrightarrow>
     length xs = length ys \<and> (\<forall>(x, y) \<in> set (zip xs ys). yaml_eq x y)"
| "yaml_eq (YMapping m) (YMapping n) \<longleftrightarrow>
     length m = length n \<and>
     (\<forall>(k, v) \<in> set m.
        (case find (\<lambda>(j, w). yaml_eq k j) n of None \<Rightarrow> False | Some (_, w) \<Rightarrow> yaml_eq v w))"
| "yaml_eq (YTagged t x) (YTagged u y) \<longleftrightarrow> t = u \<and> yaml_eq x y"
| "yaml_eq x y \<longleftrightarrow> x = y"

text \<open>\<open>dedup\<close> at the equality of YAML values.\<close>

fun dedup_yaml_from :: "'n yaml list \<Rightarrow> 'n yaml list \<Rightarrow> 'n yaml list" where
  "dedup_yaml_from kept [] = kept"
| "dedup_yaml_from kept (x # xs) =
     dedup_yaml_from (if list_ex (\<lambda>y. yaml_eq y x) kept then kept else kept @ [x]) xs"

definition dedup_yaml :: "'n yaml list \<Rightarrow> 'n yaml list" where
  "dedup_yaml xs = dedup_yaml_from [] xs"

section \<open>Merging\<close>

fun normalize_yaml :: "'n yaml \<Rightarrow> 'n yaml" where
  "normalize_yaml (YSequence items) = YSequence (dedup_yaml (map normalize_yaml items))"
| "normalize_yaml (YMapping m) =
     YMapping (map (\<lambda>(k, v). (k, normalize_yaml v)) (filter (\<lambda>(k, v). v \<noteq> YNull) m))"
| "normalize_yaml v = v"

text \<open>Lookup and update of a mapping by key; a new key goes to the end.\<close>

definition yaml_get :: "'n yaml \<Rightarrow> ('n yaml \<times> 'n yaml) list \<Rightarrow> 'n yaml option" where
  "yaml_get k m = map_option snd (find (\<lambda>(j, _). yaml_eq j k) m)"

fun yaml_put :: "'n yaml \<Rightarrow> 'n yaml \<Rightarrow> ('n yaml \<times> 'n yaml) list \<Rightarrow> ('n yaml \<times> 'n yaml) list" where
  "yaml_put k v [] = [(k, v)]"
| "yaml_put k v ((j, w) # m) = (if yaml_eq j k then (j, v) # m else (j, w) # yaml_put k v m)"

fun merge_yaml :: "'n yaml \<Rightarrow> 'n yaml \<Rightarrow> 'n yaml"
  and merge_mapping ::
    "('n yaml \<times> 'n yaml) list \<Rightarrow> ('n yaml \<times> 'n yaml) list \<Rightarrow> ('n yaml \<times> 'n yaml) list" where
  "merge_yaml (YMapping d) (YMapping s) = YMapping (merge_mapping d s)"
| "merge_yaml (YSequence d) (YSequence s) = YSequence (dedup_yaml (map normalize_yaml (d @ s)))"
| "merge_yaml d s = normalize_yaml s"
| "merge_mapping d [] = d"
| "merge_mapping d ((k, v) # s) =
     merge_mapping
       (case yaml_get k d of
          Some existing \<Rightarrow> yaml_put k (merge_yaml existing v) d
        | None \<Rightarrow>
            let v' = normalize_yaml v in
            if v' = YNull then d else yaml_put k v' d) s"

text \<open>A fragment per engine, as a sorted map.\<close>

definition merge_fragment :: "string \<times> 'n yaml \<Rightarrow> (string \<times> 'n yaml) list \<Rightarrow> (string \<times> 'n yaml) list" where
  "merge_fragment = (\<lambda>(engine, fragment) merged.
     case map_of merged engine of
       Some existing \<Rightarrow> map_insert engine (merge_yaml existing fragment) merged
     | None \<Rightarrow> map_insert engine (normalize_yaml fragment) merged)"

section \<open>Laws\<close>

lemma yaml_eq_YNull [simp]: "yaml_eq x YNull \<longleftrightarrow> x = YNull" "yaml_eq YNull x \<longleftrightarrow> x = YNull"
  by (cases x; auto)+

lemma normalize_YNull [simp]: "normalize_yaml v = YNull \<longleftrightarrow> v = YNull"
  by (cases v) auto

lemma set_dedup_yaml_from: "set (dedup_yaml_from kept xs) \<subseteq> set kept \<union> set xs"
  by (induction kept xs rule: dedup_yaml_from.induct) (auto split: if_splits)

text \<open>No element of a deduplicated list equals an earlier one.\<close>

definition yaml_distinct :: "'n yaml list \<Rightarrow> bool" where
  "yaml_distinct xs \<longleftrightarrow> (\<forall>j < length xs. \<forall>i < j. \<not> yaml_eq (xs ! i) (xs ! j))"

lemma yaml_distinct_snoc:
  "yaml_distinct (xs @ [x]) \<longleftrightarrow> yaml_distinct xs \<and> (\<forall>y \<in> set xs. \<not> yaml_eq y x)"
  unfolding yaml_distinct_def
  by (simp add: nth_append less_Suc_eq all_conj_distrib all_set_conv_all_nth)

lemma yaml_distinct_dedup: "yaml_distinct (dedup_yaml xs)"
proof -
  have "yaml_distinct kept \<Longrightarrow> yaml_distinct (dedup_yaml_from kept xs)" for kept
    by (induction kept xs rule: dedup_yaml_from.induct)
      (auto simp: yaml_distinct_snoc list_ex_iff)
  then show ?thesis by (simp add: dedup_yaml_def yaml_distinct_def)
qed

text \<open>
  The shape that every merge leaves: no sequence holds an element equal to an earlier one, and no
  value below a mapping or a sequence is a mapping with a null entry.
\<close>

fun normal_yaml :: "'n yaml \<Rightarrow> bool" where
  "normal_yaml (YSequence items) \<longleftrightarrow> yaml_distinct items \<and> (\<forall>x \<in> set items. normal_yaml x)"
| "normal_yaml (YMapping m) \<longleftrightarrow> (\<forall>(k, v) \<in> set m. v \<noteq> YNull \<and> normal_yaml v)"
| "normal_yaml v \<longleftrightarrow> True"

lemma normalize_yaml_normal: "normal_yaml (normalize_yaml v)"
proof (induction v rule: normalize_yaml.induct)
  case (1 items)
  have "set (dedup_yaml (map normalize_yaml items)) \<subseteq> normalize_yaml ` set items"
    using set_dedup_yaml_from[of "[]" "map normalize_yaml items"] by (simp add: dedup_yaml_def)
  then show ?case using 1 by (auto simp: yaml_distinct_dedup)
next
  case (2 m)
  then show ?case by auto
qed auto

end
