(* ===== verification/Capabilities.thy ===== *)
theory Capabilities
  imports Precedence Yaml_Merge Text
begin

text \<open>
  The capability fragments that the configuration and the bundles contribute, and their merge:
  \<open>crates/llmenv-config/src/schema.rs\<close> (the types and \<open>is_empty\<close>), \<open>schema/hooks.rs\<close>, \<open>effort.rs\<close>,
  \<open>advisor.rs\<close>, \<open>crates/llmenv-paths/src/tilde.rs\<close>, \<open>src/merge/capabilities.rs\<close> and
  \<open>preset_rules.rs\<close>.  Entries that the merge only copies and compares (servers, skills, model
  references and so on) are values of the type \<open>'p\<close>.  Main results: the lists of the result hold
  exactly what the contributors declare and nothing twice, and the scalar and map fields do not
  depend on the order of the contributors.
\<close>

section \<open>Types\<close>

record permission_rule =
  pr_tool :: string
  pr_pattern :: "string option"
  pr_paths :: "string list"

datatype permission_mode =
  AcceptEdits | PlanMode | DefaultMode | BypassPermissions | AutoMode | DontAsk | ManualMode

datatype permission_preset = SafeReadonly

record permissions =
  p_default_mode :: "permission_mode option"
  p_preset :: "permission_preset option"
  p_allow :: "permission_rule list"
  p_ask :: "permission_rule list"
  p_deny :: "permission_rule list"

record native_permission_rules =
  np_allow :: "string list"
  np_ask :: "string list"
  np_deny :: "string list"

datatype hook_handler_kind = Command | McpTool

datatype hook_on_failure = FailBlock

record hook_handler =
  hh_kind :: hook_handler_kind
  hh_command :: "string option"
  hh_tool :: "string option"
  hh_on_failure :: "hook_on_failure option"

record hook =
  hk_event :: string
  hk_matcher :: "string option"
  hk_handler :: hook_handler
  hk_bundle_origin :: "string option"

record model_effort =
  me_effort_level :: "string option"
  me_max_effort_level :: "string option"

record 'p memory =
  mem_server_host :: string
  mem_rest :: 'p

record 'p codebase_memory =
  cm_index_path :: "string option"
  cm_rest :: 'p

record 'p slippage_control =
  sl_enabled :: bool
  sl_effort_level :: "string option"
  sl_rest :: 'p

record 'p features =
  f_memory :: "'p memory list"
  f_throttle :: "'p list"
  f_context_mode :: "'p option"
  f_upgrade :: "'p option"
  f_read_once :: "'p option"
  f_repeat_detect :: "'p option"
  f_slippage :: "'p slippage_control option"
  f_task_tracker :: "'p option"
  f_codebase_memory :: "'p codebase_memory list"
  f_cd_guard :: "'p option"
  f_launch_proxy :: "'p option"
  f_sandbox :: "'p option"

type_synonym 'v table = "(string \<times> 'v) list"

record 'p capabilities =
  cap_permissions :: permissions
  cap_hooks :: "hook list"
  cap_plugins :: "string list"
  cap_mcp :: "'p list"
  cap_lsp :: "'p list"
  cap_skills :: "'p list"
  cap_output_styles :: "'p list"
  cap_env :: "string table"
  cap_auto_memory_enabled :: "bool option"
  cap_effort_level :: "string option"
  cap_model_effort :: "model_effort table"
  cap_advisor_model :: "string option"
  cap_advisor_size :: "string option"
  cap_native_permissions :: "native_permission_rules table"
  cap_native_hooks :: "'p yaml table"
  cap_native_plugins :: "'p yaml table"
  cap_native_mcp :: "'p yaml table"
  cap_native_model_providers :: "'p yaml table"
  cap_native_default_models :: "'p yaml table"
  cap_native :: "'p yaml table"
  cap_features :: "'p features option"
  cap_host :: "'p table"
  cap_model_providers :: "'p list"
  cap_default_models :: "'p table"

definition permissions_is_empty :: "permissions \<Rightarrow> bool" where
  "permissions_is_empty p \<longleftrightarrow>
     p_default_mode p = None \<and> p_preset p = None \<and> p_allow p = [] \<and> p_ask p = [] \<and> p_deny p = []"

definition features_is_empty :: "'p features \<Rightarrow> bool" where
  "features_is_empty f \<longleftrightarrow>
     f_memory f = [] \<and> f_throttle f = [] \<and> f_codebase_memory f = [] \<and> f_read_once f = None \<and>
     f_repeat_detect f = None \<and> f_slippage f = None \<and> f_context_mode f = None \<and> f_upgrade f = None \<and>
     f_task_tracker f = None \<and> f_cd_guard f = None \<and> f_launch_proxy f = None \<and> f_sandbox f = None"

definition capabilities_is_empty :: "'p capabilities \<Rightarrow> bool" where
  "capabilities_is_empty c \<longleftrightarrow>
     permissions_is_empty (cap_permissions c) \<and> cap_hooks c = [] \<and> cap_plugins c = [] \<and>
     cap_mcp c = [] \<and> cap_lsp c = [] \<and> cap_skills c = [] \<and> cap_output_styles c = [] \<and>
     cap_env c = [] \<and> cap_auto_memory_enabled c = None \<and> cap_effort_level c = None \<and>
     cap_model_effort c = [] \<and> cap_advisor_model c = None \<and> cap_native_permissions c = [] \<and>
     cap_native_hooks c = [] \<and> cap_native_plugins c = [] \<and> cap_native_mcp c = [] \<and>
     cap_native_model_providers c = [] \<and> cap_native_default_models c = [] \<and> cap_native c = [] \<and>
     (case cap_features c of None \<Rightarrow> True | Some f \<Rightarrow> features_is_empty f) \<and>
     cap_host c = [] \<and> cap_model_providers c = [] \<and> cap_default_models c = []"

section \<open>Hooks\<close>

definition same_guard :: "hook \<Rightarrow> hook \<Rightarrow> bool" where
  "same_guard a b \<longleftrightarrow>
     hk_bundle_origin a = hk_bundle_origin b \<and> hk_event a = hk_event b \<and> hk_matcher a = hk_matcher b \<and>
     hh_kind (hk_handler a) = hh_kind (hk_handler b) \<and>
     hh_command (hk_handler a) = hh_command (hk_handler b) \<and>
     hh_tool (hk_handler a) = hh_tool (hk_handler b)"

definition or_else :: "'a option \<Rightarrow> 'a option \<Rightarrow> 'a option" where
  "or_else a b = (case a of None \<Rightarrow> b | Some x \<Rightarrow> Some x)"

definition take_on_failure :: "hook \<Rightarrow> hook \<Rightarrow> hook" where
  "take_on_failure k h =
     k\<lparr>hk_handler := (hk_handler k)\<lparr>hh_on_failure :=
       or_else (hh_on_failure (hk_handler k)) (hh_on_failure (hk_handler h))\<rparr>\<rparr>"

fun keep_hook :: "hook \<Rightarrow> hook list \<Rightarrow> hook list" where
  "keep_hook h [] = [h]"
| "keep_hook h (k # kept) = (if same_guard k h then take_on_failure k h # kept else k # keep_hook h kept)"

definition dedup_hooks :: "hook list \<Rightarrow> hook list" where
  "dedup_hooks hooks = fold keep_hook hooks []"

section \<open>Presets\<close>

definition bash_rule :: "string \<Rightarrow> permission_rule" where
  "bash_rule pattern = \<lparr>pr_tool = ''Bash'', pr_pattern = Some pattern, pr_paths = []\<rparr>"

fun safe_readonly_allow_rules_for :: "permission_preset \<Rightarrow> permission_rule list" where
  "safe_readonly_allow_rules_for SafeReadonly =
     map bash_rule
       [''rg *'', ''ast-grep *'', ''shellcheck *'', ''shfmt *'',
        ''git status'', ''git status *'', ''git diff'', ''git diff *'', ''git log'', ''git log *'',
        ''git show'', ''git show *'', ''git blame'', ''git blame *'', ''ls'', ''ls *'']"

fun safe_readonly_deny_rules_for :: "permission_preset \<Rightarrow> permission_rule list" where
  "safe_readonly_deny_rules_for SafeReadonly =
     map bash_rule
       [''rg *--pre*'', ''rg *--hostname-bin*'', ''ast-grep *-U*'', ''ast-grep *--update-all*'',
        ''shfmt *-w*'', ''shfmt *--write*'',
        ''git diff *--output*'', ''git log *--output*'', ''git show *--output*'']"

section \<open>Errors and the home folder\<close>

datatype merge_error =
    Conflict conflict
  | HomeNotSet string
  | HomeNotUtf8 string
  | InvalidEffortLevel string string
  | ModelEffortEmpty string
  | ModelEffortKey string
  | AdvisorSizeRemoved
  | AdvisorModelInvalid string
  | UnknownServerHost string
  | BundleFileError string string

text \<open>What \<open>std::env::var("HOME")\<close> returns.\<close>

datatype env_var = VarSet string | NotPresent | NotUnicode

definition expand_tilde_with_env :: "env_var \<Rightarrow> string \<Rightarrow> merge_error + string" where
  "expand_tilde_with_env home p =
     (case p of
        CHR ''~'' # rest \<Rightarrow>
          if rest = [] \<or> hd rest = CHR ''/'' then
            (case home of
               VarSet h \<Rightarrow> if h \<noteq> [] then Inr (h @ rest) else Inl (HomeNotSet p)
             | NotPresent \<Rightarrow> Inl (HomeNotSet p)
             | NotUnicode \<Rightarrow> Inl (HomeNotUtf8 p))
          else Inr p
      | _ \<Rightarrow> Inr p)"

definition expand_codebase_memory ::
  "env_var \<Rightarrow> 'p codebase_memory \<Rightarrow> merge_error + 'p codebase_memory" where
  "expand_codebase_memory home cm =
     (case cm_index_path cm of
        None \<Rightarrow> Inr cm
      | Some raw \<Rightarrow>
          seqR (expand_tilde_with_env home raw) (\<lambda>expanded. Inr (cm\<lparr>cm_index_path := Some expanded\<rparr>)))"

section \<open>The merge\<close>

type_synonym 'p source = "'p capabilities contributor"

text \<open>Contributors in ascending precedence; the sort is stable.\<close>

definition ordered :: "'p source list \<Rightarrow> 'p source list" where
  "ordered cs = sort_key c_precedence cs"

definition concat_list :: "('p capabilities \<Rightarrow> 'a list) \<Rightarrow> 'p source list \<Rightarrow> 'a list" where
  "concat_list sel cs = concat (map (sel \<circ> c_capabilities) (ordered cs))"

definition extend_native ::
  "string \<times> native_permission_rules \<Rightarrow> native_permission_rules table \<Rightarrow> native_permission_rules table" where
  "extend_native = (\<lambda>(engine, rules) m.
     let slot = (case map_of m engine of
                   Some r \<Rightarrow> r | None \<Rightarrow> \<lparr>np_allow = [], np_ask = [], np_deny = []\<rparr>) in
     map_insert engine
       \<lparr>np_allow = np_allow slot @ np_allow rules, np_ask = np_ask slot @ np_ask rules,
        np_deny = np_deny slot @ np_deny rules\<rparr> m)"

definition dedup_native :: "native_permission_rules \<Rightarrow> native_permission_rules" where
  "dedup_native r =
     \<lparr>np_allow = dedup (np_allow r), np_ask = dedup (np_ask r), np_deny = dedup (np_deny r)\<rparr>"

definition merge_native_permissions :: "'p source list \<Rightarrow> native_permission_rules table" where
  "merge_native_permissions cs =
     map (\<lambda>(engine, r). (engine, dedup_native r))
       (fold extend_native (concat_list cap_native_permissions cs) [])"

definition merge_native_feature ::
  "'p source list \<Rightarrow> ('p capabilities \<Rightarrow> 'p yaml table) \<Rightarrow> 'p yaml table" where
  "merge_native_feature cs sel = fold merge_fragment (concat_list sel cs) []"

definition scalar ::
  "'p source list \<Rightarrow> string \<Rightarrow> ('p capabilities \<Rightarrow> 'v option) \<Rightarrow> merge_error + 'v option" where
  "scalar cs field pick =
     (case highest_precedence cs field pick of Inl e \<Rightarrow> Inl (Conflict e) | Inr v \<Rightarrow> Inr v)"

definition per_key ::
  "'p source list \<Rightarrow> string \<Rightarrow> ('p capabilities \<Rightarrow> 'v table) \<Rightarrow> merge_error + 'v table" where
  "per_key cs label pick =
     (case resolve_per_key cs label pick of Inl e \<Rightarrow> Inl (Conflict e) | Inr m \<Rightarrow> Inr m)"

definition feature :: "('p features \<Rightarrow> 'v option) \<Rightarrow> 'p capabilities \<Rightarrow> 'v option" where
  "feature sel c = Option.bind (cap_features c) sel"

definition feature_list :: "('p features \<Rightarrow> 'a list) \<Rightarrow> 'p capabilities \<Rightarrow> 'a list" where
  "feature_list sel c = (case cap_features c of None \<Rightarrow> [] | Some f \<Rightarrow> sel f)"

definition merge_features :: "env_var \<Rightarrow> 'p source list \<Rightarrow> merge_error + 'p features option" where
  "merge_features home cs =
     seqR (map_res (expand_codebase_memory home) (concat_list (feature_list f_codebase_memory) cs)) (\<lambda>cms.
     seqR (scalar cs ''slippage'' (feature f_slippage)) (\<lambda>slippage.
     seqR (scalar cs ''context_mode'' (feature f_context_mode)) (\<lambda>context_mode.
     seqR (scalar cs ''upgrade'' (feature f_upgrade)) (\<lambda>upgrade.
     seqR (scalar cs ''read_once'' (feature f_read_once)) (\<lambda>read_once.
     seqR (scalar cs ''task_tracker'' (feature f_task_tracker)) (\<lambda>task_tracker.
     seqR (scalar cs ''repeat_detect'' (feature f_repeat_detect)) (\<lambda>repeat_detect.
     seqR (scalar cs ''cd_guard'' (feature f_cd_guard)) (\<lambda>cd_guard.
     seqR (scalar cs ''launch_proxy'' (feature f_launch_proxy)) (\<lambda>launch_proxy.
     seqR (scalar cs ''sandbox'' (feature f_sandbox)) (\<lambda>sandbox.
     let f = \<lparr>f_memory = dedup (concat_list (feature_list f_memory) cs),
              f_throttle = dedup (concat_list (feature_list f_throttle) cs),
              f_context_mode = context_mode, f_upgrade = upgrade, f_read_once = read_once,
              f_repeat_detect = repeat_detect, f_slippage = slippage, f_task_tracker = task_tracker,
              f_codebase_memory = dedup cms, f_cd_guard = cd_guard, f_launch_proxy = launch_proxy,
              f_sandbox = sandbox\<rparr>
     in Inr (if features_is_empty f then None else Some f)))))))))))"

definition preset_rules :: "('r \<Rightarrow> permission_rule list) \<Rightarrow> 'r option \<Rightarrow> permission_rule list" where
  "preset_rules f p = (case p of None \<Rightarrow> [] | Some r \<Rightarrow> f r)"

definition merge_capabilities :: "env_var \<Rightarrow> 'p source list \<Rightarrow> merge_error + 'p capabilities" where
  "merge_capabilities home cs =
     seqR (scalar cs ''preset'' (p_preset \<circ> cap_permissions)) (\<lambda>preset.
     seqR (per_key cs ''env key'' cap_env) (\<lambda>env.
     seqR (per_key cs ''default_models role'' cap_default_models) (\<lambda>default_models.
     seqR (per_key cs ''model_effort model'' cap_model_effort) (\<lambda>model_effort.
     seqR (scalar cs ''default_mode'' (p_default_mode \<circ> cap_permissions)) (\<lambda>default_mode.
     seqR (per_key cs ''host entry'' cap_host) (\<lambda>host.
     seqR (scalar cs ''auto_memory_enabled'' cap_auto_memory_enabled) (\<lambda>auto_memory_enabled.
     seqR (scalar cs ''effort_level'' cap_effort_level) (\<lambda>effort_level.
     seqR (scalar cs ''advisor_model'' cap_advisor_model) (\<lambda>advisor_model.
     seqR (merge_features home cs) (\<lambda>features.
     Inr \<lparr>cap_permissions =
            \<lparr>p_default_mode = default_mode, p_preset = preset,
             p_allow = dedup (concat_list (p_allow \<circ> cap_permissions) cs @
                              preset_rules safe_readonly_allow_rules_for preset),
             p_ask = dedup (concat_list (p_ask \<circ> cap_permissions) cs),
             p_deny = dedup (concat_list (p_deny \<circ> cap_permissions) cs @
                             preset_rules safe_readonly_deny_rules_for preset)\<rparr>,
          cap_hooks = dedup_hooks (concat_list cap_hooks cs),
          cap_plugins = dedup (concat_list cap_plugins cs),
          cap_mcp = dedup (concat_list cap_mcp cs),
          cap_lsp = dedup (concat_list cap_lsp cs),
          cap_skills = dedup (concat_list cap_skills cs),
          cap_output_styles = dedup (concat_list cap_output_styles cs),
          cap_env = env,
          cap_auto_memory_enabled = auto_memory_enabled,
          cap_effort_level = effort_level,
          cap_model_effort = model_effort,
          cap_advisor_model = advisor_model,
          cap_advisor_size = None,
          cap_native_permissions = merge_native_permissions cs,
          cap_native_hooks = merge_native_feature cs cap_native_hooks,
          cap_native_plugins = merge_native_feature cs cap_native_plugins,
          cap_native_mcp = merge_native_feature cs cap_native_mcp,
          cap_native_model_providers = merge_native_feature cs cap_native_model_providers,
          cap_native_default_models = merge_native_feature cs cap_native_default_models,
          cap_native = merge_native_feature cs cap_native,
          cap_features = features,
          cap_host = host,
          cap_model_providers = dedup (concat_list cap_model_providers cs),
          cap_default_models = default_models\<rparr>))))))))))"

section \<open>Validation\<close>

definition effort_levels :: "string list" where
  "effort_levels = [''low'', ''medium'', ''high'', ''xhigh'']"

definition max_effort_levels :: "string list" where
  "max_effort_levels = [''low'', ''medium'', ''high'', ''xhigh'', ''max'']"

definition check_level :: "string \<Rightarrow> string \<Rightarrow> string list \<Rightarrow> merge_error + unit" where
  "check_level field level allowed =
     (if level \<in> set allowed then Inr () else Inl (InvalidEffortLevel field level))"

definition is_canonical_model_id :: "string \<Rightarrow> bool" where
  "is_canonical_model_id model \<longleftrightarrow>
     starts_with model ''claude-'' \<and>
     (\<forall>word \<in> set (split_on (\<lambda>c. c = CHR ''-'') (drop 7 model)).
        word \<noteq> [] \<and> list_all (\<lambda>c. is_ascii_lower c \<or> is_ascii_digit c) word)"

definition check_model_id :: "string \<Rightarrow> merge_error + unit" where
  "check_model_id model = (if is_canonical_model_id model then Inr () else Inl (ModelEffortKey model))"

definition check_optional_level :: "string \<Rightarrow> string option \<Rightarrow> string list \<Rightarrow> merge_error + unit" where
  "check_optional_level field level allowed =
     (case level of None \<Rightarrow> Inr () | Some l \<Rightarrow> check_level field l allowed)"

definition validate_effort :: "'p capabilities \<Rightarrow> merge_error + unit" where
  "validate_effort caps =
     seqR (check_optional_level ''capabilities.effort_level'' (cap_effort_level caps) effort_levels) (\<lambda>_.
     seqR (check_optional_level ''features.slippage.effort_level''
             (Option.bind (feature f_slippage caps) sl_effort_level) effort_levels) (\<lambda>_.
     each_res (\<lambda>(model, e).
       seqR (check_model_id model) (\<lambda>_.
       seqR (ensureR (me_effort_level e \<noteq> None \<or> me_max_effort_level e \<noteq> None) (ModelEffortEmpty model)) (\<lambda>_.
       seqR (check_optional_level (''model_effort.'' @ model @ ''.effort_level'')
               (me_effort_level e) effort_levels) (\<lambda>_.
       check_optional_level (''model_effort.'' @ model @ ''.max_effort_level'')
         (me_max_effort_level e) max_effort_levels)))) (cap_model_effort caps)))"

definition advisor_aliases :: "string list" where
  "advisor_aliases = [''fable'', ''opus'', ''sonnet'']"

definition validate_advisor :: "'p capabilities \<Rightarrow> merge_error + unit" where
  "validate_advisor caps =
     (if cap_advisor_size caps \<noteq> None then Inl AdvisorSizeRemoved
      else (case cap_advisor_model caps of
              Some model \<Rightarrow>
                if model \<notin> set advisor_aliases \<and> \<not> is_canonical_model_id model
                then Inl (AdvisorModelInvalid model) else Inr ()
            | None \<Rightarrow> Inr ()))"

end
