(* ===== verification/Capability_Laws.thy ===== *)
theory Capability_Laws
  imports Capabilities
begin

text \<open>
  Laws of the capability merge of \<open>Capabilities\<close>: what the merged hooks are, that every list holds
  what the contributors declare, and that the order of the contributors does not matter.
\<close>

section \<open>Hooks\<close>

definition guard_of :: "hook \<Rightarrow> hook" where
  "guard_of h = h\<lparr>hk_handler := (hk_handler h)\<lparr>hh_on_failure := None\<rparr>\<rparr>"

definition blocks :: "hook \<Rightarrow> bool" where
  "blocks h \<longleftrightarrow> hh_on_failure (hk_handler h) = Some FailBlock"

text \<open>A guard that blocks when one of the hooks with that guard does.\<close>

definition strictest :: "hook list \<Rightarrow> hook \<Rightarrow> hook" where
  "strictest hooks g =
     g\<lparr>hk_handler := (hk_handler g)\<lparr>hh_on_failure :=
       (if \<exists>h \<in> set hooks. guard_of h = g \<and> blocks h then Some FailBlock else None)\<rparr>\<rparr>"

lemma same_guard_iff: "same_guard a b \<longleftrightarrow> guard_of a = guard_of b"
  by (cases a; cases b; cases "hk_handler a"; cases "hk_handler b")
    (auto simp: same_guard_def guard_of_def)

lemma guard_of_idem [simp]: "guard_of (guard_of h) = guard_of h"
  by (simp add: guard_of_def)

lemma guard_of_strictest [simp]: "guard_of (strictest hs g) = guard_of g"
  by (simp add: guard_of_def strictest_def)

lemma blocks_alt: "hh_on_failure (hk_handler h) = (if blocks h then Some FailBlock else None)"
  by (cases "hh_on_failure (hk_handler h)") (auto simp: blocks_def intro: hook_on_failure.exhaust)

lemma blocks_strictest:
  "blocks (strictest hs g) \<longleftrightarrow> (\<exists>h \<in> set hs. guard_of h = g \<and> blocks h)"
  by (simp add: strictest_def blocks_def)

lemma hook_eqI: "guard_of a = guard_of b \<Longrightarrow> blocks a = blocks b \<Longrightarrow> a = b"
  by (cases a; cases b; cases "hk_handler a"; cases "hk_handler b")
    (use blocks_alt[of a] blocks_alt[of b] in \<open>auto simp: guard_of_def\<close>)

lemma take_on_failure_guard [simp]: "guard_of (take_on_failure k h) = guard_of k"
  by (simp add: take_on_failure_def guard_of_def)

lemma take_on_failure_blocks [simp]: "blocks (take_on_failure k h) \<longleftrightarrow> blocks k \<or> blocks h"
  by (simp add: take_on_failure_def or_else_def blocks_def split: option.splits)
    (metis hook_on_failure.exhaust)

lemma strictest_snoc_other: "guard_of h \<noteq> g \<Longrightarrow> strictest (hs @ [h]) g = strictest hs g"
  by (simp add: strictest_def)

lemma keep_hook_map:
  assumes "\<And>g. g \<in> set gs \<Longrightarrow> guard_of g = g" and "distinct gs"
  shows "keep_hook h (map (strictest hs) gs) =
    (if guard_of h \<in> set gs then map (strictest (hs @ [h])) gs
     else map (strictest hs) gs @ [h])"
  using assms
proof (induction gs)
  case (Cons g gs)
  have g: "guard_of g = g" using Cons.prems by simp
  show ?case
  proof (cases "guard_of h = g")
    case True
    have "take_on_failure (strictest hs g) h = strictest (hs @ [h]) g"
      by (rule hook_eqI) (use True in \<open>auto simp: blocks_strictest\<close>)
    moreover have "strictest (hs @ [h]) x = strictest hs x" if "x \<in> set gs" for x
    proof (rule strictest_snoc_other)
      show "guard_of h \<noteq> x" using that Cons.prems(2) True by auto
    qed
    ultimately show ?thesis using True g by (simp add: same_guard_iff)
  next
    case False
    have "strictest (hs @ [h]) g = strictest hs g"
      by (rule strictest_snoc_other[OF False])
    moreover have "keep_hook h (map (strictest hs) gs) =
        (if guard_of h \<in> set gs then map (strictest (hs @ [h])) gs else map (strictest hs) gs @ [h])"
      using Cons.IH Cons.prems by simp
    ultimately show ?thesis using False g by (simp add: same_guard_iff)
  qed
qed simp

lemma dedup_snoc: "dedup (xs @ [x]) = (if x \<in> set xs then dedup xs else dedup xs @ [x])"
  by (simp add: dedup_def dedup_from_append dedup_from_props)

lemma dedup_hooks_alt: "dedup_hooks hs = map (strictest hs) (dedup (map guard_of hs))"
proof (induction hs rule: rev_induct)
  case Nil
  show ?case by (simp add: dedup_hooks_def dedup_def)
next
  case (snoc h hs)
  have "dedup_hooks (hs @ [h]) = keep_hook h (map (strictest hs) (dedup (map guard_of hs)))"
    using snoc by (simp add: dedup_hooks_def)
  also have "\<dots> = (if guard_of h \<in> set (map guard_of hs)
      then map (strictest (hs @ [h])) (dedup (map guard_of hs))
      else map (strictest hs) (dedup (map guard_of hs)) @ [h])"
    by (subst keep_hook_map) auto
  also have "\<dots> = map (strictest (hs @ [h])) (dedup (map guard_of (hs @ [h])))"
  proof (cases "guard_of h \<in> set (map guard_of hs)")
    case False
    have "strictest (hs @ [h]) (guard_of h) = h"
      by (rule hook_eqI) (use False in \<open>force simp: blocks_strictest image_iff\<close>)+
    moreover have "map (strictest (hs @ [h])) (dedup (map guard_of hs)) = map (strictest hs) (dedup (map guard_of hs))"
      using False by (intro map_cong refl strictest_snoc_other) auto
    ultimately show ?thesis using False by (simp add: dedup_snoc)
  qed (simp add: dedup_snoc)
  finally show ?case .
qed

lemma set_dedup_hooks: "set (dedup_hooks hs) = strictest hs ` guard_of ` set hs"
  by (simp add: dedup_hooks_alt)

lemma kept_hooks:
  "distinct (map guard_of (dedup_hooks hs))"
  "h \<in> set hs \<Longrightarrow> \<exists>k \<in> set (dedup_hooks hs).
     guard_of k = guard_of h \<and> (blocks k \<longleftrightarrow> (\<exists>g \<in> set hs. guard_of g = guard_of h \<and> blocks g))"
proof -
  have "map guard_of (dedup_hooks hs) = dedup (map guard_of hs)"
    unfolding dedup_hooks_alt map_map by (rule map_idI) auto
  then show "distinct (map guard_of (dedup_hooks hs))" by simp
  assume "h \<in> set hs"
  then have "strictest hs (guard_of h) \<in> set (dedup_hooks hs)" by (simp add: set_dedup_hooks)
  then show "\<exists>k \<in> set (dedup_hooks hs).
     guard_of k = guard_of h \<and> (blocks k \<longleftrightarrow> (\<exists>g \<in> set hs. guard_of g = guard_of h \<and> blocks g))"
    by (intro bexI[of _ "strictest hs (guard_of h)"]) (simp_all add: blocks_strictest)
qed

lemma strictest_cong: "set hs = set ks \<Longrightarrow> strictest hs = strictest ks"
  by (simp add: fun_eq_iff strictest_def)

lemma dedup_hooks_cong: "set hs = set ks \<Longrightarrow> set (dedup_hooks hs) = set (dedup_hooks ks)"
  unfolding set_dedup_hooks using strictest_cong by metis

section \<open>Lists and fields\<close>

lemma set_concat_list: "set (concat_list sel cs) = (\<Union>c \<in> set cs. set (sel (c_capabilities c)))"
  by (simp add: concat_list_def ordered_def)

lemma concat_list_cong: "set cs = set ds \<Longrightarrow> set (concat_list sel cs) = set (concat_list sel ds)"
  by (simp add: set_concat_list)

lemma scalar_ok: "scalar cs f pick = Inr r \<longleftrightarrow> highest_precedence cs f pick = Inr r"
  by (simp add: scalar_def split: sum.splits)

lemma per_key_ok: "per_key cs f pick = Inr r \<longleftrightarrow> resolve_per_key cs f pick = Inr r"
  by (simp add: per_key_def split: sum.splits)

text \<open>A computation that succeeds when another does, with a related result.\<close>

definition res_rel :: "('a \<Rightarrow> 'b \<Rightarrow> bool) \<Rightarrow> 'e + 'a \<Rightarrow> 'e + 'b \<Rightarrow> bool" where
  "res_rel R m n \<longleftrightarrow> (\<forall>x. m = Inr x \<longrightarrow> (\<exists>y. n = Inr y \<and> R x y))"

lemma res_rel_bind:
  assumes "res_rel R m n" and "\<And>x y. R x y \<Longrightarrow> res_rel S (f x) (g y)"
  shows "res_rel S (seqR m f) (seqR n g)"
  unfolding res_rel_def
proof (intro allI impI)
  fix z assume "seqR m f = Inr z"
  then obtain x where x: "m = Inr x" "f x = Inr z" by (auto simp: seqR_ok)
  then obtain y where y: "n = Inr y" "R x y" using assms(1) by (auto simp: res_rel_def)
  then show "\<exists>y. seqR n g = Inr y \<and> S z y" using assms(2)[OF y(2)] x by (simp add: res_rel_def)
qed

lemma res_rel_Inr: "R x y \<Longrightarrow> res_rel R (Inr x) (Inr y)"
  by (simp add: res_rel_def)

lemma scalar_rel: "set cs = set ds \<Longrightarrow> res_rel (=) (scalar cs f pick) (scalar ds f pick)"
  unfolding res_rel_def scalar_ok using highest_precedence_order by blast

lemma per_key_rel:
  assumes "set cs = set ds" and "\<forall>c \<in> set cs. distinct (map fst (pick (c_capabilities c)))"
  shows "res_rel (=) (per_key cs f pick) (per_key ds f pick)"
  unfolding res_rel_def per_key_ok
proof (intro allI impI)
  fix m assume m: "resolve_per_key cs f pick = Inr m"
  have "sorted_map m" "\<And>k. highest_precedence cs f (\<lambda>c. map_of (pick c) k) = Inr (map_of m k)"
    using m resolve_per_key_ok[OF assms(2)] by blast+
  then have "sorted_map m \<and> (\<forall>k. highest_precedence ds f (\<lambda>c. map_of (pick c) k) = Inr (map_of m k))"
    using highest_precedence_order[OF assms(1)] by blast
  then have "resolve_per_key ds f pick = Inr m"
    using resolve_per_key_ok[OF assms(2)[unfolded assms(1)]] by blast
  then show "\<exists>y. resolve_per_key ds f pick = Inr y \<and> m = y" by blast
qed

lemma map_res_set: "map_res f xs = Inr ys \<Longrightarrow> set ys = {y. \<exists>x \<in> set xs. f x = Inr y}"
  by (induction xs arbitrary: ys) (auto simp: seqR_ok)

lemma map_res_total: "(\<exists>ys. map_res f xs = Inr ys) \<longleftrightarrow> (\<forall>x \<in> set xs. \<exists>y. f x = Inr y)"
  by (induction xs) (auto simp: seqR_ok)

lemma map_res_rel:
  assumes "set xs = set ys"
  shows "res_rel (\<lambda>us vs. set us = set vs) (map_res f xs) (map_res f ys)"
  unfolding res_rel_def
proof (intro allI impI)
  fix us assume us: "map_res f xs = Inr us"
  then obtain vs where vs: "map_res f ys = Inr vs"
    using map_res_total[of f xs] map_res_total[of f ys] assms by auto
  have "set us = set vs" unfolding map_res_set[OF us] map_res_set[OF vs] assms ..
  then show "\<exists>vs. map_res f ys = Inr vs \<and> set us = set vs" using vs by blast
qed

section \<open>The order of the contributors\<close>

text \<open>The same settings: equal scalars and maps, and the same elements in every list.\<close>

definition same_features :: "'p features option \<Rightarrow> 'p features option \<Rightarrow> bool" where
  "same_features a b \<longleftrightarrow> rel_option (\<lambda>f g.
     set (f_memory f) = set (f_memory g) \<and> set (f_throttle f) = set (f_throttle g) \<and>
     set (f_codebase_memory f) = set (f_codebase_memory g) \<and>
     f_context_mode f = f_context_mode g \<and> f_upgrade f = f_upgrade g \<and> f_read_once f = f_read_once g \<and>
     f_repeat_detect f = f_repeat_detect g \<and> f_slippage f = f_slippage g \<and>
     f_task_tracker f = f_task_tracker g \<and> f_cd_guard f = f_cd_guard g \<and>
     f_launch_proxy f = f_launch_proxy g \<and> f_sandbox f = f_sandbox g) a b"

definition same_settings :: "'p capabilities \<Rightarrow> 'p capabilities \<Rightarrow> bool" where
  "same_settings a b \<longleftrightarrow>
     p_default_mode (cap_permissions a) = p_default_mode (cap_permissions b) \<and>
     p_preset (cap_permissions a) = p_preset (cap_permissions b) \<and>
     set (p_allow (cap_permissions a)) = set (p_allow (cap_permissions b)) \<and>
     set (p_ask (cap_permissions a)) = set (p_ask (cap_permissions b)) \<and>
     set (p_deny (cap_permissions a)) = set (p_deny (cap_permissions b)) \<and>
     set (cap_hooks a) = set (cap_hooks b) \<and> set (cap_plugins a) = set (cap_plugins b) \<and>
     set (cap_mcp a) = set (cap_mcp b) \<and> set (cap_lsp a) = set (cap_lsp b) \<and>
     set (cap_skills a) = set (cap_skills b) \<and> set (cap_output_styles a) = set (cap_output_styles b) \<and>
     cap_env a = cap_env b \<and> cap_auto_memory_enabled a = cap_auto_memory_enabled b \<and>
     cap_effort_level a = cap_effort_level b \<and> cap_model_effort a = cap_model_effort b \<and>
     cap_advisor_model a = cap_advisor_model b \<and> cap_advisor_size a = cap_advisor_size b \<and>
     same_features (cap_features a) (cap_features b) \<and> cap_host a = cap_host b \<and>
     set (cap_model_providers a) = set (cap_model_providers b) \<and>
     cap_default_models a = cap_default_models b"

text \<open>The map fields of a contributor have unique keys, as a \<open>BTreeMap\<close> has.\<close>

definition wf_source :: "'p source \<Rightarrow> bool" where
  "wf_source c \<longleftrightarrow>
     distinct (map fst (cap_env (c_capabilities c))) \<and>
     distinct (map fst (cap_default_models (c_capabilities c))) \<and>
     distinct (map fst (cap_model_effort (c_capabilities c))) \<and>
     distinct (map fst (cap_host (c_capabilities c)))"

lemma dedup_empty: "dedup xs = [] \<longleftrightarrow> set xs = {}"
  using set_dedup[of xs] by (metis set_empty)

lemma merge_features_rel:
  assumes "set cs = set ds"
  shows "res_rel same_features (merge_features home cs) (merge_features home ds)"
proof -
  note lists = concat_list_cong[OF assms]
  show ?thesis
    unfolding merge_features_def
    by (rule res_rel_bind, rule map_res_rel, rule lists,
        (rule res_rel_bind, rule scalar_rel, rule assms)+)
      (simp add: Let_def res_rel_def same_features_def features_is_empty_def dedup_empty
        lists[of "feature_list f_memory"] lists[of "feature_list f_throttle"])
qed

lemma merge_capabilities_rel:
  assumes "set cs = set ds" and "\<forall>c \<in> set cs. wf_source c"
  shows "res_rel same_settings (merge_capabilities home cs) (merge_capabilities home ds)"
proof -
  note lists = concat_list_cong[OF assms(1)]
  have keys: "\<forall>c \<in> set cs. distinct (map fst (cap_env (c_capabilities c)))"
    "\<forall>c \<in> set cs. distinct (map fst (cap_default_models (c_capabilities c)))"
    "\<forall>c \<in> set cs. distinct (map fst (cap_model_effort (c_capabilities c)))"
    "\<forall>c \<in> set cs. distinct (map fst (cap_host (c_capabilities c)))"
    using assms(2) by (auto simp: wf_source_def)
  note one = scalar_rel[OF assms(1)] and map = keys[THEN per_key_rel[OF assms(1)]]
  have hooks: "set (dedup_hooks (concat_list cap_hooks cs)) = set (dedup_hooks (concat_list cap_hooks ds))"
    by (rule dedup_hooks_cong[OF lists])
  show ?thesis
    unfolding merge_capabilities_def
    by ((rule res_rel_bind, rule one map merge_features_rel[OF assms(1)])+)
      (simp add: res_rel_def same_settings_def hooks lists[of cap_plugins] lists[of cap_mcp]
        lists[of cap_lsp] lists[of cap_skills] lists[of cap_output_styles] lists[of cap_model_providers]
        lists[of "p_allow \<circ> cap_permissions"] lists[of "p_ask \<circ> cap_permissions"]
        lists[of "p_deny \<circ> cap_permissions"])
qed

end
