(* ===== verification/Manifest.thy ===== *)
theory Manifest
  imports Capability_Laws
begin

text \<open>
  The merge of the selected bundles into one manifest: \<open>src/merge/mod.rs\<close>, \<open>agents_md.rs\<close> and
  \<open>rules.rs\<close>.  A bundle is the result of reading its folder: the text of \<open>AGENTS.md\<close>, the trees of
  its subfolders, and what \<open>read_bundle_yaml\<close> returns for its \<open>bundle.yaml\<close>.  Main results: a file of
  the manifest comes from the last bundle that has it, frontmatter is split without loss, and the
  configuration outranks every bundle.
\<close>

section \<open>Folders\<close>

text \<open>
  What a read of a text file yields, and a folder entry: a regular file, a symbolic link, another
  special file, a folder with its entries in directory order, or a folder whose read fails.
\<close>

datatype text_read = NoFile | ReadError | TextFile string

datatype fnode =
    FFile text_read
  | FLink
  | FOther
  | FDir "(string \<times> fnode) list"
  | FUnreadable

type_synonym path = "string list"

record 'p bundle_folder =
  bf_agents_md :: text_read
  bf_skills :: "fnode option"
  bf_plugins :: "fnode option"
  bf_hooks :: "fnode option"
  bf_rules :: "fnode option"
  bf_yaml :: "merge_error + 'p capabilities option"

record bundle_ref =
  br_name :: string
  br_path :: string
  br_precedence :: nat

text \<open>Relative path to the bundle folder and the path inside it.\<close>

type_synonym files = "(path \<times> string \<times> path) list"

fun walk_entries :: "string \<Rightarrow> path \<Rightarrow> (string \<times> fnode) list \<Rightarrow> files \<Rightarrow> merge_error + files"
  and walk_node :: "string \<Rightarrow> path \<Rightarrow> fnode \<Rightarrow> files \<Rightarrow> merge_error + files" where
  "walk_entries root dir [] out = Inr out"
| "walk_entries root dir ((name, n) # es) out =
     seqR (walk_node root (dir @ [name]) n out) (walk_entries root dir es)"
| "walk_node root p (FFile _) out = Inr (map_insert p (root, p) out)"
| "walk_node root p FLink out = Inr out"
| "walk_node root p FOther out = Inr out"
| "walk_node root p (FDir es) out = walk_entries root p es out"
| "walk_node root p FUnreadable out = Inl (BundleFileError root (join_str ''/'' p))"

text \<open>The walk of a subfolder of a bundle: a missing folder is empty, another kind of node fails.\<close>

definition walk :: "string \<Rightarrow> string \<Rightarrow> fnode option \<Rightarrow> files \<Rightarrow> merge_error + files" where
  "walk root sub d out =
     (case d of
        None \<Rightarrow> Inr out
      | Some (FDir es) \<Rightarrow> walk_entries root [sub] es out
      | Some _ \<Rightarrow> Inl (BundleFileError root sub))"

section \<open>Rules\<close>

record rule_file =
  rf_bundle :: string
  rf_rel :: path
  rf_frontmatter :: "string option"
  rf_body :: string
  rf_raw :: string

definition nl :: char where "nl = CHR 0x0A"

text \<open>\<open>str::find\<close>: the offset of the first occurrence.\<close>

fun find_sub :: "string \<Rightarrow> string \<Rightarrow> nat option" where
  "find_sub pat [] = (if pat = [] then Some 0 else None)"
| "find_sub pat (c # cs) =
     (if starts_with (c # cs) pat then Some 0 else map_option Suc (find_sub pat cs))"

definition strip_prefix :: "string \<Rightarrow> string \<Rightarrow> string option" where
  "strip_prefix s p = (if starts_with s p then Some (drop (length p) s) else None)"

definition strip_suffix :: "string \<Rightarrow> string \<Rightarrow> string option" where
  "strip_suffix s p =
     (if length p \<le> length s \<and> drop (length s - length p) s = p
      then Some (take (length s - length p) s) else None)"

definition opener :: string where "opener = ''---'' @ [nl]"

definition closer :: string where "closer = nl # ''---'' @ [nl]"

definition split_frontmatter :: "string \<Rightarrow> string option \<times> string" where
  "split_frontmatter raw =
     (case strip_prefix raw opener of
        None \<Rightarrow> (None, raw)
      | Some rest \<Rightarrow>
          (case strip_prefix rest opener of
             Some body \<Rightarrow> (Some [], body)
           | None \<Rightarrow>
               if rest = ''---'' then (Some [], [])
               else (case find_sub closer rest of
                       Some i \<Rightarrow> (Some (take i rest), drop (i + 5) rest)
                     | None \<Rightarrow>
                         (case strip_suffix rest (nl # ''---'') of
                            Some stripped \<Rightarrow> (Some stripped, [])
                          | None \<Rightarrow> (None, raw)))))"

text \<open>\<open>Path::extension\<close> is \<open>md\<close>: a name that is only \<open>.md\<close> has no extension.\<close>

definition has_md_extension :: "string \<Rightarrow> bool" where
  "has_md_extension name \<longleftrightarrow> 3 < length name \<and> drop (length name - 3) name = ''.md''"

definition rule_of :: "string \<Rightarrow> path \<Rightarrow> string \<Rightarrow> rule_file" where
  "rule_of bundle rel raw =
     (case split_frontmatter raw of (fm, body) \<Rightarrow>
       \<lparr>rf_bundle = bundle, rf_rel = rel, rf_frontmatter = fm, rf_body = body, rf_raw = raw\<rparr>)"

fun walk_rules :: "string \<Rightarrow> path \<Rightarrow> (string \<times> fnode) list \<Rightarrow> merge_error + rule_file list"
  and walk_rule :: "string \<Rightarrow> path \<Rightarrow> string \<Rightarrow> fnode \<Rightarrow> merge_error + rule_file list" where
  "walk_rules bundle dir [] = Inr []"
| "walk_rules bundle dir ((name, n) # es) =
     seqR (walk_rule bundle dir name n) (\<lambda>xs.
     seqR (walk_rules bundle dir es) (\<lambda>ys. Inr (xs @ ys)))"
| "walk_rule bundle dir name FLink = Inr []"
| "walk_rule bundle dir name (FDir es) = walk_rules bundle (dir @ [name]) es"
| "walk_rule bundle dir name FUnreadable = Inl (BundleFileError bundle name)"
| "walk_rule bundle dir name FOther = Inr []"
| "walk_rule bundle dir name (FFile content) =
     (if \<not> has_md_extension name then Inr []
      else (case content of
              ReadError \<Rightarrow> Inl (BundleFileError bundle name)
            | NoFile \<Rightarrow> Inr [rule_of bundle (dir @ [name]) []]
            | TextFile raw \<Rightarrow> Inr [rule_of bundle (dir @ [name]) raw]))"

definition collect_from_bundle :: "string \<Rightarrow> fnode option \<Rightarrow> merge_error + rule_file list" where
  "collect_from_bundle bundle d =
     (case d of
        None \<Rightarrow> Inr []
      | Some (FDir es) \<Rightarrow> seqR (walk_rules bundle [''rules''] es) (\<lambda>out. Inr (sort_key rf_rel out))
      | Some _ \<Rightarrow> Inl (BundleFileError bundle ''rules''))"

section \<open>Instruction text\<close>

definition end_line :: "string \<Rightarrow> string" where
  "end_line body = (if body \<noteq> [] \<and> last body = nl then body else body @ [nl])"

definition agents_concat :: "(string \<times> string) list \<Rightarrow> string" where
  "agents_concat parts =
     concat (map (\<lambda>(name, body).
       [nl] @ ''<!-- # from bundle: '' @ name @ '' -->'' @ [nl] @ end_line body) parts)"

definition append_rules :: "string \<Rightarrow> rule_file list \<Rightarrow> string" where
  "append_rules base rules =
     base @ concat (map (\<lambda>r.
       [nl] @ ''<!-- # from bundle: '' @ rf_bundle r @ '' '' @ join_str ''/'' (rf_rel r) @ '' -->'' @ [nl] @
       end_line (rf_body r)) rules)"

section \<open>The merge\<close>

record 'p manifest =
  mf_agents_md :: string
  mf_files :: files
  mf_rules :: "rule_file list"
  mf_capabilities :: "'p capabilities"
  mf_native :: "'p yaml table"

record 'p merge_state =
  ms_agents :: "(string \<times> string) list"
  ms_files :: files
  ms_rules :: "rule_file list"
  ms_contributors :: "'p source list"

definition top_level_precedence :: nat where "top_level_precedence = 255"

definition merge_bundle ::
  "bundle_ref \<times> 'p bundle_folder \<Rightarrow> 'p merge_state \<Rightarrow> merge_error + 'p merge_state" where
  "merge_bundle = (\<lambda>(b, folder) st.
     seqR (case bf_agents_md folder of
             ReadError \<Rightarrow> Inl (BundleFileError (br_name b) ''AGENTS.md'')
           | NoFile \<Rightarrow> Inr (ms_agents st)
           | TextFile content \<Rightarrow> Inr (ms_agents st @ [(br_name b, content)])) (\<lambda>agents.
     seqR (walk (br_path b) ''skills'' (bf_skills folder) (ms_files st)) (\<lambda>files.
     seqR (walk (br_path b) ''plugins'' (bf_plugins folder) files) (\<lambda>files.
     seqR (walk (br_path b) ''hooks'' (bf_hooks folder) files) (\<lambda>files.
     seqR (collect_from_bundle (br_name b) (bf_rules folder)) (\<lambda>rules.
     seqR (bf_yaml folder) (\<lambda>caps.
     Inr \<lparr>ms_agents = agents, ms_files = files, ms_rules = ms_rules st @ rules,
          ms_contributors =
            (case caps of
               None \<Rightarrow> ms_contributors st
             | Some c \<Rightarrow> ms_contributors st @
                 [\<lparr>c_name = ''bundle '' @ [CHR 0x27] @ br_name b @ [CHR 0x27], c_precedence = br_precedence b, c_capabilities = c\<rparr>])\<rparr>)))))))"

fun merge_bundles ::
  "(bundle_ref \<times> 'p bundle_folder) list \<Rightarrow> 'p merge_state \<Rightarrow> merge_error + 'p merge_state" where
  "merge_bundles [] st = Inr st"
| "merge_bundles (b # bs) st = seqR (merge_bundle b st) (merge_bundles bs)"

definition top_contributor :: "'p capabilities \<Rightarrow> 'p source list" where
  "top_contributor top_level =
     (if capabilities_is_empty top_level then []
      else [\<lparr>c_name = ''config.yaml'', c_precedence = top_level_precedence, c_capabilities = top_level\<rparr>])"

definition check_server_hosts :: "'p capabilities \<Rightarrow> merge_error + unit" where
  "check_server_hosts caps =
     each_res (\<lambda>mem. ensureR (map_of (cap_host caps) (mem_server_host mem) \<noteq> None)
                 (UnknownServerHost (mem_server_host mem)))
       (feature_list f_memory caps)"

definition propagate_effort :: "'p capabilities \<Rightarrow> 'p capabilities" where
  "propagate_effort caps =
     (case (cap_effort_level caps, feature f_slippage caps) of
        (None, Some s) \<Rightarrow> if sl_enabled s then caps\<lparr>cap_effort_level := sl_effort_level s\<rparr> else caps
      | _ \<Rightarrow> caps)"

definition merge ::
  "env_var \<Rightarrow> 'p capabilities \<Rightarrow> 'p yaml table \<Rightarrow> (bundle_ref \<times> 'p bundle_folder) list \<Rightarrow>
   merge_error + 'p manifest" where
  "merge home top_level native bundles =
     seqR (merge_bundles bundles
             \<lparr>ms_agents = [], ms_files = [], ms_rules = [], ms_contributors = top_contributor top_level\<rparr>) (\<lambda>st.
     seqR (merge_capabilities home (ms_contributors st)) (\<lambda>caps.
     seqR (check_server_hosts caps) (\<lambda>_.
     let caps = propagate_effort caps in
     seqR (validate_effort caps) (\<lambda>_.
     seqR (validate_advisor caps) (\<lambda>_.
     Inr \<lparr>mf_agents_md = agents_concat (ms_agents st), mf_files = ms_files st, mf_rules = ms_rules st,
          mf_capabilities = caps,
          mf_native = fold merge_fragment native (cap_native caps)\<rparr>)))))"

section \<open>Files\<close>

text \<open>The regular files below a node that no link leads to.\<close>

fun entry_paths :: "path \<Rightarrow> (string \<times> fnode) list \<Rightarrow> path list"
  and node_paths :: "path \<Rightarrow> fnode \<Rightarrow> path list" where
  "entry_paths dir [] = []"
| "entry_paths dir ((name, n) # es) = node_paths (dir @ [name]) n @ entry_paths dir es"
| "node_paths p (FFile _) = [p]"
| "node_paths p (FDir es) = entry_paths p es"
| "node_paths p _ = []"

definition add_files :: "string \<Rightarrow> path list \<Rightarrow> files \<Rightarrow> files" where
  "add_files root ps out = fold (\<lambda>p. map_insert p (root, p)) ps out"

lemma add_files_Nil [simp]: "add_files root [] out = out"
  by (simp add: add_files_def)

lemma add_files_append: "add_files root (ps @ qs) out = add_files root qs (add_files root ps out)"
  by (simp add: add_files_def)

lemma add_files_get:
  "map_of (add_files root ps out) p = (if p \<in> set ps then Some (root, p) else map_of out p)"
  unfolding add_files_def by (induction ps arbitrary: out) (auto simp: map_of_insert)

lemma walk_paths:
  "walk_entries root dir es out = Inr out' \<Longrightarrow> out' = add_files root (entry_paths dir es) out"
  "walk_node root p n out = Inr out' \<Longrightarrow> out' = add_files root (node_paths p n) out"
proof (induction root dir es out and root p n out arbitrary: out' and out'
    rule: walk_entries_walk_node.induct)
  case (2 root dir name n es out)
  then show ?case by (auto simp: seqR_ok add_files_append)
qed (auto simp: add_files_def)

definition sub_paths :: "string \<Rightarrow> fnode option \<Rightarrow> path list" where
  "sub_paths sub d = (case d of Some (FDir es) \<Rightarrow> entry_paths [sub] es | _ \<Rightarrow> [])"

definition bundle_paths :: "'p bundle_folder \<Rightarrow> path list" where
  "bundle_paths f =
     sub_paths ''skills'' (bf_skills f) @ sub_paths ''plugins'' (bf_plugins f) @ sub_paths ''hooks'' (bf_hooks f)"

lemma walk_sub: "walk root sub d out = Inr out' \<Longrightarrow> out' = add_files root (sub_paths sub d) out"
  by (auto simp: walk_def sub_paths_def dest: walk_paths(1) split: option.splits fnode.splits)

lemma merge_bundle_files:
  assumes "merge_bundle (b, f) st = Inr st'"
  shows "ms_files st' = add_files (br_path b) (bundle_paths f) (ms_files st)"
  using assms by (auto simp: merge_bundle_def seqR_ok bundle_paths_def add_files_append dest!: walk_sub)

lemma find_append: "find P (xs @ ys) = (case find P xs of None \<Rightarrow> find P ys | Some x \<Rightarrow> Some x)"
  by (induction xs) auto

lemma merge_bundles_files:
  assumes "merge_bundles bs st = Inr st'"
  shows "map_of (ms_files st') p =
    (case find (\<lambda>(b, f). p \<in> set (bundle_paths f)) (rev bs) of
       Some (b, f) \<Rightarrow> Some (br_path b, p) | None \<Rightarrow> map_of (ms_files st) p)"
  using assms
proof (induction bs arbitrary: st)
  case (Cons x bs)
  obtain b f where x: "x = (b, f)" by (cases x)
  obtain st1 where st1: "merge_bundle (b, f) st = Inr st1" "merge_bundles bs st1 = Inr st'"
    using Cons.prems x by (auto simp: seqR_ok)
  have "map_of (ms_files st1) p = (if p \<in> set (bundle_paths f) then Some (br_path b, p) else map_of (ms_files st) p)"
    using merge_bundle_files[OF st1(1)] by (simp add: add_files_get)
  then show ?case
    using Cons.IH[OF st1(2)] x by (auto simp: find_append split: option.splits)
qed simp

section \<open>Frontmatter\<close>

lemma find_sub_Some:
  "find_sub pat s = Some i \<Longrightarrow> i + length pat \<le> length s \<and> take (length pat) (drop i s) = pat"
proof (induction pat s arbitrary: i rule: find_sub.induct)
  case (2 pat c cs)
  show ?case
  proof (cases "starts_with (c # cs) pat")
    case True
    then have "length pat \<le> length (c # cs)"
      by (metis starts_with_def length_take min.cobounded1)
    then show ?thesis using True 2 by (auto simp: starts_with_def)
  next
    case False
    then show ?thesis using 2 by auto
  qed
qed (auto split: if_splits)

lemma find_sub_split:
  assumes "find_sub pat s = Some i"
  shows "s = take i s @ pat @ drop (i + length pat) s"
proof -
  have "drop i s = pat @ drop (length pat) (drop i s)"
    using find_sub_Some[OF assms] by (metis append_take_drop_id)
  then show ?thesis by (metis append_take_drop_id drop_drop add.commute)
qed

lemma starts_with_append [simp]: "starts_with (p @ s) p"
  by (simp add: starts_with_def)

lemma strip_prefix_Some: "strip_prefix s p = Some r \<longleftrightarrow> s = p @ r"
  by (auto simp: strip_prefix_def starts_with_def) (metis append_take_drop_id)

lemma strip_suffix_Some: "strip_suffix s p = Some r \<longleftrightarrow> s = r @ p"
  by (auto simp: strip_suffix_def) (metis append_take_drop_id)

lemma length_closer [simp]: "length closer = 5"
  by (simp add: closer_def)

text \<open>The parts hold all the text of the file, in one of the four shapes.\<close>

lemma split_frontmatter_sound:
  assumes "split_frontmatter raw = (fm, body)"
  shows "case fm of
     None \<Rightarrow> body = raw
   | Some f \<Rightarrow>
       raw = opener @ f @ closer @ body \<or> f = [] \<and> raw = opener @ opener @ body \<or>
       body = [] \<and> raw = opener @ f @ nl # ''---'' \<or> f = [] \<and> body = [] \<and> raw = opener @ ''---''"
proof (cases "strip_prefix raw opener")
  case None
  then show ?thesis using assms by (simp add: split_frontmatter_def)
next
  case (Some rest)
  note raw = Some[unfolded strip_prefix_Some]
  show ?thesis
  proof (cases "find_sub closer rest")
    case None
    then show ?thesis
      using assms Some raw
      by (auto simp: split_frontmatter_def strip_prefix_Some strip_suffix_Some
          split: option.splits if_splits)
  next
    case found: (Some i)
    have "rest = take i rest @ closer @ drop (i + 5) rest"
      using find_sub_split[OF found] by simp
    then show ?thesis
      using assms Some raw found
      by (auto simp: split_frontmatter_def strip_prefix_Some split: option.splits if_splits)
  qed
qed

text \<open>A closer that starts in the frontmatter ends in it or on the line break after it.\<close>

lemma no_early_closer:
  assumes "fm \<noteq> []" and "\<not> starts_with (fm @ [nl]) closer"
  shows "\<not> starts_with (fm @ closer @ body) closer"
proof (cases "4 \<le> length fm")
  case True
  then have "take 5 (fm @ closer @ body) = take 5 (fm @ [nl])"
    by (simp add: closer_def take_Cons')
  then show ?thesis using assms(2) by (simp add: starts_with_def)
next
  case False
  moreover have "length fm \<noteq> 0" using assms(1) by simp
  ultimately have "length fm = 1 \<or> length fm = 2 \<or> length fm = 3" by arith
  then show ?thesis
    by (auto simp: starts_with_def closer_def nl_def length_Suc_conv numeral_eq_Suc)
qed

lemma find_sub_first:
  assumes "find_sub closer (fm @ [nl]) = None"
  shows "find_sub closer (fm @ closer @ body) = Some (length fm)"
  using assms
proof (induction fm)
  case Nil
  show ?case by (simp add: closer_def starts_with_def)
next
  case (Cons c fm)
  have "\<not> starts_with ((c # fm) @ [nl]) closer" "find_sub closer (fm @ [nl]) = None"
    using Cons.prems by (auto split: if_splits)
  then show ?case
    using no_early_closer[of "c # fm" body] Cons.IH by simp
qed

text \<open>A block whose lines are not fences is read back as it was written.\<close>

lemma split_frontmatter_written:
  assumes "find_sub closer (nl # fm @ [nl]) = None"
  shows "split_frontmatter (opener @ fm @ closer @ body) = (Some fm, body)"
proof -
  have first: "find_sub closer (fm @ closer @ body) = Some (length fm)"
    and start: "\<not> starts_with (nl # fm @ [nl]) closer"
    using assms find_sub_first[of fm body] by (auto split: if_splits)
  have "\<not> starts_with (fm @ closer @ body) opener"
  proof
    assume "starts_with (fm @ closer @ body) opener"
    then have "take 4 (fm @ [nl]) = opener"
      by (cases "3 \<le> length fm")
        (auto simp: starts_with_def opener_def closer_def nl_def take_Cons' not_le
          length_Suc_conv numeral_eq_Suc less_Suc_eq)
    then show False
      using start by (simp add: starts_with_def closer_def opener_def numeral_eq_Suc)
  qed
  then have "strip_prefix (fm @ closer @ body) opener = None"
    by (simp add: strip_prefix_def)
  moreover have "fm @ closer @ body \<noteq> ''---''"
  proof
    assume "fm @ closer @ body = ''---''"
    then have "length (fm @ closer @ body) = 3" by simp
    then show False by simp
  qed
  ultimately show ?thesis
    using first by (simp add: split_frontmatter_def strip_prefix_def[of "opener @ _"])
qed

section \<open>Precedence of the configuration\<close>

lemma merge_bundle_contributors:
  assumes "merge_bundle (b, f) st = Inr st'"
  shows "\<exists>new. ms_contributors st' = ms_contributors st @ new \<and> (\<forall>c \<in> set new. c_precedence c = br_precedence b)"
  using assms by (auto simp: merge_bundle_def seqR_ok split: option.splits)

lemma merge_bundles_contributors:
  assumes "merge_bundles bs st = Inr st'"
  shows "\<exists>new. ms_contributors st' = ms_contributors st @ new \<and>
    (\<forall>c \<in> set new. \<exists>b \<in> fst ` set bs. c_precedence c = br_precedence b)"
  using assms
proof (induction bs arbitrary: st)
  case (Cons x bs)
  obtain b f where x: "x = (b, f)" by (cases x)
  obtain st1 where st1: "merge_bundle (b, f) st = Inr st1" "merge_bundles bs st1 = Inr st'"
    using Cons.prems x by (auto simp: seqR_ok)
  obtain n1 where "ms_contributors st1 = ms_contributors st @ n1" "\<forall>c \<in> set n1. c_precedence c = br_precedence b"
    using merge_bundle_contributors[OF st1(1)] by blast
  moreover obtain n2 where "ms_contributors st' = ms_contributors st1 @ n2"
    "\<forall>c \<in> set n2. \<exists>b \<in> fst ` set bs. c_precedence c = br_precedence b"
    using Cons.IH[OF st1(2)] by blast
  ultimately show ?case using x by (intro exI[of _ "n1 @ n2"]) auto
qed simp

text \<open>A field that the highest contributor sets has its value.\<close>

lemma top_scalar_wins:
  assumes "highest_precedence cs f pick = Inr r"
    and "c \<in> set cs" "pick (c_capabilities c) = Some v"
    and "\<forall>d \<in> set cs. c_precedence d \<le> c_precedence c"
  shows "r = Some v"
proof -
  have ok: "no_conflict pick (set cs)"
    "case r of None \<Rightarrow> \<forall>c \<in> set cs. pick (c_capabilities c) = None | Some v \<Rightarrow> wins pick (set cs) v"
    using assms(1) by (simp_all add: highest_precedence_ok)
  have "wins pick (set cs) v" using assms(2-4) by (auto simp: wins_def)
  then show ?thesis
    using ok assms(2,3) wins_unique[OF ok(1)] by (cases r) auto
qed

end
