(* ===== verification/Scope.thy ===== *)
theory Scope
  imports Sessions Manifest
begin

text \<open>
  Scope matching: \<open>crates/llmenv-scope/src\<close> (\<open>tags.rs\<close>, \<open>matcher.rs\<close>, \<open>network.rs\<close>,
  \<open>content_walk.rs\<close>, \<open>marker_file.rs\<close> and \<open>lib.rs\<close>).  The code outside the repository is a parameter:
  the compiled globs of \<open>globset\<close>, the walk of \<open>walkdir\<close>, the address blocks of \<open>ipnet\<close>, and the
  project marker that a folder holds.  Notices to the agent are left out.  Main results: the active
  tags are bounded and every one of them makes a keyword, one walk for all content scopes finds what
  a walk per scope finds, and a project tag reaches the host level only when another scope names it.
\<close>

section \<open>Tags\<close>

definition is_valid_tag_charset :: "string \<Rightarrow> bool" where
  "is_valid_tag_charset tag \<longleftrightarrow>
     tag \<noteq> [] \<and> list_all (\<lambda>c. is_ascii_alphanumeric c \<or> c = CHR ''-'' \<or> c = CHR ''_'') tag"

definition max_tag_len :: nat where "max_tag_len = 64"

definition max_tags_per_source :: nat where "max_tags_per_source = 64"

definition sanitize_tags :: "string list \<Rightarrow> string list" where
  "sanitize_tags raw =
     take max_tags_per_source
       (filter (\<lambda>tag. is_valid_tag_charset tag \<and> \<not> max_tag_len < length tag) raw)"

text \<open>A \<open>BTreeSet\<close> of tags is the sorted list of its elements.\<close>

definition tag_set :: "string list \<Rightarrow> string list" where
  "tag_set xs = sort (remdups xs)"

definition cap_aggregate_tags :: "string list \<Rightarrow> string list" where
  "cap_aggregate_tags tags =
     (if length tags \<le> max_tags_per_source then tags else take max_tags_per_source tags)"

datatype keyword_error = InvalidTag string | InvalidBundle string

definition tag_keyword :: "string \<Rightarrow> keyword_error + string" where
  "tag_keyword tag =
     (if \<not> is_valid_tag_charset tag then Inl (InvalidTag tag) else Inr (''llmenv-tag:'' @ tag))"

definition bundle_keyword :: "string \<Rightarrow> keyword_error + string" where
  "bundle_keyword bundle =
     (if \<not> is_valid_tag_charset bundle then Inl (InvalidBundle bundle)
      else Inr (''llmenv-bundle:'' @ bundle))"

definition parse_extra_tags :: "string \<Rightarrow> string list" where
  "parse_extra_tags raw =
     sanitize_tags (filter (\<lambda>t. t \<noteq> []) (map trim (split_on (\<lambda>c. c = CHR '','') raw)))"

datatype extra_tags_error = ExtraTagsNotUtf8

definition extra_tags_from_var :: "env_var \<Rightarrow> extra_tags_error + string list" where
  "extra_tags_from_var v =
     (case v of
        VarSet raw \<Rightarrow> Inr (parse_extra_tags raw)
      | NotPresent \<Rightarrow> Inr []
      | NotUnicode \<Rightarrow> Inl ExtraTagsNotUtf8)"

section \<open>Environment and scopes\<close>

record 'a host_env =
  en_hostname :: string
  en_user :: string
  en_cwd :: path
  en_gateway_mac :: "string option"
  en_local_addrs :: "'a list"
  en_ssid :: "string option"
  en_home :: "path option"
  en_os :: string
  en_extra_tags :: "string list"

record network_scope =
  ns_id :: string
  ns_gateway_mac :: "string option"
  ns_ssid :: "string option"
  ns_cidr :: "string option"
  ns_tags :: "string list"

record host_scope =
  hs_id :: string
  hs_hostname :: "string option"
  hs_tags :: "string list"

record user_scope =
  us_id :: string
  us_user :: "string option"
  us_tags :: "string list"

record content_scope =
  cs_id :: string
  cs_glob :: string
  cs_depth :: "nat option"
  cs_tags :: "string list"

record scopes_config =
  sc_network :: "network_scope list"
  sc_host :: "host_scope list"
  sc_user :: "user_scope list"
  sc_content :: "content_scope list"

record active_scope =
  as_id :: string
  as_kind :: string
  as_tags :: "string list"
  as_project_root :: "path option"
  as_enable_bundles :: "string list"
  as_disable_bundles :: "string list"
  as_name :: "string option"
  as_description :: "string option"
  as_unknown_fields :: "string list"

record active_scopes =
  av_scopes :: "active_scope list"
  av_tags :: "string list"
  av_extra_tags :: "string list"

section \<open>Names of hosts and users\<close>

definition to_lower :: "string \<Rightarrow> string" where
  "to_lower s = map to_ascii_lower s"

definition ends_with :: "string \<Rightarrow> string \<Rightarrow> bool" where
  "ends_with s p \<longleftrightarrow> strip_suffix s p \<noteq> None"

fun middle_parts_match :: "string \<Rightarrow> string list \<Rightarrow> bool" where
  "middle_parts_match s [] \<longleftrightarrow> True"
| "middle_parts_match s (part # parts) \<longleftrightarrow>
     (case find_sub part s of
        Some idx \<Rightarrow> middle_parts_match (drop (idx + length part) s) parts
      | None \<Rightarrow> False)"

definition glob_matches :: "string \<Rightarrow> string \<Rightarrow> bool" where
  "glob_matches pattern t \<longleftrightarrow>
     (let p = to_lower pattern; s = to_lower t in
      if CHR ''*'' \<notin> set p then p = s
      else (let parts = split_on (\<lambda>c. c = CHR ''*'') p; first = hd parts; lst = last parts in
            if first \<noteq> [] \<and> \<not> starts_with s first then False
            else if lst \<noteq> [] \<and> \<not> ends_with s lst then False
            else if length s < length first + length lst then False
            else middle_parts_match (drop (length first) s) (butlast (tl parts))))"

definition matches_host :: "host_scope \<Rightarrow> 'a host_env \<Rightarrow> bool" where
  "matches_host s e =
     (case hs_hostname s of None \<Rightarrow> False | Some h \<Rightarrow> glob_matches h (en_hostname e))"

definition matches_user :: "user_scope \<Rightarrow> 'a host_env \<Rightarrow> bool" where
  "matches_user s e = (case us_user s of None \<Rightarrow> False | Some u \<Rightarrow> u = en_user e)"

section \<open>Networks\<close>

record network_needs =
  nn_gateway_mac :: bool
  nn_local_addrs :: bool
  nn_ssid :: bool

definition needs_from_scopes :: "network_scope list \<Rightarrow> network_needs" where
  "needs_from_scopes scopes =
     fold (\<lambda>s acc.
       \<lparr>nn_gateway_mac = nn_gateway_mac acc \<or> ns_gateway_mac s \<noteq> None,
        nn_local_addrs = nn_local_addrs acc \<or> ns_cidr s \<noteq> None,
        nn_ssid = nn_ssid acc \<or> ns_ssid s \<noteq> None\<rparr>) scopes
       \<lparr>nn_gateway_mac = False, nn_local_addrs = False, nn_ssid = False\<rparr>"

definition needs_covers :: "network_needs \<Rightarrow> network_needs \<Rightarrow> bool" where
  "needs_covers a b \<longleftrightarrow>
     (nn_gateway_mac a \<or> \<not> nn_gateway_mac b) \<and> (nn_local_addrs a \<or> \<not> nn_local_addrs b) \<and>
     (nn_ssid a \<or> \<not> nn_ssid b)"

definition is_ascii_hexdigit :: "char \<Rightarrow> bool" where
  "is_ascii_hexdigit c \<longleftrightarrow>
     is_ascii_digit c \<or> (65 \<le> byte c \<and> byte c \<le> 70) \<or> (97 \<le> byte c \<and> byte c \<le> 102)"

definition pad_octet :: "string \<Rightarrow> string" where
  "pad_octet s = replicate (2 - length s) (CHR ''0'') @ s"

definition normalize_mac :: "string \<Rightarrow> string option" where
  "normalize_mac s =
     (let parts = split_on (\<lambda>c. c = CHR '':'') s in
      if list_all (\<lambda>part. 1 \<le> length part \<and> length part \<le> 2 \<and> list_all is_ascii_hexdigit part) parts \<and>
         length parts = 6
      then Some (join_str '':'' (map (pad_octet \<circ> to_lower) parts)) else None)"

definition gateway_mac_matches :: "string \<Rightarrow> 'a host_env \<Rightarrow> bool" where
  "gateway_mac_matches want e =
     (case en_gateway_mac e of
        None \<Rightarrow> False
      | Some got \<Rightarrow>
          (case (normalize_mac want, normalize_mac got) of
             (Some w, Some g) \<Rightarrow> w = g
           | _ \<Rightarrow> to_lower got = to_lower want))"

text \<open>\<open>parse_net\<close> is the parser of address blocks of \<open>ipnet\<close>, with the test for membership.\<close>

definition cidr_matches :: "(string \<Rightarrow> ('a \<Rightarrow> bool) option) \<Rightarrow> string \<Rightarrow> 'a list \<Rightarrow> bool" where
  "cidr_matches parse_net cidr addrs =
     (case parse_net cidr of None \<Rightarrow> False | Some contains \<Rightarrow> list_ex contains addrs)"

definition matches_network ::
  "(string \<Rightarrow> ('a \<Rightarrow> bool) option) \<Rightarrow> network_scope \<Rightarrow> 'a host_env \<Rightarrow> bool" where
  "matches_network parse_net s e =
     (if ns_gateway_mac s = None \<and> ns_ssid s = None \<and> ns_cidr s = None then False
      else (case ns_gateway_mac s of None \<Rightarrow> True | Some want \<Rightarrow> gateway_mac_matches want e) \<and>
           (case ns_ssid s of None \<Rightarrow> True | Some want \<Rightarrow> en_ssid e = Some want) \<and>
           (case ns_cidr s of None \<Rightarrow> True | Some want \<Rightarrow> cidr_matches parse_net want (en_local_addrs e)))"

text \<open>\<open>str::lines\<close>: a carriage return goes only before a line feed.\<close>

definition text_lines :: "string \<Rightarrow> string list" where
  "text_lines s =
     (let ls = split_on (\<lambda>c. c = nl) s in
      map (\<lambda>l. case strip_suffix l [CHR 0x0D] of None \<Rightarrow> l | Some l' \<Rightarrow> l') (butlast ls) @
      (if last ls = [] then [] else [last ls]))"

fun find_map :: "('a \<Rightarrow> 'b option) \<Rightarrow> 'a list \<Rightarrow> 'b option" where
  "find_map f [] = None"
| "find_map f (x # xs) = (case f x of Some y \<Rightarrow> Some y | None \<Rightarrow> find_map f xs)"

definition parse_macos_gateway_ip :: "string \<Rightarrow> string option" where
  "parse_macos_gateway_ip s =
     find_map (\<lambda>l. map_option trim (strip_prefix (trim l) ''gateway:'')) (text_lines s)"

definition parse_macos_arp_mac :: "string \<Rightarrow> string option" where
  "parse_macos_arp_mac s = find_map normalize_mac (split_whitespace s)"

fun first_default_route :: "string list \<Rightarrow> string option" where
  "first_default_route [] = None"
| "first_default_route (line # ls) =
     (case split_whitespace line of
        a # b # rest \<Rightarrow>
          if a = ''default'' \<and> b = ''via'' then (case rest of [] \<Rightarrow> None | ip # _ \<Rightarrow> Some ip)
          else first_default_route ls
      | _ \<Rightarrow> first_default_route ls)"

definition parse_linux_gateway_ip :: "string \<Rightarrow> string option" where
  "parse_linux_gateway_ip s = first_default_route (text_lines s)"

fun mac_after_lladdr :: "string list \<Rightarrow> string option" where
  "mac_after_lladdr [] = None"
| "mac_after_lladdr (t # ts) =
     (if t = ''lladdr'' then (case ts of [] \<Rightarrow> None | m # _ \<Rightarrow> normalize_mac m)
      else mac_after_lladdr ts)"

definition parse_linux_neigh_mac :: "string \<Rightarrow> string option" where
  "parse_linux_neigh_mac s = mac_after_lladdr (split_whitespace s)"

section \<open>Content\<close>

text \<open>
  An entry of the walk of the working directory: a folder, another entry with its depth and its
  relative path, or an entry that cannot be read.  \<open>glob_new\<close> compiles a glob and returns its match
  function; \<open>walk_dir\<close> is the walk, cut at the depth it is given.
\<close>

datatype walk_entry = WDir nat | WFile nat path | WError nat

type_synonym pending = "(string \<times> (path \<Rightarrow> bool) \<times> nat option) list"

definition pending_of :: "(string \<Rightarrow> (path \<Rightarrow> bool) option) \<Rightarrow> content_scope list \<Rightarrow> pending" where
  "pending_of glob_new scopes =
     List.map_filter (\<lambda>s. map_option (\<lambda>g. (cs_id s, g, cs_depth s)) (glob_new (cs_glob s))) scopes"

text \<open>The loosest limit, or none when one scope has none.\<close>

fun loosest :: "nat \<Rightarrow> nat option list \<Rightarrow> nat option" where
  "loosest acc [] = Some acc"
| "loosest acc (d # ds) = (case d of None \<Rightarrow> None | Some d \<Rightarrow> loosest (max acc d) ds)"

definition hits :: "nat \<Rightarrow> path \<Rightarrow> string \<times> (path \<Rightarrow> bool) \<times> nat option \<Rightarrow> bool" where
  "hits entry_depth relative = (\<lambda>(_, g, depth).
     (case depth of None \<Rightarrow> True | Some d \<Rightarrow> \<not> d < entry_depth) \<and> g relative)"

fun match_entries :: "pending \<Rightarrow> string list \<Rightarrow> walk_entry list \<Rightarrow> string list" where
  "match_entries pending matched [] = matched"
| "match_entries pending matched (e # es) =
     (if pending = [] then matched
      else (case e of
              WError _ \<Rightarrow> match_entries pending matched es
            | WDir _ \<Rightarrow> match_entries pending matched es
            | WFile depth rel \<Rightarrow>
                match_entries (filter (\<lambda>p. \<not> hits depth rel p) pending)
                  (matched @ map fst (filter (hits depth rel) pending)) es))"

definition matches_content_all ::
  "(string \<Rightarrow> (path \<Rightarrow> bool) option) \<Rightarrow> (nat option \<Rightarrow> walk_entry list) \<Rightarrow> content_scope list \<Rightarrow> string list"
  where
  "matches_content_all glob_new walk_dir scopes =
     (let pending = pending_of glob_new scopes in
      if pending = [] then []
      else match_entries pending [] (walk_dir (loosest 0 (map (\<lambda>(_, _, d). d) pending))))"

section \<open>The project marker\<close>

record project_file =
  pf_id :: "string option"
  pf_name :: "string option"
  pf_description :: "string option"
  pf_tags :: "string list"
  pf_enable_bundles :: "string list"
  pf_disable_bundles :: "string list"
  pf_extra :: "string list"

text \<open>The marker of a folder: unreadable, empty, malformed or parsed.\<close>

datatype marker = MUnreadable | MEmpty | MMalformed | MParsed project_file

record resolved_project =
  rp_root :: path
  rp_id :: string
  rp_name :: string
  rp_description :: "string option"
  rp_tags :: "string list"
  rp_enable_bundles :: "string list"
  rp_disable_bundles :: "string list"
  rp_unknown_fields :: "string list"

definition max_description_bytes :: nat where "max_description_bytes = 1024"

text \<open>\<open>str::is_char_boundary\<close> on UTF-8 bytes: no continuation byte starts at the offset.\<close>

definition is_char_boundary :: "string \<Rightarrow> nat \<Rightarrow> bool" where
  "is_char_boundary s i \<longleftrightarrow>
     i = 0 \<or> i = length s \<or> (i < length s \<and> \<not> (128 \<le> byte (s ! i) \<and> byte (s ! i) < 192))"

definition truncate_at_char_boundary :: "string \<Rightarrow> nat \<Rightarrow> string \<times> bool" where
  "truncate_at_char_boundary t limit =
     (if length t \<le> limit then (t, False)
      else (take (case find (is_char_boundary t) (rev [0..<Suc limit]) of None \<Rightarrow> 0 | Some i \<Rightarrow> i) t, True))"

definition empty_project_file :: project_file where
  "empty_project_file =
     \<lparr>pf_id = None, pf_name = None, pf_description = None, pf_tags = [], pf_enable_bundles = [],
      pf_disable_bundles = [], pf_extra = []\<rparr>"

definition read_project_file :: "marker \<Rightarrow> project_file" where
  "read_project_file m =
     (case m of
        MParsed pf \<Rightarrow>
          pf\<lparr>pf_description := map_option (\<lambda>d. fst (truncate_at_char_boundary d max_description_bytes))
               (pf_description pf)\<rparr>
      | _ \<Rightarrow> empty_project_file)"

definition known_fields :: "string list" where
  "known_fields = [''id'', ''name'', ''description'', ''tags'', ''enable_bundles'', ''disable_bundles'']"

definition resolve_project :: "path \<Rightarrow> marker \<Rightarrow> resolved_project" where
  "resolve_project cur m =
     (let pf = read_project_file m;
          basename = (if cur = [] then ''llmenv'' else last cur) in
      \<lparr>rp_root = cur,
       rp_id = (case pf_id pf of None \<Rightarrow> basename | Some i \<Rightarrow> i),
       rp_name = (case pf_name pf of None \<Rightarrow> basename | Some n \<Rightarrow> n),
       rp_description = pf_description pf,
       rp_tags = sanitize_tags (pf_tags pf),
       rp_enable_bundles = sanitize_tags (pf_enable_bundles pf),
       rp_disable_bundles = sanitize_tags (pf_disable_bundles pf),
       rp_unknown_fields = filter (\<lambda>k. k \<notin> set known_fields) (pf_extra pf)\<rparr>)"

text \<open>The walk from a folder, given as its components below the root, towards the root.\<close>

function discover_from :: "(path \<Rightarrow> marker option) \<Rightarrow> path option \<Rightarrow> path \<Rightarrow> resolved_project option" where
  "discover_from marker_at home cur =
     (case marker_at cur of
        Some m \<Rightarrow> Some (resolve_project cur m)
      | None \<Rightarrow>
          if home = None \<or> home = Some cur \<or> cur = [] then None
          else discover_from marker_at home (butlast cur))"
  by pat_completeness auto
termination
  by (relation "measure (\<lambda>(m, h, cur). length cur)") auto

declare discover_from.simps [simp del]

definition discover_project :: "(path \<Rightarrow> marker option) \<Rightarrow> 'a host_env \<Rightarrow> resolved_project option" where
  "discover_project marker_at e = discover_from marker_at (en_home e) (en_cwd e)"

section \<open>Evaluation\<close>

record 'a world =
  w_parse_net :: "string \<Rightarrow> ('a \<Rightarrow> bool) option"
  w_glob_new :: "string \<Rightarrow> (path \<Rightarrow> bool) option"
  w_walk_dir :: "nat option \<Rightarrow> walk_entry list"
  w_cwd_exists :: bool
  w_marker_at :: "path \<Rightarrow> marker option"

definition config_scope :: "string \<Rightarrow> string \<Rightarrow> string list \<Rightarrow> active_scope" where
  "config_scope ident kind tags =
     \<lparr>as_id = ident, as_kind = kind, as_tags = sanitize_tags tags, as_project_root = None,
      as_enable_bundles = [], as_disable_bundles = [], as_name = None, as_description = None,
      as_unknown_fields = []\<rparr>"

definition project_scope :: "resolved_project \<Rightarrow> active_scope" where
  "project_scope p =
     \<lparr>as_id = rp_id p, as_kind = ''project'', as_tags = rp_tags p, as_project_root = Some (rp_root p),
      as_enable_bundles = rp_enable_bundles p, as_disable_bundles = rp_disable_bundles p,
      as_name = Some (rp_name p), as_description = rp_description p,
      as_unknown_fields = rp_unknown_fields p\<rparr>"

definition content_ids :: "'a world \<Rightarrow> scopes_config \<Rightarrow> string list" where
  "content_ids w cfg =
     (if w_cwd_exists w \<and> sc_content cfg \<noteq> []
      then matches_content_all (w_glob_new w) (w_walk_dir w) (sc_content cfg) else [])"

definition environment_scopes :: "'a world \<Rightarrow> scopes_config \<Rightarrow> 'a host_env \<Rightarrow> active_scope list" where
  "environment_scopes w cfg e =
     map (\<lambda>s. config_scope (ns_id s) ''network'' (ns_tags s))
       (filter (\<lambda>s. matches_network (w_parse_net w) s e) (sc_network cfg)) @
     map (\<lambda>s. config_scope (hs_id s) ''host'' (hs_tags s)) (filter (\<lambda>s. matches_host s e) (sc_host cfg)) @
     map (\<lambda>s. config_scope (us_id s) ''user'' (us_tags s)) (filter (\<lambda>s. matches_user s e) (sc_user cfg)) @
     map (\<lambda>s. config_scope (cs_id s) ''content'' (cs_tags s))
       (filter (\<lambda>s. cs_id s \<in> set (content_ids w cfg)) (sc_content cfg))"

definition evaluate :: "'a world \<Rightarrow> scopes_config \<Rightarrow> 'a host_env \<Rightarrow> active_scopes" where
  "evaluate w cfg e =
     (let scopes = environment_scopes w cfg e @
            (case discover_project (w_marker_at w) e of None \<Rightarrow> [] | Some p \<Rightarrow> [project_scope p]);
          extra = tag_set (en_extra_tags e);
          tags = tag_set (concat (map as_tags scopes) @ (if en_os e = [] then [] else [en_os e]) @ extra) in
      \<lparr>av_scopes = scopes, av_tags = cap_aggregate_tags tags, av_extra_tags = extra\<rparr>)"

definition non_project_tags :: "active_scopes \<Rightarrow> string list" where
  "non_project_tags a =
     tag_set
       (concat (map as_tags (filter (\<lambda>s. as_kind s \<noteq> ''project'') (av_scopes a))) @
        filter (\<lambda>t. \<not> list_ex (\<lambda>s. t \<in> set (as_tags s)) (av_scopes a) \<and> t \<notin> set (av_extra_tags a))
          (av_tags a))"

end
