(* ===== verification/Scope_Laws.thy ===== *)
theory Scope_Laws
  imports Scope "HOL-Library.Sublist"
begin

text \<open>
  Laws of the scope matching of \<open>Scope\<close>: bounds of the active tags, exactness of the content walk,
  of the marker search and of simple host globs, and the isolation of project tags.
\<close>

section \<open>Tags\<close>

lemma sanitize_tags_props:
  "length (sanitize_tags raw) \<le> 64"
  "t \<in> set (sanitize_tags raw) \<Longrightarrow> is_valid_tag_charset t \<and> length t \<le> 64 \<and> t \<in> set raw"
  by (auto simp: sanitize_tags_def max_tags_per_source_def max_tag_len_def dest!: in_set_takeD)

lemma set_tag_set [simp]: "set (tag_set xs) = set xs"
  by (simp add: tag_set_def)

lemma distinct_tag_set [simp]: "distinct (tag_set xs)" "sorted (tag_set xs)"
  by (simp_all add: tag_set_def)

lemma cap_aggregate_props:
  "length (cap_aggregate_tags ts) \<le> 64"
  "set (cap_aggregate_tags ts) \<subseteq> set ts"
  "distinct ts \<Longrightarrow> distinct (cap_aggregate_tags ts)"
  by (auto simp: cap_aggregate_tags_def max_tags_per_source_def dest: in_set_takeD)

lemma extra_tags_valid:
  assumes "extra_tags_from_var v = Inr ts" and "t \<in> set ts"
  shows "is_valid_tag_charset t" "length t \<le> 64"
  using assms sanitize_tags_props(2)
  by (auto simp: extra_tags_from_var_def parse_extra_tags_def split: env_var.splits)

lemma environment_scope_tags:
  assumes "s \<in> set (environment_scopes w cfg e)"
  shows "as_kind s \<noteq> ''project''" "\<exists>raw. as_tags s = sanitize_tags raw"
    "as_enable_bundles s = []" "as_disable_bundles s = []"
  using assms by (auto simp: environment_scopes_def config_scope_def)

lemma discover_from_root:
  "discover_from marker_at home cur = Some p \<Longrightarrow> \<exists>r m. marker_at r = Some m \<and> p = resolve_project r m"
proof (induction marker_at home cur rule: discover_from.induct)
  case (1 marker_at home cur)
  show ?case
    using 1 by (subst (asm) (2) discover_from.simps) (auto split: option.splits if_splits)
qed

lemma project_tags_valid:
  assumes "discover_project mk e = Some p"
  shows "\<exists>raw. rp_tags p = sanitize_tags raw"
  using assms discover_from_root[of mk "en_home e" "en_cwd e" p]
  by (auto simp: discover_project_def resolve_project_def Let_def)

lemma evaluate_scope_tags:
  assumes "s \<in> set (av_scopes (evaluate w cfg e))"
  shows "\<exists>raw. as_tags s = sanitize_tags raw"
proof (cases "discover_project (w_marker_at w) e")
  case None
  then show ?thesis using assms environment_scope_tags(2) by (simp add: evaluate_def Let_def)
next
  case (Some p)
  then show ?thesis
    using assms environment_scope_tags(2) project_tags_valid[OF Some]
    by (auto simp: evaluate_def Let_def project_scope_def)
qed

lemma evaluate_tags:
  "av_tags (evaluate w cfg e) =
     cap_aggregate_tags (tag_set (concat (map as_tags (av_scopes (evaluate w cfg e))) @
       (if en_os e = [] then [] else [en_os e]) @ tag_set (en_extra_tags e)))"
  by (simp add: evaluate_def Let_def)

lemma evaluate_tags_from:
  assumes "t \<in> set (av_tags (evaluate w cfg e))"
  shows "(\<exists>s \<in> set (av_scopes (evaluate w cfg e)). t \<in> set (as_tags s)) \<or>
    t = en_os e \<and> en_os e \<noteq> [] \<or> t \<in> set (en_extra_tags e)"
  using subsetD[OF cap_aggregate_props(2) assms[unfolded evaluate_tags]] by (auto split: if_splits)

section \<open>Content\<close>

fun entry_depth :: "walk_entry \<Rightarrow> nat" where
  "entry_depth (WDir d) = d"
| "entry_depth (WFile d _) = d"
| "entry_depth (WError d) = d"

text \<open>What a walk of its own would find for a scope.\<close>

definition scope_hit ::
  "(string \<Rightarrow> (path \<Rightarrow> bool) option) \<Rightarrow> (nat option \<Rightarrow> walk_entry list) \<Rightarrow> content_scope \<Rightarrow> bool" where
  "scope_hit glob_new walk_dir s \<longleftrightarrow>
     (case glob_new (cs_glob s) of
        None \<Rightarrow> False
      | Some g \<Rightarrow> list_ex (\<lambda>e. case e of WFile _ rel \<Rightarrow> g rel | _ \<Rightarrow> False) (walk_dir (cs_depth s)))"

lemma scope_hit_alt:
  "scope_hit glob_new walk_dir s \<longleftrightarrow>
     (\<exists>g. glob_new (cs_glob s) = Some g \<and> (\<exists>k rel. WFile k rel \<in> set (walk_dir (cs_depth s)) \<and> g rel))"
proof -
  have "list_ex (\<lambda>e. case e of WFile _ rel \<Rightarrow> g rel | _ \<Rightarrow> False) es \<longleftrightarrow>
      (\<exists>k rel. WFile k rel \<in> set es \<and> g rel)" for g and es
    by (induction es) (auto split: walk_entry.splits)
  then show ?thesis by (auto simp: scope_hit_def split: option.splits)
qed

lemma match_entries_set:
  "set (match_entries pending matched es) =
     set matched \<union> fst ` {p \<in> set pending. \<exists>d rel. WFile d rel \<in> set es \<and> hits d rel p}"
proof (induction pending matched es rule: match_entries.induct)
  case (2 pending matched e es)
  show ?case
  proof (cases "pending = []")
    case False
    show ?thesis
    proof (cases e)
      case (WFile d rel)
      have "{p \<in> set pending. \<exists>k r. WFile k r \<in> set (e # es) \<and> hits k r p} =
          {p \<in> set pending. hits d rel p} \<union>
          {p \<in> set (filter (\<lambda>p. \<not> hits d rel p) pending). \<exists>k r. WFile k r \<in> set es \<and> hits k r p}"
        using WFile by auto
      then show ?thesis
        using False WFile 2(2)[OF False WFile] by (simp add: image_Un Un_assoc)
    qed (use False 2 in auto)
  qed simp
qed simp

lemma loosest_None: "loosest acc ds = None \<longleftrightarrow> None \<in> set ds"
  by (induction acc ds rule: loosest.induct) (auto split: option.splits)

lemma loosest_Some: "loosest acc ds = Some m \<Longrightarrow> acc \<le> m \<and> (\<forall>d. Some d \<in> set ds \<longrightarrow> d \<le> m)"
  by (induction acc ds rule: loosest.induct) (fastforce split: option.splits)+

lemma pending_of_mem:
  "(i, g, d) \<in> set (pending_of glob_new scopes) \<longleftrightarrow>
     (\<exists>s \<in> set scopes. cs_id s = i \<and> glob_new (cs_glob s) = Some g \<and> cs_depth s = d)"
  by (force simp: pending_of_def map_filter_def)

lemma fst_image_triples:
  "fst ` {p \<in> A. case p of (i, g, d) \<Rightarrow> Q g d} = {i. \<exists>g d. (i, g, d) \<in> A \<and> Q g d}"
  by force

lemma matches_content_exact:
  assumes cut: "\<And>n. walk_dir (Some n) = filter (\<lambda>e. entry_depth e \<le> n) (walk_dir None)"
  shows "set (matches_content_all glob_new walk_dir scopes) =
    cs_id ` {s \<in> set scopes. scope_hit glob_new walk_dir s}"
proof -
  let ?pending = "pending_of glob_new scopes"
  let ?limit = "loosest 0 (map (\<lambda>(_, _, d). d) ?pending)"
  have hit: "(\<exists>k rel. WFile k rel \<in> set (walk_dir ?limit) \<and> hits k rel (i, g, d)) \<longleftrightarrow>
      (\<exists>k rel. WFile k rel \<in> set (walk_dir d) \<and> g rel)" if "(i, g, d) \<in> set ?pending" for i g d
  proof -
    have d: "d \<in> set (map (\<lambda>(_, _, d). d) ?pending)" using that by force
    show ?thesis
    proof (cases ?limit)
      case None
      then show ?thesis
        using cut by (cases d) (auto simp: hits_def not_less)
    next
      case (Some m)
      obtain n where n: "d = Some n" using d Some loosest_None by (metis not_None_eq)
      have "n \<le> m" using loosest_Some[OF Some] d n by blast
      then show ?thesis
        unfolding Some n cut[of m] cut[of n] by (auto simp: hits_def not_less) (meson order_trans)
    qed
  qed
  have "set (matches_content_all glob_new walk_dir scopes) =
      fst ` {p \<in> set ?pending. \<exists>k rel. WFile k rel \<in> set (walk_dir ?limit) \<and> hits k rel p}"
    by (simp add: matches_content_all_def Let_def match_entries_set)
  also have "\<dots> = fst ` {p \<in> set ?pending. case p of (i, g, d) \<Rightarrow> \<exists>k rel. WFile k rel \<in> set (walk_dir d) \<and> g rel}"
  proof (intro arg_cong[where f = "image fst"] Collect_cong conj_cong refl)
    fix p assume p: "p \<in> set ?pending"
    obtain i g d where "p = (i, g, d)" by (cases p) auto
    then show "(\<exists>k rel. WFile k rel \<in> set (walk_dir ?limit) \<and> hits k rel p) =
        (case p of (i, g, d) \<Rightarrow> \<exists>k rel. WFile k rel \<in> set (walk_dir d) \<and> g rel)"
      using hit[of i g d] p by simp
  qed
  also have "\<dots> = {i. \<exists>g d. (i, g, d) \<in> set ?pending \<and> (\<exists>k rel. WFile k rel \<in> set (walk_dir d) \<and> g rel)}"
    by (rule fst_image_triples)
  also have "\<dots> = cs_id ` {s \<in> set scopes. scope_hit glob_new walk_dir s}"
    unfolding pending_of_mem scope_hit_alt by blast
  finally show ?thesis .
qed

section \<open>The marker search\<close>

lemma discover_from_step:
  "discover_from mk home cur =
     (case mk cur of
        Some m \<Rightarrow> Some (resolve_project cur m)
      | None \<Rightarrow> if home = None \<or> home = Some cur \<or> cur = [] then None else discover_from mk home (butlast cur))"
  by (subst discover_from.simps) simp

text \<open>The folders that the search visits, nearest first.\<close>

definition search_path :: "path option \<Rightarrow> path \<Rightarrow> path list" where
  "search_path home cur =
     (case home of
        None \<Rightarrow> [cur]
      | Some h \<Rightarrow> if prefix h cur then rev (filter (prefix h) (prefixes cur)) else rev (prefixes cur))"

lemma search_path_step:
  "search_path home cur =
     cur # (if home = None \<or> home = Some cur \<or> cur = [] then [] else search_path home (butlast cur))"
proof (cases home)
  case (Some h)
  show ?thesis
  proof (cases cur rule: rev_cases)
    case Nil
    then show ?thesis using Some by (auto simp: search_path_def)
  next
    case (snoc xs x)
    have "filter (prefix cur) (prefixes xs) = []"
      using snoc by (auto simp: filter_empty_conv prefix_def)
    then show ?thesis
      using Some snoc by (auto simp: search_path_def prefixes_snoc)
  qed
qed (simp add: search_path_def)

lemma discover_from_exact:
  "discover_from mk home cur =
     find_map (\<lambda>r. map_option (resolve_project r) (mk r)) (search_path home cur)"
proof (induction mk home cur rule: discover_from.induct)
  case (1 mk home cur)
  show ?case
    by (subst discover_from_step, subst search_path_step) (use 1 in \<open>auto split: option.splits\<close>)
qed

lemma search_path_shrinks: "sorted_wrt (\<lambda>x y. length y < length x) (search_path home cur)"
proof (induction cur rule: length_induct)
  case (1 cur)
  have longer: "\<forall>r \<in> set (search_path home xs). length r \<le> length xs" for xs
    by (auto simp: search_path_def prefix_length_le split: option.splits if_splits)
  show ?case
  proof (cases "home = None \<or> home = Some cur \<or> cur = []")
    case True
    then show ?thesis by (subst search_path_step) simp
  next
    case False
    then have less: "length (butlast cur) < length cur" by (cases cur) auto
    then have "sorted_wrt (\<lambda>x y. length y < length x) (search_path home (butlast cur))" using 1 by blast
    moreover have "\<forall>r \<in> set (search_path home (butlast cur)). length r < length cur"
      using longer[of "butlast cur"] less by (meson le_less_trans)
    ultimately show ?thesis
      using False by (subst search_path_step) simp
  qed
qed

lemma find_map_SomeD:
  "find_map f xs = Some y \<Longrightarrow> \<exists>us x vs. xs = us @ x # vs \<and> f x = Some y \<and> (\<forall>u \<in> set us. f u = None)"
proof (induction xs)
  case (Cons a xs)
  show ?case
  proof (cases "f a")
    case None
    then obtain us x vs where "xs = us @ x # vs" "f x = Some y" "\<forall>u \<in> set us. f u = None"
      using Cons by auto
    then show ?thesis using None by (intro exI[of _ "a # us"] exI[of _ x] exI[of _ vs]) auto
  next
    case (Some z)
    then show ?thesis using Cons.prems by (intro exI[of _ "[]"] exI[of _ a] exI[of _ xs]) auto
  qed
qed simp

lemma find_map_skip: "\<forall>u \<in> set us. f u = None \<Longrightarrow> find_map f (us @ vs) = find_map f vs"
  by (induction us) auto

lemma find_map_None: "find_map f xs = None \<longleftrightarrow> (\<forall>x \<in> set xs. f x = None)"
  by (induction xs) (auto split: option.splits)

text \<open>Below the home folder the search visits the folders between the two; elsewhere it goes to the root.\<close>

lemma search_path_inside:
  "prefix h cur \<Longrightarrow> set (search_path (Some h) cur) = {r. prefix h r \<and> prefix r cur}"
  by (auto simp: search_path_def)

lemma search_path_outside:
  "\<not> prefix h cur \<Longrightarrow> set (search_path (Some h) cur) = {r. prefix r cur}"
  by (auto simp: search_path_def)

lemma discover_inside:
  assumes "prefix h cur"
  shows "(case discover_from mk (Some h) cur of
     None \<Rightarrow> \<forall>r. prefix h r \<and> prefix r cur \<longrightarrow> mk r = None
   | Some p \<Rightarrow> \<exists>r m. prefix h r \<and> prefix r cur \<and> mk r = Some m \<and> p = resolve_project r m \<and>
       (\<forall>q. strict_prefix r q \<and> prefix q cur \<longrightarrow> mk q = None))"
proof (cases "discover_from mk (Some h) cur")
  case None
  then have "\<forall>r \<in> set (search_path (Some h) cur). mk r = None"
    by (simp add: discover_from_exact find_map_None)
  then show ?thesis using None search_path_inside[OF assms] by auto
next
  case (Some p)
  obtain us r vs where path: "search_path (Some h) cur = us @ r # vs"
    and r: "map_option (resolve_project r) (mk r) = Some p"
    and us: "\<forall>u \<in> set us. map_option (resolve_project u) (mk u) = None"
    using find_map_SomeD[OF Some[unfolded discover_from_exact]] by blast
  obtain m where m: "mk r = Some m" "p = resolve_project r m" using r by auto
  have r_in: "prefix h r" "prefix r cur" using search_path_inside[OF assms] path by auto
  have "mk q = None" if q: "strict_prefix r q" "prefix q cur" for q
  proof -
    have "q \<in> set (us @ r # vs)"
      using search_path_inside[OF assms] path r_in q by (auto dest: prefix_order.less_imp_le intro: prefix_order.trans)
    moreover have "q \<noteq> r" using q(1) by auto
    moreover have "q \<notin> set vs"
    proof
      assume "q \<in> set vs"
      moreover have "sorted_wrt (\<lambda>x y. length y < length x) (search_path (Some h) cur)"
        by (rule search_path_shrinks)
      ultimately have "length q < length r" unfolding path by (auto simp: sorted_wrt_append)
      then show False using q(1) by (metis prefix_length_less less_asym)
    qed
    ultimately show ?thesis using us by auto
  qed
  then show ?thesis using Some m r_in by auto
qed

section \<open>Project tags\<close>

lemma non_project_tags_mem:
  "t \<in> set (non_project_tags a) \<longleftrightarrow>
     (\<exists>s \<in> set (av_scopes a). as_kind s \<noteq> ''project'' \<and> t \<in> set (as_tags s)) \<or>
     t \<in> set (av_tags a) \<and> (\<forall>s \<in> set (av_scopes a). t \<notin> set (as_tags s)) \<and> t \<notin> set (av_extra_tags a)"
  by (auto simp: non_project_tags_def list_ex_iff)

section \<open>Host globs\<close>

text \<open>A string that the parts of a glob cover in order, with any text between them.\<close>

fun covers_parts :: "string list \<Rightarrow> string \<Rightarrow> bool" where
  "covers_parts [] s \<longleftrightarrow> True"
| "covers_parts (p # ps) s \<longleftrightarrow> (\<exists>u v. s = u @ p @ v \<and> covers_parts ps v)"

lemma covers_parts_extend: "covers_parts ps v \<Longrightarrow> covers_parts ps (u @ v)"
  by (cases ps) (auto, metis append_assoc)

lemma find_sub_least:
  "s = u @ pat @ v \<Longrightarrow> \<exists>i. find_sub pat s = Some i \<and> i \<le> length u"
proof (induction u arbitrary: s)
  case Nil
  then have "starts_with s pat" by simp
  then have "find_sub pat s = Some 0" by (cases s) (auto simp: starts_with_def)
  then show ?case by simp
next
  case (Cons c u)
  then show ?case by (cases "starts_with s pat") auto
qed

lemma middle_parts_complete: "covers_parts ps s \<Longrightarrow> middle_parts_match s ps"
proof (induction ps arbitrary: s)
  case (Cons p ps)
  obtain u v where s: "s = u @ p @ v" and v: "covers_parts ps v" using Cons.prems by auto
  obtain i where i: "find_sub p s = Some i" "i \<le> length u" using find_sub_least[OF s] by auto
  have "drop (i + length p) s = drop (i + length p) (u @ p) @ v"
    using s i(2) by simp
  then have "covers_parts ps (drop (i + length p) s)" using covers_parts_extend[OF v] by metis
  then show ?case using i Cons.IH by simp
qed simp

text \<open>What a host glob means: its parts cover the name in order and do not overlap.\<close>

definition glob_means :: "string \<Rightarrow> string \<Rightarrow> bool" where
  "glob_means pattern t \<longleftrightarrow>
     (let parts = split_on (\<lambda>c. c = CHR ''*'') (to_lower pattern); s = to_lower t in
      if length parts = 1 then s = hd parts
      else \<exists>m. s = hd parts @ m @ last parts \<and> covers_parts (butlast (tl parts)) m)"

lemma split_on_single: "length (split_on p s) = 1 \<longleftrightarrow> (\<forall>c \<in> set s. \<not> p c)"
  by (induction s) (auto split: list.splits)

lemma split_on_join_single: "length (split_on p s) = 1 \<Longrightarrow> hd (split_on p s) = s"
  unfolding split_on_single by (simp add: split_on_none)

lemma covers_parts_append: "covers_parts ps m \<Longrightarrow> covers_parts ps (m @ v)"
proof (induction ps arbitrary: m)
  case (Cons p ps)
  then obtain u w where m: "m = u @ p @ w" and w: "covers_parts ps w" by auto
  have "m @ v = u @ p @ (w @ v)" using m by simp
  then show ?case using Cons.IH[OF w] by (simp only: covers_parts.simps) blast
qed simp

text \<open>Every name that a glob means is accepted.\<close>

lemma glob_complete:
  assumes "glob_means pattern t"
  shows "glob_matches pattern t"
proof (cases "length (split_on (\<lambda>c. c = CHR ''*'') (to_lower pattern)) = 1")
  case True
  then have "CHR ''*'' \<notin> set (to_lower pattern)" unfolding split_on_single by blast
  then show ?thesis
    using assms True split_on_join_single[OF True] by (simp add: glob_means_def glob_matches_def Let_def)
next
  case False
  let ?parts = "split_on (\<lambda>c. c = CHR ''*'') (to_lower pattern)"
  have star: "CHR ''*'' \<in> set (to_lower pattern)" using False unfolding split_on_single by blast
  obtain m where m: "to_lower t = hd ?parts @ m @ last ?parts" "covers_parts (butlast (tl ?parts)) m"
    using assms False by (auto simp: glob_means_def Let_def)
  have "starts_with (to_lower t) (hd ?parts)" using m(1) by simp
  moreover have "ends_with (to_lower t) (last ?parts)"
    using m(1) strip_suffix_Some[of "to_lower t" "last ?parts" "hd ?parts @ m"] by (simp add: ends_with_def)
  moreover have "middle_parts_match (m @ last ?parts) (butlast (tl ?parts))"
    by (rule middle_parts_complete[OF covers_parts_append[OF m(2)]])
  ultimately show ?thesis
    using star m(1) by (simp add: glob_matches_def Let_def)
qed

text \<open>With at most one star nothing else is accepted.\<close>

lemma glob_exact_one_star:
  assumes "length (split_on (\<lambda>c. c = CHR ''*'') (to_lower pattern)) \<le> 2"
  shows "glob_matches pattern t \<longleftrightarrow> glob_means pattern t"
proof
  assume acc: "glob_matches pattern t"
  let ?parts = "split_on (\<lambda>c. c = CHR ''*'') (to_lower pattern)"
  show "glob_means pattern t"
  proof (cases "length ?parts = 1")
    case True
    then have "CHR ''*'' \<notin> set (to_lower pattern)" unfolding split_on_single by blast
    then show ?thesis
      using acc True split_on_join_single[OF True] by (simp add: glob_means_def glob_matches_def Let_def)
  next
    case False
    then have star: "CHR ''*'' \<in> set (to_lower pattern)" unfolding split_on_single by blast
    have two: "butlast (tl ?parts) = []"
      using assms by (cases ?parts; cases "tl ?parts") auto
    have s: "hd ?parts = [] \<or> starts_with (to_lower t) (hd ?parts)"
      "last ?parts = [] \<or> ends_with (to_lower t) (last ?parts)"
      "length (hd ?parts) + length (last ?parts) \<le> length (to_lower t)"
      using acc star unfolding glob_matches_def Let_def by (simp_all split: if_splits)
    obtain u where u: "to_lower t = hd ?parts @ u"
      using s(1) unfolding starts_with_def by (metis append_Nil append_take_drop_id)
    obtain v where v: "to_lower t = v @ last ?parts"
    proof (cases "last ?parts = []")
      case False
      then obtain v where "strip_suffix (to_lower t) (last ?parts) = Some v"
        using s(2) by (auto simp: ends_with_def)
      then show ?thesis using that by (simp only: strip_suffix_Some)
    qed (use that in simp)
    have "length (hd ?parts) \<le> length v" using s(3) v by (metis add_le_cancel_right length_append)
    then have "take (length (hd ?parts)) v = take (length (hd ?parts)) (to_lower t)"
      unfolding v by simp
    then have "take (length (hd ?parts)) v = hd ?parts" unfolding u by simp
    then obtain m where "v = hd ?parts @ m" by (metis append_take_drop_id)
    then show ?thesis
      using v False two by (auto simp: glob_means_def Let_def)
  qed
qed (rule glob_complete)

end
