(* ===== verification/Bundles.thy ===== *)
theory Bundles
  imports Scope_Laws
begin

text \<open>
  Selection of the bundles: \<open>src/bundle_select.rs\<close>.  \<open>has_content\<close> tells which bundles have a
  folder below \<open>bundles\<close>.  Main results: a disabled bundle never fires, a bundle fires exactly by tag or by
  name, and every reference has a safe name, occurs once and carries the rank of the first scope
  kind that selects it.
\<close>

section \<open>Model\<close>

record bundle_entry =
  b_name :: string
  b_when :: "string list"

definition marker_enabled_bundle_names :: "active_scopes \<Rightarrow> string list" where
  "marker_enabled_bundle_names a = concat (map as_enable_bundles (av_scopes a))"

definition marker_disabled_bundle_names :: "active_scopes \<Rightarrow> string list" where
  "marker_disabled_bundle_names a = concat (map as_disable_bundles (av_scopes a))"

definition tag_or_marker_selected :: "bundle_entry \<Rightarrow> active_scopes \<Rightarrow> string list \<Rightarrow> bool" where
  "tag_or_marker_selected b a manually_enabled \<longleftrightarrow>
     list_ex (\<lambda>t. t \<in> set (av_tags a)) (b_when b) \<or> b_name b \<in> set manually_enabled"

definition firing_bundles :: "bundle_entry list \<Rightarrow> active_scopes \<Rightarrow> string option \<Rightarrow> bundle_entry list" where
  "firing_bundles bundles a tag_filter =
     filter (\<lambda>b. tag_or_marker_selected b a (marker_enabled_bundle_names a))
       (filter (\<lambda>b. case tag_filter of None \<Rightarrow> True | Some t \<Rightarrow> t \<in> set (b_when b))
         (filter (\<lambda>b. b_name b \<notin> set (marker_disabled_bundle_names a)) bundles))"

definition precedence_kinds :: "string list" where
  "precedence_kinds = [''network'', ''host'', ''user'', ''content'', ''project'']"

definition bundle_dir :: "string \<Rightarrow> string \<Rightarrow> string" where
  "bundle_dir config_dir name = config_dir @ ''/bundles/'' @ name"

definition push_ref ::
  "(string \<Rightarrow> bool) \<Rightarrow> string \<Rightarrow> nat \<Rightarrow> string \<Rightarrow> bundle_ref list \<Rightarrow> bundle_ref list" where
  "push_ref has_content config_dir precedence name refs =
     (if name \<in> br_name ` set refs then refs
      else if is_unsafe_join_target name then refs
      else if \<not> has_content name then refs
      else refs @ [\<lparr>br_name = name, br_path = bundle_dir config_dir name, br_precedence = precedence\<rparr>])"

definition kind_tags :: "active_scopes \<Rightarrow> string \<Rightarrow> string list" where
  "kind_tags a kind = concat (map as_tags (filter (\<lambda>s. as_kind s = kind) (av_scopes a)))"

definition selected_by :: "active_scopes \<Rightarrow> string \<Rightarrow> bundle_entry \<Rightarrow> bool" where
  "selected_by a kind b \<longleftrightarrow> list_ex (\<lambda>t. t \<in> set (kind_tags a kind)) (b_when b)"

definition push_tier ::
  "(string \<Rightarrow> bool) \<Rightarrow> string \<Rightarrow> active_scopes \<Rightarrow> bundle_entry list \<Rightarrow> nat \<times> string \<Rightarrow> bundle_ref list \<Rightarrow> bundle_ref list"
  where
  "push_tier has_content config_dir a firing = (\<lambda>(tier, kind).
     fold (\<lambda>b. push_ref has_content config_dir (length precedence_kinds - tier) (b_name b))
       (filter (selected_by a kind) firing))"

definition build_bundle_refs ::
  "(string \<Rightarrow> bool) \<Rightarrow> string \<Rightarrow> active_scopes \<Rightarrow> bundle_entry list \<Rightarrow> bundle_ref list" where
  "build_bundle_refs has_content config_dir a firing =
     fold (\<lambda>b. push_ref has_content config_dir 0 (b_name b)) firing
       (fold (push_tier has_content config_dir a firing) (enumerate 0 precedence_kinds) [])"

section \<open>Laws\<close>

lemma firing_bundles_mem:
  "b \<in> set (firing_bundles bundles a f) \<longleftrightarrow>
     b \<in> set bundles \<and> b_name b \<notin> set (marker_disabled_bundle_names a) \<and>
     (case f of None \<Rightarrow> True | Some t \<Rightarrow> t \<in> set (b_when b)) \<and>
     (set (b_when b) \<inter> set (av_tags a) \<noteq> {} \<or> b_name b \<in> set (marker_enabled_bundle_names a))"
  by (auto simp: firing_bundles_def tag_or_marker_selected_def list_ex_iff)

text \<open>One push after the other: the first push of a name decides its rank.\<close>

definition usable :: "(string \<Rightarrow> bool) \<Rightarrow> string \<Rightarrow> bool" where
  "usable has_content name \<longleftrightarrow> \<not> is_unsafe_join_target name \<and> has_content name"

definition pushes :: "active_scopes \<Rightarrow> bundle_entry list \<Rightarrow> (nat \<times> string) list" where
  "pushes a firing =
     concat (map (\<lambda>(tier, kind). map (\<lambda>b. (length precedence_kinds - tier, b_name b))
       (filter (selected_by a kind) firing)) (enumerate 0 precedence_kinds)) @
     map (\<lambda>b. (0, b_name b)) firing"

definition push_all ::
  "(string \<Rightarrow> bool) \<Rightarrow> string \<Rightarrow> (nat \<times> string) list \<Rightarrow> bundle_ref list \<Rightarrow> bundle_ref list" where
  "push_all has_content config_dir = fold (\<lambda>(p, n). push_ref has_content config_dir p n)"

lemma build_as_pushes:
  "build_bundle_refs has_content config_dir a firing = push_all has_content config_dir (pushes a firing) []"
proof -
  have tier: "push_tier has_content config_dir a firing x =
      push_all has_content config_dir
        (case x of (tier, kind) \<Rightarrow> map (\<lambda>b. (length precedence_kinds - tier, b_name b)) (filter (selected_by a kind) firing))" for x
    by (cases x) (simp add: push_tier_def push_all_def fold_map comp_def)
  show ?thesis
    by (simp add: build_bundle_refs_def tier pushes_def push_all_def fold_map comp_def
        precedence_kinds_def)
qed

lemma push_all_props:
  assumes "distinct (map br_name refs)"
  shows "distinct (map br_name (push_all hc dir ps refs))"
    and "br_name ` set (push_all hc dir ps refs) = br_name ` set refs \<union> {n \<in> snd ` set ps. usable hc n}"
proof -
  have "distinct (map br_name (push_all hc dir ps refs)) \<and>
      br_name ` set (push_all hc dir ps refs) = br_name ` set refs \<union> {n \<in> snd ` set ps. usable hc n}"
    using assms
  proof (induction ps arbitrary: refs)
    case (Cons x ps)
    obtain p n where x: "x = (p, n)" by (cases x)
    have "distinct (map br_name (push_ref hc dir p n refs))"
      "br_name ` set (push_ref hc dir p n refs) = br_name ` set refs \<union> (if usable hc n then {n} else {})"
      using Cons.prems by (auto simp: push_ref_def usable_def)
    with Cons.IH[of "push_ref hc dir p n refs"] show ?case
      by (auto simp: push_all_def x)
  qed (simp add: push_all_def)
  then show "distinct (map br_name (push_all hc dir ps refs))"
    and "br_name ` set (push_all hc dir ps refs) = br_name ` set refs \<union> {n \<in> snd ` set ps. usable hc n}"
    by blast+
qed

lemma push_all_rank:
  assumes "r \<in> set (push_all hc dir ps refs)"
  shows "r \<in> set refs \<or>
    (\<exists>us vs. ps = us @ (br_precedence r, br_name r) # vs \<and> br_name r \<notin> snd ` set us) \<and>
    br_path r = bundle_dir dir (br_name r) \<and> br_name r \<notin> br_name ` set refs \<and> usable hc (br_name r)"
  using assms
proof (induction ps arbitrary: refs)
  case (Cons x ps)
  obtain p n where x: "x = (p, n)" by (cases x)
  let ?refs = "push_ref hc dir p n refs"
  from Cons.IH[of ?refs] Cons.prems consider
    (old) "r \<in> set ?refs"
  | (new) us vs where "ps = us @ (br_precedence r, br_name r) # vs" "br_name r \<notin> snd ` set us"
      "br_path r = bundle_dir dir (br_name r)" "br_name r \<notin> br_name ` set ?refs" "usable hc (br_name r)"
    by (auto simp: push_all_def x)
  then show ?case
  proof cases
    case old
    show ?thesis
    proof (cases "r \<in> set refs")
      case False
      then have r: "br_precedence r = p" "br_name r = n" "br_path r = bundle_dir dir n"
        "n \<notin> br_name ` set refs" "usable hc n"
        using old by (auto simp: push_ref_def usable_def split: if_splits)
      show ?thesis
        unfolding r x using r(4,5) by (intro disjI2 conjI exI[of _ "[]"] exI[of _ ps] r) auto
    qed simp
  next
    case new
    have "n \<noteq> br_name r"
      using new(4,5) by (auto simp: push_ref_def usable_def split: if_splits) (metis imageI)
    moreover have "br_name r \<notin> br_name ` set refs" using new(4) by (auto simp: push_ref_def split: if_splits)
    ultimately show ?thesis
      using new x by (intro disjI2 conjI exI[of _ "x # us"] exI[of _ vs]) auto
  qed
qed (simp add: push_all_def)

text \<open>The rank of a name: that of the first scope kind that selects a firing bundle of the name.\<close>

definition rank_of :: "active_scopes \<Rightarrow> bundle_entry list \<Rightarrow> string \<Rightarrow> nat" where
  "rank_of a firing name =
     (case find (\<lambda>(tier, kind). list_ex (\<lambda>b. b_name b = name \<and> selected_by a kind b) firing)
        (enumerate 0 precedence_kinds) of
        Some (tier, _) \<Rightarrow> length precedence_kinds - tier
      | None \<Rightarrow> 0)"

lemma find_first: "P x \<Longrightarrow> (\<forall>u \<in> set us. \<not> P u) \<Longrightarrow> find P (us @ x # vs) = Some x"
  by (induction us) auto

lemma find_concat_map:
  "find P (concat (map f xs)) =
     (case find (\<lambda>x. list_ex P (f x)) xs of None \<Rightarrow> None | Some x \<Rightarrow> find P (f x))"
proof (induction xs)
  case (Cons x xs)
  have "find P (f x) = None \<longleftrightarrow> \<not> list_ex P (f x)" by (auto simp: find_None_iff list_ex_iff)
  then show ?case using Cons by (auto simp: find_append split: option.splits)
qed simp

lemma find_block:
  "find (\<lambda>x. snd x = name) (map (\<lambda>b. (k, b_name b)) bs) =
     (if list_ex (\<lambda>b. b_name b = name) bs then Some (k, name) else None)"
  by (induction bs) auto

lemma build_refs_rank:
  assumes "r \<in> set (build_bundle_refs hc dir a firing)"
  shows "br_precedence r = rank_of a firing (br_name r)" "usable hc (br_name r)"
    "br_path r = bundle_dir dir (br_name r)"
proof -
  let ?n = "br_name r"
  let ?f = "\<lambda>(tier, kind). map (\<lambda>b. (length precedence_kinds - tier, b_name b)) (filter (selected_by a kind) firing)"
  obtain us vs where ps: "pushes a firing = us @ (br_precedence r, ?n) # vs" "?n \<notin> snd ` set us"
    and path: "br_path r = bundle_dir dir ?n" and ok: "usable hc ?n"
    using push_all_rank[OF assms[unfolded build_as_pushes]] by auto
  have first: "find (\<lambda>x. snd x = ?n) (pushes a firing) = Some (br_precedence r, ?n)"
    unfolding ps(1) by (rule find_first) (use ps(2) in force)+
  have ex: "list_ex (\<lambda>x. snd x = ?n) (?f p) \<longleftrightarrow>
      (case p of (tier, kind) \<Rightarrow> list_ex (\<lambda>b. b_name b = ?n \<and> selected_by a kind b) firing)" for p
    by (cases p) (auto simp: list_ex_iff)
  show "br_precedence r = rank_of a firing ?n"
  proof (cases "find (\<lambda>(tier, kind). list_ex (\<lambda>b. b_name b = ?n \<and> selected_by a kind b) firing)
      (enumerate 0 precedence_kinds)")
    case None
    then show ?thesis
      using first unfolding pushes_def find_append find_concat_map ex
      by (simp add: rank_of_def find_block split: if_splits)
  next
    case (Some p)
    obtain tier kind where p: "p = (tier, kind)" by (cases p)
    have "list_ex (\<lambda>b. b_name b = ?n) (filter (selected_by a kind) firing)"
      using Some p by (auto simp: find_Some_iff list_ex_iff)
    then show ?thesis
      using first Some p unfolding pushes_def find_append find_concat_map ex
      by (simp add: rank_of_def find_block)
  qed
  show "usable hc ?n" "br_path r = bundle_dir dir ?n" by fact+
qed

lemma pushes_names: "snd ` set (pushes a firing) = b_name ` set firing"
  by (force simp: pushes_def)

lemma build_refs_names:
  "br_name ` set (build_bundle_refs hc dir a firing) = {n \<in> b_name ` set firing. usable hc n}"
  "distinct (map br_name (build_bundle_refs hc dir a firing))"
  using push_all_props[of "[]" hc dir "pushes a firing"]
  by (simp_all add: build_as_pushes pushes_names)

end
