(* ===== verification/Config_Theorems.thy ===== *)
theory Config_Theorems
  imports Bundles
begin

text \<open>
  The properties of the configuration side of the program: the merge of values, of capabilities and
  of bundles, the evaluation of scopes and the selection of bundles.  Each one stands after a text
  that states it; small sample values serve the instances.
\<close>

section \<open>Merging values\<close>

text \<open>Merging a configuration fragment keeps JSON objects sorted and is idempotent: merging the same
  source again changes nothing, at every depth, with null entries, repeated elements and values whose
  shape changes included.\<close>

lemma merge_json_idempotent:
  assumes "wf_json d" and "wf_json s"
  shows "wf_json (merge_json d s) \<and> merge_json (merge_json d s) s = merge_json d s"
  using wf_merge[OF assms] merge_again[OF assms] by simp

lemma merge_json_idempotent_witness:
  "let d = JObject [(''a'', JArray [JNumber 1, JNumber 1]), (''b'', JObject [(''x'', JNull)])];
       s = JObject [(''a'', JArray [JNumber (2::nat), JNumber 1]), (''b'', JString ''t''), (''c'', JNull)]
   in merge_json d s =
        JObject [(''a'', JArray [JNumber 1, JNumber 2]), (''b'', JString ''t'')] \<and>
      merge_json (merge_json d s) s = merge_json d s"
proof -
  let ?d = "JObject [(''a'', JArray [JNumber (1::nat), JNumber 1]), (''b'', JObject [(''x'', JNull)])]"
  let ?s = "JObject [(''a'', JArray [JNumber (2::nat), JNumber 1]), (''b'', JString ''t''), (''c'', JNull)]"
  have "wf_json ?d" "wf_json ?s" by code_simp+
  note merge_json_idempotent[OF this]
  moreover have "merge_json ?d ?s =
      JObject [(''a'', JArray [JNumber 1, JNumber 2]), (''b'', JString ''t'')]" by code_simp
  ultimately show ?thesis unfolding Let_def by blast
qed

section \<open>Merging capabilities\<close>

text \<open>A map field of the capabilities (environment, host table, default models, model effort) resolves
  exactly: it fails exactly when for some key two contributors of equal precedence disagree, at any
  precedence, and otherwise every key holds the value of the highest contributor that sets it, and
  the result is a sorted map.\<close>

lemma map_field_exact:
  assumes "\<forall>c \<in> set cs. distinct (map fst (pick (c_capabilities c)))"
  shows "resolve_per_key cs label pick = Inr m \<longleftrightarrow>
    sorted_map m \<and>
    (\<forall>k. no_conflict (\<lambda>c. map_of (pick c) k) (set cs) \<and>
       (case map_of m k of
          None \<Rightarrow> \<forall>c \<in> set cs. map_of (pick (c_capabilities c)) k = None
        | Some v \<Rightarrow> wins (\<lambda>c. map_of (pick c) k) (set cs) v))"
  unfolding resolve_per_key_ok[OF assms, where f = label] highest_precedence_ok ..

definition source :: "string \<Rightarrow> nat \<Rightarrow> 'c \<Rightarrow> 'c contributor" where
  "source n p c = \<lparr>c_name = n, c_precedence = p, c_capabilities = c\<rparr>"

lemma map_field_exact_witness:
  "let cs = [source ''a'' 1 [(''K'', ''low'')], source ''b'' 4 [(''K'', ''high''), (''L'', ''x'')]]
   in resolve_per_key cs ''env key'' id = Inr [(''K'', ''high''), (''L'', ''x'')] \<and>
      wins (\<lambda>c. map_of (id c) ''K'') (set cs) ''high''"
proof -
  let ?cs = "[source ''a'' 1 [(''K'', ''low'')], source ''b'' 4 [(''K'', ''high''), (''L'', ''x'')]]"
  have wf: "\<forall>c \<in> set ?cs. distinct (map fst (id (c_capabilities c)))" by code_simp
  have run: "resolve_per_key ?cs ''env key'' id = Inr [(''K'', ''high''), (''L'', ''x'')]" by code_simp
  note map_field_exact[OF wf, THEN iffD1, OF run, THEN conjunct2, THEN spec, of "''K''", THEN conjunct2]
  then have "wins (\<lambda>c. map_of (id c) ''K'') (set ?cs) ''high''" by simp
  then show ?thesis using run unfolding Let_def by blast
qed


definition no_permissions :: permissions where
  "no_permissions = \<lparr>p_default_mode = None, p_preset = None, p_allow = [], p_ask = [], p_deny = []\<rparr>"

definition no_caps :: "'p capabilities" where
  "no_caps =
     \<lparr>cap_permissions = no_permissions, cap_hooks = [], cap_plugins = [], cap_mcp = [], cap_lsp = [],
      cap_skills = [], cap_output_styles = [], cap_env = [], cap_auto_memory_enabled = None,
      cap_effort_level = None, cap_model_effort = [], cap_advisor_model = None, cap_advisor_size = None,
      cap_native_permissions = [], cap_native_hooks = [], cap_native_plugins = [], cap_native_mcp = [],
      cap_native_model_providers = [], cap_native_default_models = [], cap_native = [],
      cap_features = None, cap_host = [], cap_model_providers = [], cap_default_models = []\<rparr>"

definition caps_a :: "nat capabilities" where
  "caps_a = no_caps\<lparr>cap_env := [(''K'', ''one'')], cap_effort_level := Some ''low'',
     cap_permissions := no_permissions\<lparr>p_deny := [bash_rule ''rm *'']\<rparr>\<rparr>"

definition caps_b :: "nat capabilities" where
  "caps_b = no_caps\<lparr>cap_env := [(''K'', ''two'')], cap_effort_level := Some ''high'',
     cap_permissions := no_permissions\<lparr>p_preset := Some SafeReadonly\<rparr>\<rparr>"






text \<open>
  Native fragments are the exception to the order independence: two contributors of equal precedence
  that set one key to different values do not conflict, and the one that comes last wins.
\<close>

definition native_caps :: "bool \<Rightarrow> nat capabilities" where
  "native_caps b = no_caps\<lparr>cap_native := [(''claude_code'', YMapping [(YString ''flag'', YBool b)])]\<rparr>"

lemma native_tie_depends_on_order:
  "map_sum id cap_native (merge_capabilities NotPresent [source ''a'' 1 (native_caps True), source ''b'' 1 (native_caps False)]) =
     Inr [(''claude_code'', YMapping [(YString ''flag'', YBool False)])]"
  "map_sum id cap_native (merge_capabilities NotPresent [source ''b'' 1 (native_caps False), source ''a'' 1 (native_caps True)]) =
     Inr [(''claude_code'', YMapping [(YString ''flag'', YBool True)])]"
  by code_simp+

section \<open>Merging bundles\<close>

text \<open>A file of the manifest comes from the last bundle that has it: after a successful merge, a relative
  path maps to the folder of the last selected bundle whose \<open>skills\<close>, \<open>plugins\<close> or \<open>hooks\<close> tree holds
  a regular file there, and to nothing when no bundle does; files behind symbolic links never count.
\<close>

lemma manifest_file_from_last_bundle:
  assumes "merge home top_level native bs = Inr m"
  shows "map_of (mf_files m) p =
    (case find (\<lambda>(b, f). p \<in> set (bundle_paths f)) (rev bs) of
       Some (b, f) \<Rightarrow> Some (br_path b, p) | None \<Rightarrow> None)"
proof -
  obtain st where st: "merge_bundles bs \<lparr>ms_agents = [], ms_files = [], ms_rules = [],
      ms_contributors = top_contributor top_level\<rparr> = Inr st" "mf_files m = ms_files st"
    using assms by (auto simp: merge_def seqR_ok Let_def)
  show ?thesis using merge_bundles_files[OF st(1), of p] st(2) by (simp split: option.split)
qed

definition folder :: "(string \<times> fnode) list \<Rightarrow> 'p capabilities option \<Rightarrow> 'p bundle_folder" where
  "folder skills caps =
     \<lparr>bf_agents_md = NoFile, bf_skills = Some (FDir skills), bf_plugins = None, bf_hooks = None,
      bf_rules = None, bf_yaml = Inr caps\<rparr>"

definition ref :: "string \<Rightarrow> nat \<Rightarrow> bundle_ref" where
  "ref n p = \<lparr>br_name = n, br_path = ''/b/'' @ n, br_precedence = p\<rparr>"

definition two_bundles :: "(bundle_ref \<times> nat bundle_folder) list" where
  "two_bundles =
     [(ref ''net'' 5, folder [(''x.md'', FFile (TextFile ''one'')), (''l'', FLink)] (Some caps_a)),
      (ref ''proj'' 1, folder [(''x.md'', FFile (TextFile ''two''))] (Some caps_b))]"

lemma manifest_file_from_last_bundle_witness:
  "\<exists>m. merge NotPresent no_caps [] two_bundles = Inr m \<and>
     map_of (mf_files m) [''skills'', ''x.md''] = Some (''/b/proj'', [''skills'', ''x.md'']) \<and>
     map_of (mf_files m) [''skills'', ''l''] = None"
proof -
  have "(case merge NotPresent no_caps [] two_bundles of Inr m \<Rightarrow> True | _ \<Rightarrow> False)" by code_simp
  then obtain m where m: "merge NotPresent no_caps [] two_bundles = Inr m"
    by (auto split: sum.splits)
  have "find (\<lambda>(b, f). [''skills'', ''x.md''] \<in> set (bundle_paths f)) (rev two_bundles) = Some (two_bundles ! 1)"
    "find (\<lambda>(b, f). [''skills'', ''l''] \<in> set (bundle_paths f)) (rev two_bundles) = None"
    by code_simp+
  then show ?thesis
    using m manifest_file_from_last_bundle[OF m, of "[''skills'', ''x.md'']"]
      manifest_file_from_last_bundle[OF m, of "[''skills'', ''l'']"]
    by (simp add: two_bundles_def ref_def)
qed

text \<open>
  The placement order and the rank point in opposite directions: of two bundles that a network scope
  and the project select, the file comes from the project's and the scalar from the network's.
\<close>

lemma file_and_scalar_winner_differ:
  "case merge NotPresent no_caps [] two_bundles of
     Inr m \<Rightarrow> map_of (mf_files m) [''skills'', ''x.md''] = Some (''/b/proj'', [''skills'', ''x.md'']) \<and>
       cap_effort_level (mf_capabilities m) = cap_effort_level caps_a
   | Inl _ \<Rightarrow> False"
  by code_simp

text \<open>The configuration file outranks every bundle: where the merge succeeds, a default permission mode
  or an effort level that the top level sets has its value in the manifest, whatever the bundles
  declare, provided that every bundle has a rank below that of the top level.\<close>

lemma config_outranks_bundles:
  assumes "merge home top_level native bs = Inr m"
    and "\<forall>b \<in> set bs. br_precedence (fst b) < top_level_precedence"
  shows "(case p_default_mode (cap_permissions top_level) of
      None \<Rightarrow> True | Some d \<Rightarrow> p_default_mode (cap_permissions (mf_capabilities m)) = Some d) \<and>
    (case cap_effort_level top_level of
      None \<Rightarrow> True | Some l \<Rightarrow> cap_effort_level (mf_capabilities m) = Some l)"
proof -
  obtain st caps where st: "merge_bundles bs \<lparr>ms_agents = [], ms_files = [], ms_rules = [],
      ms_contributors = top_contributor top_level\<rparr> = Inr st"
    and caps: "merge_capabilities home (ms_contributors st) = Inr caps" "mf_capabilities m = propagate_effort caps"
    using assms(1) by (auto simp: merge_def seqR_ok Let_def)
  obtain new where new: "ms_contributors st = top_contributor top_level @ new"
    "\<forall>c \<in> set new. \<exists>b \<in> fst ` set bs. c_precedence c = br_precedence b"
    using merge_bundles_contributors[OF st] by auto
  let ?top = "\<lparr>c_name = ''config.yaml'', c_precedence = top_level_precedence, c_capabilities = top_level\<rparr>"
  have le: "\<forall>d \<in> set (ms_contributors st). c_precedence d \<le> c_precedence ?top"
    using new assms(2) by (auto simp: top_contributor_def split: if_splits) (metis fst_conv less_imp_le)+
  have mem: "?top \<in> set (ms_contributors st)" if "\<not> capabilities_is_empty top_level"
    using that new(1) by (simp add: top_contributor_def)
  have mode: "highest_precedence (ms_contributors st) ''default_mode'' (p_default_mode \<circ> cap_permissions) =
      Inr (p_default_mode (cap_permissions caps))"
    and effort: "highest_precedence (ms_contributors st) ''effort_level'' cap_effort_level = Inr (cap_effort_level caps)"
    using caps(1) by (auto simp: merge_capabilities_def seqR_ok scalar_ok)
  have "p_default_mode (cap_permissions caps) = Some d" if d: "p_default_mode (cap_permissions top_level) = Some d" for d
    by (rule top_scalar_wins[OF mode mem _ le])
      (use d in \<open>auto simp: capabilities_is_empty_def permissions_is_empty_def\<close>)
  moreover have "cap_effort_level caps = Some l" if l: "cap_effort_level top_level = Some l" for l
    by (rule top_scalar_wins[OF effort mem _ le]) (use l in \<open>auto simp: capabilities_is_empty_def\<close>)
  ultimately show ?thesis
    unfolding caps(2) propagate_effort_def
    by (auto split: option.splits)
qed

lemma config_outranks_bundles_witness:
  "\<exists>m. merge NotPresent caps_a [] [(ref ''proj'' 5, folder [] (Some caps_b))] = Inr m \<and>
     cap_effort_level (mf_capabilities m) = Some ''low''"
proof -
  let ?bs = "[(ref ''proj'' 5, folder [] (Some caps_b))]"
  have "(case merge NotPresent caps_a [] ?bs of Inr m \<Rightarrow> True | _ \<Rightarrow> False)" by code_simp
  then obtain m where m: "merge NotPresent caps_a [] ?bs = Inr m" by (auto split: sum.splits)
  have "cap_effort_level caps_a = Some ''low''"
    "\<forall>b \<in> set ?bs. br_precedence (fst b) < top_level_precedence" by code_simp+
  then show ?thesis using m config_outranks_bundles[OF m] by auto
qed

text \<open>The frontmatter of a rule file is split without loss: whatever the file holds, the parts put together
  give its text back, a file without a complete block is all body, and a block whose lines are not
  fences is read back exactly as it was written.\<close>

lemma frontmatter_round_trip:
  assumes "find_sub closer (nl # fm @ [nl]) = None"
  shows "split_frontmatter (opener @ fm @ closer @ body) = (Some fm, body) \<and>
    (case split_frontmatter raw of
       (None, b) \<Rightarrow> b = raw
     | (Some f, b) \<Rightarrow>
         raw = opener @ f @ closer @ b \<or> f = [] \<and> raw = opener @ opener @ b \<or>
         b = [] \<and> raw = opener @ f @ nl # ''---'' \<or> f = [] \<and> b = [] \<and> raw = opener @ ''---'')"
proof -
  obtain fm' body' where r: "split_frontmatter raw = (fm', body')" by (cases "split_frontmatter raw")
  show ?thesis
    using split_frontmatter_written[OF assms] split_frontmatter_sound[OF r] r by (cases fm') auto
qed

lemma frontmatter_round_trip_witness:
  "split_frontmatter (opener @ ''paths: x'' @ closer @ ''Body'') = (Some ''paths: x'', ''Body'') \<and>
   split_frontmatter ''--- no'' = (None, ''--- no'')"
proof -
  have "find_sub closer (nl # ''paths: x'' @ [nl]) = None" by code_simp
  note r = frontmatter_round_trip[OF this, of "''Body''" "''--- no''"]
  have "fst (split_frontmatter ''--- no'') = None" by code_simp
  then show ?thesis using r by (cases "split_frontmatter ''--- no''") auto
qed

section \<open>Scopes\<close>

text \<open>C16. One walk of the working directory for all content scopes finds what a walk of its own would find for
  each scope: the matched ids are exactly those of the scopes whose glob compiles and matches an entry
  within the depth limit of the scope.  The hypothesis states the documented effect of the depth limit
  of the directory walker.\<close>

theorem content_walk_exact:
  assumes "\<And>n. walk_dir (Some n) = filter (\<lambda>e. entry_depth e \<le> n) (walk_dir None)"
  shows "set (matches_content_all glob_new walk_dir scopes) =
    cs_id ` {s \<in> set scopes. scope_hit glob_new walk_dir s}"
  by (rule matches_content_exact[OF assms])

definition demo_walk :: "nat option \<Rightarrow> walk_entry list" where
  "demo_walk limit =
     filter (\<lambda>e. case limit of None \<Rightarrow> True | Some n \<Rightarrow> entry_depth e \<le> n)
       [WDir 0, WFile 1 [''Cargo.toml''], WDir 1, WError 2, WFile 2 [''src'', ''a.rs'']]"

definition demo_glob :: "string \<Rightarrow> (path \<Rightarrow> bool) option" where
  "demo_glob g = (if g = ''['' then None else Some (\<lambda>rel. last rel = g))"

definition content :: "string \<Rightarrow> string \<Rightarrow> nat option \<Rightarrow> content_scope" where
  "content i g d = \<lparr>cs_id = i, cs_glob = g, cs_depth = d, cs_tags = []\<rparr>"

theorem content_walk_exact_witness:
  "set (matches_content_all demo_glob demo_walk
     [content ''rust'' ''Cargo.toml'' (Some 1), content ''deep'' ''a.rs'' (Some 1), content ''bad'' ''['' None]) = {''rust''}"
proof -
  let ?scopes = "[content ''rust'' ''Cargo.toml'' (Some 1), content ''deep'' ''a.rs'' (Some 1), content ''bad'' ''['' None]"
  have "demo_walk (Some n) = filter (\<lambda>e. entry_depth e \<le> n) (demo_walk None)" for n
    by (simp add: demo_walk_def)
  note content_walk_exact[where walk_dir = demo_walk, OF this, of demo_glob ?scopes]
  moreover have "map (scope_hit demo_glob demo_walk) ?scopes = [True, False, False]" by code_simp
  then have "{s \<in> set ?scopes. scope_hit demo_glob demo_walk s} = {content ''rust'' ''Cargo.toml'' (Some 1)}"
    by auto
  ultimately show ?thesis by (simp add: content_def)
qed

text \<open>The active tags are bounded and usable: at most 64 tags are active, each once, each at most 64 bytes
  long, and each gives the keyword that memory is stored and recalled under, when the extra tags come
  from the environment variable and the name of the system is a plain word.\<close>

lemma active_tags_usable:
  assumes "extra_tags_from_var v = Inr (en_extra_tags e)"
    and "is_valid_tag_charset (en_os e)" and "length (en_os e) \<le> 64"
  shows "length (av_tags (evaluate w cfg e)) \<le> 64 \<and> distinct (av_tags (evaluate w cfg e)) \<and>
    (\<forall>t \<in> set (av_tags (evaluate w cfg e)). length t \<le> 64 \<and> tag_keyword t = Inr (''llmenv-tag:'' @ t))"
proof -
  have "is_valid_tag_charset t \<and> length t \<le> 64" if "t \<in> set (av_tags (evaluate w cfg e))" for t
    using evaluate_tags_from[OF that] evaluate_scope_tags[of _ w cfg e] sanitize_tags_props(2)
      extra_tags_valid[OF assms(1)] assms(2,3) by metis
  then show ?thesis
    using cap_aggregate_props unfolding evaluate_tags by (simp add: tag_keyword_def)
qed

definition demo_env :: "nat host_env" where
  "demo_env =
     \<lparr>en_hostname = ''still'', en_user = ''ann'', en_cwd = [''home'', ''ann'', ''proj''], en_gateway_mac = None,
      en_local_addrs = [], en_ssid = None, en_home = Some [''home'', ''ann''], en_os = ''linux'',
      en_extra_tags = parse_extra_tags '' work, bad tag ,,vpn''\<rparr>"

definition parsed :: "string list \<Rightarrow> string list \<Rightarrow> string list \<Rightarrow> marker" where
  "parsed tags enable disable =
     MParsed (empty_project_file\<lparr>pf_tags := tags, pf_enable_bundles := enable, pf_disable_bundles := disable\<rparr>)"

definition demo_world :: "(path \<Rightarrow> marker option) \<Rightarrow> nat world" where
  "demo_world mk =
     \<lparr>w_parse_net = (\<lambda>_. None), w_glob_new = demo_glob, w_walk_dir = demo_walk, w_cwd_exists = True,
      w_marker_at = mk\<rparr>"

definition demo_config :: scopes_config where
  "demo_config =
     \<lparr>sc_network = [], sc_host = [\<lparr>hs_id = ''h'', hs_hostname = Some ''ST*'', hs_tags = [''desk'']\<rparr>],
      sc_user = [], sc_content = [content ''rust'' ''Cargo.toml'' None\<lparr>cs_tags := [''lang-rust'']\<rparr>]\<rparr>"

definition marker_in :: "path \<Rightarrow> marker \<Rightarrow> path \<Rightarrow> marker option" where
  "marker_in p m = (\<lambda>q. if q = p then Some m else None)"

lemma active_tags_usable_witness:
  "av_tags (evaluate (demo_world (marker_in [''home'', ''ann''] (parsed [''web''] [] []))) demo_config demo_env) =
     [''desk'', ''lang-rust'', ''linux'', ''vpn'', ''web'', ''work''] \<and> tag_keyword ''vpn'' = Inr ''llmenv-tag:vpn''"
proof -
  let ?w = "demo_world (marker_in [''home'', ''ann''] (parsed [''web''] [] []))"
  have tags: "av_tags (evaluate ?w demo_config demo_env) =
      [''desk'', ''lang-rust'', ''linux'', ''vpn'', ''web'', ''work'']" by code_simp
  have "extra_tags_from_var (VarSet '' work, bad tag ,,vpn'') = Inr (en_extra_tags demo_env)"
    "is_valid_tag_charset (en_os demo_env)" "length (en_os demo_env) \<le> 64" by code_simp+
  note active_tags_usable[OF this, of ?w demo_config]
  then have "tag_keyword ''vpn'' = Inr (''llmenv-tag:'' @ ''vpn'')"
    unfolding tags by simp
  then show ?thesis using tags by simp
qed

text \<open>C15. A project tag does not leak to the host level: a tag that only the project marker or the extra-tags
  variable brings is not among the host-level tags, and a tag of a matching network, host, user or
  content scope always is.\<close>

theorem project_tags_stay_in_project:
  "t \<in> set (non_project_tags (evaluate w cfg e)) \<longleftrightarrow>
     (\<exists>s \<in> set (environment_scopes w cfg e). t \<in> set (as_tags s)) \<or>
     t \<in> set (av_tags (evaluate w cfg e)) \<and> t = en_os e \<and> en_os e \<noteq> [] \<and> t \<notin> set (en_extra_tags e) \<and>
     (case discover_project (w_marker_at w) e of None \<Rightarrow> True | Some p \<Rightarrow> t \<notin> set (rp_tags p))"
proof -
  let ?a = "evaluate w cfg e"
  have scopes: "av_scopes ?a = environment_scopes w cfg e @
      (case discover_project (w_marker_at w) e of None \<Rightarrow> [] | Some p \<Rightarrow> [project_scope p])"
    and extra: "set (av_extra_tags ?a) = set (en_extra_tags e)"
    by (simp_all add: evaluate_def Let_def)
  have env: "(\<exists>s \<in> set (av_scopes ?a). as_kind s \<noteq> ''project'' \<and> t \<in> set (as_tags s)) \<longleftrightarrow>
      (\<exists>s \<in> set (environment_scopes w cfg e). t \<in> set (as_tags s))"
    unfolding scopes using environment_scope_tags(1)[of _ w cfg e]
    by (cases "discover_project (w_marker_at w) e") (auto simp: project_scope_def)
  have none: "(\<forall>s \<in> set (av_scopes ?a). t \<notin> set (as_tags s)) \<longleftrightarrow>
      (\<forall>s \<in> set (environment_scopes w cfg e). t \<notin> set (as_tags s)) \<and>
      (case discover_project (w_marker_at w) e of None \<Rightarrow> True | Some p \<Rightarrow> t \<notin> set (rp_tags p))"
    unfolding scopes by (cases "discover_project (w_marker_at w) e") (auto simp: project_scope_def)
  show ?thesis
    unfolding non_project_tags_mem env none extra
    using evaluate_tags_from[of t w cfg e] none by blast
qed

text \<open>The tag of the operating system is lost to the host level when the marker names it.\<close>

lemma marker_hides_system_tag:
  "''linux'' \<in> set (non_project_tags (evaluate (demo_world (\<lambda>_. None)) demo_config demo_env))"
  "''linux'' \<notin> set (non_project_tags
     (evaluate (demo_world (marker_in [''home'', ''ann''] (parsed [''linux''] [] []))) demo_config demo_env))"
  by code_simp+

text \<open>The project marker is the nearest one: below the home folder the search returns the marker of the
  deepest folder that has one, between the working directory and the home folder, and nothing when no
  folder in between has one; a marker above the home folder is never used.\<close>

lemma marker_search_exact:
  assumes "en_home e = Some h" and "prefix h (en_cwd e)"
  shows "(case discover_project mk e of
     None \<Rightarrow> \<forall>r. prefix h r \<and> prefix r (en_cwd e) \<longrightarrow> mk r = None
   | Some p \<Rightarrow> \<exists>r m. prefix h r \<and> prefix r (en_cwd e) \<and> mk r = Some m \<and> p = resolve_project r m \<and>
       (\<forall>q. strict_prefix r q \<and> prefix q (en_cwd e) \<longrightarrow> mk q = None))"
  using discover_inside[OF assms(2), of mk] by (simp add: discover_project_def assms(1))

lemma marker_search_exact_witness:
  "\<exists>p. discover_project (marker_in [''home'', ''ann''] (parsed [''web''] [] [])) demo_env = Some p \<and>
     rp_root p = [''home'', ''ann''] \<and>
     discover_project (marker_in [''home''] (parsed [''web''] [] [])) demo_env = None"
proof -
  let ?mk = "marker_in [''home'', ''ann''] (parsed [''web''] [] [])"
  have "en_home demo_env = Some [''home'', ''ann'']" "prefix [''home'', ''ann''] (en_cwd demo_env)"
    by (simp_all add: demo_env_def)
  note search = marker_search_exact[OF this]
  have "discover_project ?mk demo_env \<noteq> None"
    "discover_project (marker_in [''home''] (parsed [''web''] [] [])) demo_env = None" by code_simp+
  moreover from this(1) obtain p where p: "discover_project ?mk demo_env = Some p" by blast
  then obtain r m where "?mk r = Some m" "p = resolve_project r m"
    using search[of ?mk] by auto
  then have "rp_root p = [''home'', ''ann'']"
    by (auto simp: marker_in_def resolve_project_def Let_def split: if_splits)
  ultimately show ?thesis using p by blast
qed

text \<open>Outside the home folder the search does not stop below the root, so it uses a marker in a shared folder.\<close>

lemma marker_outside_home_is_used:
  "discover_project (marker_in [''tmp''] m)
     (demo_env\<lparr>en_cwd := [''tmp'', ''build'']\<rparr>) = Some (resolve_project [''tmp''] m)"
  by (simp add: discover_project_def demo_env_def discover_from_step marker_in_def)

text \<open>Host globs accept every name they mean, and with at most one star nothing else: the text around the
  star is a prefix and a suffix that do not overlap, and case does not count.\<close>

lemma host_glob_exact:
  "(glob_means pattern t \<longrightarrow> glob_matches pattern t) \<and>
   (length (split_on (\<lambda>c. c = CHR ''*'') (to_lower pattern)) \<le> 2 \<longrightarrow>
     glob_matches pattern t = glob_means pattern t)"
  using glob_complete glob_exact_one_star by blast

lemma host_glob_exact_witness:
  "glob_matches ''Build-*.local'' ''build-07.LOCAL'' \<and> \<not> glob_means ''ab*b'' ''ab''"
proof -
  have "length (split_on (\<lambda>c. c = CHR ''*'') (to_lower ''ab*b'')) \<le> 2" "\<not> glob_matches ''ab*b'' ''ab''"
    "glob_matches ''Build-*.local'' ''build-07.LOCAL''" by code_simp+
  then show ?thesis using host_glob_exact[of "''ab*b''" "''ab''"] by blast
qed

text \<open>With two stars a middle part may overlap the end: the name is too short for what the glob means.\<close>

lemma glob_middle_overlaps_end: "glob_matches ''*ab*b'' ''ab''"
  by code_simp

section \<open>Bundles\<close>

text \<open>
  Which bundles fire: a bundle fires exactly when no active scope disables it, the tag filter of the
  command line admits it, and it has an active tag or is enabled by name; a disable wins even over an
  enable of the same marker.
\<close>

lemma bundle_fires_exactly:
  "b \<in> set (firing_bundles bundles a tag_filter) \<longleftrightarrow>
     b \<in> set bundles \<and>
     b_name b \<notin> (\<Union>s \<in> set (av_scopes a). set (as_disable_bundles s)) \<and>
     (case tag_filter of None \<Rightarrow> True | Some t \<Rightarrow> t \<in> set (b_when b)) \<and>
     (set (b_when b) \<inter> set (av_tags a) \<noteq> {} \<or>
      b_name b \<in> (\<Union>s \<in> set (av_scopes a). set (as_enable_bundles s)))"
  unfolding firing_bundles_mem
  by (simp add: marker_disabled_bundle_names_def marker_enabled_bundle_names_def)


definition marked :: "string list \<Rightarrow> string list \<Rightarrow> active_scopes" where
  "marked enable disable =
     evaluate (demo_world (marker_in [''home'', ''ann''] (parsed [''web''] enable disable))) demo_config demo_env"

definition demo_bundles :: "bundle_entry list" where
  "demo_bundles =
     [\<lparr>b_name = ''base'', b_when = [''desk'', ''web'']\<rparr>, \<lparr>b_name = ''site'', b_when = [''web'']\<rparr>,
      \<lparr>b_name = ''extra'', b_when = [''never'']\<rparr>]"


text \<open>A bundle that a project marker enables by name has the lowest rank of all.\<close>

lemma enabled_bundle_ranks_lowest:
  "map (\<lambda>r. (br_name r, br_precedence r))
     (build_bundle_refs (\<lambda>_. True) ''/c'' (marked [''extra''] []) (firing_bundles demo_bundles (marked [''extra''] []) None)) =
   [(''base'', 4), (''site'', 1), (''extra'', 0)]"
  by code_simp

end
