(* ===== verification/Shell.thy ===== *)
theory Shell
  imports Scope
begin

text \<open>
  The shell splitter of the hooks: \<open>src/hook_run/shell_split.rs\<close>, \<open>shell_split/scan.rs\<close> and
  \<open>wrappers.rs\<close>, the commit gate and the step boundaries that read its segments, \<open>cd_guard.rs\<close>, and the
  quoting of \<open>crates/llmenv-util/src/shell.rs\<close>.  A command is a string of UTF-8 bytes; every character
  that the splitter treats specially is a single byte, apart from white space.  The nesting bound is a
  number of levels that are left: a command around which \<open>depth\<close> levels lie has \<open>33 - depth\<close> of them.
\<close>

section \<open>Characters\<close>

definition squote :: char where "squote = CHR 0x27"
definition dquote :: char where "dquote = CHR 0x22"
definition bslash :: char where "bslash = CHR 0x5C"
definition backtick :: char where "backtick = CHR 0x60"

definition is_operator :: "char \<Rightarrow> bool" where
  "is_operator c \<longleftrightarrow> c = CHR '';'' \<or> c = CHR ''|'' \<or> c = CHR ''&'' \<or> c = nl"

section \<open>Substitutions\<close>

datatype nesting_error = NestingTooDeep

definition max_substitution_depth :: nat where "max_substitution_depth = 32"

text \<open>The text up to the closing parenthesis, and what follows it.\<close>

fun take_until_close :: "nat \<Rightarrow> bool \<Rightarrow> bool \<Rightarrow> string \<Rightarrow> string \<times> string" where
  "take_until_close depth single double [] = ([], [])"
| "take_until_close depth single double (c # cs) =
     (if single then apfst (Cons c) (take_until_close depth (c \<noteq> squote) double cs)
      else if c = bslash then
        (case cs of
           [] \<Rightarrow> ([c], [])
         | d # ds \<Rightarrow> apfst (\<lambda>r. c # d # r) (take_until_close depth single double ds))
      else if c = squote \<and> \<not> double then apfst (Cons c) (take_until_close depth True double cs)
      else if c = dquote then apfst (Cons c) (take_until_close depth single (\<not> double) cs)
      else if c = CHR '')'' \<and> \<not> double \<and> depth = 0 then ([], cs)
      else if c = CHR '')'' \<and> \<not> double then apfst (Cons c) (take_until_close (depth - 1) single double cs)
      else if c = CHR ''('' \<and> \<not> double then apfst (Cons c) (take_until_close (depth + 1) single double cs)
      else apfst (Cons c) (take_until_close depth single double cs))"

lemma take_until_close_shorter: "length (snd (take_until_close n s d cs)) \<le> length cs"
proof (induction "length cs" arbitrary: n s d cs rule: less_induct)
  case less
  show ?case
  proof (cases cs)
    case (Cons c ys)
    have tail: "length (snd (take_until_close m t e ys)) \<le> Suc (length ys)" for m t e
      using less[of ys m t e] Cons by simp
    have rest: "length (snd (take_until_close m t e zs)) \<le> Suc (Suc (length zs))"
      if "ys = z # zs" for m t e z zs
      using less[of zs m t e] Cons that by simp
    show ?thesis using tail rest unfolding Cons by (simp split: list.split)
  qed simp
qed

definition part :: "string \<Rightarrow> string" where
  "part inner = CHR '';'' # inner @ '';''"

definition opens_group :: "string \<Rightarrow> bool" where
  "opens_group cs \<longleftrightarrow> (case cs of c # _ \<Rightarrow> c = CHR ''('' | [] \<Rightarrow> False)"

lemma group_rest_shorter:
  "opens_group cs \<Longrightarrow> length (snd (take_until_close 0 False False (tl cs))) < length cs"
  using take_until_close_shorter[of 0 False False "tl cs"]
  by (cases cs) (simp_all add: opens_group_def)

lemma backtick_rest_shorter: "length (tl (dropWhile P cs)) \<le> length cs"
  using length_dropWhile_le[of P cs] by simp

text \<open>
  One pass over a command.  \<open>out\<close> holds the finished segments, \<open>seg\<close> the text of the segment that is
  being read and \<open>hoisted\<close> the parts to put before it; \<open>sub\<close> splits the text of a substitution.
\<close>

function split_scan ::
  "(string \<Rightarrow> nesting_error + string) \<Rightarrow> string \<Rightarrow> string \<Rightarrow> string \<Rightarrow> bool \<Rightarrow> bool \<Rightarrow> string \<Rightarrow>
   nesting_error + string" where
  "split_scan sub out seg hoisted single double [] = Inr (out @ hoisted @ seg)"
| "split_scan sub out seg hoisted single double (c # cs) =
     (if c = squote \<and> \<not> double then split_scan sub out (seg @ [c]) hoisted (\<not> single) double cs
      else if c = dquote \<and> \<not> single then split_scan sub out (seg @ [c]) hoisted single (\<not> double) cs
      else if c = bslash \<and> \<not> single then
        (case cs of
           [] \<Rightarrow> split_scan sub out (seg @ [c]) hoisted single double []
         | d # ds \<Rightarrow> split_scan sub out (seg @ [c, d]) hoisted single double ds)
      else if c = CHR ''$'' \<and> \<not> single \<and> opens_group cs then
        (let (inner, rest) = take_until_close 0 False False (tl cs) in
         seqR (sub inner) (\<lambda>i. split_scan sub out seg (hoisted @ part i) single double rest))
      else if c = backtick \<and> \<not> single then
        (let inner = takeWhile (\<lambda>d. d \<noteq> backtick) cs; rest = tl (dropWhile (\<lambda>d. d \<noteq> backtick) cs) in
         seqR (sub inner) (\<lambda>i. split_scan sub out seg (hoisted @ part i) single double rest))
      else if (c = CHR ''<'' \<or> c = CHR ''>'') \<and> \<not> single \<and> \<not> double \<and> opens_group cs then
        (let (inner, rest) = take_until_close 0 False False (tl cs) in
         seqR (sub inner) (\<lambda>i. split_scan sub (out @ hoisted @ seg @ part i) [] [] single double rest))
      else if is_operator c \<and> \<not> single \<and> \<not> double then
        split_scan sub (out @ hoisted @ seg @ [c]) [] [] single double cs
      else split_scan sub out (seg @ [c]) hoisted single double cs)"
  by pat_completeness auto
termination
proof (relation "measure (\<lambda>(sub, out, seg, h, s, d, cs). length cs)", goal_cases)
  case (6 sub out seg hoisted single double c cs x inner rest i)
  then show ?case using group_rest_shorter[of cs] by (simp add: prod_eq_iff)
next
  case (7 sub out seg hoisted single double c cs inner rest i)
  then show ?case using backtick_rest_shorter[of "\<lambda>d. d \<noteq> backtick" cs] by simp
next
  case (8 sub out seg hoisted single double c cs x inner rest i)
  then show ?case using group_rest_shorter[of cs] by (simp add: prod_eq_iff)
qed simp_all

fun split_levels :: "nat \<Rightarrow> string \<Rightarrow> nesting_error + string" where
  "split_levels 0 command = Inl NestingTooDeep"
| "split_levels (Suc n) command = split_scan (split_levels n) [] [] [] False False command"

definition split_at_depth :: "string \<Rightarrow> nat \<Rightarrow> nesting_error + string" where
  "split_at_depth command depth = split_levels (Suc max_substitution_depth - depth) command"

definition ends_with_substitution :: "string \<Rightarrow> nesting_error + bool" where
  "ends_with_substitution command =
     (let command = trim_end command in
      if command = [] \<or> (last command \<noteq> CHR '')'' \<and> last command \<noteq> backtick) then Inr False
      else seqR (split_at_depth command 0) (\<lambda>s. Inr (ends_with (trim_end s) '';'')))"

section \<open>Words\<close>

definition push_char :: "string option \<Rightarrow> char \<Rightarrow> string option" where
  "push_char w c = Some ((case w of None \<Rightarrow> [] | Some s \<Rightarrow> s) @ [c])"

definition flush_word :: "string list \<Rightarrow> string option \<Rightarrow> string list" where
  "flush_word words w = (case w of None \<Rightarrow> words | Some s \<Rightarrow> words @ [s])"

definition flush_segment :: "string list list \<Rightarrow> string list \<Rightarrow> string list list" where
  "flush_segment segments words = (if words = [] then segments else segments @ [words])"

function split_words_from ::
  "string list list \<Rightarrow> string list \<Rightarrow> string option \<Rightarrow> char option \<Rightarrow> string \<Rightarrow> string list list" where
  "split_words_from segments words w q [] = flush_segment segments (flush_word words w)"
| "split_words_from segments words w q (c # cs) =
     (case q of
        Some k \<Rightarrow>
          if c = k then split_words_from segments words w None cs
          else if k = dquote \<and> c = bslash then
            (case cs of
               [] \<Rightarrow> split_words_from segments words w q []
             | d # ds \<Rightarrow> split_words_from segments words (push_char w d) q ds)
          else split_words_from segments words (push_char w c) q cs
      | None \<Rightarrow>
          if c = squote \<or> c = dquote then
            split_words_from segments words (Some (case w of None \<Rightarrow> [] | Some s \<Rightarrow> s)) (Some c) cs
          else if c = bslash then
            (case cs of
               [] \<Rightarrow> split_words_from segments words w q []
             | d # ds \<Rightarrow> split_words_from segments words (push_char w d) q ds)
          else if is_operator c then
            split_words_from (flush_segment segments (flush_word words w)) [] None None cs
          else if ws_len (c # cs) \<noteq> 0 then
            split_words_from segments (flush_word words w) None None (drop (ws_len (c # cs)) (c # cs))
          else split_words_from segments words (push_char w c) q cs)"
  by pat_completeness auto
termination
  by (relation "measure (\<lambda>(segments, words, w, q, cs). length cs)") auto

definition split_words :: "string \<Rightarrow> string list list" where
  "split_words command = split_words_from [] [] None None command"

section \<open>Programs and wrappers\<close>

definition program :: "string \<Rightarrow> string" where
  "program word = last (split_on (\<lambda>c. c = CHR ''/'') word)"

definition timeout_opts :: "string list" where
  "timeout_opts = [''-s'', ''--signal'', ''-k'', ''--kill-after'']"

definition stdbuf_opts :: "string list" where
  "stdbuf_opts = [''-i'', ''--input'', ''-o'', ''--output'', ''-e'', ''--error'']"

definition wrappers :: "(string \<times> string list \<times> nat) list" where
  "wrappers =
     [(''env'', [''-u'', ''--unset'', ''-C'', ''--chdir'', ''-S'', ''--split-string''], 0),
      (''sudo'', [''-u'', ''--user'', ''-g'', ''--group'', ''-C'', ''--close-from'', ''-p'', ''--prompt'',
         ''-U'', ''--other-user'', ''-r'', ''--role'', ''-t'', ''--type'', ''-D'', ''--chdir'', ''-R'',
         ''--chroot'', ''-T'', ''--command-timeout''], 0),
      (''doas'', [''-u'', ''-C''], 0),
      (''nice'', [''-n'', ''--adjustment''], 0),
      (''gnice'', [''-n'', ''--adjustment''], 0),
      (''ionice'', [''-c'', ''--class'', ''-n'', ''--classdata'', ''-p'', ''--pid'', ''-P'', ''--pgid'',
         ''-u'', ''--uid''], 0),
      (''nohup'', [], 0),
      (''gnohup'', [], 0),
      (''time'', [''-f'', ''--format'', ''-o'', ''--output''], 0),
      (''exec'', [''-a''], 0),
      (''command'', [], 0),
      (''builtin'', [], 0),
      (''timeout'', timeout_opts, 1),
      (''gtimeout'', timeout_opts, 1),
      (''stdbuf'', stdbuf_opts, 0),
      (''gstdbuf'', stdbuf_opts, 0),
      (''setsid'', [], 0),
      (''xargs'', [''-a'', ''--arg-file'', ''-d'', ''--delimiter'', ''-E'', ''-I'', ''--replace'', ''-L'',
         ''--max-lines'', ''-n'', ''--max-args'', ''-P'', ''--max-procs'', ''-s'', ''--max-chars''], 0),
      (''caffeinate'', [''-t'', ''-w''], 0),
      (''flock'', [''-w'', ''--timeout'', ''-E'', ''--conflict-exit-code''], 1)]"

definition is_assignment :: "string \<Rightarrow> bool" where
  "is_assignment word \<longleftrightarrow> CHR ''='' \<in> set word \<and> \<not> starts_with word ''-''"

definition takes_value :: "string \<Rightarrow> string list \<Rightarrow> bool" where
  "takes_value word value_opts =
     (if word \<in> set value_opts then True
      else (case strip_prefix word ''-'' of
              Some cluster \<Rightarrow>
                \<not> starts_with cluster ''-'' \<and> cluster \<noteq> [] \<and> [CHR ''-'', last cluster] \<in> set value_opts
            | None \<Rightarrow> False))"

fun wrapper_args :: "string list \<Rightarrow> nat \<Rightarrow> string list \<Rightarrow> nat" where
  "wrapper_args value_opts operands [] = 0"
| "wrapper_args value_opts operands (word # ws) =
     (if starts_with word ''-'' then
        (if takes_value word value_opts then
           (case ws of [] \<Rightarrow> 1 | _ # ws' \<Rightarrow> 2 + wrapper_args value_opts operands ws')
         else 1 + wrapper_args value_opts operands ws)
      else if CHR ''='' \<in> set word \<or> operands > 0 then 1 + wrapper_args value_opts (operands - 1) ws
      else 0)"

function skip_wrappers :: "string list \<Rightarrow> string list" where
  "skip_wrappers [] = []"
| "skip_wrappers (word # tail) =
     (if is_assignment word then skip_wrappers tail
      else (case map_of wrappers (program word) of
              Some (value_opts, operands) \<Rightarrow> skip_wrappers (drop (wrapper_args value_opts operands tail) tail)
            | None \<Rightarrow> word # tail))"
  by pat_completeness auto
termination
  by (relation "measure length") auto

definition strip_group :: "string \<Rightarrow> string" where
  "strip_group w = dropWhile (\<lambda>c. c = CHR ''('' \<or> c = CHR ''{'') w"

definition program_words :: "string list \<Rightarrow> string list" where
  "program_words words = skip_wrappers (filter (\<lambda>w. w \<noteq> []) (map strip_group words))"

section \<open>Nested commands\<close>

fun env_options :: "string list \<Rightarrow> string option" where
  "env_options [] = None"
| "env_options (word # rest) =
     (if word = ''-S'' \<or> word = ''--split-string'' then (case rest of [] \<Rightarrow> None | s # _ \<Rightarrow> Some s)
      else if word \<in> {''-u'', ''--unset'', ''-C'', ''--chdir''} then
        (case rest of [] \<Rightarrow> None | _ # rest' \<Rightarrow> env_options rest')
      else (case strip_prefix word ''-S'' of
              Some v \<Rightarrow> Some v
            | None \<Rightarrow>
                (case strip_prefix word ''--split-string='' of
                   Some v \<Rightarrow> Some v
                 | None \<Rightarrow>
                     if \<not> starts_with word ''-'' \<and> CHR ''='' \<notin> set word then None else env_options rest)))"

definition env_split_string :: "string list \<Rightarrow> string option" where
  "env_split_string words =
     (case dropWhile is_assignment (map strip_group words) of
        [] \<Rightarrow> None
      | first # rest \<Rightarrow> if program first \<noteq> ''env'' then None else env_options rest)"

fun shell_script :: "string list \<Rightarrow> string option" where
  "shell_script [] = None"
| "shell_script (arg # rest) =
     (case arg of
        [] \<Rightarrow> None
      | c # flags \<Rightarrow>
          if c \<noteq> CHR ''-'' \<and> c \<noteq> CHR ''+'' then None
          else (let short = (\<not> starts_with flags ''-'') in
                if c = CHR ''-'' \<and> short \<and> CHR ''c'' \<in> set flags then
                  (case rest of [] \<Rightarrow> None | s # _ \<Rightarrow> Some s)
                else if arg = ''--rcfile'' \<or> arg = ''--init-file'' \<or>
                     (short \<and> flags \<noteq> [] \<and> (last flags = CHR ''o'' \<or> last flags = CHR ''O'')) then
                  (case rest of [] \<Rightarrow> None | _ # rest' \<Rightarrow> shell_script rest')
                else shell_script rest))"

definition nested_command :: "string list \<Rightarrow> string option" where
  "nested_command words =
     (case env_split_string words of
        Some script \<Rightarrow> Some script
      | None \<Rightarrow>
          (case program_words words of
             [] \<Rightarrow> None
           | first # tail \<Rightarrow>
               if program first = ''eval'' then Some (join_str '' '' tail)
               else if program first \<in> {''sh'', ''bash'', ''zsh''} then shell_script tail
               else None))"

fun segments_levels :: "nat \<Rightarrow> string \<Rightarrow> nesting_error + string list list" where
  "segments_levels 0 command = Inl NestingTooDeep"
| "segments_levels (Suc n) command =
     seqR (split_levels (Suc n) command) (\<lambda>s.
     seqR (map_res (\<lambda>words.
             case nested_command words of
               None \<Rightarrow> Inr [words]
             | Some inner \<Rightarrow> seqR (segments_levels n inner) (\<lambda>segs. Inr (segs @ [words])))
           (split_words s)) (\<lambda>parts. Inr (concat parts)))"

definition shell_segments :: "string \<Rightarrow> nesting_error + string list list" where
  "shell_segments command = segments_levels (Suc max_substitution_depth) command"

section \<open>The commit gate\<close>

fun gh_subcommands_from :: "string list \<Rightarrow> string list \<Rightarrow> string list" where
  "gh_subcommands_from acc [] = acc"
| "gh_subcommands_from acc (word # ws) =
     (if word = ''-R'' \<or> word = ''--repo'' then
        (case ws of [] \<Rightarrow> acc | _ # ws' \<Rightarrow> gh_subcommands_from acc ws')
      else if starts_with word ''-'' then gh_subcommands_from acc ws
      else let acc = acc @ [word] in if length acc = 2 then acc else gh_subcommands_from acc ws)"

definition gh_subcommands :: "string list \<Rightarrow> string list" where
  "gh_subcommands tail = gh_subcommands_from [] tail"

fun git_subcommand :: "string list \<Rightarrow> string option" where
  "git_subcommand [] = None"
| "git_subcommand (word # ws) =
     (if word \<in> {''-C'', ''-c'', ''--git-dir'', ''--work-tree''} then
        (case ws of [] \<Rightarrow> None | _ # ws' \<Rightarrow> git_subcommand ws')
      else if starts_with word ''-'' then git_subcommand ws
      else Some word)"

definition starts_commit_or_pr :: "string list \<Rightarrow> bool" where
  "starts_commit_or_pr words =
     (case program_words words of
        [] \<Rightarrow> False
      | first # tail \<Rightarrow>
          if program first = ''gh'' then gh_subcommands tail = [''pr'', ''create'']
          else if program first = ''git'' then git_subcommand tail = Some ''commit''
          else False)"

definition boundary_of :: "string list \<Rightarrow> string option" where
  "boundary_of words =
     (case program_words words of
        [] \<Rightarrow> None
      | first # tail \<Rightarrow>
          if program first = ''git'' then
            (if git_subcommand tail = Some ''push'' then Some ''git push'' else None)
          else if program first = ''gh'' then
            (if gh_subcommands tail = [''pr'', ''create''] then Some ''gh pr create''
             else if gh_subcommands tail = [''pr'', ''ready''] then Some ''gh pr ready''
             else if gh_subcommands tail = [''pr'', ''merge''] then Some ''gh pr merge''
             else None)
          else None)"

definition step_boundary :: "string \<Rightarrow> nesting_error + string option" where
  "step_boundary command =
     seqR (shell_segments command) (\<lambda>segments. Inr (find_map boundary_of segments))"

definition runs_commit_or_pr :: "string \<Rightarrow> bool" where
  "runs_commit_or_pr command =
     (case shell_segments command of
        Inr segments \<Rightarrow> list_ex starts_commit_or_pr segments
      | Inl NestingTooDeep \<Rightarrow> True)"

definition task_end_target :: "string list \<Rightarrow> string option" where
  "task_end_target words =
     (case program_words words of
        first # t # verb # target # _ \<Rightarrow>
          if t = ''task'' \<and> (verb = ''done'' \<or> verb = ''wait'') \<and> program first = ''llmenv'' then Some target
          else None
      | _ \<Rightarrow> None)"

fun ends_task_in :: "string list list \<Rightarrow> string \<Rightarrow> bool" where
  "ends_task_in [] wip = False"
| "ends_task_in (words # segments) wip =
     (if starts_commit_or_pr words then False
      else if task_end_target words = Some wip then True
      else ends_task_in segments wip)"

definition ends_task_before_commit :: "string \<Rightarrow> string \<Rightarrow> bool" where
  "ends_task_before_commit command wip =
     (case shell_segments command of
        Inl _ \<Rightarrow> True
      | Inr segments \<Rightarrow> ends_task_in segments wip)"

section \<open>The advisory on \<open>cd\<close>\<close>

definition is_shell_tool :: "string \<Rightarrow> bool" where
  "is_shell_tool tool \<longleftrightarrow> tool \<in> {''Bash'', ''Monitor''}"

definition is_transparent :: "string list \<Rightarrow> bool" where
  "is_transparent words =
     (case program_words words of
        [] \<Rightarrow> False
      | first # tail \<Rightarrow> (tail = [] \<and> first \<in> {''}'', ''fi'', ''done'', ''esac''}) \<or> first = ''eval'')"

definition runs_cd_in_this_shell :: "string list \<Rightarrow> bool" where
  "runs_cd_in_this_shell words =
     (if words \<noteq> [] \<and> starts_with (hd words) ''('' then False
      else (case dropWhile (\<lambda>w. w \<in> {''then'', ''do'', ''else''}) (program_words words) of
              [] \<Rightarrow> False | w # _ \<Rightarrow> w = ''cd''))"

definition command_ends_with_cd :: "string \<Rightarrow> bool" where
  "command_ends_with_cd command =
     (case seqR (shell_segments command) (\<lambda>s. seqR (ends_with_substitution command) (\<lambda>e. Inr (s, e))) of
        Inr (segments, True) \<Rightarrow> False
      | Inr (segments, False) \<Rightarrow>
          (case find (\<lambda>words. \<not> is_transparent words) (rev segments) of
             None \<Rightarrow> False | Some words \<Rightarrow> runs_cd_in_this_shell words)
      | Inl NestingTooDeep \<Rightarrow> False)"

definition json_get :: "string \<Rightarrow> 'n json \<Rightarrow> 'n json option" where
  "json_get k v = (case v of JObject m \<Rightarrow> map_of m k | _ \<Rightarrow> None)"

definition json_str :: "'n json \<Rightarrow> string option" where
  "json_str v = (case v of JString s \<Rightarrow> Some s | _ \<Rightarrow> None)"

text \<open>The advisory text is a constant; whether it is given is what counts.\<close>

definition cd_advisory :: "'n json \<Rightarrow> bool \<Rightarrow> bool" where
  "cd_advisory payload enabled =
     (if \<not> enabled then False
      else if \<not> (case Option.bind (json_get ''tool_name'' payload) json_str of
                   None \<Rightarrow> False | Some tool \<Rightarrow> is_shell_tool tool) then False
      else (case Option.bind (Option.bind (json_get ''tool_input'' payload) (json_get ''command'')) json_str of
              None \<Rightarrow> False
            | Some command \<Rightarrow> command_ends_with_cd command))"

section \<open>Quoting\<close>

definition single_quote :: "string \<Rightarrow> string" where
  "single_quote s =
     squote # concat (map (\<lambda>c. if c = squote then [squote, bslash, squote, squote] else [c]) s) @ [squote]"

definition shell_word :: "string \<Rightarrow> string" where
  "shell_word s =
     (if s \<noteq> [] \<and> list_all (\<lambda>c. is_ascii_alphanumeric c \<or> c \<in> set ''/._-+:@%'') s then s
      else if s = [] then [squote, squote]
      else single_quote s)"

end
