(* ===== verification/Shell_Laws.thy ===== *)
theory Shell_Laws
  imports Shell
begin

text \<open>
  What the splitter does with quoted text and with nesting.  The locale \<open>quoting\<close> states what a printer
  of words owes the three passes of the splitter (the scan for substitutions, the search for a closing
  parenthesis, the split into words); \<open>single_quote\<close> and \<open>shell_word\<close> are its two instances.  Whatever is
  printed with them reads back word by word, also below \<open>$(...)\<close>, \<open>sh -c\<close> and \<open>eval\<close>.
\<close>

section \<open>Printed commands\<close>

definition print_words :: "(string \<Rightarrow> string) \<Rightarrow> string list \<Rightarrow> string" where
  "print_words q ws = join_str '' '' (map q ws)"

definition print_segments :: "(string \<Rightarrow> string) \<Rightarrow> string list list \<Rightarrow> string" where
  "print_segments q segs = join_str '';'' (map (print_words q) segs)"

definition closes_over :: "string \<Rightarrow> bool" where
  "closes_over t \<longleftrightarrow>
     (\<forall>d rest. take_until_close d False False (t @ rest) =
        apfst (append t) (take_until_close d False False rest))"

text \<open>A command below some levels of nesting, the outermost level first.\<close>

datatype nesting_level = Substitution | Script | Evaluated

fun nest :: "(string \<Rightarrow> string) \<Rightarrow> nesting_level list \<Rightarrow> string \<Rightarrow> string" where
  "nest q [] c = c"
| "nest q (Substitution # ls) c = ''$('' @ nest q ls c @ '')''"
| "nest q (Script # ls) c = print_segments q [[''sh'', ''-c'', nest q ls c]]"
| "nest q (Evaluated # ls) c = print_segments q [[''eval'', nest q ls c]]"

text \<open>The segments of the shells that a nested command passes through, the innermost first.\<close>

fun nest_segments :: "(string \<Rightarrow> string) \<Rightarrow> nesting_level list \<Rightarrow> string \<Rightarrow> string list list" where
  "nest_segments q [] c = []"
| "nest_segments q (Substitution # ls) c = nest_segments q ls c"
| "nest_segments q (Script # ls) c = nest_segments q ls c @ [[''sh'', ''-c'', nest q ls c]]"
| "nest_segments q (Evaluated # ls) c = nest_segments q ls c @ [[''eval'', nest q ls c]]"

text \<open>
  The levels of the budget that a nesting uses.  A run of substitutions is counted within the command
  that holds it; the shell below it starts one level down, whatever the run was.
\<close>

fun levels_used :: "nat \<Rightarrow> nesting_level list \<Rightarrow> nat" where
  "levels_used run [] = run"
| "levels_used run (Substitution # ls) = levels_used (Suc run) ls"
| "levels_used run (Script # ls) = max run (Suc (levels_used 0 ls))"
| "levels_used run (Evaluated # ls) = max run (Suc (levels_used 0 ls))"

lemma join_str_Cons: "ys \<noteq> [] \<Longrightarrow> join_str sep (x # ys) = x @ sep @ join_str sep ys"
  by (cases ys) simp_all

lemmas char_defs = squote_def dquote_def bslash_def backtick_def nl_def is_operator_def

lemma closes_over_Nil [simp]: "closes_over []"
  by (simp add: closes_over_def apfst_def map_prod_def split: prod.split)

lemma closes_over_append: "closes_over s \<Longrightarrow> closes_over t \<Longrightarrow> closes_over (s @ t)"
  by (simp add: closes_over_def apfst_def map_prod_def split: prod.split)

lemma closes_over_char:
  "c \<notin> {squote, dquote, bslash, CHR ''('', CHR '')''} \<Longrightarrow> closes_over [c]"
  by (simp add: closes_over_def)

lemma closes_over_join:
  "closes_over sep \<Longrightarrow> list_all closes_over xs \<Longrightarrow> closes_over (join_str sep xs)"
  by (induction sep xs rule: join_str.induct) (simp_all add: closes_over_append)

lemma closes_over_group:
  assumes "closes_over t"
  shows "closes_over (CHR ''('' # t @ '')'')"
  using assms by (simp add: closes_over_def char_defs apfst_def map_prod_def split: prod.split)

lemma closes_over_all:
  "closes_over t \<Longrightarrow> take_until_close 0 False False (t @ '')'' @ rest) = (t, rest)"
  by (simp add: closes_over_def char_defs)

lemma ws_len_space: "ws_len (CHR '' '' # cs) = 1"
  by (simp add: ws_len_def byte_def)

lemma space_splits:
  "split_words_from segs ws w None (CHR '' '' # cs) = split_words_from segs (flush_word ws w) None None cs"
  by (simp add: ws_len_space char_defs)

lemma semicolon_splits:
  "split_words_from segs ws w None (CHR '';'' # cs) =
   split_words_from (flush_segment segs (flush_word ws w)) [] None None cs"
  by (simp add: char_defs)

lemma semicolons_split:
  "split_words_from segs ws w None (replicate k (CHR '';'')) = flush_segment segs (flush_word ws w)"
proof (induction k arbitrary: segs ws w)
  case (Suc k)
  then show ?case
    by (simp add: semicolon_splits flush_segment_def flush_word_def del: split_words_from.simps(2))
qed simp

section \<open>The contract of a printer of words\<close>

locale quoting =
  fixes q :: "string \<Rightarrow> string"
  assumes scanned:
    "split_scan sub out seg h False False (q w @ rest) = split_scan sub out (seg @ q w) h False False rest"
  and closed: "closes_over (q w)"
  and split_word:
    "split_words_from segs ws None None (q w @ rest) = split_words_from segs ws (Some w) None rest"
  and ungrouped: "q w \<noteq> []" "hd (q w) \<noteq> CHR ''(''" "hd (q w) \<noteq> CHR ''{''"
begin

lemma words_scanned:
  "split_scan sub out seg h False False (print_words q ws @ rest) =
   split_scan sub out (seg @ print_words q ws) h False False rest"
proof (induction ws arbitrary: seg)
  case (Cons w ws)
  show ?case
    using Cons[of "seg @ q w @ '' ''"]
    by (cases ws) (simp_all add: print_words_def scanned char_defs)
qed (simp add: print_words_def)

lemma words_closed: "closes_over (print_words q ws)"
  unfolding print_words_def
  by (rule closes_over_join) (simp_all add: closes_over_char char_defs closed list_all_iff)

lemma words_split:
  assumes "ws \<noteq> []"
  shows "split_words_from segs ws0 None None (print_words q ws @ rest) =
         split_words_from segs (ws0 @ butlast ws) (Some (last ws)) None rest"
  using assms
proof (induction ws arbitrary: ws0)
  case (Cons w ws)
  show ?case
    using Cons by (cases ws) (simp_all add: print_words_def split_word space_splits flush_word_def
      del: split_words_from.simps(2))
qed simp

lemma segments_closed: "closes_over (print_segments q segs)"
  unfolding print_segments_def
  by (rule closes_over_join) (simp_all add: closes_over_char char_defs words_closed list_all_iff)

lemma segments_scanned:
  "split_scan sub out [] [] False False (print_segments q segs) = Inr (out @ print_segments q segs)"
proof (induction segs arbitrary: out)
  case (Cons ws segs)
  show ?case
  proof (cases segs)
    case Nil
    then show ?thesis
      using words_scanned[of sub out "[]" "[]" ws "[]"] by (simp add: print_segments_def)
  next
    case (Cons ws' segs')
    then show ?thesis
      using Cons.IH[of "out @ print_words q ws @ '';''"]
      by (simp add: print_segments_def words_scanned char_defs)
  qed
qed (simp add: print_segments_def)

lemma segments_split:
  assumes "[] \<notin> set segs"
  shows "split_words_from out [] None None (print_segments q segs @ replicate k (CHR '';'')) = out @ segs"
  using assms
proof (induction segs arbitrary: out)
  case Nil
  show ?case by (simp add: print_segments_def semicolons_split flush_segment_def flush_word_def)
next
  case (Cons ws segs)
  then have "ws \<noteq> []" by auto
  then show ?case
    using Cons
    by (cases segs)
      (simp_all add: print_segments_def words_split semicolons_split semicolon_splits
        flush_segment_def flush_word_def del: split_words_from.simps(2))
qed

lemma segments_split_first:
  assumes "[] \<notin> set segs"
  shows "split_words_from out [] None None (print_segments q segs @ CHR '';'' # rest) =
         split_words_from (out @ segs) [] None None rest"
  using assms
proof (induction segs arbitrary: out)
  case Nil
  show ?case
    by (simp add: print_segments_def semicolon_splits flush_segment_def flush_word_def
        del: split_words_from.simps(2))
next
  case (Cons ws segs)
  then have "ws \<noteq> []" by auto
  then show ?case
    using Cons
    by (cases segs)
      (simp_all add: print_segments_def words_split semicolon_splits flush_segment_def flush_word_def
        del: split_words_from.simps(2))
qed

lemma split_level: "split_levels (Suc n) (print_segments q segs) = Inr (print_segments q segs)"
  by (simp add: segments_scanned)

lemma segments_ungrouped:
  assumes "segs \<noteq> []" "hd segs \<noteq> []"
  obtains w rest where "print_segments q segs = q w @ rest"
proof -
  obtain w ws segs' where "segs = (w # ws) # segs'"
    using assms by (metis list.exhaust_sel)
  then have "\<exists>rest. print_segments q segs = q w @ rest"
    by (cases ws; cases segs') (simp_all add: print_segments_def print_words_def)
  then show thesis using that by blast
qed

lemma strip_group_quoted: "strip_group (q w @ rest) = q w @ rest"
  using ungrouped[of w] by (cases "q w") (simp_all add: strip_group_def)

lemma nest_ungrouped:
  assumes "segs \<noteq> []" "hd segs \<noteq> []"
  shows "strip_group (nest q ls (print_segments q segs)) = nest q ls (print_segments q segs)"
    and "nest q ls (print_segments q segs) \<noteq> []"
proof -
  let ?t = "nest q ls (print_segments q segs)"
  have printed: "strip_group (print_segments q xs) = print_segments q xs \<and> print_segments q xs \<noteq> []"
    if "xs \<noteq> []" "hd xs \<noteq> []" for xs
    by (rule segments_ungrouped[OF that]) (simp add: strip_group_quoted ungrouped)
  have "strip_group ?t = ?t \<and> ?t \<noteq> []"
  proof (cases ls)
    case Nil
    then show ?thesis using printed[OF assms] by simp
  next
    case (Cons l ls')
    show ?thesis
    proof (cases l)
      case Substitution
      with Cons show ?thesis by (simp add: strip_group_def)
    qed (use Cons printed in simp_all)
  qed
  then show "strip_group ?t = ?t" "?t \<noteq> []" by simp_all
qed

lemma nest_closed: "closes_over c \<Longrightarrow> closes_over (nest q ls c)"
proof (induction ls)
  case (Cons l ls)
  show ?case
  proof (cases l)
    case Substitution
    have "closes_over ''$''" by (simp add: closes_over_char char_defs)
    from closes_over_append[OF this closes_over_group[OF Cons.IH[OF Cons.prems]]] Substitution
    show ?thesis by simp
  qed (simp_all add: segments_closed)
qed simp

end

section \<open>Nesting\<close>

lemma nested_script:
  assumes "strip_group x = x" "x \<noteq> []"
  shows "nested_command [''sh'', ''-c'', x] = Some x" "nested_command [''eval'', x] = Some x"
proof -
  have "strip_group ''sh'' = ''sh''" "strip_group ''-c'' = ''-c''" "strip_group ''eval'' = ''eval''"
    by (simp_all add: strip_group_def)
  moreover have "program ''sh'' = ''sh''" "program ''eval'' = ''eval''" by code_simp+
  moreover have "map_of wrappers ''sh'' = None" "map_of wrappers ''eval'' = None" by code_simp+
  moreover have "\<not> is_assignment ''sh''" "\<not> is_assignment ''eval''" by code_simp+
  moreover have "shell_script [''-c'', x] = Some x" by (simp add: starts_with_def)
  ultimately show "nested_command [''sh'', ''-c'', x] = Some x" "nested_command [''eval'', x] = Some x"
    using assms by (simp_all add: nested_command_def env_split_string_def program_words_def)
qed

definition run_of :: "nesting_level list \<Rightarrow> nat" where
  "run_of ls = length (takeWhile (\<lambda>l. l = Substitution) ls)"

definition below_run :: "nesting_level list \<Rightarrow> nesting_level list" where
  "below_run ls = dropWhile (\<lambda>l. l = Substitution) ls"

lemma run_simps [simp]:
  "run_of [] = 0" "run_of (Substitution # ls) = Suc (run_of ls)"
  "l \<noteq> Substitution \<Longrightarrow> run_of (l # ls) = 0"
  "below_run [] = []" "below_run (Substitution # ls) = below_run ls"
  "l \<noteq> Substitution \<Longrightarrow> below_run (l # ls) = l # ls"
  by (simp_all add: run_of_def below_run_def)

lemma below_run_head: "below_run ls = l # ls' \<Longrightarrow> l \<noteq> Substitution"
  using hd_dropWhile[of "\<lambda>l. l = Substitution" ls] by (auto simp: below_run_def)

lemma below_run_shorter: "below_run ls = l # ls' \<Longrightarrow> length ls' < length ls"
  using length_dropWhile_le[of "\<lambda>l. l = Substitution" ls] by (simp add: below_run_def)

lemma levels_used_run:
  "levels_used r ls =
   (case below_run ls of [] \<Rightarrow> r + run_of ls | l # ls' \<Rightarrow> max (r + run_of ls) (Suc (levels_used 0 ls')))"
  by (induction r ls rule: levels_used.induct) (simp_all split: list.split)

lemma nest_segments_run: "nest_segments q ls c = nest_segments q (below_run ls) c"
  by (induction q ls c rule: nest_segments.induct) simp_all

lemma split_substitution:
  assumes "closes_over t"
  shows "split_levels (Suc n) (''$('' @ t @ '')'') = seqR (split_levels n t) (\<lambda>i. Inr (part i))"
proof -
  have "take_until_close 0 False False (t @ '')'') = (t, [])"
    using closes_over_all[OF assms, of "[]"] by simp
  then show ?thesis
    by (simp add: char_defs opens_group_def part_def)
qed

lemma map_res_singletons:
  "(\<And>x. x \<in> set xs \<Longrightarrow> f x = Inr [x]) \<Longrightarrow> map_res f xs = Inr (map (\<lambda>x. [x]) xs)"
  by (induction xs) simp_all

context quoting
begin

lemma split_nest:
  "split_levels k (nest q ls (print_segments q segs)) =
   (if run_of ls < k
    then Inr (replicate (run_of ls) (CHR '';'') @ nest q (below_run ls) (print_segments q segs) @
              replicate (run_of ls) (CHR '';''))
    else Inl NestingTooDeep)"
proof (induction ls arbitrary: k)
  case Nil
  show ?case by (cases k) (simp_all add: segments_scanned)
next
  case (Cons l ls)
  show ?case
  proof (cases "l = Substitution")
    case False
    then obtain ws where "nest q (l # ls) (print_segments q segs) = print_segments q [ws]"
      by (cases l) simp_all
    then show ?thesis
      using False by (cases k) (simp_all add: segments_scanned)
  next
    case True
    show ?thesis
    proof (cases k)
      case (Suc n)
      have "closes_over (nest q ls (print_segments q segs))"
        by (rule nest_closed) (rule segments_closed)
      from split_substitution[OF this, of n] show ?thesis
        using True Suc Cons.IH[of n]
        by (simp add: part_def replicate_append_same[symmetric] del: split_levels.simps)
    qed (simp add: True)
  qed
qed

lemma split_words_nest:
  assumes "[] \<notin> set segs"
  shows "split_words (replicate r (CHR '';'') @ print_segments q segs @ replicate r (CHR '';'')) = segs"
proof -
  have "split_words_from [] [] None None (replicate k (CHR '';'') @ t) = split_words_from [] [] None None t"
    for k t
    by (induction k)
      (simp_all add: semicolon_splits flush_segment_def flush_word_def del: split_words_from.simps(2))
  then show ?thesis using segments_split[OF assms] by (simp add: split_words_def)
qed

lemma nest_shell:
  assumes segs: "segs \<noteq> []" "hd segs \<noteq> []" and l: "l \<noteq> Substitution"
  shows "\<exists>ws. ws \<noteq> [] \<and> nest q (l # ls) (print_segments q segs) = print_segments q [ws] \<and>
     nested_command ws = Some (nest q ls (print_segments q segs)) \<and>
     nest_segments q (l # ls) (print_segments q segs) = nest_segments q ls (print_segments q segs) @ [ws]"
  using nested_script[OF nest_ungrouped[OF segs, of ls]] l
  by (cases l) (simp_all)

lemma segments_inert:
  assumes "\<forall>ws\<in>set segs. nested_command ws = None"
    and "split_levels (Suc n) command = Inr text1" "split_words text1 = segs"
  shows "segments_levels (Suc n) command = Inr segs"
proof -
  have "map_res (\<lambda>words. case nested_command words of None \<Rightarrow> Inr [words]
          | Some inner \<Rightarrow> seqR (segments_levels n inner) (\<lambda>xs. Inr (xs @ [words]))) segs =
        Inr (map (\<lambda>x. [x]) segs)"
    by (rule map_res_singletons) (simp add: assms(1))
  then show ?thesis using assms by (simp del: split_levels.simps)
qed

lemma segments_nest:
  assumes segs: "segs \<noteq> []" "[] \<notin> set segs" and inert: "\<forall>ws\<in>set segs. nested_command ws = None"
  shows "segments_levels k (nest q ls (print_segments q segs)) =
         (if levels_used 0 ls < k then Inr (segs @ nest_segments q ls (print_segments q segs))
          else Inl NestingTooDeep)"
proof (induction "length ls" arbitrary: ls k rule: less_induct)
  case less
  have hd: "hd segs \<noteq> []" using segs by (metis hd_in_set)
  let ?c = "print_segments q segs"
  show ?case
  proof (cases "run_of ls < k")
    case False
    then have "levels_used 0 ls \<ge> k" by (simp add: levels_used_run[of 0 ls] le_max_iff_disj split: list.split)
    then show ?thesis using False split_nest[of k ls segs] by (cases k) simp_all
  next
    case True
    then obtain n where k: "k = Suc n" by (cases k) simp_all
    note split = split_nest[of k ls segs, unfolded k]
    show ?thesis
    proof (cases "below_run ls")
      case Nil
      have "segments_levels (Suc n) (nest q ls ?c) = Inr segs"
        by (rule segments_inert[OF inert])
          (use True k Nil split split_words_nest[OF segs(2), of "run_of ls"] in
            \<open>simp_all del: split_levels.simps\<close>)
      moreover have "levels_used 0 ls = run_of ls"
        using Nil by (simp add: levels_used_run[of 0 ls])
      ultimately show ?thesis using True k Nil nest_segments_run[of q ls ?c] by simp
    next
      case (Cons l ls')
      have IH: "segments_levels n (nest q ls' ?c) =
          (if levels_used 0 ls' < n then Inr (segs @ nest_segments q ls' ?c) else Inl NestingTooDeep)"
        by (rule less) (rule below_run_shorter[OF Cons])
      from nest_shell[OF segs(1) hd below_run_head[OF Cons], of ls'] obtain ws where ws: "ws \<noteq> []"
        "nest q (l # ls') ?c = print_segments q [ws]" "nested_command ws = Some (nest q ls' ?c)"
        "nest_segments q (l # ls') ?c = nest_segments q ls' ?c @ [ws]" by blast
      have "levels_used 0 ls < k \<longleftrightarrow> levels_used 0 ls' < n"
        using Cons True k by (simp add: levels_used_run[of 0 ls])
      then show ?thesis
        using True k Cons split split_words_nest[of "[ws]" "run_of ls"] nest_segments_run[of q ls ?c] ws IH
        by (simp del: split_levels.simps nest.simps nest_segments.simps)
    qed
  qed
qed

lemma words_split_first:
  assumes "ws \<noteq> []"
  shows "split_words_from segs ws0 None None (print_words q ws @ CHR '' '' # rest) =
         split_words_from segs (ws0 @ ws) None None rest"
  using assms
  by (simp add: words_split space_splits flush_word_def del: split_words_from.simps(2))

lemma words_split_last:
  "ws \<noteq> [] \<Longrightarrow> split_words_from segs ws0 None None (print_words q ws) = segs @ [ws0 @ ws]"
  using words_split[of ws segs ws0 "[]"] by (simp add: flush_segment_def flush_word_def)

lemma substitution_hoisted:
  assumes segs: "[] \<notin> set segs" and ws: "ws \<noteq> []" "ws' \<noteq> []"
    and inert: "\<forall>xs\<in>set (segs @ [ws @ ws']). nested_command xs = None"
  shows "segments_levels (Suc (Suc n))
           (print_words q ws @ '' $('' @ print_segments q segs @ '') '' @ print_words q ws') =
         Inr (segs @ [ws @ ws'])"
proof (rule segments_inert[OF inert])
  let ?c = "print_segments q segs"
  have "take_until_close 0 False False (?c @ '')'' @ rest) = (?c, rest)" for rest
    by (rule closes_over_all) (rule segments_closed)
  then show "split_levels (Suc (Suc n)) (print_words q ws @ '' $('' @ ?c @ '') '' @ print_words q ws') =
        Inr (part ?c @ print_words q ws @ ''  '' @ print_words q ws')"
    using words_scanned[of "split_levels (Suc n)" _ _ _ ws' "[]"] split_level[of n segs]
    by (simp add: words_scanned char_defs opens_group_def del: split_levels.simps(2))
      (simp add: words_scanned char_defs opens_group_def)
  show "split_words (part ?c @ print_words q ws @ ''  '' @ print_words q ws') = segs @ [ws @ ws']"
    using segments_split_first[OF segs, of "[]"] ws
    by (simp add: split_words_def part_def semicolon_splits words_split_first words_split_last space_splits
        flush_segment_def flush_word_def del: split_words_from.simps(2))
qed

lemma quoted_substitution_hoisted:
  assumes segs: "[] \<notin> set segs" and ws: "ws \<noteq> []" "ws' \<noteq> []"
    and inert: "\<forall>xs\<in>set (segs @ [ws @ [[]] @ ws']). nested_command xs = None"
  shows "segments_levels (Suc (Suc n))
           (print_words q ws @ '' '' @ [dquote] @ ''$('' @ print_segments q segs @ '')'' @ [dquote] @ '' '' @
            print_words q ws') = Inr (segs @ [ws @ [[]] @ ws'])"
proof (rule segments_inert[OF inert])
  let ?c = "print_segments q segs" and ?h = "print_words q ws @ '' '' @ [dquote]"
  let ?t = "[dquote] @ '' '' @ print_words q ws'"
  have "take_until_close 0 False False (?c @ '')'' @ rest) = (?c, rest)" for rest
    by (rule closes_over_all) (rule segments_closed)
  then have "split_levels (Suc (Suc n)) (?h @ ''$('' @ ?c @ '')'' @ ?t) = Inr (part ?c @ ?h @ ?t)"
    using words_scanned[of "split_levels (Suc n)" _ _ _ ws' "[]"] split_level[of n segs]
    by (simp add: words_scanned char_defs opens_group_def del: split_levels.simps(2))
      (simp add: words_scanned char_defs opens_group_def)
  then show "split_levels (Suc (Suc n))
        (print_words q ws @ '' '' @ [dquote] @ ''$('' @ ?c @ '')'' @ [dquote] @ '' '' @ print_words q ws') =
        Inr (part ?c @ ?h @ ?t)" by simp
  have quotes: "split_words_from out xs None None (dquote # dquote # CHR '' '' # cs) =
      split_words_from out (xs @ [[]]) None None cs" for out xs cs
    by (simp add: char_defs ws_len_space flush_word_def)
  show "split_words (part ?c @ ?h @ ?t) = segs @ [ws @ [[]] @ ws']"
    using segments_split_first[OF segs, of "[]"] ws
    by (simp add: split_words_def part_def semicolon_splits words_split_first words_split_last quotes
        flush_segment_def flush_word_def del: split_words_from.simps(2))
qed

end

section \<open>The two printers\<close>

definition quoted_char :: "char \<Rightarrow> string" where
  "quoted_char c = (if c = squote then [squote, bslash, squote, squote] else [c])"

lemma single_quote_alt: "single_quote s = squote # concat (map quoted_char s) @ [squote]"
  by (simp add: single_quote_def quoted_char_def[abs_def])

lemma quoted_scanned:
  "split_scan sub out seg h True False (concat (map quoted_char s) @ squote # rest) =
   split_scan sub out (seg @ concat (map quoted_char s) @ [squote]) h False False rest"
  by (induction s arbitrary: seg) (simp_all add: quoted_char_def char_defs)

lemma quoted_closed:
  "take_until_close d True False (concat (map quoted_char s) @ squote # rest) =
   apfst (append (concat (map quoted_char s) @ [squote])) (take_until_close d False False rest)"
  by (induction s) (simp_all add: quoted_char_def char_defs apfst_def map_prod_def split: prod.split)

lemma quoted_split:
  "split_words_from segs ws (Some w) (Some squote) (concat (map quoted_char s) @ squote # rest) =
   split_words_from segs ws (Some (w @ s)) None rest"
  by (induction s arbitrary: w) (simp_all add: quoted_char_def char_defs push_char_def)

lemma single_quote_closed: "closes_over (single_quote s)"
proof -
  have "squote \<noteq> bslash" by (simp add: char_defs)
  then show ?thesis
    by (simp add: closes_over_def single_quote_alt quoted_closed apfst_def map_prod_def split: prod.split)
qed

interpretation sq: quoting single_quote
proof unfold_locales
  fix sub out seg h w rest
  show "split_scan sub out seg h False False (single_quote w @ rest) =
        split_scan sub out (seg @ single_quote w) h False False rest"
    by (simp add: single_quote_alt quoted_scanned)
next
  fix segs ws w rest
  show "split_words_from segs ws None None (single_quote w @ rest) =
        split_words_from segs ws (Some w) None rest"
    by (simp add: single_quote_alt quoted_split)
qed (rule single_quote_closed, simp_all add: single_quote_def squote_def)

definition is_plain_char :: "char \<Rightarrow> bool" where
  "is_plain_char c \<longleftrightarrow> is_ascii_alphanumeric c \<or> c \<in> set ''/._-+:@%''"

lemma plain_char_inert:
  assumes "is_plain_char c"
  shows "c \<notin> {squote, dquote, bslash, backtick, nl, CHR ''{'', CHR ''('', CHR '')'', CHR ''$'', CHR ''<'', CHR ''>'',
               CHR '';'', CHR ''|'', CHR ''&''}"
  using assms
  by (auto simp: is_plain_char_def is_ascii_alphanumeric_def is_ascii_digit_def is_ascii_lower_def
      is_ascii_upper_def byte_def char_defs)

lemma plain_char_visible: "is_plain_char c \<Longrightarrow> 33 \<le> byte c \<and> byte c \<le> 127"
  by (auto simp: is_plain_char_def is_ascii_alphanumeric_def is_ascii_digit_def is_ascii_lower_def
      is_ascii_upper_def byte_def)

lemma plain_char_no_space: "is_plain_char c \<Longrightarrow> ws_len (c # cs) = 0"
  using plain_char_visible[of c] ws_len_visible[of c cs] by simp

lemma plain_scanned:
  "list_all is_plain_char w \<Longrightarrow>
   split_scan sub out seg h False False (w @ rest) = split_scan sub out (seg @ w) h False False rest"
proof (induction w arbitrary: seg)
  case (Cons c w)
  then show ?case using plain_char_inert[of c] by (simp add: is_operator_def)
qed simp

lemma plain_closed: "list_all is_plain_char w \<Longrightarrow> closes_over w"
proof (induction w)
  case (Cons c w)
  have "closes_over [c]" using Cons.prems plain_char_inert[of c] by (intro closes_over_char) simp
  from closes_over_append[OF this, of w] show ?case using Cons by simp
qed simp

lemma plain_split:
  "list_all is_plain_char w \<Longrightarrow>
   split_words_from segs ws (Some v) None (w @ rest) = split_words_from segs ws (Some (v @ w)) None rest"
proof (induction w arbitrary: v)
  case (Cons c w)
  then show ?case
    using plain_char_inert[of c] by (simp add: is_operator_def plain_char_no_space push_char_def)
qed simp

lemma plain_word_split:
  assumes "list_all is_plain_char w" "w \<noteq> []"
  shows "split_words_from segs ws None None (w @ rest) = split_words_from segs ws (Some w) None rest"
proof (cases w)
  case (Cons c cs)
  then show ?thesis
    using assms plain_char_inert[of c] plain_split[of cs segs ws "[c]" rest]
    by (simp add: is_operator_def plain_char_no_space push_char_def)
qed (use assms in simp)

lemma shell_word_cases:
  "(shell_word w = w \<and> w \<noteq> [] \<and> list_all is_plain_char w) \<or> shell_word w = single_quote w"
  by (simp add: shell_word_def is_plain_char_def[abs_def] single_quote_def)

interpretation sw: quoting shell_word
proof unfold_locales
  fix sub out seg h w rest
  show "split_scan sub out seg h False False (shell_word w @ rest) =
        split_scan sub out (seg @ shell_word w) h False False rest"
    using shell_word_cases[of w] plain_scanned sq.scanned by metis
next
  fix w show "closes_over (shell_word w)"
    using shell_word_cases[of w] plain_closed sq.closed by metis
next
  fix segs ws w rest
  show "split_words_from segs ws None None (shell_word w @ rest) =
        split_words_from segs ws (Some w) None rest"
    using shell_word_cases[of w] plain_word_split sq.split_word by metis
next
  fix w
  have "hd w \<noteq> CHR ''(''" "hd w \<noteq> CHR ''{''" if "w \<noteq> []" "list_all is_plain_char w"
    using that plain_char_inert[of "hd w"] by (simp_all add: list_all_iff)
  then show "shell_word w \<noteq> []" "hd (shell_word w) \<noteq> CHR ''(''" "hd (shell_word w) \<noteq> CHR ''{''"
    using shell_word_cases[of w] sq.ungrouped[of w] by metis+
qed

end
