(* ===== verification/Shell_Theorems.thy ===== *)
theory Shell_Theorems
  imports Shell_Laws
begin

text \<open>
  The properties of the commit gate and of the splitter below it, over commands printed with
  \<open>shell_word\<close> and nested to any depth, and the places where the gate sees less than the shell runs.
\<close>

section \<open>The segments of the shells around a command\<close>

lemma program_words_shell:
  "program_words (''sh'' # ws) = ''sh'' # filter (\<lambda>w. w \<noteq> []) (map strip_group ws)"
  "program_words (''eval'' # ws) = ''eval'' # filter (\<lambda>w. w \<noteq> []) (map strip_group ws)"
proof -
  have "strip_group ''sh'' = ''sh''" "strip_group ''eval'' = ''eval''" by code_simp+
  moreover have "program ''sh'' = ''sh''" "program ''eval'' = ''eval''" by code_simp+
  moreover have "map_of wrappers ''sh'' = None" "map_of wrappers ''eval'' = None" by code_simp+
  moreover have "\<not> is_assignment ''sh''" "\<not> is_assignment ''eval''" by code_simp+
  ultimately show
    "program_words (''sh'' # ws) = ''sh'' # filter (\<lambda>w. w \<noteq> []) (map strip_group ws)"
    "program_words (''eval'' # ws) = ''eval'' # filter (\<lambda>w. w \<noteq> []) (map strip_group ws)"
    by (simp_all add: program_words_def)
qed

lemma shell_heads_inert:
  "\<not> starts_commit_or_pr (''sh'' # ws)" "\<not> starts_commit_or_pr (''eval'' # ws)"
  "task_end_target (''sh'' # ws) = None" "task_end_target (''eval'' # ws) = None"
proof -
  have "program ''sh'' = ''sh''" "program ''eval'' = ''eval''" by code_simp+
  then show
    "\<not> starts_commit_or_pr (''sh'' # ws)" "\<not> starts_commit_or_pr (''eval'' # ws)"
    "task_end_target (''sh'' # ws) = None" "task_end_target (''eval'' # ws) = None"
    by (simp_all add: starts_commit_or_pr_def task_end_target_def program_words_shell split: list.split)
qed

lemma nest_segments_inert:
  assumes "ws \<in> set (nest_segments q ls c)"
  shows "\<not> starts_commit_or_pr ws \<and> task_end_target ws = None"
proof -
  have "\<exists>xs. ws = ''sh'' # xs \<or> ws = ''eval'' # xs"
    using assms by (induction q ls c rule: nest_segments.induct) auto
  then show ?thesis using shell_heads_inert by auto
qed

lemma ends_task_in_iff:
  "ends_task_in segs wip \<longleftrightarrow>
   (\<exists>i<length segs. task_end_target (segs ! i) = Some wip \<and> (\<forall>j\<le>i. \<not> starts_commit_or_pr (segs ! j)))"
proof (induction segs wip rule: ends_task_in.induct)
  case (2 ws segs wip)
  have "(\<exists>i<length (ws # segs). P i) \<longleftrightarrow> P 0 \<or> (\<exists>i<length segs. P (Suc i))" for P
    using less_Suc_eq_0_disj by auto
  moreover have "(\<forall>j\<le>Suc i. P j) \<longleftrightarrow> P 0 \<and> (\<forall>j\<le>i. P (Suc j))" for i P
    using All_less_Suc2[of "Suc i" P] by (simp add: less_Suc_eq_le)
  ultimately show ?case using 2 by simp
qed simp

lemma ends_task_in_append:
  "\<forall>ws\<in>set extra. task_end_target ws = None \<Longrightarrow>
   ends_task_in (segs @ extra) wip \<longleftrightarrow> ends_task_in segs wip"
proof (induction segs)
  case Nil
  then show ?case by (induction extra) simp_all
qed simp

lemma shell_segments_nest:
  assumes "segs \<noteq> []" "[] \<notin> set segs" "\<forall>ws\<in>set segs. nested_command ws = None"
  shows "shell_segments (nest shell_word ls (print_segments shell_word segs)) =
         (if levels_used 0 ls \<le> max_substitution_depth
          then Inr (segs @ nest_segments shell_word ls (print_segments shell_word segs))
          else Inl NestingTooDeep)"
  using sw.segments_nest[OF assms, of "Suc max_substitution_depth" ls]
  by (simp add: shell_segments_def less_Suc_eq_le del: segments_levels.simps)

section \<open>Nesting\<close>


text \<open>The sample: an end of a task, and a commit whose message holds a quote, an operator and a newline.\<close>

definition sample_commit :: "string list list" where
  "sample_commit =
     [[''llmenv'', ''task'', ''done'', ''demo''],
      [''env'', ''-u'', ''X'', ''/usr/bin/git'', ''-C'', ''/w'', ''commit'', ''-m'', ''it'' @ [squote] @ ''s; )'' @ [nl]]]"

lemma sample_commit_inert:
  "sample_commit \<noteq> []" "[] \<notin> set sample_commit" "\<forall>ws\<in>set sample_commit. nested_command ws = None"
  by code_simp+


lemma levels_used_replicate: "levels_used r (replicate n Substitution) = r + n"
  by (induction n arbitrary: r) simp_all

text \<open>
  A shell below a substitution starts one level down from the command around the substitution, so
  alternating the two nests twice as deep as the bound.
\<close>

lemma alternating_nesting_counts_half:
  "levels_used 0 (concat (replicate n [Substitution, Script])) \<le> max 1 n"
proof (induction n)
  case (Suc n)
  then show ?case by (cases n) simp_all
qed simp

lemma sixty_four_levels_pass:
  assumes "segs \<noteq> []" "[] \<notin> set segs" "\<forall>ws\<in>set segs. nested_command ws = None"
  shows "shell_segments (nest shell_word (concat (replicate 32 [Substitution, Script]))
           (print_segments shell_word segs)) \<noteq> Inl NestingTooDeep"
  using alternating_nesting_counts_half[of 32]
  by (simp add: shell_segments_nest[OF assms] max_substitution_depth_def)

section \<open>The commit gate\<close>



text \<open>Ending the current task before a commit is decided by position: the gate reports it exactly when
  some segment ends that very task and neither it nor an earlier segment commits, or when the nesting is too
  deep to tell.\<close>

lemma task_end_order_exact:
  assumes "segs \<noteq> []" and "[] \<notin> set segs" and "\<forall>ws\<in>set segs. nested_command ws = None"
  shows "ends_task_before_commit (nest shell_word ls (print_segments shell_word segs)) wip \<longleftrightarrow>
         levels_used 0 ls > max_substitution_depth \<or>
         (\<exists>i<length segs. task_end_target (segs ! i) = Some wip \<and>
            (\<forall>j\<le>i. \<not> starts_commit_or_pr (segs ! j)))"
proof -
  let ?c = "print_segments shell_word segs"
  have "ends_task_in (segs @ nest_segments shell_word ls ?c) wip \<longleftrightarrow> ends_task_in segs wip"
    by (rule ends_task_in_append) (simp add: nest_segments_inert)
  then show ?thesis
    by (simp add: ends_task_before_commit_def shell_segments_nest[OF assms] ends_task_in_iff[symmetric] not_le)
qed

lemma task_end_order_exact_witness:
  "ends_task_before_commit (nest shell_word [Script] (print_segments shell_word sample_commit)) ''demo'' \<and>
   \<not> ends_task_before_commit (nest shell_word [Script] (print_segments shell_word (rev sample_commit))) ''demo''"
proof
  show "ends_task_before_commit (nest shell_word [Script] (print_segments shell_word sample_commit)) ''demo''"
    by (subst task_end_order_exact[OF sample_commit_inert]) code_simp
  show "\<not> ends_task_before_commit (nest shell_word [Script] (print_segments shell_word (rev sample_commit))) ''demo''"
    by (subst task_end_order_exact) code_simp+
qed

text \<open>A command substitution among the words of a command, bare or in double quotes, runs first: its
  segments come before the one of the command that holds it, whose other words are kept.\<close>

lemma substitution_runs_first:
  assumes "[] \<notin> set segs" and "ws \<noteq> []" and "ws' \<noteq> []"
    and "\<forall>xs\<in>set (segs @ [ws @ ws', ws @ [[]] @ ws']). nested_command xs = None"
  shows "shell_segments (print_words shell_word ws @ '' '' @ (''$('' @ print_segments shell_word segs @ '')'') @
           '' '' @ print_words shell_word ws') = Inr (segs @ [ws @ ws']) \<and>
         shell_segments (print_words shell_word ws @ '' '' @ [dquote] @
           (''$('' @ print_segments shell_word segs @ '')'') @ [dquote] @ '' '' @
           print_words shell_word ws') = Inr (segs @ [ws @ [[]] @ ws'])"
  using sw.substitution_hoisted[OF assms(1-3)] sw.quoted_substitution_hoisted[OF assms(1-3)] assms(4)
  by (simp add: shell_segments_def max_substitution_depth_def eval_nat_numeral del: segments_levels.simps)

lemma substitution_runs_first_witness:
  "shell_segments (print_words shell_word [''git'', ''commit'', ''-m''] @ '' '' @
       (''$('' @ print_segments shell_word sample_commit @ '')'') @ '' '' @ print_words shell_word [''--amend'']) =
     Inr (sample_commit @ [[''git'', ''commit'', ''-m'', ''--amend'']])"
proof -
  have "\<forall>xs\<in>set (sample_commit @ [[''git'', ''commit'', ''-m''] @ [''--amend''],
      [''git'', ''commit'', ''-m''] @ [[]] @ [''--amend'']]). nested_command xs = None" by code_simp
  from substitution_runs_first[OF sample_commit_inert(2) _ _ this] show ?thesis by simp
qed

section \<open>The advisory on \<open>cd\<close>\<close>

lemma trim_end_visible:
  assumes "33 \<le> byte b" "byte b \<le> 127"
  shows "trim_end (s @ [b]) = s @ [b]"
proof -
  have "ws_suffix (s @ [b]) = 0"
  proof (cases s rule: rev_cases)
    case (snoc s' a)
    with assms show ?thesis
      by (cases s' rule: rev_cases) (auto simp: ws_suffix_def ws_len_def)
  qed (use assms in \<open>simp add: ws_suffix_def ws_len_def\<close>)
  then show ?thesis by (subst trim_end.simps) simp
qed

definition ends_visibly :: "char \<Rightarrow> bool" where
  "ends_visibly c \<longleftrightarrow> 33 \<le> byte c \<and> byte c \<le> 127 \<and> c \<noteq> CHR '')'' \<and> c \<noteq> backtick"

lemma shell_word_last: "ends_visibly (last (shell_word w))"
proof -
  have "last (single_quote w) = squote" by (simp add: single_quote_def)
  moreover have "ends_visibly squote" by code_simp
  moreover have "ends_visibly (last w)" if "w \<noteq> []" "list_all is_plain_char w"
  proof -
    have plain: "is_plain_char (last w)" using that by (simp add: list_all_iff)
    show ?thesis using plain_char_visible[OF plain] plain_char_inert[OF plain] by (simp add: ends_visibly_def)
  qed
  ultimately show ?thesis using shell_word_cases[of w] by metis
qed

lemma printed_command_last:
  assumes "segs \<noteq> []" "last segs \<noteq> []"
  shows "print_segments shell_word segs \<noteq> []"
    and "last (print_segments shell_word segs) = last (shell_word (last (last segs)))"
proof -
  have "map shell_word (last segs) \<noteq> []" "last (map shell_word (last segs)) \<noteq> []"
    using assms(2) sw.ungrouped by (simp_all add: last_map)
  note word = this
  have "print_words shell_word (last segs) \<noteq> []"
    unfolding print_words_def by (rule join_str_nonempty[OF word])
  then have seg: "map (print_words shell_word) segs \<noteq> []" "last (map (print_words shell_word) segs) \<noteq> []"
    using assms(1) by (simp_all add: last_map)
  show "print_segments shell_word segs \<noteq> []"
    unfolding print_segments_def by (rule join_str_nonempty[OF seg])
  show "last (print_segments shell_word segs) = last (shell_word (last (last segs)))"
    using last_join_str[OF seg, of "'';''"] last_join_str[OF word, of "'' ''"] assms
    by (simp add: print_segments_def print_words_def last_map)
qed

lemma cd_check_exact:
  assumes "segs \<noteq> []" "[] \<notin> set segs" "\<forall>ws\<in>set segs. nested_command ws = None"
  shows "command_ends_with_cd (print_segments shell_word segs) \<longleftrightarrow>
         (case find (\<lambda>ws. \<not> is_transparent ws) (rev segs) of
            None \<Rightarrow> False | Some ws \<Rightarrow> runs_cd_in_this_shell ws)"
proof -
  let ?c = "print_segments shell_word segs"
  have "last segs \<noteq> []" using assms(1,2) by (metis last_in_set)
  note last = printed_command_last[OF assms(1) this]
  have visible: "ends_visibly (last ?c)" unfolding last(2) by (rule shell_word_last)
  have "trim_end (butlast ?c @ [last ?c]) = butlast ?c @ [last ?c]"
    by (rule trim_end_visible) (use visible in \<open>simp_all add: ends_visibly_def\<close>)
  then have "trim_end ?c = ?c" using last(1) by simp
  then have "ends_with_substitution ?c = Inr False"
    using visible by (simp add: ends_with_substitution_def ends_visibly_def)
  then show ?thesis
    using shell_segments_nest[OF assms, of "[]"] by (simp add: command_ends_with_cd_def)
qed

section \<open>What the gate does not see\<close>

text \<open>The advisory on \<open>cd\<close> looks past \<open>then\<close>, \<open>do\<close> and \<open>else\<close>; the commit gate reads them as programs.\<close>

lemma then_hides_commit:
  "\<not> runs_commit_or_pr ''if true; then git commit -m x; fi''"
  "\<not> runs_commit_or_pr ''for f in a; do git commit -m x; done''"
  "command_ends_with_cd ''if true; then cd /x; fi''"
  by code_simp+

text \<open>An apostrophe in a comment opens a quote for the splitter.\<close>

lemma comment_hides_commit:
  "\<not> runs_commit_or_pr (''# don'' @ [squote] @ ''t'' @ [nl] @ ''git commit -m x'')"
  by code_simp

end
