(* ===== verification/Hook_State.thy ===== *)
theory Hook_State
  imports Shell Reminders "HOL-Library.Word"
begin

text \<open>
  The per-session state files of the hooks (\<open>src/hook_run/session_state.rs\<close>): one JSON file for each
  session in the folder of a feature, read and written under a lock file.  A folder is a record of its
  files and of what the system will answer next (locks, writes, removals), so that a failure of each call
  is a value; a list of answers that has run out means success.  The counters of the hooks are
  32-bit words with the saturating operations of the source.
\<close>

section \<open>Saturating arithmetic\<close>

type_synonym u32 = "32 word"

definition saturating_add :: "u32 \<Rightarrow> u32 \<Rightarrow> u32" where
  "saturating_add a b = (if unat a + unat b < 2 ^ 32 then a + b else -1)"

definition saturating_sub :: "u32 \<Rightarrow> u32 \<Rightarrow> u32" where
  "saturating_sub a b = (if b \<le> a then a - b else 0)"

definition saturating_mul :: "u32 \<Rightarrow> u32 \<Rightarrow> u32" where
  "saturating_mul a b = (if unat a * unat b < 2 ^ 32 then a * b else -1)"

section \<open>Folders of state files\<close>

datatype lock_try = LockFree | WouldBlock | LockError

datatype lock_file =
    NoFolder
  | NoLockFile
  | LockTries "lock_try list" bool

datatype write_answer = Written | FolderFails | WriteFails

record 'a hook_dir =
  hd_exists :: bool
  hd_files :: "string \<Rightarrow> 'a json_file option"
  hd_ages :: "string \<Rightarrow> nat"
  hd_locks :: "lock_file list"
  hd_writes :: "write_answer list"
  hd_removals :: "bool list"
  hd_stuck :: "string \<Rightarrow> bool"

definition empty_dir :: "'a hook_dir" where
  "empty_dir = \<lparr>hd_exists = False, hd_files = (\<lambda>_. None), hd_ages = (\<lambda>_. 0), hd_locks = [],
     hd_writes = [], hd_removals = [], hd_stuck = (\<lambda>_. False)\<rparr>"

definition lock_attempts :: nat where "lock_attempts = 20"

text \<open>The polls of a lock, with their number.  The second component of \<open>LockTries\<close> is the refresh of its age.\<close>

fun poll_lock :: "nat \<Rightarrow> lock_try list \<Rightarrow> bool \<times> nat" where
  "poll_lock 0 ts = (False, 0)"
| "poll_lock (Suc n) [] = (True, 1)"
| "poll_lock (Suc n) (LockFree # ts) = (True, 1)"
| "poll_lock (Suc n) (WouldBlock # ts) = apsnd Suc (poll_lock n ts)"
| "poll_lock (Suc n) (LockError # ts) = (False, 1)"

definition next_lock :: "'a hook_dir \<Rightarrow> lock_file" where
  "next_lock d = (case hd_locks d of [] \<Rightarrow> LockTries [] True | l # _ \<Rightarrow> l)"

definition lock_state_file_timed :: "string \<Rightarrow> 'a hook_dir \<Rightarrow> (bool \<times> nat) \<times> 'a hook_dir" where
  "lock_state_file_timed key d =
     (if \<not> is_valid_short_name key then ((False, 0), d)
      else
        let d' = d\<lparr>hd_locks := tl (hd_locks d)\<rparr> in
        case next_lock d of
          NoFolder \<Rightarrow> ((False, 0), d')
        | NoLockFile \<Rightarrow> ((False, 0), d'\<lparr>hd_exists := True\<rparr>)
        | LockTries ts refreshed \<Rightarrow>
            (apfst (\<lambda>taken. taken \<and> refreshed) (poll_lock lock_attempts ts), d'\<lparr>hd_exists := True\<rparr>))"

definition lock_state_file :: "string \<Rightarrow> 'a hook_dir \<Rightarrow> bool \<times> 'a hook_dir" where
  "lock_state_file key d = apfst fst (lock_state_file_timed key d)"

definition write_file :: "string \<Rightarrow> 'a \<Rightarrow> 'a hook_dir \<Rightarrow> bool \<times> 'a hook_dir" where
  "write_file key st d =
     (let d' = d\<lparr>hd_writes := tl (hd_writes d)\<rparr> in
      case (case hd_writes d of [] \<Rightarrow> Written | w # _ \<Rightarrow> w) of
        Written \<Rightarrow>
          (True, d'\<lparr>hd_exists := True, hd_files := (hd_files d)(key \<mapsto> Parsed st),
             hd_ages := (hd_ages d)(key := 0)\<rparr>)
      | FolderFails \<Rightarrow> (False, d')
      | WriteFails \<Rightarrow> (False, d'\<lparr>hd_exists := True\<rparr>))"

definition remove_file :: "string \<Rightarrow> 'a hook_dir \<Rightarrow> 'a hook_dir" where
  "remove_file key d =
     (let d' = d\<lparr>hd_removals := tl (hd_removals d)\<rparr> in
      if hd_removals d \<noteq> [] \<and> \<not> hd (hd_removals d) then d'
      else d'\<lparr>hd_files := (hd_files d)(key := None)\<rparr>)"

definition is_stale :: "nat \<Rightarrow> nat \<Rightarrow> bool" where
  "is_stale age max_age \<longleftrightarrow> age > max_age"

definition prune_stale_json_files :: "nat \<Rightarrow> 'a hook_dir \<Rightarrow> 'a hook_dir" where
  "prune_stale_json_files max_age_days d =
     d\<lparr>hd_files := (\<lambda>key. if is_stale (hd_ages d key) (max_age_days * 86400) \<and> \<not> hd_stuck d key
                      then None else hd_files d key)\<rparr>"

text \<open>The name of the state file of an agent.  \<open>hash\<close> is the digest and \<open>show\<close> the printing of a JSON value.\<close>

definition agent_state_key ::
  "(string \<Rightarrow> string) \<Rightarrow> ('n json \<Rightarrow> string) \<Rightarrow> string \<Rightarrow> 'n json \<Rightarrow> string" where
  "agent_state_key hash show session_id payload =
     (case json_get ''agent_id'' payload of
        None \<Rightarrow> session_id
      | Some JNull \<Rightarrow> session_id
      | Some v \<Rightarrow>
          if \<not> is_valid_short_name session_id then session_id
          else
            let agent_id = (case v of JString i \<Rightarrow> i | _ \<Rightarrow> show v) in
            session_id @ ''.agent-'' @ hash (session_id @ [CHR 0x00] @ agent_id))"

definition context_was_lost :: "string option \<Rightarrow> bool" where
  "context_was_lost source \<longleftrightarrow> source \<in> {Some ''startup'', Some ''clear'', Some ''compact''}"

end
