(* ===== verification/Nudges.thy ===== *)
theory Nudges
  imports Hook_State
begin

text \<open>
  The task nudges and the commit deny-once (\<open>src/hook_run/task_nudge.rs\<close> and its files \<open>boundary.rs\<close>,
  \<open>deny.rs\<close>, \<open>notices.rs\<close>, \<open>state.rs\<close>, \<open>stop.rs\<close>).  A handler takes the configuration, the payload of
  the hook, the session, the task store with its environment and the folder of the nudge states, and
  returns a message and the folder.  A message is a value that holds what its text names; notices to
  the log are left out.
\<close>

section \<open>Configuration and state\<close>

record task_tracker =
  tt_enabled :: bool
  tt_block_engine_task_tools :: bool
  tt_nudges :: bool
  tt_enforce_commit :: bool
  tt_workflow_skills :: "string list option"
  tt_nudge_after :: "u32 option"
  tt_nudge_every :: "u32 option"
  tt_stop_nudge_every :: "u32 option"

definition default_task_tracker :: task_tracker where
  "default_task_tracker = \<lparr>tt_enabled = False, tt_block_engine_task_tools = True, tt_nudges = True,
     tt_enforce_commit = True, tt_workflow_skills = None, tt_nudge_after = None, tt_nudge_every = None,
     tt_stop_nudge_every = None\<rparr>"

record nudge_state =
  n_calls :: u32
  n_last_nudge :: u32
  n_skill_reminded :: bool
  n_commit_denied :: bool
  n_start_reminded :: "string option"
  n_boundary_reminded :: "string list"
  n_stop_quiet_turns :: u32
  n_ownerless_question_reminded :: "string list"

definition default_nudge_state :: nudge_state where
  "default_nudge_state = \<lparr>n_calls = 0, n_last_nudge = 0, n_skill_reminded = False, n_commit_denied = False,
     n_start_reminded = None, n_boundary_reminded = [], n_stop_quiet_turns = 0,
     n_ownerless_question_reminded = []\<rparr>"

definition default_workflow_skills :: "string list" where
  "default_workflow_skills =
     [''dev-sprint'', ''ship-issue'', ''pre-pr-review'', ''executing-plans'', ''writing-plans'']"

definition default_nudge_after :: u32 where "default_nudge_after = 8"
definition default_nudge_every :: u32 where "default_nudge_every = 20"
definition default_stop_nudge_every :: u32 where "default_stop_nudge_every = 5"
definition mutating_tools :: "string list" where "mutating_tools = [''Edit'', ''Write'', ''MultiEdit'']"

type_synonym nudge_dir = "nudge_state hook_dir"

section \<open>Messages\<close>

datatype advice = StartSession | StartNext string | AddTasks

datatype nudge =
    SkillNudge string advice
  | WorkNudge u32 advice
  | QueuedNudge string
  | BoundaryNudge string string nat "string option"
  | WaitingNudge string
  | AnswerNudge "string list"
  | StopWipNudge string nat
  | UnreadStoreNudge err

datatype deny =
    NoCommandDeny
  | NoSessionDeny
  | SessionNameDeny string
  | LockDeny
  | UnsavedStateDeny
  | StateUnreadableDeny io_kind
  | StoreUnreadableDeny err
  | NestedDeny
  | NoTaskDeny advice
  | StateDirDeny

definition how_to_track :: "tracking \<Rightarrow> advice" where
  "how_to_track t =
     (case t of
        NoSession \<Rightarrow> StartSession
      | Tracked _ _ _ (Some slug) _ \<Rightarrow> StartNext slug
      | _ \<Rightarrow> AddTasks)"

section \<open>State files\<close>

definition read_state :: "string \<Rightarrow> nudge_dir \<Rightarrow> io_kind + (nudge_state \<times> bool)" where
  "read_state key d =
     (case hd_files d key of
        None \<Rightarrow> Inr (default_nudge_state, False)
      | Some (Unreadable k) \<Rightarrow> if k = NotFound then Inr (default_nudge_state, False) else Inl k
      | Some (Parsed st) \<Rightarrow> Inr (st, False)
      | Some Malformed \<Rightarrow> Inr (default_nudge_state, True))"

definition load_state :: "string \<Rightarrow> nudge_dir \<Rightarrow> (nudge_state \<times> bool) option" where
  "load_state key d = (case read_state key d of Inl _ \<Rightarrow> None | Inr r \<Rightarrow> Some r)"

text \<open>The key of the state file: only a plain name becomes a file name.\<close>

definition state_key :: "string option \<Rightarrow> string option" where
  "state_key session_id =
     (case session_id of Some i \<Rightarrow> if is_valid_short_name i then Some i else None | None \<Rightarrow> None)"

section \<open>After a tool call\<close>

definition bare_skill :: "string \<Rightarrow> string" where
  "bare_skill name = last (split_on (\<lambda>c. c = CHR '':'') name)"

definition is_workflow_skill :: "task_tracker \<Rightarrow> string \<Rightarrow> bool" where
  "is_workflow_skill tracker skill =
     (let skill = bare_skill (trim skill) in
      case tt_workflow_skills tracker of
        Some xs \<Rightarrow> list_ex (\<lambda>s. bare_skill (trim s) = skill) xs
      | None \<Rightarrow> skill \<in> set default_workflow_skills)"

definition untracked :: "tracking \<Rightarrow> bool" where
  "untracked t \<longleftrightarrow> t = NoSession \<or> t = NoTasks"

definition settle :: "tracking \<Rightarrow> nudge_state \<Rightarrow> nudge_state" where
  "settle t st = (case t of Tracked _ _ _ _ _ \<Rightarrow> st\<lparr>n_calls := 0, n_last_nudge := 0\<rparr> | _ \<Rightarrow> st)"

definition start_reminder :: "string \<Rightarrow> nudge_state \<Rightarrow> nudge option \<times> nudge_state" where
  "start_reminder slug st =
     (if n_start_reminded st = Some slug then (None, st)
      else (Some (QueuedNudge slug), st\<lparr>n_start_reminded := Some slug\<rparr>))"

definition work_nudge :: "task_tracker \<Rightarrow> tracking \<Rightarrow> nudge_state \<Rightarrow> nudge option \<times> nudge_state" where
  "work_nudge tracker t st =
     (if \<not> untracked t then (None, st)
      else
        let calls = saturating_add (n_calls st) 1;
            st = st\<lparr>n_calls := calls\<rparr>;
            after = (case tt_nudge_after tracker of Some n \<Rightarrow> n | None \<Rightarrow> default_nudge_after);
            every = (case tt_nudge_every tracker of Some n \<Rightarrow> n | None \<Rightarrow> default_nudge_every);
            due = (if n_last_nudge st = 0 then calls \<ge> after
                   else saturating_sub calls (n_last_nudge st) \<ge> every) in
        if \<not> due then (None, st)
        else (Some (WorkNudge calls (how_to_track t)), st\<lparr>n_last_nudge := calls\<rparr>))"

definition mutation_reminder :: "task_tracker \<Rightarrow> tracking \<Rightarrow> nudge_state \<Rightarrow> nudge option \<times> nudge_state" where
  "mutation_reminder tracker t st =
     (case t of
        Tracked None _ _ (Some slug) _ \<Rightarrow> start_reminder slug st
      | _ \<Rightarrow> work_nudge tracker t st)"

definition skill_of :: "'n json \<Rightarrow> string" where
  "skill_of payload =
     (case Option.bind (Option.bind (json_get ''tool_input'' payload) (json_get ''skill'')) json_str of
        Some s \<Rightarrow> s | None \<Rightarrow> [])"

definition skill_reminder ::
  "task_tracker \<Rightarrow> 'n json \<Rightarrow> tracking \<Rightarrow> nudge_state \<Rightarrow> nudge option \<times> nudge_state" where
  "skill_reminder tracker payload t st =
     (let skill = skill_of payload in
      if n_skill_reminded st \<or> \<not> untracked t \<or> \<not> is_workflow_skill tracker skill then (None, st)
      else (Some (SkillNudge skill (how_to_track t)), st\<lparr>n_skill_reminded := True\<rparr>))"

definition command_of :: "'n json \<Rightarrow> string option" where
  "command_of payload = Option.bind (Option.bind (json_get ''tool_input'' payload) (json_get ''command'')) json_str"

definition boundary_reminder :: "'n json \<Rightarrow> tracking \<Rightarrow> nudge_state \<Rightarrow> nudge option \<times> nudge_state" where
  "boundary_reminder payload t st =
     (case step_boundary (case command_of payload of Some c \<Rightarrow> c | None \<Rightarrow> []) of
        Inl _ \<Rightarrow> (None, st)
      | Inr None \<Rightarrow> (None, st)
      | Inr (Some event) \<Rightarrow>
          (case t of
             Tracked (Some slug) _ _ nxt queued \<Rightarrow>
               if queued = 0 then (None, st)
               else
                 let key = slug @ '' '' @ event in
                 if key \<in> set (n_boundary_reminded st) then (None, st)
                 else (Some (BoundaryNudge event slug queued nxt),
                       st\<lparr>n_boundary_reminded := n_boundary_reminded st @ [key]\<rparr>)
           | _ \<Rightarrow> (None, st)))"

text \<open>A change under the lock, saved when it altered the state or the file was reset.\<close>

definition with_stop_state ::
  "string option \<Rightarrow> (nudge_state \<Rightarrow> 'b \<times> nudge_state) \<Rightarrow> nudge_dir \<Rightarrow> 'b option \<times> nudge_dir" where
  "with_stop_state caller change d =
     (case state_key caller of
        None \<Rightarrow> (None, d)
      | Some key \<Rightarrow>
          (case lock_state_file key d of
             (False, d) \<Rightarrow> (None, d)
           | (True, d) \<Rightarrow>
               (case load_state key d of
                  None \<Rightarrow> (None, d)
                | Some (before, reset) \<Rightarrow>
                    let (out, st) = change before in
                    (Some out, if st \<noteq> before \<or> reset then snd (write_file key st d) else d))))"

definition question_text :: "tracking \<Rightarrow> nudge option" where
  "question_text t =
     (case t of Tracked (Some slug) _ _ _ _ \<Rightarrow> Some (WaitingNudge slug) | _ \<Rightarrow> None)"

definition question_reminder :: "tracking \<Rightarrow> string option \<Rightarrow> nudge_dir \<Rightarrow> nudge option \<times> nudge_dir" where
  "question_reminder t caller d =
     (case t of
        Tracked (Some slug) True _ _ _ \<Rightarrow>
          let (first, d) = with_stop_state caller (\<lambda>st.
                let first = (slug \<notin> set (n_ownerless_question_reminded st)) in
                (first, if first then st\<lparr>n_ownerless_question_reminded := n_ownerless_question_reminded st @ [slug]\<rparr>
                        else st)) d in
          if first = Some False then (None, d) else (question_text t, d)
      | _ \<Rightarrow> (question_text t, d))"

definition task_tracking :: "env \<Rightarrow> store \<Rightarrow> string option \<Rightarrow> tracking" where
  "task_tracking e s caller = tracking_in e (stored_read s) caller"

definition tool_reminder ::
  "task_tracker \<Rightarrow> 'n json \<Rightarrow> string \<Rightarrow> tracking \<Rightarrow> nudge_state \<Rightarrow> nudge option \<times> nudge_state" where
  "tool_reminder tracker payload tool t st =
     (if tool = ''Skill'' then skill_reminder tracker payload t st
      else if tool \<in> set mutating_tools then mutation_reminder tracker t st
      else if is_shell_tool tool then boundary_reminder payload t st
      else (None, st))"

definition handle_post_tool_use ::
  "task_tracker \<Rightarrow> 'n json \<Rightarrow> string option \<Rightarrow> env \<Rightarrow> store \<Rightarrow> nudge_dir \<Rightarrow> nudge option \<times> nudge_dir" where
  "handle_post_tool_use tracker payload session_id e s d =
     (if \<not> tt_nudges tracker then (None, d)
      else (case Option.bind (json_get ''tool_name'' payload) json_str of
              None \<Rightarrow> (None, d)
            | Some tool \<Rightarrow>
                let t = task_tracking e s session_id in
                if tool = ''AskUserQuestion'' then question_reminder t session_id d
                else (case state_key session_id of
                        None \<Rightarrow> (None, d)
                      | Some key \<Rightarrow>
                          let had_dir = hd_exists d;
                              (locked, d) = (if had_dir then lock_state_file key d else (False, d));
                              may_save = (\<not> had_dir \<or> locked) in
                          (case load_state key d of
                             None \<Rightarrow> (None, d)
                           | Some (before, reset) \<Rightarrow>
                               let (out, st) = tool_reminder tracker payload tool t before;
                                   st = settle t st in
                               (out, if (st \<noteq> before \<or> reset) \<and> may_save then snd (write_file key st d)
                                     else d)))))"

section \<open>Before a tool call\<close>

text \<open>
  The commit gate.  \<open>None\<close> lets the call pass.  A task that the command itself ends before it commits does
  not count as in progress.
\<close>

definition wip_open :: "tracking \<Rightarrow> string \<Rightarrow> bool" where
  "wip_open t command =
     (case t of
        Tracked (Some slug) _ _ _ _ \<Rightarrow> \<not> ends_task_before_commit command slug
      | _ \<Rightarrow> False)"

definition gate_with_state ::
  "string \<Rightarrow> string \<Rightarrow> tracking \<Rightarrow> nudge_state \<Rightarrow> nudge_dir \<Rightarrow> deny option \<times> nudge_dir" where
  "gate_with_state key command t st d =
     (let nested = (case shell_segments command of Inl _ \<Rightarrow> True | Inr _ \<Rightarrow> False) in
      case t of
        UnknownTracking cause \<Rightarrow> (Some (StoreUnreadableDeny cause), d)
      | _ \<Rightarrow>
          if wip_open t command then
            (if n_commit_denied st then
               (case write_file key (st\<lparr>n_commit_denied := False\<rparr>) d of
                  (True, d) \<Rightarrow> (None, d)
                | (False, d) \<Rightarrow> (Some UnsavedStateDeny, d))
             else (None, d))
          else if n_commit_denied st \<and> \<not> nested then (None, d)
          else
            (case write_file key (st\<lparr>n_commit_denied := True\<rparr>) d of
               (False, d) \<Rightarrow> (Some UnsavedStateDeny, d)
             | (True, d) \<Rightarrow> (Some (if nested then NestedDeny else NoTaskDeny (how_to_track t)), d)))"

definition handle_pre_tool_use ::
  "task_tracker \<Rightarrow> 'n json \<Rightarrow> string option \<Rightarrow> env \<Rightarrow> store \<Rightarrow> nudge_dir \<Rightarrow> deny option \<times> nudge_dir" where
  "handle_pre_tool_use tracker payload session_id e s d =
     (let is_shell = (case Option.bind (json_get ''tool_name'' payload) json_str of
                        Some tool \<Rightarrow> is_shell_tool tool | None \<Rightarrow> False) in
      if \<not> tt_enforce_commit tracker \<or> \<not> is_shell then (None, d)
      else (case command_of payload of
              None \<Rightarrow> (Some NoCommandDeny, d)
            | Some command \<Rightarrow>
                if \<not> runs_commit_or_pr command then (None, d)
                else (case session_id of
                        None \<Rightarrow> (Some NoSessionDeny, d)
                      | Some i \<Rightarrow>
                          if \<not> is_valid_short_name i then (Some (SessionNameDeny i), d)
                          else (case lock_state_file i d of
                                  (False, d) \<Rightarrow> (Some LockDeny, d)
                                | (True, d) \<Rightarrow>
                                    let t = task_tracking e s (Some i) in
                                    (case read_state i d of
                                       Inl k \<Rightarrow> (Some (StateUnreadableDeny k), d)
                                     | Inr (st, reset) \<Rightarrow>
                                         let d = (if reset then snd (write_file i st d) else d) in
                                         gate_with_state i command t st d)))))"

text \<open>The dispatcher calls the gate under the key of the agent that fired the hook.\<close>

definition commit_gate_call ::
  "(string \<Rightarrow> string) \<Rightarrow> ('n json \<Rightarrow> string) \<Rightarrow> task_tracker option \<Rightarrow> 'n json \<Rightarrow> string option \<Rightarrow> env \<Rightarrow> store \<Rightarrow>
   nudge_dir \<Rightarrow> deny option \<times> nudge_dir" where
  "commit_gate_call hash show tracker payload claude_session_id e s d =
     (let state_id = map_option (\<lambda>i. agent_state_key hash show i payload) claude_session_id in
      case tracker of
        Some tt \<Rightarrow> if tt_enabled tt then handle_pre_tool_use tt payload state_id e s d else (None, d)
      | None \<Rightarrow> (None, d))"

definition state_dir_deny :: "task_tracker \<Rightarrow> 'n json \<Rightarrow> deny option" where
  "state_dir_deny tracker payload =
     (let is_shell = (case Option.bind (json_get ''tool_name'' payload) json_str of
                        Some tool \<Rightarrow> is_shell_tool tool | None \<Rightarrow> False) in
      if \<not> tt_enforce_commit tracker \<or> \<not> is_shell then None
      else (case command_of payload of
              None \<Rightarrow> Some NoCommandDeny
            | Some command \<Rightarrow> if \<not> runs_commit_or_pr command then None else Some StateDirDeny))"

section \<open>At the end of a turn\<close>

definition clear_stop_turns :: "string option \<Rightarrow> nudge_dir \<Rightarrow> nudge_dir" where
  "clear_stop_turns caller d =
     (case state_key caller of
        None \<Rightarrow> d
      | Some key \<Rightarrow>
          if hd_files d key = None then d
          else snd (with_stop_state caller (\<lambda>st. ((), st\<lparr>n_stop_quiet_turns := 0\<rparr>)) d))"

definition stop_wip_reminder ::
  "task_tracker \<Rightarrow> string \<Rightarrow> nat \<Rightarrow> string option \<Rightarrow> nudge_dir \<Rightarrow> nudge option \<times> nudge_dir" where
  "stop_wip_reminder tracker slug queued caller d =
     (let every = max 1 (case tt_stop_nudge_every tracker of Some n \<Rightarrow> n | None \<Rightarrow> default_stop_nudge_every) in
      if state_key caller = None then (Some (StopWipNudge slug queued), d)
      else
        let (due, d) = with_stop_state caller (\<lambda>st.
              (n_stop_quiet_turns st = 0,
               st\<lparr>n_stop_quiet_turns := saturating_add (n_stop_quiet_turns st) 1 mod every\<rparr>)) d in
        (if due = Some True then Some (StopWipNudge slug queued) else None, d))"

definition asks_user :: "'n json \<Rightarrow> bool" where
  "asks_user payload =
     (case Option.bind (json_get ''last_assistant_message'' payload) json_str of
        Some m \<Rightarrow> ends_with (trim_end m) ''?'' | None \<Rightarrow> False)"

definition turn_stalled :: "tracking \<Rightarrow> bool" where
  "turn_stalled t = (case t of Tracked (Some _) _ _ _ queued \<Rightarrow> queued > 0 | _ \<Rightarrow> False)"

definition handle_stop ::
  "task_tracker \<Rightarrow> 'n json \<Rightarrow> string option \<Rightarrow> env \<Rightarrow> stored \<Rightarrow> nudge_dir \<Rightarrow> nudge option \<times> nudge_dir" where
  "handle_stop tracker payload caller e st d =
     (if \<not> tt_nudges tracker then (None, d)
      else
        let asks = asks_user payload;
            t = tracking_in e st caller;
            d = (if turn_stalled t then d else clear_stop_turns caller d) in
        case t of
          Tracked wip own waiting nxt queued \<Rightarrow>
            if wip \<noteq> None \<and> asks then question_reminder t caller d
            else if asks \<and> waiting \<noteq> [] then (Some (AnswerNudge waiting), d)
            else
              (case (wip, nxt) of
                 (None, Some slug) \<Rightarrow> (Some (QueuedNudge slug), d)
               | (Some slug, _) \<Rightarrow>
                   if queued > 0 then stop_wip_reminder tracker slug queued caller d else (None, d)
               | (None, None) \<Rightarrow> (None, d))
        | UnknownTracking cause \<Rightarrow> (Some (UnreadStoreNudge cause), d)
        | _ \<Rightarrow> (None, d))"

end
