(* ===== verification/Repeats.thy ===== *)
theory Repeats
  imports Nudges
begin

text \<open>
  The loop guards of the hooks: repeated tool calls and repeated reminders
  (\<open>src/hook_run/repeat_detect.rs\<close>), the Stop-hook guard (\<open>stop_dedupe.rs\<close>), and the Stop reminder that
  composes them with the task nudges (\<open>stop_reminder.rs\<close>).
\<close>

section \<open>Repeated calls\<close>

record repeat_detect =
  rc_enabled :: bool
  rc_threshold :: u32

definition silence_after_threshold_multiple :: u32 where "silence_after_threshold_multiple = 3"

record repeat_state =
  r_session_id :: string
  r_last_signature :: "string option"
  r_consecutive :: u32
  r_last_stop_signature :: "string option"
  r_stop_consecutive :: u32
  r_read_failed :: bool

definition new_repeat_state :: "string \<Rightarrow> repeat_state" where
  "new_repeat_state session_id = \<lparr>r_session_id = session_id, r_last_signature = None, r_consecutive = 0,
     r_last_stop_signature = None, r_stop_consecutive = 0, r_read_failed = False\<rparr>"

type_synonym repeat_dir = "repeat_state hook_dir"

definition load_repeats :: "repeat_dir \<Rightarrow> string \<Rightarrow> repeat_state" where
  "load_repeats d session_id =
     (case hd_files d session_id of
        None \<Rightarrow> new_repeat_state session_id
      | Some (Parsed st) \<Rightarrow> st\<lparr>r_read_failed := False\<rparr>
      | Some Malformed \<Rightarrow> new_repeat_state session_id
      | Some (Unreadable k) \<Rightarrow>
          if k = NotFound then new_repeat_state session_id
          else (new_repeat_state session_id)\<lparr>r_read_failed := True\<rparr>)"

definition save_repeats :: "repeat_state \<Rightarrow> repeat_dir \<Rightarrow> repeat_dir" where
  "save_repeats st d =
     (if r_read_failed st then d
      else
        let d = (if hd_files d (r_session_id st) = None then prune_stale_json_files 7 d else d) in
        snd (write_file (r_session_id st) st d))"

text \<open>The signature of a call; \<open>show\<close> prints a JSON value.\<close>

definition call_signature :: "('n json \<Rightarrow> string) \<Rightarrow> string \<Rightarrow> 'n json \<Rightarrow> string" where
  "call_signature show tool_name payload =
     tool_name @ '':'' @ show (case json_get ''tool_input'' payload of Some v \<Rightarrow> v | None \<Rightarrow> JNull)"

definition count_call :: "string \<Rightarrow> repeat_state \<Rightarrow> repeat_state" where
  "count_call signature st =
     (if r_last_signature st = Some signature then st\<lparr>r_consecutive := saturating_add (r_consecutive st) 1\<rparr>
      else st\<lparr>r_last_signature := Some signature, r_consecutive := 1\<rparr>)"

datatype repeat_warning = RepeatWarning string u32

definition repeat_pre_tool_use ::
  "(string \<Rightarrow> string) \<Rightarrow> ('n json \<Rightarrow> string) \<Rightarrow> 'n json \<Rightarrow> string option \<Rightarrow> repeat_detect \<Rightarrow> repeat_dir \<Rightarrow>
   repeat_warning option \<times> repeat_dir" where
  "repeat_pre_tool_use hash show payload session_id config d =
     (case state_key session_id of
        None \<Rightarrow> (None, d)
      | Some i \<Rightarrow>
          (case Option.bind (json_get ''tool_name'' payload) json_str of
             None \<Rightarrow> (None, d)
           | Some tool_name \<Rightarrow>
               let key = agent_state_key hash show i payload;
                   (locked, d) = lock_state_file key d;
                   st = count_call (call_signature show tool_name payload) (load_repeats d key);
                   d = save_repeats st d in
               (if r_consecutive st \<ge> max 1 (rc_threshold config)
                then Some (RepeatWarning tool_name (r_consecutive st)) else None, d)))"

definition count_stop :: "string \<Rightarrow> repeat_state \<Rightarrow> repeat_state" where
  "count_stop reminder st =
     (if r_last_stop_signature st = Some reminder
      then st\<lparr>r_stop_consecutive := saturating_add (r_stop_consecutive st) 1\<rparr>
      else st\<lparr>r_last_stop_signature := Some reminder, r_stop_consecutive := 1\<rparr>)"

datatype stop_text = Silent | AsIs string | Escalated string u32

definition repeat_stop ::
  "string \<Rightarrow> string option \<Rightarrow> repeat_detect \<Rightarrow> repeat_dir \<Rightarrow> stop_text \<times> repeat_dir" where
  "repeat_stop reminder session_id config d =
     (if reminder = [] then (Silent, d)
      else (case state_key session_id of
              None \<Rightarrow> (AsIs reminder, d)
            | Some i \<Rightarrow>
                let (locked, d) = lock_state_file i d;
                    st = count_stop reminder (load_repeats d i);
                    d = save_repeats st d;
                    consecutive = r_stop_consecutive st;
                    threshold = max 1 (rc_threshold config) in
                (if consecutive \<ge> saturating_mul threshold silence_after_threshold_multiple then Silent
                 else if consecutive \<ge> threshold then Escalated reminder consecutive
                 else AsIs reminder, d)))"

section \<open>The Stop-hook guard\<close>

type_synonym dedupe_dir = "string hook_dir"

definition stale_days :: nat where "stale_days = 7"

definition is_hook_continuation :: "'n json \<Rightarrow> bool" where
  "is_hook_continuation payload \<longleftrightarrow> json_get ''stop_hook_active'' payload = Some (JBool True)"

definition load_last :: "string \<Rightarrow> dedupe_dir \<Rightarrow> string option" where
  "load_last key d = (case hd_files d key of Some (Parsed h) \<Rightarrow> Some h | _ \<Rightarrow> None)"

definition save_last :: "string \<Rightarrow> string \<Rightarrow> dedupe_dir \<Rightarrow> dedupe_dir" where
  "save_last key h d = snd (write_file key h (prune_stale_json_files stale_days d))"

definition emit_once ::
  "(string \<Rightarrow> string) \<Rightarrow> string option \<Rightarrow> string \<Rightarrow> dedupe_dir \<Rightarrow> string \<times> dedupe_dir" where
  "emit_once hash session_id reminder d =
     (case state_key session_id of
        None \<Rightarrow> (reminder, d)
      | Some key \<Rightarrow>
          let (locked, d) = lock_state_file key d in
          if reminder = [] then ([], remove_file key d)
          else if load_last key d = Some (hash reminder) then ([], d)
          else (reminder, save_last key (hash reminder) d))"

definition forget_last :: "string option \<Rightarrow> dedupe_dir \<Rightarrow> dedupe_dir" where
  "forget_last session_id d = (case state_key session_id of None \<Rightarrow> d | Some key \<Rightarrow> remove_file key d)"

end
