(* ===== verification/Hook_Laws.thy ===== *)
theory Hook_Laws
  imports Repeats
begin

text \<open>
  What the hooks keep of their state files: saturating counters as numbers, the folder as a keyed store,
  and the marker of the commit gate, which only a deny sets and only a commit with a task in progress
  clears.
\<close>

section \<open>Counters\<close>

lemma unat_le_u32_max: "unat (a :: u32) \<le> u32_max"
  using unsigned_less[of a, where ?'a = nat] by (simp add: u32_max_def)

lemma unat_u32_top: "unat (-1 :: u32) = u32_max"
  by (simp add: u32_max_def unsigned_minus_1_eq_mask mask_eq_exp_minus_1)

lemma unat_saturating_add: "unat (saturating_add a b) = min u32_max (unat a + unat b)"
proof (cases "unat a + unat b < 2 ^ 32")
  case True
  then show ?thesis
    by (simp add: saturating_add_def u32_max_def unat_word_ariths)
next
  case False
  then show ?thesis by (simp add: saturating_add_def unat_u32_top, simp add: u32_max_def)
qed

lemma unat_saturating_sub: "unat (saturating_sub a b) = unat a - unat b"
  by (simp add: saturating_sub_def unat_sub word_le_nat_alt)

lemma unat_saturating_mul: "unat (saturating_mul a b) = min u32_max (unat a * unat b)"
proof (cases "unat a * unat b < 2 ^ 32")
  case True
  then show ?thesis
    by (simp add: saturating_mul_def u32_max_def unat_word_ariths)
next
  case False
  then show ?thesis by (simp add: saturating_mul_def unat_u32_top, simp add: u32_max_def)
qed

section \<open>Folders\<close>

lemma lock_files [simp]: "hd_files (snd (lock_state_file key d)) = hd_files d"
  by (simp add: lock_state_file_def lock_state_file_timed_def Let_def split: lock_file.split)

lemma write_files:
  "hd_files (snd (write_file key st d)) =
   (if fst (write_file key st d) then (hd_files d)(key \<mapsto> Parsed st) else hd_files d)"
  by (simp add: write_file_def Let_def split: write_answer.split)

section \<open>The marker of the commit gate\<close>

definition marker :: "string \<Rightarrow> nudge_dir \<Rightarrow> bool" where
  "marker key d = (case hd_files d key of Some (Parsed st) \<Rightarrow> n_commit_denied st | _ \<Rightarrow> False)"

lemma marker_lock [simp]: "marker key (snd (lock_state_file k d)) = marker key d"
  by (simp add: marker_def)

lemma marker_write:
  "marker key (snd (write_file k st d)) =
   (if fst (write_file k st d) \<and> key = k then n_commit_denied st else marker key d)"
  by (simp add: marker_def write_files)

lemma read_state_marker: "read_state key d = Inr (st, reset) \<Longrightarrow> n_commit_denied st = marker key d"
  by (auto simp: read_state_def marker_def default_nudge_state_def split: option.splits json_file.splits if_splits)

lemma load_state_marker: "load_state key d = Some (st, reset) \<Longrightarrow> n_commit_denied st = marker key d"
  by (auto simp: load_state_def read_state_marker split: sum.splits)

text \<open>Writing a state whose marker is the one on file changes no marker.\<close>

lemma marker_write_same:
  "n_commit_denied st = marker k d \<Longrightarrow> marker key (snd (write_file k st d)) = marker key d"
  by (simp add: marker_write)

lemma with_stop_state_marker:
  assumes "\<And>st. n_commit_denied (snd (change st)) = n_commit_denied st"
  shows "marker key (snd (with_stop_state caller change d)) = marker key d"
proof (cases "state_key caller")
  case (Some k)
  obtain ok d' where lock: "lock_state_file k d = (ok, d')" by fastforce
  then have d': "marker j d' = marker j d" for j using marker_lock[of j k d] by simp
  show ?thesis
  proof (cases "ok \<and> load_state k d' \<noteq> None")
    case True
    then obtain before reset where load: "load_state k d' = Some (before, reset)" by fastforce
    have "n_commit_denied (snd (change before)) = marker k d'"
      using assms[of before] load_state_marker[OF load] by simp
    then have "marker key (snd (write_file k (snd (change before)) d')) = marker key d'"
      by (rule marker_write_same)
    then show ?thesis
      using Some lock True load d' by (simp add: with_stop_state_def case_prod_beta)
  next
    case False
    then show ?thesis
      using Some lock d' by (cases ok; cases "load_state k d'") (simp_all add: with_stop_state_def)
  qed
qed (simp add: with_stop_state_def)

lemma question_reminder_marker: "marker key (snd (question_reminder t caller d)) = marker key d"
proof -
  have "marker key (snd (with_stop_state caller (\<lambda>st.
      let first = (slug \<notin> set (n_ownerless_question_reminded st)) in
      (first, if first then st\<lparr>n_ownerless_question_reminded := n_ownerless_question_reminded st @ [slug]\<rparr>
              else st)) d)) = marker key d" for slug
    by (rule with_stop_state_marker) (simp add: Let_def)
  then show ?thesis
    by (simp add: question_reminder_def case_prod_beta split: tracking.split option.split bool.split)
qed

lemma tool_reminder_marker: "n_commit_denied (snd (tool_reminder tracker payload tool t st)) = n_commit_denied st"
proof -
  have "n_commit_denied (snd (work_nudge tracker t st)) = n_commit_denied st" for t
    by (simp add: work_nudge_def Let_def)
  moreover have "n_commit_denied (snd (start_reminder slug st)) = n_commit_denied st" for slug
    by (simp add: start_reminder_def)
  moreover have "n_commit_denied (snd (skill_reminder tracker payload t st)) = n_commit_denied st"
    by (simp add: skill_reminder_def Let_def)
  moreover have "n_commit_denied (snd (boundary_reminder payload t st)) = n_commit_denied st"
    by (simp add: boundary_reminder_def Let_def split: sum.split option.split tracking.split)
  ultimately show ?thesis
    by (simp add: tool_reminder_def mutation_reminder_def split: tracking.split option.split)
qed

lemma settle_marker: "n_commit_denied (settle t st) = n_commit_denied st"
  by (simp add: settle_def split: tracking.split)

lemma handle_post_marker: "marker key (snd (handle_post_tool_use tracker payload i e s d)) = marker key d"
proof -
  let ?t = "task_tracking e s i"
  have saved: "marker key (snd (write_file k (settle ?t (snd (tool_reminder tracker payload tool ?t st))) d')) =
      marker key d'" if "map_option fst (load_state k d') = Some st" for k d' tool st
    by (rule marker_write_same) (use that load_state_marker[of k d' st] in
        \<open>auto simp: settle_marker tool_reminder_marker\<close>)
  show ?thesis
    by (simp add: handle_post_tool_use_def case_prod_beta Let_def question_reminder_marker saved
        split: option.split)
qed

lemma clear_stop_turns_marker: "marker key (snd (with_stop_state caller (\<lambda>st. ((), st\<lparr>n_stop_quiet_turns := 0\<rparr>)) d)) = marker key d"
  by (rule with_stop_state_marker) simp

lemma stop_wip_reminder_marker: "marker key (snd (stop_wip_reminder tracker slug queued caller d)) = marker key d"
proof -
  have "marker key (snd (with_stop_state caller (\<lambda>st. (n_stop_quiet_turns st = 0,
      st\<lparr>n_stop_quiet_turns := saturating_add (n_stop_quiet_turns st) 1 mod every\<rparr>)) d)) = marker key d" for every
    by (rule with_stop_state_marker) simp
  then show ?thesis by (simp add: stop_wip_reminder_def case_prod_beta Let_def)
qed

lemma handle_stop_marker: "marker key (snd (handle_stop tracker payload caller e st d)) = marker key d"
proof -
  have "marker key (clear_stop_turns caller d) = marker key d"
    by (simp add: clear_stop_turns_def clear_stop_turns_marker split: option.split)
  then show ?thesis
    by (simp add: handle_stop_def Let_def question_reminder_marker stop_wip_reminder_marker
        split: tracking.split option.split prod.split)
qed

section \<open>Decisions of the commit gate\<close>

text \<open>The command of a call that the gate has to decide.\<close>

definition gated_command :: "task_tracker \<Rightarrow> 'n json \<Rightarrow> string option" where
  "gated_command tracker payload =
     (if tt_enforce_commit tracker \<and>
         (case Option.bind (json_get ''tool_name'' payload) json_str of
            Some tool \<Rightarrow> is_shell_tool tool | None \<Rightarrow> False)
      then (case command_of payload of
              Some c \<Rightarrow> if runs_commit_or_pr c then Some c else None
            | None \<Rightarrow> None)
      else None)"

definition next_write_ok :: "'a hook_dir \<Rightarrow> bool" where
  "next_write_ok d = (case hd_writes d of [] \<Rightarrow> True | w # _ \<Rightarrow> w = Written)"

definition blocks_once :: "deny option \<Rightarrow> bool" where
  "blocks_once r = (case r of Some NestedDeny \<Rightarrow> True | Some (NoTaskDeny _) \<Rightarrow> True | _ \<Rightarrow> False)"

lemma write_ok: "fst (write_file key st d) = next_write_ok d"
  by (simp add: write_file_def next_write_ok_def Let_def split: write_answer.split list.split)

lemma lock_keeps:
  "lock_state_file key d = (ok, d') \<Longrightarrow> hd_files d' = hd_files d \<and> next_write_ok d' = next_write_ok d"
  by (auto simp: lock_state_file_def lock_state_file_timed_def next_write_ok_def Let_def
      split: if_splits lock_file.splits)

lemma read_state_files: "hd_files d' = hd_files d \<Longrightarrow> read_state key d' = read_state key d"
  by (simp add: read_state_def)

lemma read_state_reset: "read_state key d = Inr (st, True) \<Longrightarrow> \<not> n_commit_denied st"
  by (auto simp: read_state_def default_nudge_state_def split: option.splits json_file.splits if_splits)

lemma gate_decision:
  "gate_with_state key c t st d =
   (case t of
      UnknownTracking cause \<Rightarrow> (Some (StoreUnreadableDeny cause), d)
    | _ \<Rightarrow>
        if wip_open t c then
          (if n_commit_denied st then
             (if next_write_ok d then None else Some UnsavedStateDeny,
              snd (write_file key (st\<lparr>n_commit_denied := False\<rparr>) d))
           else (None, d))
        else if n_commit_denied st \<and> shell_segments c \<noteq> Inl NestingTooDeep then (None, d)
        else
          (if next_write_ok d
           then Some (if shell_segments c = Inl NestingTooDeep then NestedDeny else NoTaskDeny (how_to_track t))
           else Some UnsavedStateDeny,
           snd (write_file key (st\<lparr>n_commit_denied := True\<rparr>) d)))"
proof -
  have nested: "(case shell_segments c of Inl _ \<Rightarrow> True | Inr _ \<Rightarrow> False) \<longleftrightarrow> shell_segments c = Inl NestingTooDeep"
    by (cases "shell_segments c") (auto intro: nesting_error.exhaust)
  have saved: "(case write_file key x d of (True, d') \<Rightarrow> (a, d') | (False, d') \<Rightarrow> (b, d')) =
      (if next_write_ok d then a else b, snd (write_file key x d))" for x a b
    using write_ok[of key x d] by (cases "write_file key x d") (simp split: bool.split)
  have saved': "(case write_file key x d of (False, d') \<Rightarrow> (b, d') | (True, d') \<Rightarrow> (a, d')) =
      (if next_write_ok d then a else b, snd (write_file key x d))" for x a b
    using write_ok[of key x d] by (cases "write_file key x d") (simp split: bool.split)
  show ?thesis
    unfolding gate_with_state_def Let_def nested saved saved' ..
qed

lemma handle_pre_ungated:
  "gated_command tracker payload = None \<Longrightarrow> snd (handle_pre_tool_use tracker payload sid e s d) = d"
  by (auto simp: gated_command_def handle_pre_tool_use_def Let_def split: option.splits if_splits)

lemma handle_pre_gated:
  assumes "gated_command tracker payload = Some c"
  shows "handle_pre_tool_use tracker payload sid e s d =
     (case sid of
        None \<Rightarrow> (Some NoSessionDeny, d)
      | Some i \<Rightarrow>
          if \<not> is_valid_short_name i then (Some (SessionNameDeny i), d)
          else if \<not> fst (lock_state_file i d) then (Some LockDeny, snd (lock_state_file i d))
          else (case read_state i d of
                  Inl k \<Rightarrow> (Some (StateUnreadableDeny k), snd (lock_state_file i d))
                | Inr (st, reset) \<Rightarrow>
                    gate_with_state i c (task_tracking e s sid) st
                      (if reset then snd (write_file i st (snd (lock_state_file i d)))
                       else snd (lock_state_file i d))))"
proof -
  have read: "read_state i d' = read_state i d" if "lock_state_file i d = (ok, d')" for i ok d'
    using lock_keeps[OF that] by (simp add: read_state_def)
  show ?thesis
    using assms
    by (auto simp: gated_command_def handle_pre_tool_use_def Let_def read split: option.splits if_splits
        prod.split bool.split sum.split)
qed

lemma gate_passes_iff:
  assumes "gated_command tracker payload = Some c"
  shows "fst (handle_pre_tool_use tracker payload sid e s d) = None \<longleftrightarrow>
     (\<exists>i. sid = Some i \<and> is_valid_short_name i \<and> fst (lock_state_file i d) \<and> (\<exists>r. read_state i d = Inr r) \<and>
        (\<forall>cause. task_tracking e s sid \<noteq> UnknownTracking cause) \<and>
        (if wip_open (task_tracking e s sid) c then marker i d \<longrightarrow> next_write_ok d
         else marker i d \<and> shell_segments c \<noteq> Inl NestingTooDeep))"
proof (cases sid)
  case None
  then show ?thesis by (simp add: handle_pre_gated[OF assms])
next
  case (Some i)
  let ?d = "snd (lock_state_file i d)" and ?t = "task_tracking e s (Some i)"
  have ok: "next_write_ok ?d = next_write_ok d" using lock_keeps[of i d "fst (lock_state_file i d)" ?d] by simp
  have pass: "fst (gate_with_state i c ?t st (if reset then snd (write_file i st ?d) else ?d)) = None \<longleftrightarrow>
      (\<forall>cause. ?t \<noteq> UnknownTracking cause) \<and>
      (if wip_open ?t c then marker i d \<longrightarrow> next_write_ok d
       else marker i d \<and> shell_segments c \<noteq> Inl NestingTooDeep)"
    if "read_state i d = Inr (st, reset)" for st reset
  proof -
    have m: "n_commit_denied st = marker i d" by (rule read_state_marker[OF that])
    have "reset \<Longrightarrow> \<not> marker i d" using that read_state_reset[of i d st] m by (cases reset) simp_all
    then show ?thesis using ok m by (cases reset; cases ?t) (simp_all add: gate_decision)
  qed
  show ?thesis
    using pass by (auto simp: Some handle_pre_gated[OF assms] split: sum.split prod.split)
qed

section \<open>Runs of hook calls\<close>

text \<open>
  The calls of the hooks on one folder, in any order and of any sessions, and damage to a state file
  between them.  The answers of the system are those of the folder at the start.
\<close>

datatype 'n hook_call =
    PreCall task_tracker "'n json" "string option" env store
  | PostCall task_tracker "'n json" "string option" env store
  | StopCall task_tracker "'n json" "string option" env stored
  | Damage string "nudge_state json_file option"

fun hook_step :: "'n hook_call \<Rightarrow> nudge_dir \<Rightarrow> nudge_dir" where
  "hook_step (PreCall tracker payload sid e s) d = snd (handle_pre_tool_use tracker payload sid e s d)"
| "hook_step (PostCall tracker payload sid e s) d = snd (handle_post_tool_use tracker payload sid e s d)"
| "hook_step (StopCall tracker payload sid e st) d = snd (handle_stop tracker payload sid e st d)"
| "hook_step (Damage key f) d =
     (case f of Some (Parsed _) \<Rightarrow> d | _ \<Rightarrow> d\<lparr>hd_files := (hd_files d)(key := f)\<rparr>)"

definition hook_run :: "'n hook_call list \<Rightarrow> nudge_dir \<Rightarrow> nudge_dir" where
  "hook_run calls d = fold hook_step calls d"

fun denies_once :: "string \<Rightarrow> 'n hook_call \<Rightarrow> nudge_dir \<Rightarrow> bool" where
  "denies_once i (PreCall tracker payload sid e s) d =
     (sid = Some i \<and> blocks_once (fst (handle_pre_tool_use tracker payload sid e s d)))"
| "denies_once i _ d = False"

fun passes :: "bool \<Rightarrow> string \<Rightarrow> 'n hook_call \<Rightarrow> nudge_dir \<Rightarrow> bool" where
  "passes tracked i (PreCall tracker payload sid e s) d =
     (sid = Some i \<and> fst (handle_pre_tool_use tracker payload sid e s d) = None \<and>
      (case gated_command tracker payload of
         Some c \<Rightarrow> wip_open (task_tracking e s sid) c = tracked
       | None \<Rightarrow> False))"
| "passes tracked i _ d = False"

lemma gate_marker:
  assumes "n_commit_denied st = marker key d"
  shows "marker j (snd (gate_with_state key c t st d)) \<Longrightarrow>
           marker j d \<or> j = key \<and> blocks_once (fst (gate_with_state key c t st d))"
    and "fst (gate_with_state key c t st d) = None \<Longrightarrow> wip_open t c \<Longrightarrow>
           \<not> marker key (snd (gate_with_state key c t st d))"
  using assms
  by (cases t; simp add: gate_decision marker_write write_ok blocks_once_def wip_open_def split: if_splits)+

lemma handle_pre_cases:
  assumes "gated_command tracker payload = Some c"
  obtains (refused) x where "fst (handle_pre_tool_use tracker payload sid e s d) = Some x"
      "\<And>j. marker j (snd (handle_pre_tool_use tracker payload sid e s d)) = marker j d"
  | (decided) k st d' where "sid = Some k" "\<And>j. marker j d' = marker j d" "n_commit_denied st = marker k d'"
      "handle_pre_tool_use tracker payload sid e s d = gate_with_state k c (task_tracking e s sid) st d'"
proof (cases "\<exists>k. sid = Some k \<and> is_valid_short_name k \<and> fst (lock_state_file k d) \<and>
    (\<exists>st reset. read_state k d = Inr (st, reset))")
  case True
  then obtain k st reset where k: "sid = Some k" "is_valid_short_name k" "fst (lock_state_file k d)"
    and read: "read_state k d = Inr (st, reset)" by blast
  let ?d = "if reset then snd (write_file k st (snd (lock_state_file k d))) else snd (lock_state_file k d)"
  have same: "marker j ?d = marker j d" for j
    using read_state_marker[OF read] by (simp add: marker_write_same)
  show ?thesis
    by (rule decided[OF k(1) same])
      (use k read same read_state_marker[OF read] in \<open>simp_all add: handle_pre_gated[OF assms]\<close>)
next
  case False
  have "\<exists>x. fst (handle_pre_tool_use tracker payload sid e s d) = Some x"
    using False by (auto simp: handle_pre_gated[OF assms] split: option.split sum.split)
  moreover have "marker j (snd (handle_pre_tool_use tracker payload sid e s d)) = marker j d" for j
    using False by (auto simp: handle_pre_gated[OF assms] split: option.split sum.split)
  ultimately show ?thesis using refused by blast
qed

lemma handle_pre_marker:
  assumes "gated_command tracker payload = Some c"
  shows "marker i (snd (handle_pre_tool_use tracker payload sid e s d)) \<Longrightarrow>
           marker i d \<or> sid = Some i \<and> blocks_once (fst (handle_pre_tool_use tracker payload sid e s d))"
    and "sid = Some i \<Longrightarrow> fst (handle_pre_tool_use tracker payload sid e s d) = None \<Longrightarrow>
           wip_open (task_tracking e s sid) c \<Longrightarrow> \<not> marker i (snd (handle_pre_tool_use tracker payload sid e s d))"
proof -
  let ?r = "handle_pre_tool_use tracker payload sid e s d"
  have "(marker i (snd ?r) \<longrightarrow> marker i d \<or> sid = Some i \<and> blocks_once (fst ?r)) \<and>
      (sid = Some i \<and> fst ?r = None \<and> wip_open (task_tracking e s sid) c \<longrightarrow> \<not> marker i (snd ?r))"
  proof (rule handle_pre_cases[OF assms, of sid e s d])
    fix k st d'
    assume "sid = Some k" "\<And>j. marker j d' = marker j d" "n_commit_denied st = marker k d'"
      "?r = gate_with_state k c (task_tracking e s sid) st d'"
    then show ?thesis
      using gate_marker(1)[of st k d' i c "task_tracking e s sid"] gate_marker(2)[of st k d' c "task_tracking e s sid"]
      by (cases "k = i") auto
  qed simp
  then show "marker i (snd ?r) \<Longrightarrow> marker i d \<or> sid = Some i \<and> blocks_once (fst ?r)"
    "sid = Some i \<Longrightarrow> fst ?r = None \<Longrightarrow> wip_open (task_tracking e s sid) c \<Longrightarrow> \<not> marker i (snd ?r)" by blast+
qed

lemma step_marker:
  assumes "marker i (hook_step call d)"
  shows "marker i d \<or> denies_once i call d" and "\<not> passes True i call d"
proof -
  have "(marker i d \<or> denies_once i call d) \<and> \<not> passes True i call d"
  proof (cases call)
    case (PreCall tracker payload sid e s)
    show ?thesis
    proof (cases "gated_command tracker payload")
      case None
      then show ?thesis using assms handle_pre_ungated[OF None] by (simp add: PreCall)
    next
      case (Some c)
      show ?thesis using assms handle_pre_marker[OF Some] by (auto simp: PreCall Some)
    qed
  next
    case (Damage key f)
    then show ?thesis using assms by (auto simp: marker_def split: option.splits json_file.splits if_splits)
  qed (use assms in \<open>simp_all add: handle_post_marker handle_stop_marker\<close>)
  then show "marker i d \<or> denies_once i call d" "\<not> passes True i call d" by simp_all
qed

lemma free_pass_marker: "passes False i call d \<Longrightarrow> marker i d"
  by (cases call) (auto simp: gate_passes_iff split: option.splits)

lemma hook_run_Suc:
  "n < length calls \<Longrightarrow> hook_run (take (Suc n) calls) d = hook_step (calls ! n) (hook_run (take n calls) d)"
  by (simp add: hook_run_def take_Suc_conv_app_nth)

lemma marker_from_deny:
  assumes "\<not> marker i d" and "n \<le> length calls" and "marker i (hook_run (take n calls) d)"
  shows "\<exists>m<n. denies_once i (calls ! m) (hook_run (take m calls) d) \<and>
           (\<forall>k. m < k \<and> k < n \<longrightarrow> \<not> passes True i (calls ! k) (hook_run (take k calls) d))"
  using assms(2,3)
proof (induction n)
  case 0
  then show ?case using assms(1) by (simp add: hook_run_def)
next
  case (Suc n)
  let ?d = "hook_run (take n calls) d"
  have step: "marker i (hook_step (calls ! n) ?d)" using Suc.prems hook_run_Suc[of n calls d] by simp
  from step_marker(1)[OF step] show ?case
  proof
    assume "marker i ?d"
    then obtain m where "m < n" "denies_once i (calls ! m) (hook_run (take m calls) d)"
      "\<forall>k. m < k \<and> k < n \<longrightarrow> \<not> passes True i (calls ! k) (hook_run (take k calls) d)"
      using Suc by auto
    then show ?thesis using step_marker(2)[OF step] by (intro exI[of _ m]) (auto simp: less_Suc_eq)
  next
    assume "denies_once i (calls ! n) ?d"
    then show ?thesis by (intro exI[of _ n]) auto
  qed
qed

section \<open>Streaks\<close>

text \<open>A counter of equal events in a row, as both trackers of the repeat detector keep one.\<close>

definition streak :: "'k list \<Rightarrow> nat" where
  "streak xs = length (takeWhile (\<lambda>x. x = last xs) (rev xs))"

lemma streak_snoc: "streak (xs @ [x]) = (if xs \<noteq> [] \<and> last xs = x then Suc (streak xs) else 1)"
  by (cases xs rule: rev_cases) (auto simp: streak_def)

locale streak_counter =
  fixes bump :: "'k \<Rightarrow> 's \<Rightarrow> 's" and key :: "'s \<Rightarrow> 'k option" and cnt :: "'s \<Rightarrow> u32"
  assumes key_bump: "key (bump k s) = Some k"
    and cnt_bump: "cnt (bump k s) = (if key s = Some k then saturating_add (cnt s) 1 else 1)"
begin

lemma key_fold: "xs \<noteq> [] \<Longrightarrow> key (fold bump xs s) = Some (last xs)"
  by (cases xs rule: rev_cases) (simp_all add: key_bump)

lemma cnt_fold:
  assumes "key s = None" "xs \<noteq> []"
  shows "unat (cnt (fold bump xs s)) = min u32_max (streak xs)"
  using assms(2)
proof (induction xs rule: rev_induct)
  case (snoc x xs)
  show ?case
  proof (cases "xs = []")
    case True
    then show ?thesis using assms(1) by (simp add: cnt_bump streak_def u32_max_def)
  next
    case False
    then show ?thesis
      using snoc.IH key_fold[OF False, of s]
      by (auto simp: cnt_bump streak_snoc unat_saturating_add u32_max_def)
  qed
qed simp

end

interpretation calls: streak_counter count_call r_last_signature r_consecutive
  by unfold_locales (simp_all add: count_call_def)

interpretation stops: streak_counter count_stop r_last_stop_signature r_stop_consecutive
  by unfold_locales (simp_all add: count_stop_def)

end
