(* ===== verification/Hook_Theorems.thy ===== *)
theory Hook_Theorems
  imports Hook_Laws Samples
begin

text \<open>
  The properties of the hooks that keep state between calls: the commit gate denies before it lets an
  untracked commit pass, also across failures and damage; the work nudges come on schedule; repeated
  calls are counted exactly, up to the width of the counter.
\<close>

section \<open>Folders without failures\<close>

definition calm :: "'a hook_dir \<Rightarrow> bool" where
  "calm d \<longleftrightarrow> hd_locks d = [] \<and> hd_writes d = []"

lemma calm_empty: "calm empty_dir"
  by (simp add: calm_def empty_dir_def)

lemma calm_lock:
  assumes "calm d" "is_valid_short_name key"
  shows "lock_state_file key d = (True, d\<lparr>hd_exists := True\<rparr>)"
  using assms
  by (simp add: calm_def lock_state_file_def lock_state_file_timed_def next_lock_def lock_attempts_def
      eval_nat_numeral)

lemma calm_write:
  assumes "calm d"
  shows "write_file key st d = (True, d\<lparr>hd_exists := True, hd_files := (hd_files d)(key \<mapsto> Parsed st),
    hd_ages := (hd_ages d)(key := 0)\<rparr>)"
  using assms by (simp add: calm_def write_file_def Let_def)

section \<open>The schedule of the work nudges\<close>








lemma unat_of_nat_u32: "n < 2 ^ 32 \<Longrightarrow> unat (of_nat n :: u32) = n"
  by (simp add: unat_of_nat)







text \<open>Samples: payloads of an edit and of a commit, and a store with no session.\<close>

definition edit_payload :: "nat json" where
  "edit_payload = JObject [(''tool_name'', JString ''Edit'')]"

definition commit_payload :: "nat json" where
  "commit_payload = JObject [(''tool_input'', JObject [(''command'', JString ''git commit -m x'')]),
     (''tool_name'', JString ''Bash'')]"

definition bare_store :: store where "bare_store = mk_store [] []"


section \<open>The commit gate\<close>

text \<open>The commit gate decides exactly: a call that commits passes only with a plain session name, its
  lock taken, its state file readable and the task store readable, and then exactly if a task is in
  progress that the command does not end first (and an old marker could be cleared), or the marker of
  an earlier deny is set and the command could be split; everything else is denied.\<close>

lemma gate_passes_exactly:
  assumes "gated_command tracker payload = Some c"
  shows "fst (handle_pre_tool_use tracker payload sid e s d) = None \<longleftrightarrow>
     (\<exists>i. sid = Some i \<and> is_valid_short_name i \<and> fst (lock_state_file i d) \<and> (\<exists>r. read_state i d = Inr r) \<and>
        (\<forall>cause. task_tracking e s sid \<noteq> UnknownTracking cause) \<and>
        (if wip_open (task_tracking e s sid) c then marker i d \<longrightarrow> next_write_ok d
         else marker i d \<and> shell_segments c \<noteq> Inl NestingTooDeep))"
  by (rule gate_passes_iff[OF assms])

lemma gate_passes_exactly_witness:
  "fst (handle_pre_tool_use default_task_tracker commit_payload (Some ''s1'') sample_env bare_store empty_dir) \<noteq>
     None"
proof -
  have gated: "gated_command default_task_tracker commit_payload = Some ''git commit -m x''" by code_simp
  have "\<not> wip_open (task_tracking sample_env bare_store (Some ''s1'')) ''git commit -m x''"
    "\<not> marker ''s1'' empty_dir" by code_simp+
  then show ?thesis
    using gate_passes_exactly[OF gated, of "Some ''s1''" sample_env bare_store empty_dir] by simp
qed

lemma blocked_sets_marker:
  assumes "gated_command tracker payload = Some c"
    and "fst (handle_pre_tool_use tracker payload (Some i) e s d) = Some (NoTaskDeny a)"
  shows "marker i (snd (handle_pre_tool_use tracker payload (Some i) e s d))"
    and "\<not> wip_open (task_tracking e s (Some i)) c" and "shell_segments c \<noteq> Inl NestingTooDeep"
    and "task_tracking e s (Some i) \<noteq> UnknownTracking cause" and "is_valid_short_name i"
proof -
  let ?r = "handle_pre_tool_use tracker payload (Some i) e s d" and ?t = "task_tracking e s (Some i)"
  show valid: "is_valid_short_name i"
    using assms(2) by (simp add: handle_pre_gated[OF assms(1)] split: if_splits)
  then have lock: "fst (lock_state_file i d)"
    using assms(2) by (simp add: handle_pre_gated[OF assms(1)] split: if_splits)
  have "\<exists>st reset. read_state i d = Inr (st, reset)"
    using assms(2) valid lock by (cases "read_state i d") (auto simp: handle_pre_gated[OF assms(1)])
  then obtain st d' where r: "?r = gate_with_state i c ?t st d'"
    using valid lock by (auto simp: handle_pre_gated[OF assms(1)])
  show "task_tracking e s (Some i) \<noteq> UnknownTracking cause" using assms(2) r by (auto simp: gate_decision)
  have "marker i (snd ?r) \<and> \<not> wip_open ?t c \<and> shell_segments c \<noteq> Inl NestingTooDeep"
    using assms(2) r
    by (cases ?t) (simp_all add: gate_decision marker_write write_ok split: if_splits)
  then show "marker i (snd ?r)" "\<not> wip_open ?t c" "shell_segments c \<noteq> Inl NestingTooDeep" by simp_all
qed

text \<open>The command that was blocked goes through when it is run again, as the message says.\<close>

lemma retry_passes:
  assumes "gated_command tracker payload = Some c"
    and "handle_pre_tool_use tracker payload (Some i) e s d = (Some (NoTaskDeny a), d')"
    and "fst (lock_state_file i d')"
  shows "fst (handle_pre_tool_use tracker payload (Some i) e s d') = None"
proof -
  have deny: "fst (handle_pre_tool_use tracker payload (Some i) e s d) = Some (NoTaskDeny a)"
    using assms(2) by simp
  note blocked = blocked_sets_marker[OF assms(1) deny]
  have "marker i d'" using blocked(1) assms(2) by simp
  moreover from this have "\<exists>r. read_state i d' = Inr r"
    by (auto simp: marker_def read_state_def split: option.splits json_file.splits)
  ultimately show ?thesis
    using blocked(2-5) assms(3) by (simp add: gate_passes_iff[OF assms(1)])
qed

text \<open>C19. No commit passes untracked unless its session was told first: in every run of hook calls of any
  sessions, with failures of the system and damage to state files in between, a commit that passes with no
  task in progress comes after a deny of a commit of the same session, and no commit with a task in
  progress passed between the two.\<close>

theorem untracked_commit_was_denied_before:
  assumes "n < length calls" and "\<not> marker i d"
    and "passes False i (calls ! n) (hook_run (take n calls) d)"
  shows "\<exists>m<n. denies_once i (calls ! m) (hook_run (take m calls) d) \<and>
           (\<forall>k. m < k \<and> k < n \<longrightarrow> \<not> passes True i (calls ! k) (hook_run (take k calls) d))"
  by (rule marker_from_deny[OF assms(2) less_imp_le[OF assms(1)] free_pass_marker[OF assms(3)]])

definition sample_calls :: "nat hook_call list" where
  "sample_calls = replicate 2 (PreCall default_task_tracker commit_payload (Some ''s1'') sample_env bare_store)"

lemma sample_deny:
  "fst (handle_pre_tool_use default_task_tracker commit_payload (Some ''s1'') sample_env bare_store empty_dir) =
     Some (NoTaskDeny StartSession)"
  by code_simp

lemma sample_relock:
  "fst (lock_state_file ''s1''
     (snd (handle_pre_tool_use default_task_tracker commit_payload (Some ''s1'') sample_env bare_store empty_dir)))"
  by code_simp

theorem untracked_commit_was_denied_before_witness:
  "passes False ''s1'' (sample_calls ! 1) (hook_run (take 1 sample_calls) empty_dir) \<and>
   (\<exists>m<1. denies_once ''s1'' (sample_calls ! m) (hook_run (take m sample_calls) empty_dir))"
proof -
  let ?d = "snd (handle_pre_tool_use default_task_tracker commit_payload (Some ''s1'') sample_env bare_store empty_dir)"
  have gated: "gated_command default_task_tracker commit_payload = Some ''git commit -m x''" by code_simp
  have "\<not> wip_open (task_tracking sample_env bare_store (Some ''s1'')) ''git commit -m x''" by code_simp
  moreover have "fst (handle_pre_tool_use default_task_tracker commit_payload (Some ''s1'') sample_env bare_store ?d) = None"
    by (rule retry_passes[OF gated _ sample_relock]) (rule prod_eqI, simp_all add: sample_deny)
  ultimately have pass: "passes False ''s1'' (sample_calls ! 1) (hook_run (take 1 sample_calls) empty_dir)"
    by (simp add: sample_calls_def hook_run_def gated numeral_2_eq_2)
  have "1 < length sample_calls" "\<not> marker ''s1'' empty_dir" by code_simp+
  from untracked_commit_was_denied_before[OF this pass] pass show ?thesis by blast
qed

text \<open>
  The gate hands the key of the state file to the task tracking as the caller.  For a subagent that key is
  not the conversation, so a task in progress of its own conversation does not count.
\<close>

definition busy_store :: store where
  "busy_store = mk_store [mk_task ''work'' Wip None Queued [] (Some ''mine'') ''2026-1'']
     [mk_session ''mine'' (Some ''conv'') None]"

definition subagent_payload :: "nat json" where
  "subagent_payload = JObject [(''agent_id'', JString ''a1''),
     (''tool_input'', JObject [(''command'', JString ''git commit -m x'')]), (''tool_name'', JString ''Bash'')]"

lemma subagent_commit_ignores_task:
  "fst (commit_gate_call (\<lambda>_. ''00'') (\<lambda>_. []) (Some (default_task_tracker\<lparr>tt_enabled := True\<rparr>)) commit_payload
     (Some ''conv'') sample_env busy_store empty_dir) = None"
  "fst (commit_gate_call (\<lambda>_. ''00'') (\<lambda>_. []) (Some (default_task_tracker\<lparr>tt_enabled := True\<rparr>)) subagent_payload
     (Some ''conv'') sample_env busy_store empty_dir) = Some (NoTaskDeny StartSession)"
  by code_simp+

section \<open>Repeated calls\<close>

definition tool_of :: "'n json \<Rightarrow> string option" where
  "tool_of payload = Option.bind (json_get ''tool_name'' payload) json_str"

definition main_call :: "'n json \<Rightarrow> bool" where
  "main_call payload \<longleftrightarrow> json_get ''agent_id'' payload = None \<and> tool_of payload \<noteq> None"

definition signature_of :: "('n json \<Rightarrow> string) \<Rightarrow> 'n json \<Rightarrow> string" where
  "signature_of show payload = call_signature show (the (tool_of payload)) payload"

definition repeat_run ::
  "(string \<Rightarrow> string) \<Rightarrow> ('n json \<Rightarrow> string) \<Rightarrow> string \<Rightarrow> repeat_detect \<Rightarrow> 'n json list \<Rightarrow> repeat_dir \<Rightarrow> repeat_dir" where
  "repeat_run hash show i config = fold (\<lambda>p d. snd (repeat_pre_tool_use hash show p (Some i) config d))"

definition counted :: "string \<Rightarrow> string list \<Rightarrow> repeat_state" where
  "counted i sigs = fold count_call sigs (new_repeat_state i)"

lemma counted_keeps:
  "r_session_id (counted i sigs) = i \<and> \<not> r_read_failed (counted i sigs)"
  unfolding counted_def
  by (induction sigs rule: rev_induct) (simp_all add: new_repeat_state_def count_call_def)

definition calls_done :: "string \<Rightarrow> string list \<Rightarrow> repeat_dir \<Rightarrow> bool" where
  "calls_done i sigs d \<longleftrightarrow> calm d \<and>
     hd_files d i = (if sigs = [] then None else Some (Parsed (counted i sigs)))"

lemma repeat_step:
  assumes p: "main_call p" and i: "is_valid_short_name i" and d: "calls_done i sigs d"
    and st_def: "st = counted i (sigs @ [signature_of show p])"
  shows "fst (repeat_pre_tool_use hash show p (Some i) config d) =
      (if r_consecutive st \<ge> max 1 (rc_threshold config) then Some (RepeatWarning (the (tool_of p)) (r_consecutive st))
       else None)"
    and "calls_done i (sigs @ [signature_of show p]) (snd (repeat_pre_tool_use hash show p (Some i) config d))"
proof -
  let ?d = "d\<lparr>hd_exists := True\<rparr>"
  have calm: "calm d" "calm ?d" using d by (simp_all add: calls_done_def calm_def)
  have key: "agent_state_key hash show i p = i" using p by (simp add: main_call_def agent_state_key_def)
  have "(counted i sigs)\<lparr>r_read_failed := False\<rparr> = counted i sigs" using counted_keeps[of i sigs] by simp
  then have load: "load_repeats ?d i = counted i sigs"
    using d by (simp add: calls_done_def load_repeats_def counted_def)
  have st: "count_call (signature_of show p) (counted i sigs) = st" by (simp add: st_def counted_def)
  obtain d' where d': "calm d'" "hd_files (snd (write_file i st d')) = (hd_files d')(i \<mapsto> Parsed st)"
    "save_repeats st ?d = snd (write_file i st d')"
  proof (rule that)
    let ?d' = "if hd_files ?d i = None then prune_stale_json_files 7 ?d else ?d"
    show "calm ?d'" using calm by (simp add: calm_def prune_stale_json_files_def)
    then show "hd_files (snd (write_file i st ?d')) = (hd_files ?d')(i \<mapsto> Parsed st)" by (simp add: calm_write)
    show "save_repeats st ?d = snd (write_file i st ?d')"
      using counted_keeps[of i "sigs @ [signature_of show p]"] by (simp add: save_repeats_def st_def)
  qed
  obtain tool where tool: "tool_of p = Some tool" using p by (auto simp: main_call_def)
  have r: "repeat_pre_tool_use hash show p (Some i) config d =
      (if r_consecutive st \<ge> max 1 (rc_threshold config) then Some (RepeatWarning tool (r_consecutive st)) else None,
       snd (write_file i st d'))"
    using tool i key load st d'(3) calm_lock[OF calm(1) i]
    by (simp add: repeat_pre_tool_use_def state_key_def tool_of_def[symmetric] signature_of_def)
  then show "fst (repeat_pre_tool_use hash show p (Some i) config d) =
      (if r_consecutive st \<ge> max 1 (rc_threshold config) then Some (RepeatWarning (the (tool_of p)) (r_consecutive st))
       else None)"
    by (simp add: tool)
  show "calls_done i (sigs @ [signature_of show p]) (snd (repeat_pre_tool_use hash show p (Some i) config d))"
    using d'(1,2) by (simp add: r calls_done_def calm_write st_def) (simp add: calm_def)
qed

lemma repeat_run_done:
  assumes "is_valid_short_name i" "\<forall>p\<in>set ps. main_call p"
  shows "calls_done i (map (signature_of show) ps) (repeat_run hash show i config ps empty_dir)"
  using assms(2)
proof (induction ps rule: rev_induct)
  case Nil
  show ?case by (simp add: calls_done_def repeat_run_def calm_empty) (simp add: empty_dir_def)
next
  case (snoc p ps)
  then have "calls_done i (map (signature_of show) ps) (repeat_run hash show i config ps empty_dir)" by simp
  from repeat_step(2)[OF _ assms(1) this refl, of p] snoc.prems show ?case by (simp add: repeat_run_def)
qed

text \<open>Repeated calls are counted exactly: after any calls of a session, a call is answered with a warning
  exactly when the number of calls in a row with its tool and its input, itself included, has reached the
  threshold (0 counts as 1); the warning names that number, which stops at the largest 32-bit value.\<close>

lemma repeat_warning_exact:
  assumes "is_valid_short_name i" and "\<forall>q\<in>set (ps @ [p]). main_call q"
  shows "fst (repeat_pre_tool_use hash show p (Some i) config (repeat_run hash show i config ps empty_dir)) =
         (let n = min u32_max (streak (map (signature_of show) (ps @ [p]))) in
          if max 1 (unat (rc_threshold config)) \<le> n then Some (RepeatWarning (the (tool_of p)) (of_nat n)) else None)"
proof -
  let ?sigs = "map (signature_of show) (ps @ [p])"
  have past: "calls_done i (map (signature_of show) ps) (repeat_run hash show i config ps empty_dir)"
    using assms by (intro repeat_run_done) simp_all
  have n: "unat (r_consecutive (counted i ?sigs)) = min u32_max (streak ?sigs)"
    unfolding counted_def by (rule calls.cnt_fold) (simp_all add: new_repeat_state_def)
  then have w: "r_consecutive (counted i ?sigs) = of_nat (min u32_max (streak ?sigs))"
    by (simp add: word_unat_eq_iff unat_of_nat_u32 u32_max_def)
  have "max 1 (rc_threshold config) \<le> r_consecutive (counted i ?sigs) \<longleftrightarrow>
      max 1 (unat (rc_threshold config)) \<le> min u32_max (streak ?sigs)"
    unfolding word_le_nat_alt n by (simp add: max_def word_le_nat_alt)
  moreover have "main_call p" using assms(2) by simp
  note repeat_step(1)[OF this assms(1) past refl, of hash "show" config]
  ultimately show ?thesis using w by (simp add: Let_def)
qed

lemma repeat_warning_exact_witness:
  "fst (repeat_pre_tool_use (\<lambda>_. []) (\<lambda>_. []) commit_payload (Some ''s1'') \<lparr>rc_enabled = True, rc_threshold = 3\<rparr>
     (repeat_run (\<lambda>_. []) (\<lambda>_. []) ''s1'' \<lparr>rc_enabled = True, rc_threshold = 3\<rparr>
       [edit_payload, commit_payload, commit_payload] empty_dir)) = Some (RepeatWarning ''Bash'' 3)"
proof -
  have "is_valid_short_name ''s1''"
    "\<forall>q\<in>set ([edit_payload, commit_payload, commit_payload] @ [commit_payload]). main_call q"
    by code_simp+
  note sample = repeat_warning_exact[OF this, of "\<lambda>_. []" "\<lambda>_. []" "\<lparr>rc_enabled = True, rc_threshold = 3\<rparr>"]
  have "streak (map (signature_of (\<lambda>_. [])) ([edit_payload, commit_payload, commit_payload] @ [commit_payload])) = 3"
    "the (tool_of commit_payload) = ''Bash''" by code_simp+
  with sample show ?thesis by (simp add: u32_max_def)
qed

end
