(* ===== verification/Globs.thy ===== *)
theory Globs
  imports Json_Merge
begin

text \<open>
  The wildcard patterns of opencode permissions: the matcher, the overlap test and the subsumption test of
  \<open>src/adapter/opencode/permissions.rs\<close>.  The source works on \<open>char\<close>s, so a text is a list of code
  points here, not of bytes.  The language of a pattern is stated by \<open>glob_lang\<close>; the backtracking loop and
  the table of the overlap test are shown to decide it exactly.
\<close>

type_synonym cps = "nat list"

text \<open>The code points of a UTF-8 byte string, \<open>str::chars\<close>.\<close>

function code_points :: "nat list \<Rightarrow> cps" where
  "code_points [] = []"
| "code_points (a # r) =
     (if a < 0x80 then a # code_points r
      else if a < 0xE0 then ((a mod 32) * 64 + (r ! 0) mod 64) # code_points (drop 1 r)
      else if a < 0xF0 then
        ((a mod 16) * 4096 + ((r ! 0) mod 64) * 64 + (r ! 1) mod 64) # code_points (drop 2 r)
      else ((a mod 8) * 262144 + ((r ! 0) mod 64) * 4096 + ((r ! 1) mod 64) * 64 + (r ! 2) mod 64)
           # code_points (drop 3 r))"
  by pat_completeness auto
termination
  by (relation "measure length") auto

definition chars :: "string \<Rightarrow> cps" where
  "chars s = code_points (map of_char s)"

definition star :: nat where "star = 42"
definition query :: nat where "query = 63"

section \<open>The language of a pattern\<close>

fun glob_lang :: "cps \<Rightarrow> cps \<Rightarrow> bool" where
  "glob_lang [] s \<longleftrightarrow> s = []"
| "glob_lang (p # ps) [] \<longleftrightarrow> p = star \<and> glob_lang ps []"
| "glob_lang (p # ps) (c # cs) \<longleftrightarrow>
     (if p = star then glob_lang ps (c # cs) \<or> glob_lang (p # ps) cs
      else (p = query \<or> p = c) \<and> glob_lang ps cs)"

section \<open>The matcher\<close>

text \<open>The loop with its two positions, the last star and the position to resume from.\<close>

function glob_loop :: "cps \<Rightarrow> cps \<Rightarrow> nat \<Rightarrow> nat \<Rightarrow> nat option \<Rightarrow> nat \<Rightarrow> bool" where
  "glob_loop pat input p i last_star resume =
     (if i < length input then
        (if p < length pat \<and> pat ! p = star then glob_loop pat input (p + 1) i (Some p) i
         else if p < length pat \<and> pat ! p = query then glob_loop pat input (p + 1) (i + 1) last_star resume
         else if p < length pat \<and> input ! i = pat ! p then
           glob_loop pat input (p + 1) (i + 1) last_star resume
         else (case last_star of
                 Some s \<Rightarrow> glob_loop pat input (s + 1) (resume + 1) last_star (resume + 1)
               | None \<Rightarrow> False))
      else list_all (\<lambda>c. c = star) (drop p pat))"
  by pat_completeness auto
termination
proof (relation "measures
    [\<lambda>(pat, input, p, i, last_star, resume).
       max (length pat - p) (case last_star of Some s \<Rightarrow> length pat - (s + 1) | None \<Rightarrow> 0),
     \<lambda>(pat, input, p, i, last_star, resume). length input - resume,
     \<lambda>(pat, input, p, i, last_star, resume). length input - i]", goal_cases)
qed (auto split: option.splits)

declare glob_loop.simps [simp del]

definition glob_matches_cps :: "cps \<Rightarrow> cps \<Rightarrow> bool" where
  "glob_matches_cps pat input = glob_loop pat input 0 0 None 0"

text \<open>The same loop over the rest of the pattern and of the input, and the rests to go back to.\<close>

definition glob_from :: "cps \<Rightarrow> cps \<Rightarrow> (cps \<times> cps) option \<Rightarrow> bool" where
  "glob_from ps cs back \<longleftrightarrow> glob_lang ps cs \<or>
     (case back of None \<Rightarrow> False | Some (bs, r) \<Rightarrow> \<exists>k. glob_lang bs (drop (Suc k) r))"

definition resumable :: "cps \<Rightarrow> cps \<Rightarrow> (cps \<times> cps) option \<Rightarrow> bool" where
  "resumable ps cs back =
     (case back of
        None \<Rightarrow> True
      | Some (bs, r) \<Rightarrow>
          \<exists>w. star \<notin> set w \<and> bs = w @ ps \<and> length w \<le> length r \<and> cs = drop (length w) r)"

lemma glob_lang_stars: "glob_lang ps [] \<longleftrightarrow> list_all (\<lambda>c. c = star) ps"
  by (induction ps) simp_all

lemma glob_lang_suffix: "glob_lang (star # ps) (drop k cs) \<Longrightarrow> glob_lang (star # ps) cs"
proof (induction cs arbitrary: k)
  case (Cons c cs)
  then show ?case by (cases k) auto
qed simp

lemma ex_nat_split: "(\<exists>k. P k) \<longleftrightarrow> P 0 \<or> (\<exists>k. P (Suc k))"
  by (metis not0_implies_Suc)

lemma glob_lang_star: "glob_lang (star # ps) cs \<longleftrightarrow> (\<exists>k. glob_lang ps (drop k cs))"
proof (induction cs)
  case (Cons c cs)
  then show ?case by (simp add: ex_nat_split[of "\<lambda>k. glob_lang ps (drop k (c # cs))"])
qed simp

lemma glob_lang_plain_prefix:
  "star \<notin> set w \<Longrightarrow> glob_lang (w @ ps) cs \<Longrightarrow> length w \<le> length cs \<and> glob_lang ps (drop (length w) cs)"
proof (induction w arbitrary: cs)
  case (Cons x w)
  then show ?case by (cases cs) auto
qed simp

text \<open>A star makes every earlier choice irrelevant, and so does the end of the input.\<close>

lemma back_covered:
  assumes "resumable ps cs (Some (bs, r))" "glob_lang bs (drop (Suc k) r)"
    and "cs = [] \<or> ps \<noteq> [] \<and> hd ps = star"
  shows "glob_lang ps cs"
proof -
  obtain w where w: "star \<notin> set w" "bs = w @ ps" "length w \<le> length r" "cs = drop (length w) r"
    using assms(1) by (auto simp: resumable_def)
  have tail: "length w \<le> length r - Suc k" "glob_lang ps (drop (Suc k + length w) r)"
    using glob_lang_plain_prefix[OF w(1), of ps "drop (Suc k) r"] assms(2) w(2) by (simp_all add: add.commute)
  have "drop (Suc k + length w) r = drop (Suc k) cs" using w(4) by simp
  then have "glob_lang ps (drop (Suc k) cs)" using tail(2) by simp
  then show ?thesis
    using assms(3) glob_lang_suffix[of "tl ps" "Suc k" cs] by (cases ps) auto
qed

lemma resumable_step:
  assumes "resumable (p # ps) (c # cs) back" "p \<noteq> star"
  shows "resumable ps cs back"
proof (cases "back")
  case (Some b)
  obtain bs r where b: "b = (bs, r)" by fastforce
  from assms(1) Some b obtain w where w: "star \<notin> set w" "bs = w @ p # ps" "length w \<le> length r"
    "c # cs = drop (length w) r" by (auto simp: resumable_def)
  have "length w < length r" using w(4) by (cases "length w < length r") simp_all
  moreover have "cs = drop (length (w @ [p])) r" using arg_cong[OF w(4), of tl] by (simp add: drop_Suc tl_drop)
  ultimately show ?thesis
    using w assms(2) Some b by (auto simp: resumable_def intro!: exI[of _ "w @ [p]"])
qed (simp add: resumable_def)

text \<open>One round of the loop, and what it does to the language it decides.\<close>

lemma loop_star:
  "i < length input \<Longrightarrow> p < length pat \<Longrightarrow> pat ! p = star \<Longrightarrow>
   glob_loop pat input p i last_star resume = glob_loop pat input (Suc p) i (Some p) i"
  by (subst glob_loop.simps) simp

lemma loop_same:
  "i < length input \<Longrightarrow> p < length pat \<Longrightarrow> pat ! p \<noteq> star \<Longrightarrow> pat ! p = query \<or> pat ! p = input ! i \<Longrightarrow>
   glob_loop pat input p i last_star resume = glob_loop pat input (Suc p) (Suc i) last_star resume"
  by (subst glob_loop.simps) auto

lemma loop_other:
  "i < length input \<Longrightarrow> \<not> (p < length pat \<and> (pat ! p = star \<or> pat ! p = query \<or> pat ! p = input ! i)) \<Longrightarrow>
   glob_loop pat input p i last_star resume =
     (case last_star of None \<Rightarrow> False
      | Some s \<Rightarrow> glob_loop pat input (Suc s) (Suc resume) last_star (Suc resume))"
  by (subst glob_loop.simps) (auto split: option.split)

lemma from_star:
  assumes "resumable (star # ps) cs back"
  shows "glob_from (star # ps) cs back = glob_from ps cs (Some (ps, cs))"
proof -
  have "glob_lang (star # ps) cs" if "back = Some (bs, r)" "glob_lang bs (drop (Suc k) r)" for bs r k
    using back_covered[OF _ that(2)] assms that(1) by simp
  then have "glob_from (star # ps) cs back = glob_lang (star # ps) cs"
    by (auto simp: glob_from_def split: option.splits)
  then show ?thesis
    by (simp add: glob_lang_star glob_from_def ex_nat_split[of "\<lambda>k. glob_lang ps (drop k cs)"])
qed

lemma from_same: "p \<noteq> star \<Longrightarrow> p = query \<or> p = c \<Longrightarrow> glob_from (p # ps) (c # cs) back = glob_from ps cs back"
  by (auto simp: glob_from_def)

lemma from_other:
  assumes "\<not> glob_lang ps cs"
  shows "glob_from ps cs back =
    (case back of None \<Rightarrow> False | Some (bs, r) \<Rightarrow> glob_from bs (tl r) (Some (bs, tl r)))"
proof -
  have "(\<exists>k. glob_lang bs (drop (Suc k) r)) = glob_from bs (tl r) (Some (bs, tl r))" for bs r
    using ex_nat_split[of "\<lambda>k. glob_lang bs (drop (Suc k) r)"] by (simp add: glob_from_def drop_Suc)
  then show ?thesis using assms by (simp add: glob_from_def[of ps] split: option.split)
qed

lemma from_end: "resumable ps [] back \<Longrightarrow> glob_from ps [] back = list_all (\<lambda>c. c = star) ps"
  using back_covered[of ps "[]"] by (auto simp: glob_from_def glob_lang_stars split: option.splits)

lemma resumable_here: "resumable ps cs (Some (ps, cs))"
  by (simp add: resumable_def)

definition back_of :: "cps \<Rightarrow> cps \<Rightarrow> nat option \<Rightarrow> nat \<Rightarrow> (cps \<times> cps) option" where
  "back_of pat input last_star resume = map_option (\<lambda>s. (drop (Suc s) pat, drop resume input)) last_star"

lemma glob_loop_sound:
  assumes "resumable (drop p pat) (drop i input) (back_of pat input last_star resume)"
  shows "glob_loop pat input p i last_star resume \<longleftrightarrow>
     glob_from (drop p pat) (drop i input) (back_of pat input last_star resume)"
  using assms
proof (induction pat input p i last_star resume rule: glob_loop.induct)
  case (1 pat input p i last_star resume)
  show ?case
  proof (cases "i < length input")
    case False
    then show ?thesis using 1(5) from_end by (simp add: glob_loop.simps[of pat])
  next
    case True
    then have input: "drop i input = input ! i # drop (Suc i) input" by (simp add: Cons_nth_drop_Suc)
    have pat: "drop p pat = pat ! p # drop (Suc p) pat" if "p < length pat" using that by (simp add: Cons_nth_drop_Suc)
    consider (star) "p < length pat" "pat ! p = star"
      | (same) "p < length pat" "pat ! p \<noteq> star" "pat ! p = query \<or> pat ! p = input ! i"
      | (other) "\<not> (p < length pat \<and> (pat ! p = star \<or> pat ! p = query \<or> pat ! p = input ! i))" by blast
    then show ?thesis
    proof cases
      case star
      then show ?thesis
        using 1(1)[OF True] 1(5) True pat from_star[of "drop (Suc p) pat"] resumable_here[of "drop (Suc p) pat"]
        by (simp add: loop_star back_of_def)
    next
      case same
      have "resumable (drop (Suc p) pat) (drop (Suc i) input) (back_of pat input last_star resume)"
        using resumable_step same(2) 1(5) unfolding pat[OF same(1)] input by blast
      then have "glob_loop pat input (Suc p) (Suc i) last_star resume =
          glob_from (drop (Suc p) pat) (drop (Suc i) input) (back_of pat input last_star resume)"
        using 1(2,3)[OF True] same by (cases "pat ! p = query") simp_all
      then show ?thesis
        using loop_same[OF True same] from_same[OF same(2,3)] unfolding pat[OF same(1)] input by simp
    next
      case other
      have no: "\<not> glob_lang (drop p pat) (drop i input)"
        using other input pat by (cases "p < length pat") auto
      show ?thesis
      proof (cases last_star)
        case None
        then show ?thesis using loop_other[OF True other] from_other[OF no] by (simp add: back_of_def)
      next
        case (Some s)
        have again: "back_of pat input last_star (Suc resume) = Some (drop (Suc s) pat, drop (Suc resume) input)"
          "back_of pat input last_star resume = Some (drop (Suc s) pat, drop resume input)"
          using Some by (simp_all add: back_of_def)
        have "glob_loop pat input (Suc s) (Suc resume) last_star (Suc resume) =
            glob_from (drop (Suc s) pat) (drop (Suc resume) input) (back_of pat input last_star (Suc resume))"
          using 1(4)[OF True _ _ _ Some] other resumable_here again(1) by auto
        then show ?thesis
          using loop_other[OF True other] from_other[OF no] Some unfolding again
          by (simp add: tl_drop drop_Suc)
      qed
    qed
  qed
qed

lemma glob_matches_exact: "glob_matches_cps pat input \<longleftrightarrow> glob_lang pat input"
  using glob_loop_sound[of 0 pat 0 input None 0]
  by (simp add: glob_matches_cps_def resumable_def glob_from_def back_of_def)

section \<open>The overlap test\<close>

text \<open>
  The table of the overlap test, filled from the last row up and in each row from the right.  A row belongs
  to a suffix of the first pattern and has one cell for each suffix of the second; \<open>below\<close> is the row of the
  next suffix, cut to the cells from the current column on.
\<close>

definition rest_all_stars :: "cps \<Rightarrow> bool" where
  "rest_all_stars p = list_all (\<lambda>c. c = star) p"

fun table_row :: "cps \<Rightarrow> cps \<Rightarrow> bool list \<Rightarrow> bool list" where
  "table_row [] [] below = [True]"
| "table_row (x # xs) [] below = [rest_all_stars (x # xs)]"
| "table_row [] (y # ys) below = rest_all_stars (y # ys) # table_row [] ys (tl below)"
| "table_row (x # xs) (y # ys) below =
     (let right = table_row (x # xs) ys (tl below) in
      (if x = star then hd below \<or> hd right
       else if y = star then hd right \<or> hd below
       else (x = query \<or> y = query \<or> x = y) \<and> hd (tl below)) # right)"

fun table_rows :: "cps \<Rightarrow> cps \<Rightarrow> bool list" where
  "table_rows [] b = table_row [] b (replicate (length b + 1) False)"
| "table_rows (x # xs) b = table_row (x # xs) b (table_rows xs b)"

definition globs_intersect :: "cps \<Rightarrow> cps \<Rightarrow> bool" where
  "globs_intersect a b = hd (table_rows a b)"

definition share :: "cps \<Rightarrow> cps \<Rightarrow> bool" where
  "share a b \<longleftrightarrow> (\<exists>s. glob_lang a s \<and> glob_lang b s)"

fun tails :: "'a list \<Rightarrow> 'a list list" where
  "tails [] = [[]]"
| "tails (y # ys) = (y # ys) # tails ys"

lemma tails_Cons: "\<exists>r. tails ys = ys # r"
  by (cases ys) simp_all

lemma share_commute: "share a b = share b a"
  by (auto simp: share_def)

lemma share_Nil [simp]: "share [] b = rest_all_stars b"
  by (simp add: share_def glob_lang_stars rest_all_stars_def)

lemma share_Nil_right [simp]: "share a [] = rest_all_stars a"
  using share_commute share_Nil by metis

lemma share_star_split:
  "glob_lang (star # xs) s \<Longrightarrow> glob_lang (y # ys) s \<Longrightarrow> share xs (y # ys) \<or> share (star # xs) ys"
proof (induction s)
  case Nil
  then show ?case by (auto simp: share_def intro!: exI[of _ "[]"])
next
  case (Cons c cs)
  then show ?case
    using Cons by (cases "y = star") (auto simp: share_def split: if_splits)
qed

lemma share_star: "share (star # xs) (y # ys) \<longleftrightarrow> share xs (y # ys) \<or> share (star # xs) ys"
proof
  show "share (star # xs) (y # ys) \<Longrightarrow> share xs (y # ys) \<or> share (star # xs) ys"
    unfolding share_def[of "star # xs" "y # ys"] using share_star_split by blast
  have skip: "glob_lang (star # xs) s" if "glob_lang xs s" for s xs using that by (cases s) simp_all
  have "share (star # xs) (y # ys)" if "glob_lang (star # xs) s" "glob_lang ys s" for s
  proof (cases "y = star")
    case True
    then show ?thesis using that skip by (auto simp: share_def)
  next
    case False
    then have "glob_lang (star # xs) (y # s)" "glob_lang (y # ys) (y # s)" using that by simp_all
    then show ?thesis unfolding share_def by blast
  qed
  then show "share xs (y # ys) \<or> share (star # xs) ys \<Longrightarrow> share (star # xs) (y # ys)"
    using skip unfolding share_def by blast
qed

lemma share_plain:
  assumes "x \<noteq> star" "y \<noteq> star"
  shows "share (x # xs) (y # ys) \<longleftrightarrow> (x = query \<or> y = query \<or> x = y) \<and> share xs ys"
proof
  assume "share (x # xs) (y # ys)"
  then obtain s where s: "glob_lang (x # xs) s" "glob_lang (y # ys) s" by (auto simp: share_def)
  then show "(x = query \<or> y = query \<or> x = y) \<and> share xs ys"
    using assms by (cases s) (auto simp: share_def)
next
  assume r: "(x = query \<or> y = query \<or> x = y) \<and> share xs ys"
  then obtain s where s: "glob_lang xs s" "glob_lang ys s" by (auto simp: share_def)
  let ?c = "if x = query then y else x"
  have "glob_lang (x # xs) (?c # s)" "glob_lang (y # ys) (?c # s)" using r s assms by auto
  then show "share (x # xs) (y # ys)" unfolding share_def by blast
qed

lemma table_row_Nil: "table_row [] b below = map (share []) (tails b)"
  by (induction b arbitrary: below) (simp_all add: rest_all_stars_def)

lemma table_row_exact:
  "below = map (share xs) (tails b) \<Longrightarrow> table_row (x # xs) b below = map (share (x # xs)) (tails b)"
proof (induction b arbitrary: below)
  case (Cons y ys)
  obtain r where r: "tails ys = ys # r" using tails_Cons by blast
  have right: "table_row (x # xs) ys (tl below) = map (share (x # xs)) (tails ys)"
    by (rule Cons.IH) (simp add: Cons.prems)
  have "share (x # xs) (y # ys) \<longleftrightarrow> share (x # xs) ys \<or> share xs (y # ys)" if "y = star"
    using that share_star[of ys x xs] share_commute by metis
  then show ?case using r right Cons.prems share_star share_plain by (simp add: Let_def)
qed simp

lemma table_rows_exact: "table_rows a b = map (share a) (tails b)"
  by (induction a) (simp_all add: table_row_Nil table_row_exact del: share_Nil)

lemma globs_intersect_exact: "globs_intersect a b \<longleftrightarrow> (\<exists>s. glob_lang a s \<and> glob_lang b s)"
  using tails_Cons[of b] by (auto simp: globs_intersect_def table_rows_exact share_def)

section \<open>Patterns of permission rules\<close>

text \<open>\<open>replace\<close> of every backslash by a slash, and \<open>strip_suffix(" *")\<close>.\<close>

definition slashes :: "cps \<Rightarrow> cps" where
  "slashes s = map (\<lambda>c. if c = 92 then 47 else c) s"

definition strip_args :: "cps \<Rightarrow> cps option" where
  "strip_args p =
     (if 2 \<le> length p \<and> drop (length p - 2) p = [32, star] then Some (take (length p - 2) p) else None)"

definition wildcard_matches :: "cps \<Rightarrow> cps \<Rightarrow> bool" where
  "wildcard_matches pat input =
     (let normalized = slashes input; pat = slashes pat in
      (case strip_args pat of
         Some prefix \<Rightarrow> if glob_matches_cps prefix normalized then True else glob_matches_cps pat normalized
       | None \<Rightarrow> glob_matches_cps pat normalized))"

definition spellings :: "cps \<Rightarrow> cps list" where
  "spellings pat =
     (let pat = slashes pat in
      case strip_args pat of Some prefix \<Rightarrow> [prefix, pat] | None \<Rightarrow> [pat])"

definition patterns_overlap :: "cps \<Rightarrow> cps \<Rightarrow> bool" where
  "patterns_overlap a b =
     list_ex (\<lambda>x. list_ex (\<lambda>y. globs_intersect x y) (spellings b)) (spellings a)"

definition sentinel :: nat where "sentinel = 1"

definition probe :: "nat \<Rightarrow> cps \<Rightarrow> cps" where
  "probe run narrow =
     concat (map (\<lambda>c. if c = star then replicate run sentinel else if c = query then [sentinel] else [c]) narrow)"

definition pattern_subsumes :: "cps \<Rightarrow> cps \<Rightarrow> bool" where
  "pattern_subsumes broad narrow =
     (let widest = length (filter (\<lambda>c. c = query) broad) + 1 in
      list_all (\<lambda>run. wildcard_matches broad (probe run narrow)) [0, 1, widest])"

lemma slashes_idem [simp]: "slashes (slashes s) = slashes s"
  by (simp add: slashes_def)

lemma wildcard_spelling: "wildcard_matches pat s \<longleftrightarrow> (\<exists>x \<in> set (spellings pat). glob_lang x (slashes s))"
  by (auto simp: wildcard_matches_def spellings_def Let_def glob_matches_exact split: option.splits)

lemma spelling_plain: "x \<in> set (spellings pat) \<Longrightarrow> 92 \<notin> set x"
proof -
  have "92 \<notin> set (slashes pat)" by (auto simp: slashes_def)
  then show "x \<in> set (spellings pat) \<Longrightarrow> 92 \<notin> set x"
    by (auto simp: spellings_def strip_args_def Let_def split: option.splits if_splits dest: in_set_takeD)
qed

lemma glob_lang_slashes: "92 \<notin> set p \<Longrightarrow> glob_lang p s \<Longrightarrow> glob_lang p (slashes s)"
  by (induction p s rule: glob_lang.induct) (auto simp: slashes_def split: if_splits)

lemma patterns_overlap_exact:
  "patterns_overlap a b \<longleftrightarrow> (\<exists>s. wildcard_matches a s \<and> wildcard_matches b s)"
proof -
  have "(\<exists>s. wildcard_matches a s \<and> wildcard_matches b s) \<longleftrightarrow>
      (\<exists>x \<in> set (spellings a). \<exists>y \<in> set (spellings b). \<exists>s. glob_lang x s \<and> glob_lang y s)"
    unfolding wildcard_spelling using glob_lang_slashes spelling_plain by meson
  then show ?thesis by (simp add: patterns_overlap_def list_ex_iff globs_intersect_exact)
qed

end
