(* ===== verification/Glob_Subsumption.thy ===== *)
theory Glob_Subsumption
  imports Globs
begin

text \<open>
  What the subsumption test of \<open>src/adapter/opencode/permissions.rs\<close> is worth: it is sound for narrow
  patterns without a star and for those whose only star is their last character, and it is not sound for
  other patterns.
\<close>

section \<open>Matching piece by piece\<close>

lemma star_append:
  "(\<exists>k s1 s2. drop k s = s1 @ s2 \<and> P s1 \<and> Q s2) \<longleftrightarrow> (\<exists>s1 s2 k. s = s1 @ s2 \<and> P (drop k s1) \<and> Q s2)"
proof
  assume "\<exists>k s1 s2. drop k s = s1 @ s2 \<and> P s1 \<and> Q s2"
  then obtain k s1 s2 where k: "drop k s = s1 @ s2" "P s1" "Q s2" by blast
  have "s = (take k s @ s1) @ s2" using k(1) by (metis append.assoc append_take_drop_id)
  moreover have "drop k (take k s @ s1) = s1" using k(1) by (cases "k \<le> length s") auto
  ultimately show "\<exists>s1 s2 k. s = s1 @ s2 \<and> P (drop k s1) \<and> Q s2" using k(2,3) by metis
next
  assume "\<exists>s1 s2 k. s = s1 @ s2 \<and> P (drop k s1) \<and> Q s2"
  then obtain s1 s2 k where k: "s = s1 @ s2" "P (drop k s1)" "Q s2" by blast
  then have "drop (min k (length s1)) s = drop k s1 @ s2" by (simp add: min_def)
  then show "\<exists>k s1 s2. drop k s = s1 @ s2 \<and> P s1 \<and> Q s2" using k(2,3) by blast
qed

lemma glob_lang_plain:
  "x \<noteq> star \<Longrightarrow> glob_lang (x # xs) s \<longleftrightarrow> (\<exists>c r. s = c # r \<and> (x = query \<or> x = c) \<and> glob_lang xs r)"
  by (cases s) auto

lemma glob_lang_append:
  "glob_lang (xs @ ys) s \<longleftrightarrow> (\<exists>s1 s2. s = s1 @ s2 \<and> glob_lang xs s1 \<and> glob_lang ys s2)"
proof (induction xs arbitrary: s)
  case (Cons x xs)
  show ?case
  proof (cases "x = star")
    case True
    then show ?thesis using star_append[of s "glob_lang xs" "glob_lang ys"] by (simp add: glob_lang_star Cons.IH)
  next
    case False
    have "(\<exists>c r. s = c # r \<and> (x = query \<or> x = c) \<and> (\<exists>s1 s2. r = s1 @ s2 \<and> glob_lang xs s1 \<and> glob_lang ys s2)) \<longleftrightarrow>
        (\<exists>s1 s2. s = s1 @ s2 \<and> (\<exists>c r. s1 = c # r \<and> (x = query \<or> x = c) \<and> glob_lang xs r) \<and> glob_lang ys s2)"
      by (metis append_Cons)
    then show ?thesis by (simp add: Cons.IH glob_lang_plain[OF False])
  qed
qed simp

lemma glob_lang_queries: "set t \<subseteq> {query} \<Longrightarrow> glob_lang t s \<longleftrightarrow> length s = length t"
proof (induction t arbitrary: s)
  case (Cons x t)
  then show ?case by (cases s) (auto simp: star_def query_def)
qed simp

lemma glob_lang_star_queries: "set t \<subseteq> {query} \<Longrightarrow> glob_lang (star # t) s \<longleftrightarrow> length t \<le> length s"
  by (auto simp: glob_lang_star glob_lang_queries intro: exI[of _ "length s - length t"])

text \<open>A sentinel in a matched text stands for any character.\<close>

definition stands_for :: "cps \<Rightarrow> cps \<Rightarrow> bool" where
  "stands_for x s = list_all2 (\<lambda>a b. a = sentinel \<or> a = b) x s"

lemma sentinel_generic: "glob_lang g x \<Longrightarrow> sentinel \<notin> set g \<Longrightarrow> stands_for x s \<Longrightarrow> glob_lang g s"
  unfolding stands_for_def
proof (induction g x arbitrary: s rule: glob_lang.induct)
  case (3 p ps c cs)
  then obtain d ds where s: "s = d # ds" "c = sentinel \<or> c = d" "list_all2 (\<lambda>a b. a = sentinel \<or> a = b) cs ds"
    by (auto simp: list_all2_Cons1)
  then show ?case using 3 by (auto split: if_splits)
qed auto

section \<open>Patterns that take any ending\<close>

definition open_ended :: "cps \<Rightarrow> bool" where
  "open_ended g \<longleftrightarrow> (\<exists>b t. g = b @ star # t \<and> set t \<subseteq> {query})"

lemma open_ended_extends:
  assumes "open_ended g" "glob_lang g x"
  shows "glob_lang g (x @ u)"
proof -
  obtain b t where g: "g = b @ star # t" "set t \<subseteq> {query}" using assms(1) by (auto simp: open_ended_def)
  then obtain x1 x2 where x: "x = x1 @ x2" "glob_lang b x1" "length t \<le> length x2"
    using assms(2) by (auto simp: glob_lang_append glob_lang_star_queries)
  then have "glob_lang (star # t) (x2 @ u)" using g(2) by (simp add: glob_lang_star_queries)
  then show ?thesis using g(1) x by (auto simp: glob_lang_append)
qed

lemma long_run_open:
  assumes "sentinel \<notin> set g" "length (filter (\<lambda>c. c = query) g) < n" "glob_lang g (x @ replicate n sentinel)"
  shows "open_ended g"
  using assms
proof (induction g arbitrary: n rule: rev_induct)
  case (snoc c g)
  show ?case
  proof (cases "c = star")
    case True
    then show ?thesis by (auto simp: open_ended_def intro: exI[of _ g])
  next
    case False
    obtain m where n: "n = Suc m" using snoc.prems(2) by (cases n) auto
    obtain s1 s2 where "x @ replicate n sentinel = s1 @ s2" "glob_lang g s1" "glob_lang [c] s2"
      using snoc.prems(3) by (auto simp: glob_lang_append)
    moreover from this(3) obtain d where "s2 = [d]" "c = query \<or> c = d" using False by (cases s2) auto
    moreover have "x @ replicate n sentinel = (x @ replicate m sentinel) @ [sentinel]"
      by (simp add: n replicate_append_same)
    ultimately have s: "glob_lang g (x @ replicate m sentinel)" "c = query \<or> c = sentinel"
      by (metis append1_eq_conv)+
    then have q: "c = query" using snoc.prems(1) by auto
    then have "open_ended g" using snoc.IH[of m] snoc.prems s(1) n by simp
    then obtain b t where "g = b @ star # t" "set t \<subseteq> {query}" by (auto simp: open_ended_def)
    then show ?thesis
      using q unfolding open_ended_def by (intro exI[of _ b] exI[of _ "t @ [query]"]) simp
  qed
qed simp

lemma args_reach_back:
  assumes "glob_lang (p @ [32, star]) (x @ replicate n sentinel)"
  shows "glob_lang (p @ [32, star]) x"
proof -
  obtain y s2 where y: "x @ replicate n sentinel = y @ s2" "glob_lang p y" "glob_lang [32, star] s2"
    using assms by (auto simp: glob_lang_append)
  then obtain r where s2: "s2 = 32 # r" by (cases s2) (auto simp: star_def query_def)
  have "length y < length x"
  proof (rule ccontr)
    assume "\<not> length y < length x"
    then have "(x @ replicate n sentinel) ! length y = sentinel"
      using arg_cong[OF y(1), of length] s2 by (simp add: nth_append)
    then show False using y(1) s2 by (simp add: sentinel_def)
  qed
  then have x: "x = y @ 32 # take (length x - Suc (length y)) r"
    using arg_cong[OF y(1), of "take (length x)"] s2 by (simp add: take_Cons')
  have "glob_lang [32, star] (32 # u)" for u
    using glob_lang_star_queries[of "[]" u] by (simp add: star_def query_def)
  then show ?thesis using y(2) x by (metis glob_lang_append)
qed

section \<open>Probes\<close>

lemma probe_append [simp]: "probe run (a @ b) = probe run a @ probe run b"
  by (simp add: probe_def)

lemma probe_star [simp]: "probe run [star] = replicate run sentinel"
  by (simp add: probe_def)

lemma probe_starless: "star \<notin> set w \<Longrightarrow> probe run w = probe 0 w"
  by (induction w) (simp_all add: probe_def)

lemma probe_slashes: "slashes (probe run w) = probe run (slashes w)"
  by (induction w) (auto simp: probe_def slashes_def star_def query_def sentinel_def)

lemma probe_stands_for: "star \<notin> set w \<Longrightarrow> glob_lang w v \<Longrightarrow> stands_for (probe 0 w) v"
proof (induction w arbitrary: v)
  case (Cons c w)
  then show ?case by (cases v) (auto simp: probe_def stands_for_def)
qed (simp add: probe_def stands_for_def)

lemma stands_for_append: "stands_for x v \<Longrightarrow> stands_for (x @ u) (v @ u)"
  by (auto simp: stands_for_def intro!: list_all2_appendI list.rel_refl_strong)

lemma spellings_cases:
  obtains p where "spellings broad = [p]" | p where "spellings broad = [p, p @ [32, star]]"
proof (cases "strip_args (slashes broad)")
  case (Some p)
  then have "slashes broad = p @ [32, star]"
    unfolding strip_args_def by (metis append_take_drop_id option.distinct(1) option.inject)
  then show ?thesis using that(2) Some by (simp add: spellings_def)
qed (use that(1) in \<open>simp add: spellings_def\<close>)

lemma spelling_sound:
  assumes "g \<in> set (spellings broad)" "sentinel \<notin> set broad"
  shows "sentinel \<notin> set g" "length (filter (\<lambda>c. c = query) g) \<le> length (filter (\<lambda>c. c = query) broad)"
proof -
  have "sentinel \<notin> set (slashes broad)"
    using assms(2) by (auto simp: slashes_def sentinel_def)
  moreover have "\<exists>t. slashes broad = g @ t"
    using assms(1) by (auto simp: spellings_def strip_args_def Let_def split: option.splits if_splits)
      (metis append_take_drop_id)
  ultimately obtain t where t: "slashes broad = g @ t" "sentinel \<notin> set (slashes broad)" by blast
  then show "sentinel \<notin> set g" by auto
  have "length (filter (\<lambda>c. c = query) (slashes broad)) = length (filter (\<lambda>c. c = query) broad)"
    by (induction broad) (auto simp: slashes_def query_def)
  then show "length (filter (\<lambda>c. c = query) g) \<le> length (filter (\<lambda>c. c = query) broad)"
    unfolding t(1) by simp
qed

text \<open>The empty and the longest probe are enough for a star at the end.\<close>

lemma two_probes:
  assumes broad: "sentinel \<notin> set broad" "length (filter (\<lambda>c. c = query) broad) < n"
    and zero: "g0 \<in> set (spellings broad)" "glob_lang g0 x"
    and long: "g \<in> set (spellings broad)" "glob_lang g (x @ replicate n sentinel)"
  shows "\<exists>h \<in> set (spellings broad). glob_lang h (x @ u)"
proof -
  have ends: "open_ended g"
    using long_run_open[OF _ _ long(2)] spelling_sound[OF long(1) broad(1)] broad(2) by simp
  consider "g0 = g" | p where "g = p" "g0 = p @ [32, star]" | p where "g0 = p" "g = p @ [32, star]"
    using zero(1) long(1) by (cases broad rule: spellings_cases) auto
  then show ?thesis
  proof cases
    case 1
    then show ?thesis using open_ended_extends[OF ends] zero by blast
  next
    case (2 p)
    then obtain x1 x2 where "x = x1 @ x2" "glob_lang g x1" using zero(2) by (auto simp: glob_lang_append)
    then show ?thesis using open_ended_extends[OF ends, of x1 "x2 @ u"] long(1) by auto
  next
    case (3 p)
    then have "glob_lang g x" using args_reach_back long(2) by simp
    then show ?thesis using open_ended_extends[OF ends] long(1) by blast
  qed
qed

lemma subsumes_probes:
  assumes "pattern_subsumes broad narrow"
  shows "\<exists>g \<in> set (spellings broad). glob_lang g (probe 0 (slashes narrow))"
    and "\<exists>g \<in> set (spellings broad).
      glob_lang g (probe (Suc (length (filter (\<lambda>c. c = query) broad))) (slashes narrow))"
  using assms by (simp_all add: pattern_subsumes_def wildcard_spelling probe_slashes)

lemma slashes_append [simp]: "slashes (a @ b) = slashes a @ slashes b"
  by (simp add: slashes_def)

lemma slashes_star [simp]: "slashes [star] = [star]"
  by (simp add: slashes_def star_def)

lemma star_slashes: "star \<in> set (slashes w) \<longleftrightarrow> star \<in> set w"
  by (auto simp: slashes_def star_def)

lemma subsumes_starless:
  assumes "star \<notin> set w" "sentinel \<notin> set broad" "pattern_subsumes broad w"
    and "glob_lang (slashes w) (slashes s)"
  shows "wildcard_matches broad s"
proof -
  obtain g where g: "g \<in> set (spellings broad)" "glob_lang g (probe 0 (slashes w))"
    using subsumes_probes(1)[OF assms(3)] by blast
  then have "glob_lang g (slashes s)"
    using sentinel_generic[OF g(2) spelling_sound(1)[OF g(1) assms(2)]] probe_stands_for assms(1,4)
    by (simp add: star_slashes)
  then show ?thesis using g(1) by (auto simp: wildcard_spelling)
qed

lemma subsumes_prefix:
  assumes "star \<notin> set w" "sentinel \<notin> set broad" "pattern_subsumes broad (w @ [star])"
    and "glob_lang (slashes (w @ [star])) (slashes s)"
  shows "wildcard_matches broad s"
proof -
  let ?x = "probe 0 (slashes w)" and ?n = "Suc (length (filter (\<lambda>c. c = query) broad))"
  have w: "star \<notin> set (slashes w)" using assms(1) by (simp add: star_slashes)
  obtain v u where s: "slashes s = v @ u" "glob_lang (slashes w) v"
    using assms(4) by (auto simp: glob_lang_append)
  obtain g0 g where "g0 \<in> set (spellings broad)" "glob_lang g0 ?x"
    "g \<in> set (spellings broad)" "glob_lang g (?x @ replicate ?n sentinel)"
    using subsumes_probes[OF assms(3)] probe_starless[OF w, of ?n] by auto
  then obtain h where h: "h \<in> set (spellings broad)" "glob_lang h (?x @ u)"
    using two_probes[OF assms(2) lessI] by blast
  have "stands_for (?x @ u) (slashes s)" using stands_for_append probe_stands_for[OF w s(2)] s(1) by simp
  then show ?thesis
    using sentinel_generic[OF h(2) spelling_sound(1)[OF h(1) assms(2)]] h(1) by (auto simp: wildcard_spelling)
qed

text \<open>A second star defeats the probes, and so does the bare spelling of a pattern that ends in a space and a star.\<close>

lemma two_stars_pass_the_probes:
  "pattern_subsumes (chars ''*?aa*'') (chars ''*aa*a'') \<and>
   wildcard_matches (chars ''*aa*a'') (chars ''aaza'') \<and> \<not> wildcard_matches (chars ''*?aa*'') (chars ''aaza'')"
  by code_simp

lemma bare_command_passes_the_probes:
  "pattern_subsumes (chars ''*t?*'') (chars ''git *'') \<and>
   wildcard_matches (chars ''git *'') (chars ''git'') \<and> \<not> wildcard_matches (chars ''*t?*'') (chars ''git'')"
  by code_simp

end
