(* ===== verification/Neutral_Tools.thy ===== *)
theory Neutral_Tools
  imports Text
begin

text \<open>
  The neutral tool vocabulary and its translation to the engines with a closed set of permission keys,
  \<open>src/adapter/tools.rs\<close>.
\<close>

datatype tool_mapping =
    Renamed string
  | Closest string string
  | Unsupported string

fun mapping_key :: "tool_mapping \<Rightarrow> string option" where
  "mapping_key (Renamed key) = Some key"
| "mapping_key (Closest key n) = Some key"
| "mapping_key (Unsupported n) = None"

fun mapping_note :: "tool_mapping \<Rightarrow> string option" where
  "mapping_note (Renamed key) = None"
| "mapping_note (Closest key n) = Some n"
| "mapping_note (Unsupported n) = Some n"

record neutral_tool =
  nt_name :: string
  nt_opencode :: tool_mapping
  nt_crush :: tool_mapping

definition crush_absent :: string where
  "crush_absent = ''not present in the crush tool set this mapping was verified against, so rules naming it are dropped for crush. Use `native_permissions.crush` if crush gains an equivalent.''"

definition opencode_absent :: string where
  "opencode_absent = ''opencode 2.x has no such tool, so rules naming it are dropped for opencode. Use `native_permissions.opencode` if opencode gains an equivalent.''"

definition crush_edit_creates :: string where
  "crush_edit_creates = ''crush's edit tools also create missing files and parent directories, which the neutral name alone doesn't imply '' @ [CHR 0xE2, CHR 0x80, CHR 0x94] @ '' allowing this on crush also allows file creation.''"

definition neutral_tools :: "neutral_tool list" where
  "neutral_tools =
    [\<lparr>nt_name = ''Bash'',
       nt_opencode = Renamed ''shell'',
       nt_crush = Renamed ''bash''\<rparr>,
     \<lparr>nt_name = ''Read'',
       nt_opencode = Renamed ''read'',
       nt_crush = Renamed ''view''\<rparr>,
     \<lparr>nt_name = ''Edit'',
       nt_opencode = Renamed ''edit'',
       nt_crush = Closest ''edit'' crush_edit_creates\<rparr>,
     \<lparr>nt_name = ''Write'',
       nt_opencode = Closest ''edit'' ''opencode gates every file mutation through the single `edit` key, so an allow/ask/deny of `Write` also covers `Edit`.'',
       nt_crush = Renamed ''write''\<rparr>,
     \<lparr>nt_name = ''MultiEdit'',
       nt_opencode = Closest ''edit'' ''opencode has no separate multi-edit key; the rule covers `edit` as a whole.'',
       nt_crush = Closest ''multiedit'' crush_edit_creates\<rparr>,
     \<lparr>nt_name = ''Glob'',
       nt_opencode = Renamed ''glob'',
       nt_crush = Renamed ''glob''\<rparr>,
     \<lparr>nt_name = ''Grep'',
       nt_opencode = Renamed ''grep'',
       nt_crush = Renamed ''grep''\<rparr>,
     \<lparr>nt_name = ''LS'',
       nt_opencode = Unsupported opencode_absent,
       nt_crush = Renamed ''ls''\<rparr>,
     \<lparr>nt_name = ''WebFetch'',
       nt_opencode = Renamed ''webfetch'',
       nt_crush = Renamed ''fetch''\<rparr>,
     \<lparr>nt_name = ''WebSearch'',
       nt_opencode = Renamed ''websearch'',
       nt_crush = Unsupported ''crush's `web_search` is a more specialized tool than Claude Code's `WebSearch` and was judged not a direct equivalent when this mapping was source-verified, so rules naming `WebSearch` are dropped for crush. Target `web_search` explicitly via `native_permissions.crush` if that's what you want.''\<rparr>,
     \<lparr>nt_name = ''TodoWrite'',
       nt_opencode = Unsupported opencode_absent,
       nt_crush = Renamed ''todos''\<rparr>,
     \<lparr>nt_name = ''Task'',
       nt_opencode = Renamed ''subagent'',
       nt_crush = Renamed ''agent''\<rparr>,
     \<lparr>nt_name = ''AskUserQuestion'',
       nt_opencode = Renamed ''question'',
       nt_crush = Renamed ''question''\<rparr>,
     \<lparr>nt_name = ''NotebookEdit'',
       nt_opencode = Unsupported opencode_absent,
       nt_crush = Unsupported crush_absent\<rparr>,
     \<lparr>nt_name = ''Skill'',
       nt_opencode = Renamed ''skill'',
       nt_crush = Unsupported crush_absent\<rparr>]"

definition lookup_tool :: "string \<Rightarrow> neutral_tool option" where
  "lookup_tool neutral = find (\<lambda>t. nt_name t = neutral) neutral_tools"

definition is_known :: "string \<Rightarrow> bool" where
  "is_known neutral \<longleftrightarrow> lookup_tool neutral \<noteq> None"

definition known_names :: "string list" where
  "known_names = map nt_name neutral_tools"

definition opencode_key :: "string \<Rightarrow> string option" where
  "opencode_key neutral = Option.bind (lookup_tool neutral) (\<lambda>t. mapping_key (nt_opencode t))"

definition crush_key :: "string \<Rightarrow> string option" where
  "crush_key neutral = Option.bind (lookup_tool neutral) (\<lambda>t. mapping_key (nt_crush t))"

definition neutral_for_crush :: "string \<Rightarrow> string option" where
  "neutral_for_crush crush_tool =
     map_option nt_name (find (\<lambda>t. mapping_key (nt_crush t) = Some crush_tool) neutral_tools)"

end
