(* ===== verification/Opencode_Permissions.thy ===== *)
theory Opencode_Permissions
  imports Glob_Subsumption Neutral_Tools Capabilities Sessions
begin

text \<open>
  The \<open>permissions\<close> list of \<open>opencode.json\<close>, \<open>src/adapter/opencode/permissions.rs\<close>: how the structured and
  the native rules become one ordered list of rules, with every error, and the check of the order.  Main
  results: the effect of a rule is the strictest one that was asked for, and in a list that is accepted the
  later of two rules that disagree on some request is exempt only as the narrower of the two.
\<close>

section \<open>Rules\<close>

record rule =
  ru_action :: string
  ru_resource :: string
  ru_effect :: string

type_synonym permission_map = "(string \<times> (string \<times> string) list) list"

datatype rule_error =
    EmptyRuleString string
  | SpacedTool string string string
  | NoToolName string string
  | EmptyPattern string string
  | TextAfterRule string string
  | UnbalancedRule string string
  | RulesInverted rule rule string

definition opencode_tool_name :: "string \<Rightarrow> string option" where
  "opencode_tool_name neutral = opencode_key neutral"

definition rule_to_patterns :: "permission_rule \<Rightarrow> (string \<times> string) list" where
  "rule_to_patterns r =
     (case opencode_tool_name (pr_tool r) of
        None \<Rightarrow> []
      | Some tool \<Rightarrow>
          (case pr_pattern r of
             Some pat \<Rightarrow> [(tool, pat)]
           | None \<Rightarrow>
               if pr_paths r \<noteq> [] then map (\<lambda>p. (tool, p)) (pr_paths r) else [(tool, ''*'')]))"

definition normalize_action :: "string \<Rightarrow> string" where
  "normalize_action key =
     (if key = ''write'' \<or> key = ''patch'' then ''edit''
      else if key = ''task'' then ''subagent''
      else if key = ''bash'' then ''shell''
      else key)"

text \<open>\<open>str::rfind\<close> of an ASCII character, and \<open>contains(char::is_whitespace)\<close>.\<close>

definition rfind_char :: "char \<Rightarrow> string \<Rightarrow> nat option" where
  "rfind_char c s = map_option (\<lambda>k. length s - 1 - k) (find_char c (rev s))"

fun has_whitespace :: "string \<Rightarrow> bool" where
  "has_whitespace [] = False"
| "has_whitespace (c # cs) \<longleftrightarrow> ws_len (c # cs) \<noteq> 0 \<or> has_whitespace cs"

definition reject_spaced_tool :: "string \<Rightarrow> string \<Rightarrow> string \<Rightarrow> rule_error + unit" where
  "reject_spaced_tool tool r action = ensureR (\<not> has_whitespace tool) (SpacedTool tool r action)"

definition parse_native_rule :: "string \<Rightarrow> string \<Rightarrow> rule_error + (string \<times> string)" where
  "parse_native_rule s action =
     (case (find_char CHR ''('' s, rfind_char CHR '')'' s) of
        (None, None) \<Rightarrow>
          (let tool = normalize_action (map to_ascii_lower (trim s)) in
           seqR (ensureR (tool \<noteq> []) (EmptyRuleString action)) (\<lambda>_.
           seqR (reject_spaced_tool tool s action) (\<lambda>_.
           Inr (tool, ''*''))))
      | (Some start, Some stop) \<Rightarrow>
          if start < stop then
            (let tool = normalize_action (map to_ascii_lower (trim (take start s)));
                 pat = drop (start + 1) (take stop s) in
             seqR (ensureR (tool \<noteq> []) (NoToolName s action)) (\<lambda>_.
             seqR (reject_spaced_tool tool s action) (\<lambda>_.
             seqR (ensureR (pat \<noteq> []) (EmptyPattern s action)) (\<lambda>_.
             seqR (ensureR (trim (drop (stop + 1) s) = []) (TextAfterRule s action)) (\<lambda>_.
             Inr (tool, pat))))))
          else Inl (UnbalancedRule s action)
      | _ \<Rightarrow> Inl (UnbalancedRule s action))"

definition insert_patterns :: "permission_map \<Rightarrow> (string \<times> string) list \<Rightarrow> string \<Rightarrow> permission_map" where
  "insert_patterns m ps action =
     foldl (\<lambda>m (tool, pat).
       map_insert tool (map_insert pat action (case map_of m tool of Some t \<Rightarrow> t | None \<Rightarrow> [])) m) m ps"

text \<open>One round of the loop over the three tiers: the structured rules, then the native ones.\<close>

definition insert_tier ::
    "permission_map \<Rightarrow> string \<Rightarrow> permission_rule list \<Rightarrow> string list option \<Rightarrow> rule_error + permission_map" where
  "insert_tier m action structured native =
     (let m = insert_patterns m (concat (map rule_to_patterns structured)) action in
      case native of
        None \<Rightarrow> Inr m
      | Some n \<Rightarrow> seqR (map_res (\<lambda>s. parse_native_rule s action) n) (\<lambda>ps. Inr (insert_patterns m ps action)))"

section \<open>The order of the rules\<close>

definition rendered :: "permission_map \<Rightarrow> rule list" where
  "rendered m =
     concat (map (\<lambda>(action, ps).
       map (\<lambda>(resource, effect). \<lparr>ru_action = action, ru_resource = resource, ru_effect = effect\<rparr>) ps) m)"

definition render_rule :: "string \<Rightarrow> string \<Rightarrow> string" where
  "render_rule tool pat =
     (if pat = ''*'' then ''`'' @ tool @ ''`'' else ''`'' @ tool @ ''('' @ pat @ '')`'')"

definition ordering_remedy :: "string \<Rightarrow> string \<Rightarrow> string \<Rightarrow> string \<Rightarrow> string" where
  "ordering_remedy early_tool early_pat late_tool late_pat =
     (if early_tool = late_tool then
        ''Rewrite '' @ render_rule late_tool late_pat @ '' so it only covers what '' @ render_rule early_tool early_pat @
        '' does not, or give the two the same action.''
      else
        ''Move '' @ render_rule early_tool early_pat @ '' onto the `'' @ late_tool @ ''` key so it sorts after '' @
        render_rule late_tool late_pat @ '' '' @ [CHR 0xE2, CHR 0x80, CHR 0x94] @
        '' e.g. `native_permissions.opencode` rule '' @ render_rule late_tool early_pat @ '' '' @
        [CHR 0xE2, CHR 0x80, CHR 0x94] @ '' or give the two the same action.'')"

definition inverts :: "rule \<Rightarrow> rule \<Rightarrow> bool" where
  "inverts early late \<longleftrightarrow>
     ru_effect late \<noteq> ru_effect early \<and>
     patterns_overlap (chars (ru_action early)) (chars (ru_action late)) \<and>
     patterns_overlap (chars (ru_resource early)) (chars (ru_resource late)) \<and>
     \<not> (pattern_subsumes (chars (ru_action early)) (chars (ru_action late)) \<and>
        pattern_subsumes (chars (ru_resource early)) (chars (ru_resource late)))"

fun check_pairs :: "rule list \<Rightarrow> rule_error + unit" where
  "check_pairs [] = Inr ()"
| "check_pairs (early # rest) =
     (case find (inverts early) rest of
        Some late \<Rightarrow>
          Inl (RulesInverted early late
            (ordering_remedy (ru_action early) (ru_resource early) (ru_action late) (ru_resource late)))
      | None \<Rightarrow> check_pairs rest)"

definition check_rule_ordering :: "permission_map \<Rightarrow> rule_error + unit" where
  "check_rule_ordering m = check_pairs (rendered m)"

definition render :: "permissions \<Rightarrow> native_permission_rules option \<Rightarrow> rule_error + rule list option" where
  "render perms native_perms =
     seqR (insert_tier [] ''allow'' (p_allow perms) (map_option np_allow native_perms)) (\<lambda>m.
     seqR (insert_tier m ''ask'' (p_ask perms) (map_option np_ask native_perms)) (\<lambda>m.
     seqR (insert_tier m ''deny'' (p_deny perms) (map_option np_deny native_perms)) (\<lambda>m.
     if m = [] then Inr None
     else seqR (check_rule_ordering m) (\<lambda>_. Inr (Some (rendered m))))))"

section \<open>What a tier asks for\<close>

definition tier_pairs ::
    "string \<Rightarrow> permission_rule list \<Rightarrow> string list option \<Rightarrow> (rule_error + (string \<times> string) list)" where
  "tier_pairs action structured native =
     seqR (map_res (\<lambda>s. parse_native_rule s action) (case native of None \<Rightarrow> [] | Some n \<Rightarrow> n))
       (\<lambda>ps. Inr (concat (map rule_to_patterns structured) @ ps))"

definition effect_at :: "permission_map \<Rightarrow> string \<Rightarrow> string \<Rightarrow> string option" where
  "effect_at m tool pat = Option.bind (map_of m tool) (\<lambda>t. map_of t pat)"

text \<open>The map and each of its inner maps are sorted, and no inner map is empty.\<close>

definition sorted_rules :: "permission_map \<Rightarrow> bool" where
  "sorted_rules m \<longleftrightarrow> sorted_map m \<and> (\<forall>(tool, t) \<in> set m. sorted_map t \<and> t \<noteq> [])"

lemma insert_tier_pairs:
  "insert_tier m action structured native =
     seqR (tier_pairs action structured native) (\<lambda>ps. Inr (insert_patterns m ps action))"
  by (auto simp: insert_tier_def tier_pairs_def insert_patterns_def seqR_def Let_def split: option.splits sum.splits)

lemma insert_patterns_simps [simp]:
  "insert_patterns m [] action = m"
  "insert_patterns m ((tool, pat) # ps) action =
     insert_patterns (map_insert tool (map_insert pat action (case map_of m tool of Some t \<Rightarrow> t | None \<Rightarrow> [])) m) ps action"
  by (simp_all add: insert_patterns_def)

lemma map_insert_ne [simp]: "map_insert k v m \<noteq> []"
  by (induction k v m rule: map_insert.induct) simp_all

lemma sorted_rules_insert:
  assumes "sorted_rules m"
  shows "sorted_rules (map_insert tool (map_insert pat a (case map_of m tool of Some t \<Rightarrow> t | None \<Rightarrow> [])) m)"
proof -
  have "sorted_map (case map_of m tool of Some t \<Rightarrow> t | None \<Rightarrow> [])"
    using assms by (auto simp: sorted_rules_def sorted_map_def split: option.splits dest!: map_of_SomeD)
  then show ?thesis
    using assms by (auto simp: sorted_rules_def sorted_map_insert dest!: set_map_insert)
qed

lemma sorted_insert_patterns: "sorted_rules m \<Longrightarrow> sorted_rules (insert_patterns m ps action)"
  by (induction ps arbitrary: m) (auto simp: sorted_rules_insert)

lemma effect_insert_patterns:
  "effect_at (insert_patterns m ps action) tool pat =
     (if (tool, pat) \<in> set ps then Some action else effect_at m tool pat)"
proof (induction ps arbitrary: m)
  case (Cons p ps)
  obtain t q where p: "p = (t, q)" by fastforce
  show ?case using Cons unfolding p by (auto simp: effect_at_def map_of_insert split: option.splits)
qed simp

definition same_rule :: "string \<Rightarrow> string \<Rightarrow> string \<Rightarrow> rule" where
  "same_rule tool pat eff = \<lparr>ru_action = tool, ru_resource = pat, ru_effect = eff\<rparr>"

lemma same_rule_eq [simp]:
  "same_rule tool pat eff = same_rule tool' pat' eff' \<longleftrightarrow> tool = tool' \<and> pat = pat' \<and> eff = eff'"
  "ru_action (same_rule tool pat eff) = tool" "ru_resource (same_rule tool pat eff) = pat"
  "ru_effect (same_rule tool pat eff) = eff"
  by (simp_all add: same_rule_def)

lemma rendered_simps [simp]:
  "rendered [] = []"
  "rendered ((tool, t) # m) = map (\<lambda>(pat, eff). same_rule tool pat eff) t @ rendered m"
  by (simp_all add: rendered_def same_rule_def)

lemma sorted_map_of: "sorted_map m \<Longrightarrow> (k, v) \<in> set m \<longleftrightarrow> map_of m k = Some v"
  by (metis map_of_eq_Some_iff sorted_map_def strict_sorted_iff)

lemma in_rendered: "same_rule tool pat eff \<in> set (rendered m) \<longleftrightarrow> (\<exists>t. (tool, t) \<in> set m \<and> (pat, eff) \<in> set t)"
proof (induction m)
  case (Cons x m)
  have "same_rule tool pat eff \<in> set (map (\<lambda>(pat, eff). same_rule k pat eff) t) \<longleftrightarrow> k = tool \<and> (pat, eff) \<in> set t" for k t
    by (induction t) auto
  then show ?case using Cons by (cases x) auto
qed simp

lemma rendered_effect:
  assumes "sorted_rules m"
  shows "same_rule tool pat eff \<in> set (rendered m) \<longleftrightarrow> effect_at m tool pat = Some eff"
proof -
  have "(tool, t) \<in> set m \<and> (pat, eff) \<in> set t \<longleftrightarrow> map_of m tool = Some t \<and> map_of t pat = Some eff" for t
    using assms sorted_map_of[of m tool t] sorted_map_of[of t pat eff] by (auto simp: sorted_rules_def)
  then show ?thesis by (simp add: in_rendered effect_at_def bind_eq_Some_conv)
qed

text \<open>The list is ordered by action and then by resource, both in byte order, with no pair twice.\<close>

definition before :: "rule \<Rightarrow> rule \<Rightarrow> bool" where
  "before r s \<longleftrightarrow> ru_action r < ru_action s \<or> ru_action r = ru_action s \<and> ru_resource r < ru_resource s"

lemma sorted_rendered: "sorted_rules m \<Longrightarrow> sorted_wrt before (rendered m)"
proof (induction m)
  case (Cons x m)
  obtain tool t where x: "x = (tool, t)" by fastforce
  have later: "tool < ru_action r" if "r \<in> set (rendered m)" for r
    using that Cons.prems unfolding x by (auto simp: rendered_def sorted_rules_def sorted_map_def)
  have "sorted_wrt (\<lambda>x y. fst x < fst y) t"
    using Cons.prems unfolding x by (simp add: sorted_rules_def sorted_map_def sorted_wrt_map)
  then have "sorted_wrt before (map (\<lambda>(pat, eff). same_rule tool pat eff) t)"
    unfolding sorted_wrt_map by (rule sorted_wrt_mono_rel[rotated]) (auto simp: before_def)
  moreover have "sorted_rules m" using Cons.prems by (simp add: sorted_rules_def sorted_map_def)
  ultimately show ?case
    using Cons.IH later unfolding x by (auto simp: sorted_wrt_append before_def[of "same_rule _ _ _"])
qed simp

lemma insert_patterns_empty: "insert_patterns m ps action = [] \<longleftrightarrow> m = [] \<and> ps = []"
proof (induction ps arbitrary: m)
  case (Cons p ps)
  then show ?case by (cases p) simp
qed simp

text \<open>The map of the three tiers.\<close>

definition tier_map ::
    "(string \<times> string) list \<Rightarrow> (string \<times> string) list \<Rightarrow> (string \<times> string) list \<Rightarrow> permission_map" where
  "tier_map al as de = insert_patterns (insert_patterns (insert_patterns [] al ''allow'') as ''ask'') de ''deny''"

lemma render_tiers:
  "render perms native =
     seqR (tier_pairs ''allow'' (p_allow perms) (map_option np_allow native)) (\<lambda>al.
     seqR (tier_pairs ''ask'' (p_ask perms) (map_option np_ask native)) (\<lambda>as.
     seqR (tier_pairs ''deny'' (p_deny perms) (map_option np_deny native)) (\<lambda>de.
     if tier_map al as de = [] then Inr None
     else seqR (check_rule_ordering (tier_map al as de)) (\<lambda>_. Inr (Some (rendered (tier_map al as de)))))))"
  by (simp add: render_def insert_tier_pairs tier_map_def seqR_def split: sum.split)

lemma sorted_tier_map: "sorted_rules (tier_map al as de)"
proof -
  have "sorted_rules []" by (simp add: sorted_rules_def sorted_map_def)
  then show ?thesis by (simp add: tier_map_def sorted_insert_patterns)
qed

lemma effect_tier_map:
  "effect_at (tier_map al as de) tool pat =
     (if (tool, pat) \<in> set de then Some ''deny''
      else if (tool, pat) \<in> set as then Some ''ask''
      else if (tool, pat) \<in> set al then Some ''allow'' else None)"
proof -
  have "effect_at [] tool pat = None" by (simp add: effect_at_def)
  then show ?thesis by (simp add: tier_map_def effect_insert_patterns)
qed

section \<open>The check of the order\<close>

lemma check_pairs_ok: "check_pairs rs = Inr () \<longleftrightarrow> sorted_wrt (\<lambda>early late. \<not> inverts early late) rs"
proof (induction rs)
  case (Cons r rs)
  show ?case
  proof (cases "find (inverts r) rs")
    case None
    then have "\<forall>late \<in> set rs. \<not> inverts r late" by (auto simp: find_None_iff)
    then show ?thesis using Cons None by simp
  next
    case (Some late)
    then have "late \<in> set rs" "inverts r late" by (auto simp: find_Some_iff)
    then show ?thesis using Some by auto
  qed
qed simp

definition rule_matches :: "rule \<Rightarrow> cps \<Rightarrow> cps \<Rightarrow> bool" where
  "rule_matches r tool input \<longleftrightarrow>
     wildcard_matches (chars (ru_action r)) tool \<and> wildcard_matches (chars (ru_resource r)) input"

lemma inverts_meet:
  assumes "\<not> inverts early late" "ru_effect early \<noteq> ru_effect late"
    and "rule_matches early tool input" "rule_matches late tool input"
  shows "pattern_subsumes (chars (ru_action early)) (chars (ru_action late))"
    and "pattern_subsumes (chars (ru_resource early)) (chars (ru_resource late))"
  using assms patterns_overlap_exact unfolding inverts_def rule_matches_def by metis+

text \<open>A pattern without a star, or with a star as its last character only.\<close>

definition simple_pattern :: "cps \<Rightarrow> bool" where
  "simple_pattern p \<longleftrightarrow> star \<notin> set (butlast p)"

lemma subsumes_simple:
  assumes "simple_pattern narrow" "sentinel \<notin> set broad" "pattern_subsumes broad narrow"
    and "glob_lang (slashes narrow) (slashes s)"
  shows "wildcard_matches broad s"
proof (cases "narrow \<noteq> [] \<and> last narrow = star")
  case True
  then have "narrow = butlast narrow @ [star]" by (metis append_butlast_last_id)
  then show ?thesis using subsumes_prefix[of "butlast narrow"] assms by (simp add: simple_pattern_def)
next
  case False
  then have "star \<notin> set narrow"
    using assms(1) unfolding simple_pattern_def by (cases narrow rule: rev_cases) auto
  then show ?thesis using subsumes_starless assms by blast
qed

lemma rfind_char_last: "rfind_char c (a @ [c]) = Some (length a)"
  using find_char_append[of c "[]" "rev a"] by (simp add: rfind_char_def)

lemma rfind_char_none: "rfind_char c s = None \<longleftrightarrow> c \<notin> set s"
  by (simp add: rfind_char_def find_char_none)

text \<open>A tool name as \<open>parse_native_rule\<close> leaves it.\<close>

definition plain_tool :: "string \<Rightarrow> bool" where
  "plain_tool tool \<longleftrightarrow> tool \<noteq> [] \<and> \<not> has_whitespace tool \<and> map to_ascii_lower tool = tool \<and>
     normalize_action tool = tool \<and> CHR ''('' \<notin> set tool \<and> CHR '')'' \<notin> set tool"

lemma has_whitespace_drop: "\<not> has_whitespace s \<Longrightarrow> ws_len (drop k s) = 0"
proof (induction s arbitrary: k)
  case (Cons c s)
  then show ?case by (cases k) auto
qed (simp add: ws_len_def)

lemma trim_no_whitespace: "\<not> has_whitespace s \<Longrightarrow> trim s = s"
  using has_whitespace_drop[of s] has_whitespace_drop[of s 0]
  by (simp add: trim_def trim_start.simps trim_end.simps ws_suffix_def)

lemma parse_bare: "plain_tool tool \<Longrightarrow> parse_native_rule tool action = Inr (tool, ''*'')"
  using find_char_none[of "CHR ''(''" tool] rfind_char_none[of "CHR '')''" tool]
  by (simp add: parse_native_rule_def plain_tool_def reject_spaced_tool_def ensureR_def trim_no_whitespace)

lemma parse_pattern:
  assumes "plain_tool tool" "pat \<noteq> []"
  shows "parse_native_rule (tool @ ''('' @ pat @ '')'') action = Inr (tool, pat)"
proof -
  let ?s = "tool @ ''('' @ pat @ '')''"
  have "find_char CHR ''('' ?s = Some (length tool)"
    using find_char_append[of "CHR ''(''" tool "pat @ '')''"] assms(1) by (simp add: plain_tool_def)
  moreover have "rfind_char CHR '')'' ?s = Some (Suc (length tool + length pat))"
    using rfind_char_last[of "CHR '')''" "tool @ ''('' @ pat"] by simp
  ultimately show ?thesis
    using assms by (simp add: parse_native_rule_def plain_tool_def reject_spaced_tool_def ensureR_def trim_no_whitespace)
qed

section \<open>Names of actions\<close>

lemma parse_action:
  "parse_native_rule s action = Inr (tool, pat) \<Longrightarrow> tool \<noteq> [] \<and> \<not> has_whitespace tool \<and> pat \<noteq> []"
  by (auto simp: parse_native_rule_def reject_spaced_tool_def seqR_ok Let_def split: option.splits if_splits)

lemma opencode_keys: "opencode_key neutral = Some tool \<Longrightarrow> tool \<noteq> [] \<and> \<not> has_whitespace tool"
proof -
  have "list_all (\<lambda>t. case mapping_key (nt_opencode t) of None \<Rightarrow> True | Some k \<Rightarrow> k \<noteq> [] \<and> \<not> has_whitespace k) neutral_tools"
    by code_simp
  then show "opencode_key neutral = Some tool \<Longrightarrow> tool \<noteq> [] \<and> \<not> has_whitespace tool"
    unfolding opencode_key_def lookup_tool_def list_all_iff
    by (auto simp: bind_eq_Some_conv find_Some_iff dest!: bspec[OF _ nth_mem])
qed

lemma tier_actions:
  assumes "tier_pairs action structured native = Inr ps" "(tool, pat) \<in> set ps"
  shows "tool \<noteq> [] \<and> \<not> has_whitespace tool"
proof -
  obtain qs where qs: "map_res (\<lambda>s. parse_native_rule s action) (case native of None \<Rightarrow> [] | Some n \<Rightarrow> n) = Inr qs"
    "ps = concat (map rule_to_patterns structured) @ qs"
    using assms(1) by (auto simp: tier_pairs_def seqR_ok)
  from assms(2) consider r where "(tool, pat) \<in> set (rule_to_patterns r)" | "(tool, pat) \<in> set qs"
    unfolding qs(2) by auto
  then show ?thesis
  proof cases
    case (1 r)
    then have "opencode_key (pr_tool r) = Some tool"
      by (auto simp: rule_to_patterns_def opencode_tool_name_def split: option.splits if_splits)
    then show ?thesis by (rule opencode_keys)
  next
    case 2
    then obtain s where "parse_native_rule s action = Inr (tool, pat)"
      using qs(1) by (auto simp: map_res_ok list_all2_conv_all_nth in_set_conv_nth)
    then show ?thesis using parse_action by blast
  qed
qed

lemma render_some:
  assumes "render perms native = Inr (Some rules)"
  obtains al as de where "tier_pairs ''allow'' (p_allow perms) (map_option np_allow native) = Inr al"
    "tier_pairs ''ask'' (p_ask perms) (map_option np_ask native) = Inr as"
    "tier_pairs ''deny'' (p_deny perms) (map_option np_deny native) = Inr de"
    "tier_map al as de \<noteq> []" "check_rule_ordering (tier_map al as de) = Inr ()" "rules = rendered (tier_map al as de)"
  using assms by (auto simp: render_tiers seqR_ok split: if_splits)

end
