(* ===== verification/Engine_Theorems.thy ===== *)
theory Engine_Theorems
  imports Opencode_Permissions
begin

text \<open>
  The properties of the permission rules that are written for opencode: what the patterns mean, which rules
  the list holds, in which order, and what the accepted order guarantees.
\<close>

section \<open>Patterns\<close>

text \<open>C23. The overlap test of two patterns is exact: its table says yes exactly if some input matches both,
  with the backslashes of either side read as slashes and a pattern that ends in a space and a star also
  standing for the bare command.  The matcher on the right is the backtracking loop.\<close>
theorem overlap_is_exact:
  "patterns_overlap a b \<longleftrightarrow> (\<exists>s. wildcard_matches a s \<and> wildcard_matches b s)"
  by (rule patterns_overlap_exact)

text \<open>The backtracking loop, which keeps only the last star and one place to resume from, accepts
  exactly the language of the pattern.\<close>
lemma matcher_is_exact: "glob_matches_cps pat input \<longleftrightarrow> glob_lang pat input"
  by (rule glob_matches_exact)

section \<open>The rendered list\<close>

text \<open>C24. The list is well formed: it is not empty, it is ordered by action and resource with no pair
  twice, every action is a name without white space and every effect is one of the three.\<close>
theorem rendered_list_is_well_formed:
  assumes "render perms native = Inr (Some rules)"
  shows "rules \<noteq> [] \<and> sorted_wrt before rules \<and>
    (\<forall>r \<in> set rules. ru_action r \<noteq> [] \<and> \<not> has_whitespace (ru_action r) \<and>
       ru_effect r \<in> {''allow'', ''ask'', ''deny''})"
proof -
  obtain al as de where t: "tier_pairs ''allow'' (p_allow perms) (map_option np_allow native) = Inr al"
    "tier_pairs ''ask'' (p_ask perms) (map_option np_ask native) = Inr as"
    "tier_pairs ''deny'' (p_deny perms) (map_option np_deny native) = Inr de"
    "tier_map al as de \<noteq> []" "rules = rendered (tier_map al as de)"
    using assms by (rule render_some)
  have rule: "ru_action r \<noteq> [] \<and> \<not> has_whitespace (ru_action r) \<and> ru_effect r \<in> {''allow'', ''ask'', ''deny''}"
    if "r \<in> set rules" for r
  proof -
    have "r = same_rule (ru_action r) (ru_resource r) (ru_effect r)" by (simp add: same_rule_def)
    then have eff: "effect_at (tier_map al as de) (ru_action r) (ru_resource r) = Some (ru_effect r)"
      using that rendered_effect[OF sorted_tier_map] unfolding t(5) by metis
    then have "(ru_action r, ru_resource r) \<in> set de \<union> set as \<union> set al"
      by (auto simp: effect_tier_map split: if_splits)
    then show ?thesis
      using eff tier_actions[OF t(1)] tier_actions[OF t(2)] tier_actions[OF t(3)]
      by (auto simp: effect_tier_map split: if_splits)
  qed
  have "rules \<noteq> []" using t(4) sorted_tier_map[of al as de] unfolding t(5)
    by (cases "tier_map al as de") (auto simp: sorted_rules_def)
  then show ?thesis using rule sorted_rendered[OF sorted_tier_map] t(5) by blast
qed

definition demo_permissions :: permissions where
  "demo_permissions =
     \<lparr>p_default_mode = None, p_preset = None,
      p_allow = [\<lparr>pr_tool = ''Bash'', pr_pattern = Some ''git *'', pr_paths = []\<rparr>],
      p_ask = [\<lparr>pr_tool = ''Write'', pr_pattern = None, pr_paths = [''/etc/*'']\<rparr>,
               \<lparr>pr_tool = ''LS'', pr_pattern = None, pr_paths = []\<rparr>],
      p_deny = [\<lparr>pr_tool = ''Bash'', pr_pattern = None, pr_paths = []\<rparr>]\<rparr>"

definition demo_native :: native_permission_rules where
  "demo_native = \<lparr>np_allow = ['' bash (git *)'', ''edit(/etc/*)''], np_ask = [], np_deny = [''Bash(git push*)'']\<rparr>"

definition demo_rules :: "rule list" where
  "demo_rules =
     [same_rule ''edit'' ''/etc/*'' ''ask'', same_rule ''shell'' ''*'' ''deny'',
      same_rule ''shell'' ''git *'' ''allow'', same_rule ''shell'' ''git push*'' ''deny'']"

lemma demo_render: "render demo_permissions (Some demo_native) = Inr (Some demo_rules)"
  by code_simp

theorem rendered_list_is_well_formed_witness:
  "sorted_wrt before demo_rules \<and> ru_effect (demo_rules ! 3) \<in> {''allow'', ''ask'', ''deny''}"
proof -
  have "demo_rules ! 3 \<in> set demo_rules" by (simp add: demo_rules_def)
  then show ?thesis using rendered_list_is_well_formed[OF demo_render] by blast
qed

text \<open>C22. The strictest effect that was asked for wins, whatever its source: a pair of action and resource
  is in the list exactly if a structured or native rule asks for it, with the effect deny if some deny rule
  names it, else ask if some ask rule does, else allow.\<close>
theorem strictest_effect_wins:
  assumes "render perms native = Inr (Some rules)"
    and "tier_pairs ''allow'' (p_allow perms) (map_option np_allow native) = Inr al"
    and "tier_pairs ''ask'' (p_ask perms) (map_option np_ask native) = Inr as"
    and "tier_pairs ''deny'' (p_deny perms) (map_option np_deny native) = Inr de"
  shows "\<lparr>ru_action = tool, ru_resource = pat, ru_effect = eff\<rparr> \<in> set rules \<longleftrightarrow>
    (if (tool, pat) \<in> set de then eff = ''deny''
     else if (tool, pat) \<in> set as then eff = ''ask''
     else (tool, pat) \<in> set al \<and> eff = ''allow'')"
proof -
  have "rules = rendered (tier_map al as de)"
    using assms by (auto elim!: render_some)
  then have "same_rule tool pat eff \<in> set rules \<longleftrightarrow> effect_at (tier_map al as de) tool pat = Some eff"
    using rendered_effect[OF sorted_tier_map] by simp
  then show ?thesis by (auto simp: effect_tier_map same_rule_def)
qed

theorem strictest_effect_wins_witness:
  "\<lparr>ru_action = ''edit'', ru_resource = ''/etc/*'', ru_effect = ''ask''\<rparr> \<in> set demo_rules \<and>
   \<lparr>ru_action = ''edit'', ru_resource = ''/etc/*'', ru_effect = ''allow''\<rparr> \<notin> set demo_rules"
proof -
  have t: "tier_pairs ''allow'' (p_allow demo_permissions) (map_option np_allow (Some demo_native)) =
      Inr [(''shell'', ''git *''), (''shell'', ''git *''), (''edit'', ''/etc/*'')]"
    "tier_pairs ''ask'' (p_ask demo_permissions) (map_option np_ask (Some demo_native)) = Inr [(''edit'', ''/etc/*'')]"
    "tier_pairs ''deny'' (p_deny demo_permissions) (map_option np_deny (Some demo_native)) =
      Inr [(''shell'', ''*''), (''shell'', ''git push*'')]"
    by code_simp+
  show ?thesis
    using strictest_effect_wins[OF demo_render t, of "''edit''" "''/etc/*''" "''ask''"]
      strictest_effect_wins[OF demo_render t, of "''edit''" "''/etc/*''" "''allow''"] by simp
qed

text \<open>C21. In an accepted list the later of two rules that disagree on some request is the narrower one: if
  an earlier and a later rule have different effects and one request matches both, and the later rule's
  patterns have a star at most as their last character, then the earlier rule matches every request that the
  later rule's patterns match as written.  So the order never lets a broader rule take over a narrower one.\<close>
theorem later_rule_is_narrower:
  assumes "render perms native = Inr (Some rules)" "i < j" "j < length rules"
    and "ru_effect (rules ! i) \<noteq> ru_effect (rules ! j)"
    and "rule_matches (rules ! i) tool input" "rule_matches (rules ! j) tool input"
    and "simple_pattern (chars (ru_action (rules ! j)))" "simple_pattern (chars (ru_resource (rules ! j)))"
    and "sentinel \<notin> set (chars (ru_action (rules ! i)))" "sentinel \<notin> set (chars (ru_resource (rules ! i)))"
    and "glob_matches_cps (slashes (chars (ru_action (rules ! j)))) (slashes tool')"
    and "glob_matches_cps (slashes (chars (ru_resource (rules ! j)))) (slashes input')"
  shows "rule_matches (rules ! i) tool' input'"
proof -
  have "check_pairs rules = Inr ()"
    using assms(1) by (auto elim!: render_some simp: check_rule_ordering_def)
  then have "\<not> inverts (rules ! i) (rules ! j)"
    using assms(2,3) by (simp add: check_pairs_ok sorted_wrt_iff_nth_less)
  note subs = inverts_meet[OF this assms(4-6)]
  show ?thesis
    using subsumes_simple[OF assms(7,9) subs(1)] subsumes_simple[OF assms(8,10) subs(2)] assms(11,12)
    by (simp add: rule_matches_def glob_matches_exact)
qed

theorem later_rule_is_narrower_witness:
  "rule_matches (demo_rules ! 2) (chars ''shell'') (chars ''git push --force'')"
proof -
  have "rule_matches (demo_rules ! 2) (chars ''shell'') (chars ''git push'')"
    "rule_matches (demo_rules ! 3) (chars ''shell'') (chars ''git push'')"
    "simple_pattern (chars (ru_action (demo_rules ! 3)))" "simple_pattern (chars (ru_resource (demo_rules ! 3)))"
    "sentinel \<notin> set (chars (ru_action (demo_rules ! 2)))" "sentinel \<notin> set (chars (ru_resource (demo_rules ! 2)))"
    "glob_matches_cps (slashes (chars (ru_action (demo_rules ! 3)))) (slashes (chars ''shell''))"
    "glob_matches_cps (slashes (chars (ru_resource (demo_rules ! 3)))) (slashes (chars ''git push --force''))"
    "ru_effect (demo_rules ! 2) \<noteq> ru_effect (demo_rules ! 3)" "2 < (3 :: nat)" "3 < length demo_rules"
    by code_simp+
  then show ?thesis using later_rule_is_narrower[OF demo_render] by blast
qed

text \<open>C25. The text of a rule that an error message proposes reads back: a rule printed as \<open>tool(pattern)\<close>, or
  as the bare tool for the pattern that matches everything, parses to that tool and pattern.\<close>
theorem rule_text_round_trip:
  assumes "plain_tool tool" "pat \<noteq> []"
  shows "parse_native_rule (butlast (tl (render_rule tool pat))) action = Inr (tool, pat)"
proof (cases "pat = ''*''")
  case True
  then show ?thesis using parse_bare[OF assms(1)] by (simp add: render_rule_def)
next
  case False
  then show ?thesis using parse_pattern[OF assms] by (simp add: render_rule_def butlast_append)
qed

theorem rule_text_round_trip_witness:
  "parse_native_rule (butlast (tl (render_rule ''shell'' ''echo ) (*''))) ''deny'' = Inr (''shell'', ''echo ) (*'')"
proof -
  have "plain_tool ''shell''" by code_simp
  then show ?thesis using rule_text_round_trip[of "''shell''" "''echo ) (*''"] by simp
qed

end
