(* ===== verification/Addresses.thy ===== *)
theory Addresses
  imports Base "HOL-Library.Word"
begin

unbundle bit_operations_syntax

text \<open>
  Internet addresses as machine words and the address policies of the MCP client:
  \<open>crates/llmenv-mcp/src/cleartext.rs\<close> and the address part of \<open>mcp_client/ssrf.rs\<close>.  The tests on
  octets and segments are shown to be the address blocks that they stand for.
\<close>

section \<open>Addresses of the standard library\<close>

type_synonym ipv4 = "32 word"
type_synonym ipv6 = "128 word"

datatype ip_addr = V4 ipv4 | V6 ipv6

definition octet :: "nat \<Rightarrow> ipv4 \<Rightarrow> 8 word" where
  "octet k a = ucast (drop_bit (24 - 8 * k) a)"

definition segment :: "nat \<Rightarrow> ipv6 \<Rightarrow> 16 word" where
  "segment k a = ucast (drop_bit (112 - 16 * k) a)"

definition ipv4_new :: "8 word \<Rightarrow> 8 word \<Rightarrow> 8 word \<Rightarrow> 8 word \<Rightarrow> ipv4" where
  "ipv4_new a b c d = push_bit 24 (ucast a) OR push_bit 16 (ucast b) OR push_bit 8 (ucast c) OR ucast d"

definition v4_is_loopback :: "ipv4 \<Rightarrow> bool" where
  "v4_is_loopback a \<longleftrightarrow> octet 0 a = 127"

definition v4_is_private :: "ipv4 \<Rightarrow> bool" where
  "v4_is_private a \<longleftrightarrow>
     octet 0 a = 10 \<or> octet 0 a = 172 \<and> 16 \<le> octet 1 a \<and> octet 1 a \<le> 31 \<or> octet 0 a = 192 \<and> octet 1 a = 168"

definition v4_is_link_local :: "ipv4 \<Rightarrow> bool" where
  "v4_is_link_local a \<longleftrightarrow> octet 0 a = 169 \<and> octet 1 a = 254"

definition v4_is_unspecified :: "ipv4 \<Rightarrow> bool" where
  "v4_is_unspecified a \<longleftrightarrow> a = 0"

definition v4_is_broadcast :: "ipv4 \<Rightarrow> bool" where
  "v4_is_broadcast a \<longleftrightarrow> a = - 1"

definition v6_is_loopback :: "ipv6 \<Rightarrow> bool" where
  "v6_is_loopback a \<longleftrightarrow> a = 1"

definition v6_is_unspecified :: "ipv6 \<Rightarrow> bool" where
  "v6_is_unspecified a \<longleftrightarrow> a = 0"

definition v6_is_unicast_link_local :: "ipv6 \<Rightarrow> bool" where
  "v6_is_unicast_link_local a \<longleftrightarrow> segment 0 a AND 0xffc0 = 0xfe80"

text \<open>The two low segments as an IPv4 address, \<open>low\<close> of the source.\<close>

definition low :: "16 word \<Rightarrow> 16 word \<Rightarrow> ipv4" where
  "low hi lo = ipv4_new (ucast (drop_bit 8 hi)) (ucast hi) (ucast (drop_bit 8 lo)) (ucast lo)"

definition to_ipv4_mapped :: "ipv6 \<Rightarrow> ipv4 option" where
  "to_ipv4_mapped a =
     (if list_all (\<lambda>k. segment k a = 0) [0, 1, 2, 3, 4] \<and> segment 5 a = 0xffff
      then Some (low (segment 6 a) (segment 7 a)) else None)"

section \<open>Policies\<close>

definition embedded_ipv4 :: "ipv6 \<Rightarrow> ipv4 option" where
  "embedded_ipv4 a =
     (case to_ipv4_mapped a of
        Some mapped \<Rightarrow> Some mapped
      | None \<Rightarrow>
          if list_all (\<lambda>k. segment k a = 0) [0, 1, 2, 3, 4, 5] \<and> \<not> v6_is_unspecified a \<and> \<not> v6_is_loopback a then
            Some (low (segment 6 a) (segment 7 a))
          else if segment 0 a = 0x0064 \<and> segment 1 a = 0xff9b \<and> list_all (\<lambda>k. segment k a = 0) [2, 3, 4, 5] then
            Some (low (segment 6 a) (segment 7 a))
          else if segment 0 a = 0x2002 then Some (low (segment 1 a) (segment 2 a))
          else None)"

definition is_unique_local_v6 :: "ipv6 \<Rightarrow> bool" where
  "is_unique_local_v6 a \<longleftrightarrow> (ucast (drop_bit 120 a) :: 8 word) AND 0xfe = 0xfc"

fun cleartext_safe_v4 :: "ipv4 \<Rightarrow> bool" where
  "cleartext_safe_v4 a \<longleftrightarrow>
     v4_is_loopback a \<or> v4_is_private a \<or> octet 0 a = 100 \<and> octet 1 a AND 0xc0 = 0x40"

fun is_cleartext_safe :: "ip_addr \<Rightarrow> bool" where
  "is_cleartext_safe (V4 a) = cleartext_safe_v4 a"
| "is_cleartext_safe (V6 a) =
     (case to_ipv4_mapped a of
        Some mapped \<Rightarrow> cleartext_safe_v4 mapped
      | None \<Rightarrow> v6_is_loopback a \<or> is_unique_local_v6 a)"

datatype ssrf_policy = PublicOnly | AllowPrivateNetwork

definition only_if :: "bool \<Rightarrow> string \<Rightarrow> string option" where
  "only_if b reason = (if b then Some reason else None)"

definition blocked_v4 :: "ipv4 \<Rightarrow> ssrf_policy \<Rightarrow> string option" where
  "blocked_v4 a policy =
     (let block_private = (policy = PublicOnly) in
      if v4_is_loopback a then only_if block_private ''loopback IPv4''
      else if v4_is_private a then only_if block_private ''private IPv4''
      else if v4_is_link_local a then Some ''link-local IPv4''
      else if v4_is_unspecified a then Some ''unspecified IPv4''
      else if v4_is_broadcast a then Some ''broadcast IPv4''
      else None)"

fun blocked_reason :: "ip_addr \<Rightarrow> ssrf_policy \<Rightarrow> string option" where
  "blocked_reason (V4 a) policy = blocked_v4 a policy"
| "blocked_reason (V6 a) policy =
     (case embedded_ipv4 a of
        Some embedded \<Rightarrow> blocked_v4 embedded policy
      | None \<Rightarrow>
          let block_private = (policy = PublicOnly) in
          if v6_is_loopback a then only_if block_private ''loopback IPv6''
          else if v6_is_unspecified a then Some ''unspecified IPv6''
          else if v6_is_unicast_link_local a then Some ''link-local IPv6''
          else if is_unique_local_v6 a then only_if block_private ''unique-local IPv6 (ULA)''
          else None)"

fun is_link_local :: "ip_addr \<Rightarrow> bool" where
  "is_link_local (V4 a) = v4_is_link_local a"
| "is_link_local (V6 a) =
     (case embedded_ipv4 a of None \<Rightarrow> v6_is_unicast_link_local a | Some v4 \<Rightarrow> v4_is_link_local v4)"

section \<open>Octets and segments as numbers\<close>

lemma unat_drop_bit: "unat (drop_bit n (a :: 'a::len word)) = unat a div 2 ^ n"
proof -
  have "unat (drop_bit n a) = drop_bit n (unat a)" by (simp add: unsigned_drop_bit_eq take_bit_nat_eq_self)
  then show ?thesis by (simp add: drop_bit_eq_div)
qed

lemma unat_octet: "unat (octet k a) = unat a div 2 ^ (24 - 8 * k) mod 256"
  by (simp add: octet_def unsigned_ucast_eq take_bit_eq_mod unat_drop_bit)

lemma unat_segment: "unat (segment k a) = unat a div 2 ^ (112 - 16 * k) mod 65536"
  by (simp add: segment_def unsigned_ucast_eq take_bit_eq_mod unat_drop_bit)

lemma unat_low: "unat (low hi lo) = unat hi * 65536 + unat lo"
proof -
  have "low hi lo = push_bit 16 (ucast hi) OR ucast lo"
    unfolding low_def ipv4_new_def by (rule bit_word_eqI) (auto simp: bit_simps dest: bit_imp_le_length)
  also have "\<dots> = push_bit 16 (ucast hi) + ucast lo"
    by (rule disjunctive_add [symmetric]) (auto simp: bit_simps dest: bit_imp_le_length)
  finally have sum: "low hi lo = push_bit 16 (ucast hi) + ucast lo" .
  have "unat hi < 65536" "unat lo < 65536" using unsigned_less[of hi] unsigned_less[of lo] by simp_all
  then show ?thesis unfolding sum by (simp add: push_bit_eq_mult unat_word_ariths unsigned_ucast_eq take_bit_eq_mod)
qed

lemma masked_eq:
  "x AND NOT (mask n) = y AND NOT (mask n) \<longleftrightarrow> drop_bit n x = drop_bit n (y :: 'a::len word)"
proof
  have drop: "drop_bit n (z AND NOT (mask n)) = drop_bit n z" for z :: "'a word"
    by (rule bit_word_eqI) (auto simp: bit_simps dest: bit_imp_le_length)
  have push: "push_bit n (drop_bit n z) = z AND NOT (mask n)" for z :: "'a word"
    by (rule bit_word_eqI) (auto simp: bit_simps)
  show "drop_bit n x = drop_bit n y" if "x AND NOT (mask n) = y AND NOT (mask n)"
    using that drop by metis
  show "x AND NOT (mask n) = y AND NOT (mask n)" if "drop_bit n x = drop_bit n y"
    using that push by metis
qed

section \<open>Address blocks\<close>

text \<open>The IPv4 block of \<open>bits\<close> leading bits of an address, and the IPv6 block of \<open>bits\<close> leading bits.\<close>

definition quad :: "nat \<Rightarrow> nat \<Rightarrow> nat \<Rightarrow> nat \<Rightarrow> nat" where
  "quad a b c d = ((a * 256 + b) * 256 + c) * 256 + d"

definition v4_block :: "nat \<Rightarrow> nat \<Rightarrow> ipv4 \<Rightarrow> bool" where
  "v4_block base bits a \<longleftrightarrow> unat a div 2 ^ (32 - bits) = base div 2 ^ (32 - bits)"

definition v6_block :: "nat \<Rightarrow> nat \<Rightarrow> ipv6 \<Rightarrow> bool" where
  "v6_block prefix bits a \<longleftrightarrow> unat a div 2 ^ (128 - bits) = prefix"

lemma octets_01:
  "unat (octet 0 a) = unat a div 65536 div 256" "unat (octet (Suc 0) a) = unat a div 65536 mod 256"
proof -
  have "unat a < 2 ^ 32" using unsigned_less[of a] by simp
  then have "unat a div 65536 div 256 < 256" by simp
  then show "unat (octet 0 a) = unat a div 65536 div 256"
    by (simp add: unat_octet div_mult2_eq [symmetric])
  show "unat (octet (Suc 0) a) = unat a div 65536 mod 256" by (simp add: unat_octet)
qed

lemma digit_eq: "q < m \<Longrightarrow> h div m = p \<and> h mod m = q \<longleftrightarrow> h = p * m + (q :: nat)"
  by (metis div_mult_mod_eq div_mult_self3 div_less mod_less mod_mult_self3 add.right_neutral less_nat_zero_code)

lemma mid_digit: "h mod (m * n) div m = h div m mod (n :: nat)"
  by (cases "m = 0") (simp_all add: mod_mult2_eq)

lemma v4_loopback_block: "v4_is_loopback a \<longleftrightarrow> v4_block (quad 127 0 0 0) 8 a"
  by (simp add: v4_is_loopback_def v4_block_def quad_def word_unat_eq_iff octets_01 div_mult2_eq [symmetric])

lemma v4_link_local_block: "v4_is_link_local a \<longleftrightarrow> v4_block (quad 169 254 0 0) 16 a"
  using digit_eq[of 254 256 "unat a div 65536" 169]
  by (simp add: v4_is_link_local_def v4_block_def quad_def word_unat_eq_iff octets_01)

lemma v4_unspecified_block: "v4_is_unspecified a \<longleftrightarrow> v4_block (quad 0 0 0 0) 32 a"
  by (simp add: v4_is_unspecified_def v4_block_def quad_def unsigned_eq_0_iff)

lemma v4_broadcast_block: "v4_is_broadcast a \<longleftrightarrow> v4_block (quad 255 255 255 255) 32 a"
proof -
  have "unat (- 1 :: ipv4) = 4294967295" by (simp add: unsigned_minus_1_eq_mask mask_eq_exp_minus_1)
  then show ?thesis by (simp add: v4_is_broadcast_def v4_block_def quad_def word_unat_eq_iff)
qed

lemma v4_cgnat_block: "octet 0 a = 100 \<and> octet 1 a AND 0xc0 = 0x40 \<longleftrightarrow> v4_block (quad 100 64 0 0) 10 a"
proof -
  have m: "NOT (mask 6) = (0xc0 :: 8 word)" by (simp add: mask_eq_exp_minus_1)
  have "octet 1 a AND 0xc0 = 0x40 \<longleftrightarrow> drop_bit 6 (octet 1 a) = 1"
    using masked_eq[of "octet 1 a" 6 "0x40"] unfolding m by simp
  then have "octet 1 a AND 0xc0 = 0x40 \<longleftrightarrow> unat a div 65536 div 64 mod 4 = 1"
    using mid_digit[of "unat a div 65536" 64 4] by (simp add: word_unat_eq_iff unat_drop_bit octets_01)
  then show ?thesis
    using digit_eq[of 1 4 "unat a div 65536 div 64" 100]
    by (simp add: v4_block_def quad_def word_unat_eq_iff octets_01 div_mult2_eq [symmetric])
qed

lemma v4_private_blocks:
  "v4_is_private a \<longleftrightarrow>
     v4_block (quad 10 0 0 0) 8 a \<or> v4_block (quad 172 16 0 0) 12 a \<or> v4_block (quad 192 168 0 0) 16 a"
proof -
  let ?h = "unat a div 65536"
  have ten: "octet 0 a = 10 \<longleftrightarrow> v4_block (quad 10 0 0 0) 8 a"
    by (simp add: v4_block_def quad_def word_unat_eq_iff octets_01 div_mult2_eq [symmetric])
  have "16 \<le> r \<and> r \<le> 31 \<longleftrightarrow> r div 16 = 1" for r :: nat by linarith
  then have "16 \<le> octet 1 a \<and> octet 1 a \<le> 31 \<longleftrightarrow> ?h mod 256 div 16 = 1"
    by (simp only: word_le_nat_alt octets_01 One_nat_def) simp
  also have "?h mod 256 div 16 = ?h div 16 mod 16" using mid_digit[of ?h 16 16] by simp
  finally have "octet 0 a = 172 \<and> 16 \<le> octet 1 a \<and> octet 1 a \<le> 31 \<longleftrightarrow> ?h div 16 div 16 = 172 \<and> ?h div 16 mod 16 = 1"
    by (simp add: word_unat_eq_iff octets_01 div_mult2_eq [symmetric])
  then have mid: "octet 0 a = 172 \<and> 16 \<le> octet 1 a \<and> octet 1 a \<le> 31 \<longleftrightarrow> v4_block (quad 172 16 0 0) 12 a"
    using digit_eq[of 1 16 "?h div 16" 172] by (simp add: v4_block_def quad_def div_mult2_eq [symmetric])
  have "octet 0 a = 192 \<and> octet 1 a = 168 \<longleftrightarrow> v4_block (quad 192 168 0 0) 16 a"
    using digit_eq[of 168 256 ?h 192] by (simp add: v4_block_def quad_def word_unat_eq_iff octets_01)
  then show ?thesis using ten mid unfolding v4_is_private_def by blast
qed

section \<open>Prefixes of IPv6 addresses\<close>

definition prefix_of :: "nat \<Rightarrow> ipv6 \<Rightarrow> nat" where
  "prefix_of k a = unat a div 2 ^ (112 - 16 * k)"

lemma prefix_0: "prefix_of 0 a = unat (segment 0 a)"
proof -
  have "unat a < 2 ^ 128" using unsigned_less[of a] by simp
  then have "unat a div 2 ^ 112 < 65536" by simp
  then show ?thesis by (simp add: prefix_of_def unat_segment)
qed

lemma prefix_Suc: "k < 7 \<Longrightarrow> prefix_of (Suc k) a = prefix_of k a * 65536 + unat (segment (Suc k) a)"
proof -
  assume "k < 7"
  then have "112 - 16 * k = 112 - 16 * Suc k + 16" by simp
  then have "(2 :: nat) ^ (112 - 16 * k) = 2 ^ (112 - 16 * Suc k) * 2 ^ 16" by (simp only: power_add)
  then have "(2 :: nat) ^ (112 - 16 * k) = 2 ^ (112 - 16 * Suc k) * 65536" by simp
  then have "prefix_of k a = prefix_of (Suc k) a div 65536" by (simp add: prefix_of_def div_mult2_eq)
  then show ?thesis by (simp add: prefix_of_def unat_segment)
qed

lemma prefix_Suc_eq:
  "k < 7 \<Longrightarrow> prefix_of (Suc k) a = c \<longleftrightarrow> prefix_of k a = c div 65536 \<and> unat (segment (Suc k) a) = c mod 65536"
proof -
  assume "k < 7"
  have small: "unat (segment (Suc k) a) < 65536" by (simp add: unat_segment)
  show ?thesis unfolding prefix_Suc[OF \<open>k < 7\<close>] using small by auto
qed

lemma prefix_eqs:
  "prefix_of (Suc 0) a = c \<longleftrightarrow> prefix_of 0 a = c div 65536 \<and> unat (segment (Suc 0) a) = c mod 65536"
  "prefix_of 2 a = c \<longleftrightarrow> prefix_of (Suc 0) a = c div 65536 \<and> unat (segment 2 a) = c mod 65536"
  "prefix_of 3 a = c \<longleftrightarrow> prefix_of 2 a = c div 65536 \<and> unat (segment 3 a) = c mod 65536"
  "prefix_of 4 a = c \<longleftrightarrow> prefix_of 3 a = c div 65536 \<and> unat (segment 4 a) = c mod 65536"
  "prefix_of 5 a = c \<longleftrightarrow> prefix_of 4 a = c div 65536 \<and> unat (segment 5 a) = c mod 65536"
  using prefix_Suc_eq[of 0 a c] apply simp
  using prefix_Suc_eq[of "Suc 0" a c] apply (simp add: numeral_2_eq_2)
  using prefix_Suc_eq[of 2 a c] apply simp
  using prefix_Suc_eq[of 3 a c] apply simp
  using prefix_Suc_eq[of 4 a c] apply simp
  done

lemma mapped_prefix:
  "list_all (\<lambda>k. segment k a = 0) [0, 1, 2, 3, 4] \<and> segment 5 a = 0xffff \<longleftrightarrow> unat a div 2 ^ 32 = 0xffff"
proof -
  have "unat a div 2 ^ 32 = prefix_of 5 a" by (simp add: prefix_of_def)
  then show ?thesis by (auto simp: prefix_eqs prefix_0 word_unat_eq_iff)
qed

lemma compatible_prefix: "list_all (\<lambda>k. segment k a = 0) [0, 1, 2, 3, 4, 5] \<longleftrightarrow> unat a div 2 ^ 32 = 0"
proof -
  have "unat a div 2 ^ 32 = prefix_of 5 a" by (simp add: prefix_of_def)
  then show ?thesis by (auto simp: prefix_eqs prefix_0 word_unat_eq_iff)
qed

lemma nat64_prefix:
  "segment 0 a = 0x0064 \<and> segment 1 a = 0xff9b \<and> list_all (\<lambda>k. segment k a = 0) [2, 3, 4, 5] \<longleftrightarrow>
   unat a div 2 ^ 32 = 0x64ff9b * 2 ^ 64"
proof -
  have "unat a div 2 ^ 32 = prefix_of 5 a" by (simp add: prefix_of_def)
  then show ?thesis by (auto simp: prefix_eqs prefix_0 word_unat_eq_iff)
qed

lemma sixtofour_prefix: "segment 0 a = 0x2002 \<longleftrightarrow> unat a div 2 ^ 112 = 0x2002"
  using prefix_0[of a] by (simp add: prefix_of_def word_unat_eq_iff)

lemma two_segments: "n div (d * 65536) mod 65536 * 65536 + n div d mod 65536 = n div d mod (2 ^ 32 :: nat)"
  using mod_mult2_eq[of "n div d" 65536 65536] by (simp add: div_mult2_eq)

lemma low_end: "unat (low (segment 6 a) (segment 7 a)) = unat a mod 2 ^ 32"
  using two_segments[of "unat a" 1] by (simp add: unat_low unat_segment)

lemma low_after_prefix: "unat (low (segment 1 a) (segment 2 a)) = unat a div 2 ^ 80 mod 2 ^ 32"
  using two_segments[of "unat a" "2 ^ 80"] by (simp add: unat_low unat_segment)

text \<open>The IPv4 address that a wrapping IPv6 address leads to, on the numbers.\<close>

definition wrapped_v4 :: "nat \<Rightarrow> nat option" where
  "wrapped_v4 n =
     (if n div 2 ^ 32 = 0xffff then Some (n mod 2 ^ 32)
      else if n div 2 ^ 32 = 0 \<and> 1 < n then Some (n mod 2 ^ 32)
      else if n div 2 ^ 32 = 0x64ff9b * 2 ^ 64 then Some (n mod 2 ^ 32)
      else if n div 2 ^ 112 = 0x2002 then Some (n div 2 ^ 80 mod 2 ^ 32)
      else None)"

lemma small_v6: "\<not> v6_is_unspecified a \<and> \<not> v6_is_loopback a \<longleftrightarrow> 1 < unat a"
proof -
  have "a = 0 \<longleftrightarrow> unat a = 0" "a = 1 \<longleftrightarrow> unat a = 1" by (simp_all add: word_unat_eq_iff)
  then show ?thesis unfolding v6_is_unspecified_def v6_is_loopback_def by linarith
qed

lemma embedded_exact: "map_option unat (embedded_ipv4 a) = wrapped_v4 (unat a)"
proof -
  have eq: "embedded_ipv4 a =
      (if unat a div 2 ^ 32 = 0xffff then Some (low (segment 6 a) (segment 7 a))
       else if unat a div 2 ^ 32 = 0 \<and> 1 < unat a then Some (low (segment 6 a) (segment 7 a))
       else if unat a div 2 ^ 32 = 0x64ff9b * 2 ^ 64 then Some (low (segment 6 a) (segment 7 a))
       else if unat a div 2 ^ 112 = 0x2002 then Some (low (segment 1 a) (segment 2 a))
       else None)"
    unfolding embedded_ipv4_def to_ipv4_mapped_def mapped_prefix compatible_prefix nat64_prefix sixtofour_prefix
      small_v6 by simp
  show ?thesis unfolding eq wrapped_v4_def if_distrib[of "map_option unat"] option.map low_end low_after_prefix by (rule refl)
qed

lemma v6_link_local_block: "v6_is_unicast_link_local a \<longleftrightarrow> v6_block 0x3fa 10 a"
proof -
  have m: "NOT (mask 6) = (0xffc0 :: 16 word)" by (simp add: mask_eq_exp_minus_1)
  have "v6_is_unicast_link_local a \<longleftrightarrow> drop_bit 6 (segment 0 a) = 0x3fa"
    using masked_eq[of "segment 0 a" 6 "0xfe80"] unfolding m v6_is_unicast_link_local_def by simp
  moreover have "unat (segment 0 a) div 64 = unat a div 2 ^ 118"
    unfolding prefix_0[symmetric] prefix_of_def by (simp add: div_mult2_eq [symmetric])
  ultimately show ?thesis by (simp add: v6_block_def word_unat_eq_iff unat_drop_bit)
qed

lemma v6_unique_local_block: "is_unique_local_v6 a \<longleftrightarrow> v6_block 0x7e 7 a"
proof -
  let ?o = "ucast (drop_bit 120 a) :: 8 word"
  have m: "NOT (mask 1) = (0xfe :: 8 word)" by (simp add: mask_eq_exp_minus_1)
  have "is_unique_local_v6 a \<longleftrightarrow> drop_bit 1 ?o = 0x7e"
    using masked_eq[of ?o 1 "0xfc"] unfolding m is_unique_local_v6_def by simp
  moreover have "unat ?o = unat a div 2 ^ 120"
  proof -
    have "unat a < 2 ^ 128" using unsigned_less[of a] by simp
    then have "unat a div 2 ^ 120 < 256" by simp
    then show ?thesis by (simp add: unsigned_ucast_eq take_bit_eq_mod unat_drop_bit)
  qed
  ultimately show ?thesis by (simp add: v6_block_def word_unat_eq_iff unat_drop_bit div_mult2_eq [symmetric])
qed

end
