(* ===== verification/Mcp_Urls.thy ===== *)
theory Mcp_Urls
  imports Addresses
begin

text \<open>
  The checks of a server URL, \<open>crates/llmenv-mcp/src/mcp_client/ssrf.rs\<close> and \<open>request_headers.rs\<close>: which
  addresses a client is pinned to, the cleartext rule and the configured headers.  The URL parser and the
  resolver are parameters; error texts are values.
\<close>

section \<open>Addresses of a URL\<close>

datatype host = HostV4 ipv4 | HostV6 ipv6 | HostDomain string

record url_parts =
  up_scheme :: string
  up_host :: "host option"
  up_port :: "nat option"

type_synonym socket_addr = "ip_addr \<times> nat"

text \<open>What \<open>resolve_with_timeout\<close> learns from its thread.\<close>

datatype dns_answer = DnsResolved "socket_addr list" | ResolveFailed | ResolveTimedOut | ResolverDied

datatype url_error =
    InvalidUrl
  | UnsupportedScheme string
  | NoHost
  | NoPort
  | DnsFailed string
  | DnsTimedOut string
  | DnsThreadDied string
  | NoAddresses
  | OnlyLinkLocal ip_addr
  | Blocked string ip_addr
  | CleartextRefused ip_addr
  | BadHeaderName string
  | HeaderTwice string
  | BadHeaderValue string

definition resolve_with_timeout ::
    "(string \<Rightarrow> nat \<Rightarrow> dns_answer) \<Rightarrow> string \<Rightarrow> nat \<Rightarrow> url_error + socket_addr list" where
  "resolve_with_timeout lookup name port =
     (case lookup name port of
        DnsResolved addrs \<Rightarrow> Inr addrs
      | ResolveFailed \<Rightarrow> Inl (DnsFailed name)
      | ResolveTimedOut \<Rightarrow> Inl (DnsTimedOut name)
      | ResolverDied \<Rightarrow> Inl (DnsThreadDied name))"

definition drop_link_local_for_domain :: "socket_addr list \<Rightarrow> ssrf_policy \<Rightarrow> url_error + socket_addr list" where
  "drop_link_local_for_domain resolved policy =
     (if resolved = [] then Inl NoAddresses
      else if policy \<noteq> AllowPrivateNetwork then Inr resolved
      else
        let dropped = filter (\<lambda>a. is_link_local (fst a)) resolved;
            kept = filter (\<lambda>a. \<not> is_link_local (fst a)) resolved in
        case (kept, dropped) of
          ([], first # _) \<Rightarrow> Inl (OnlyLinkLocal (fst first))
        | _ \<Rightarrow> Inr kept)"

fun reject_blocked :: "socket_addr list \<Rightarrow> ssrf_policy \<Rightarrow> url_error + unit" where
  "reject_blocked [] policy = Inr ()"
| "reject_blocked (a # as) policy =
     (case blocked_reason (fst a) policy of
        Some reason \<Rightarrow> Inl (Blocked reason (fst a))
      | None \<Rightarrow> reject_blocked as policy)"

definition ok_or :: "'e \<Rightarrow> 'a option \<Rightarrow> 'e + 'a" where
  "ok_or e x = (case x of None \<Rightarrow> Inl e | Some a \<Rightarrow> Inr a)"

definition validate_url_production ::
    "(string \<Rightarrow> url_parts option) \<Rightarrow> (string \<Rightarrow> nat \<Rightarrow> dns_answer) \<Rightarrow> string \<Rightarrow> ssrf_policy \<Rightarrow>
     url_error + (host \<times> socket_addr list)" where
  "validate_url_production parse_url lookup url policy =
     seqR (ok_or InvalidUrl (parse_url url)) (\<lambda>parsed.
     seqR (ensureR (up_scheme parsed = ''http'' \<or> up_scheme parsed = ''https'')
       (UnsupportedScheme (up_scheme parsed))) (\<lambda>_.
     seqR (ok_or NoHost (up_host parsed)) (\<lambda>h.
     seqR (ok_or NoPort (up_port parsed)) (\<lambda>port.
     seqR (case h of
             HostV4 a \<Rightarrow> Inr [(V4 a, port)]
           | HostV6 a \<Rightarrow> Inr [(V6 a, port)]
           | HostDomain name \<Rightarrow>
               seqR (resolve_with_timeout lookup name port) (\<lambda>resolved.
               drop_link_local_for_domain resolved policy)) (\<lambda>addrs.
     seqR (reject_blocked addrs policy) (\<lambda>_.
     Inr (h, addrs)))))))"

definition require_https_for_public ::
    "(string \<Rightarrow> url_parts option) \<Rightarrow> string \<Rightarrow> socket_addr list \<Rightarrow> url_error + unit" where
  "require_https_for_public parse_url url addrs =
     seqR (ok_or InvalidUrl (parse_url url)) (\<lambda>parsed.
     if up_scheme parsed \<noteq> ''http'' then Inr ()
     else case find (\<lambda>a. \<not> is_cleartext_safe (fst a)) addrs of
            Some a \<Rightarrow> Inl (CleartextRefused (fst a))
          | None \<Rightarrow> Inr ())"

text \<open>The configured headers: \<open>header_name\<close> is the normal form of a valid name, \<open>header_value\<close> the test of a value.\<close>

fun build_headers ::
    "(string \<Rightarrow> string option) \<Rightarrow> (string \<Rightarrow> bool) \<Rightarrow> (string \<times> string) list \<Rightarrow> (string \<times> string) list \<Rightarrow>
     url_error + (string \<times> string) list" where
  "build_headers header_name header_value m [] = Inr m"
| "build_headers header_name header_value m ((key, v) # rest) =
     (case header_name key of
        None \<Rightarrow> Inl (BadHeaderName key)
      | Some name \<Rightarrow>
          if map_of m name \<noteq> None then Inl (HeaderTwice key)
          else if \<not> header_value v then Inl (BadHeaderValue key)
          else build_headers header_name header_value (m @ [(name, v)]) rest)"

record pinned =
  pin_url :: string
  pin_host :: host
  pin_addrs :: "socket_addr list"
  pin_headers :: "(string \<times> string) list"

definition with_headers ::
    "(string \<Rightarrow> url_parts option) \<Rightarrow> (string \<Rightarrow> nat \<Rightarrow> dns_answer) \<Rightarrow> (string \<Rightarrow> string option) \<Rightarrow>
     (string \<Rightarrow> bool) \<Rightarrow> string \<Rightarrow> (string \<times> string) list \<Rightarrow> url_error + pinned" where
  "with_headers parse_url lookup header_name header_value url headers =
     seqR (validate_url_production parse_url lookup url AllowPrivateNetwork) (\<lambda>(h, addrs).
     seqR (require_https_for_public parse_url url addrs) (\<lambda>_.
     seqR (build_headers header_name header_value [] headers) (\<lambda>m.
     Inr \<lparr>pin_url = url, pin_host = h, pin_addrs = addrs, pin_headers = m\<rparr>)))"

definition public_cleartext_literal :: "(string \<Rightarrow> url_parts option) \<Rightarrow> string \<Rightarrow> ip_addr option" where
  "public_cleartext_literal parse_url url =
     (case parse_url url of
        None \<Rightarrow> None
      | Some u \<Rightarrow>
          if up_scheme u \<noteq> ''http'' then None
          else
            (case up_host u of
               None \<Rightarrow> None
             | Some (HostDomain _) \<Rightarrow> None
             | Some (HostV4 a) \<Rightarrow> if is_cleartext_safe (V4 a) then None else Some (V4 a)
             | Some (HostV6 a) \<Rightarrow> if is_cleartext_safe (V6 a) then None else Some (V6 a)))"

text \<open>The addresses of a validated URL are allowed, and there is at least one.\<close>

lemma reject_blocked_ok: "reject_blocked as policy = Inr u \<longleftrightarrow> (\<forall>a \<in> set as. blocked_reason (fst a) policy = None)"
  by (induction as) (auto split: option.splits)

lemma drop_link_local_nonempty: "drop_link_local_for_domain resolved policy = Inr as \<Longrightarrow> as \<noteq> []"
proof -
  have "resolved = [] \<or> (\<exists>a \<in> set resolved. is_link_local (fst a)) \<or> filter (\<lambda>a. \<not> is_link_local (fst a)) resolved \<noteq> []"
    by (cases resolved) auto
  then show "drop_link_local_for_domain resolved policy = Inr as \<Longrightarrow> as \<noteq> []"
    by (auto simp: drop_link_local_for_domain_def Let_def filter_empty_conv split: if_splits list.splits)
qed

lemma url_validated:
  assumes "validate_url_production parse_url lookup url policy = Inr (h, as)"
  shows "as \<noteq> [] \<and> (\<forall>a \<in> set as. blocked_reason (fst a) policy = None)"
proof -
  obtain g port where a: "(case g of HostV4 a \<Rightarrow> Inr [(V4 a, port)] | HostV6 a \<Rightarrow> Inr [(V6 a, port)]
      | HostDomain name \<Rightarrow> seqR (resolve_with_timeout lookup name port) (\<lambda>resolved.
          drop_link_local_for_domain resolved policy)) = Inr as" "reject_blocked as policy = Inr ()"
    using assms by (auto simp: validate_url_production_def seqR_ok)
  from a(1) have "as \<noteq> []" using drop_link_local_nonempty by (cases g) (auto simp: seqR_ok)
  then show ?thesis using a(2) by (simp add: reject_blocked_ok)
qed

end
