(* ===== verification/Mcp_Client.thy ===== *)
theory Mcp_Client
  imports Mcp_Urls Shell Scope
begin

text \<open>
  The HTTP client for MCP servers, \<open>crates/llmenv-mcp/src/mcp_client.rs\<close> with \<open>body.rs\<close> and \<open>parse.rs\<close>: the
  bounded reads, the session that is negotiated once, and the one retry after a stale session.  The JSON
  parser and the server are parameters: a server is any function from the requests it has seen to its next
  answer.  Error texts are values.
\<close>

section \<open>Bounded reads\<close>

text \<open>A body arrives in chunks and may break off.\<close>

record body =
  b_chunks :: "string list"
  b_broken :: bool

definition max_reply_bytes :: int where "max_reply_bytes = 8 * 1024 * 1024"
definition max_error_body_bytes :: int where "max_error_body_bytes = 4 * 1024"

text \<open>\<open>String::from_utf8_lossy\<close>: a sequence that is not UTF-8 becomes the replacement character.  The step
  gives the number of bytes that go together and whether they are a character.\<close>

definition cont_byte :: "nat \<Rightarrow> nat \<Rightarrow> nat \<Rightarrow> bool" where
  "cont_byte lo hi b \<longleftrightarrow> lo \<le> b \<and> b \<le> hi"

definition second_range :: "nat \<Rightarrow> nat \<times> nat" where
  "second_range a =
     (if a = 0xE0 then (0xA0, 0xBF) else if a = 0xED then (0x80, 0x9F)
      else if a = 0xF0 then (0x90, 0xBF) else if a = 0xF4 then (0x80, 0x8F) else (0x80, 0xBF))"

definition width :: "nat \<Rightarrow> nat" where
  "width a =
     (if a < 0x80 then 1 else if 0xC2 \<le> a \<and> a \<le> 0xDF then 2
      else if 0xE0 \<le> a \<and> a \<le> 0xEF then 3 else if 0xF0 \<le> a \<and> a \<le> 0xF4 then 4 else 0)"

definition good_bytes :: "nat \<Rightarrow> nat list \<Rightarrow> nat" where
  "good_bytes a rest =
     length (takeWhile (\<lambda>b. b)
       (map (\<lambda>k. k < length rest \<and>
               (if k = 0 then cont_byte (fst (second_range a)) (snd (second_range a)) (rest ! k)
                else cont_byte 0x80 0xBF (rest ! k))) [0..<width a - 1]))"

function lossy_bytes :: "nat list \<Rightarrow> nat list" where
  "lossy_bytes [] = []"
| "lossy_bytes (a # rest) =
     (if width a = 0 then [0xEF, 0xBF, 0xBD] @ lossy_bytes rest
      else
        let n = good_bytes a rest in
        if n = width a - 1 then a # take n rest @ lossy_bytes (drop n rest)
        else [0xEF, 0xBF, 0xBD] @ lossy_bytes (drop n rest))"
  by pat_completeness auto
termination
  by (relation "measure length") auto

definition from_utf8_lossy :: "string \<Rightarrow> string" where
  "from_utf8_lossy s = map char_of (lossy_bytes (map of_char s))"

datatype 'n mcp_error =
    SendFailed string
  | InitializeStatus nat string
  | ReadFailed string
  | ReplyTooLarge string
  | NotJson string
  | JsonRpcError string "'n json"
  | HttpStatus string nat string
  | ContentMissing string
  | ToolReportedError string string
  | InitializeNotJson
  | InitializeError "'n json"
  | InitializeNoResult
  | InstructionsNotText "'n json"
  | NoToolsArray
  | ToolWithoutName nat
  | DescriptionNotText string
  | TooManyPages
  | RetryFailed "'n mcp_error" "'n mcp_error"

fun read_chunks :: "string \<Rightarrow> string list \<Rightarrow> bool \<Rightarrow> int \<Rightarrow> string \<Rightarrow> 'n mcp_error + string" where
  "read_chunks bytes [] broken max_bytes label =
     (if broken then Inl (ReadFailed label) else Inr (from_utf8_lossy bytes))"
| "read_chunks bytes (c # cs) broken max_bytes label =
     (if max_bytes < int (length bytes) + int (length c) then Inl (ReplyTooLarge label)
      else read_chunks (bytes @ c) cs broken max_bytes label)"

definition read_capped :: "body \<Rightarrow> int \<Rightarrow> string \<Rightarrow> 'n mcp_error + string" where
  "read_capped b max_bytes label = read_chunks [] (b_chunks b) (b_broken b) max_bytes label"

text \<open>The bytes kept of an error body, and whether they were cut.\<close>

fun error_chunks :: "string \<Rightarrow> string list \<Rightarrow> string \<times> bool" where
  "error_chunks bytes [] = (bytes, False)"
| "error_chunks bytes (c # cs) =
     (let room = max_error_body_bytes - int (length bytes) in
      if room < int (length c) then (bytes @ take (nat room) c, True) else error_chunks (bytes @ c) cs)"

definition error_body :: "body \<Rightarrow> string" where
  "error_body b =
     (let (bytes, cut) = error_chunks [] (b_chunks b) in
      if \<not> cut \<and> b_broken b \<and> bytes = [] then ''(failed to read error body)''
      else if cut then from_utf8_lossy bytes @ '' [cut at 4096 bytes]''
      else from_utf8_lossy bytes)"

section \<open>Replies\<close>

type_synonym 'n parser = "string \<Rightarrow> 'n json option"

definition parse_rpc_body :: "'n parser \<Rightarrow> string \<Rightarrow> 'n json option" where
  "parse_rpc_body js b =
     (case js (trim b) of
        Some v \<Rightarrow> Some v
      | None \<Rightarrow>
          find (\<lambda>v. json_get ''result'' v \<noteq> None \<or> json_get ''error'' v \<noteq> None)
            (List.map_filter (\<lambda>d. js (trim d)) (List.map_filter (\<lambda>l. strip_prefix l ''data:'') (text_lines b))))"

text \<open>An absent or null text is none, a text is itself, anything else is an error.\<close>

definition optional_text :: "('n json \<Rightarrow> 'e) \<Rightarrow> 'n json option \<Rightarrow> 'e + string option" where
  "optional_text err v =
     (case v of
        None \<Rightarrow> Inr None
      | Some JNull \<Rightarrow> Inr None
      | Some (JString t) \<Rightarrow> Inr (Some t)
      | Some other \<Rightarrow> Inl (err other))"

definition parse_initialize_info :: "'n parser \<Rightarrow> string \<Rightarrow> 'n mcp_error + string option" where
  "parse_initialize_info js b =
     seqR (ok_or InitializeNotJson (parse_rpc_body js b)) (\<lambda>reply.
     case json_get ''error'' reply of
       Some e \<Rightarrow> Inl (InitializeError e)
     | None \<Rightarrow>
         seqR (ok_or InitializeNoResult (json_get ''result'' reply)) (\<lambda>result.
         optional_text InstructionsNotText (json_get ''instructions'' result)))"

record tool_summary =
  ts_name :: string
  ts_description :: "string option"

definition json_array :: "'n json \<Rightarrow> 'n json list option" where
  "json_array v = (case v of JArray xs \<Rightarrow> Some xs | _ \<Rightarrow> None)"

fun page_tools :: "nat \<Rightarrow> 'n json list \<Rightarrow> 'n mcp_error + tool_summary list" where
  "page_tools index [] = Inr []"
| "page_tools index (tool # rest) =
     seqR (ok_or (ToolWithoutName index) (Option.bind (json_get ''name'' tool) json_str)) (\<lambda>name.
     seqR (optional_text (\<lambda>_. DescriptionNotText name) (json_get ''description'' tool)) (\<lambda>d.
     seqR (page_tools (index + 1) rest) (\<lambda>ts.
     Inr (\<lparr>ts_name = name, ts_description = d\<rparr> # ts))))"

definition parse_tools_page :: "'n json \<Rightarrow> 'n mcp_error + (tool_summary list \<times> string option)" where
  "parse_tools_page result =
     seqR (ok_or NoToolsArray (Option.bind (json_get ''tools'' result) json_array)) (\<lambda>listed.
     seqR (page_tools 0 listed) (\<lambda>tools.
     Inr (tools,
       case Option.bind (json_get ''nextCursor'' result) json_str of
         None \<Rightarrow> None
       | Some c \<Rightarrow> if c = [] then None else Some c)))"

definition append_text :: "string \<Rightarrow> 'n json \<Rightarrow> string" where
  "append_text out item =
     (case Option.bind (json_get ''text'' item) json_str of
        None \<Rightarrow> out
      | Some t \<Rightarrow> (if out = [] then [] else out @ [nl]) @ t)"

definition extract_text :: "'n json \<Rightarrow> string option" where
  "extract_text b =
     map_option (foldl append_text [])
       (Option.bind (Option.bind (json_get ''result'' b) (json_get ''content'')) json_array)"

section \<open>The session\<close>

record 'n request =
  rq_method :: string
  rq_session :: "string option"
  rq_params :: "'n json"

record reply =
  rp_status :: nat
  rp_session :: "string option"
  rp_body :: body

datatype answer = NoAnswer | Answer reply

type_synonym 'n server = "'n request list \<Rightarrow> answer"

record 'n client =
  cl_session :: "string option"
  cl_info :: "string option option"
  cl_sent :: "'n request list"

definition send :: "'n server \<Rightarrow> 'n request \<Rightarrow> 'n client \<Rightarrow> answer \<times> 'n client" where
  "send srv r c = (let sent = cl_sent c @ [r] in (srv sent, c\<lparr>cl_sent := sent\<rparr>))"

definition is_success :: "nat \<Rightarrow> bool" where
  "is_success status \<longleftrightarrow> 200 \<le> status \<and> status \<le> 299"

definition is_stale_session_status :: "nat \<Rightarrow> bool" where
  "is_stale_session_status status \<longleftrightarrow> status = 400 \<or> status = 404"

definition init_request :: "'n request" where
  "init_request =
     \<lparr>rq_method = ''initialize'', rq_session = None,
      rq_params = JObject
        [(''capabilities'', JObject []),
         (''clientInfo'', JObject [(''name'', JString ''llmenv''), (''version'', JString ''5.0.0-alpha.1'')]),
         (''protocolVersion'', JString ''2025-06-18'')]\<rparr>"

definition ack_request :: "string \<Rightarrow> 'n request" where
  "ack_request sid = \<lparr>rq_method = ''notifications/initialized'', rq_session = Some sid, rq_params = JNull\<rparr>"

text \<open>The reply to \<open>initialize\<close> is read only where its info is asked for.\<close>

definition read_info :: "'n parser \<Rightarrow> bool \<Rightarrow> reply \<Rightarrow> 'n client \<Rightarrow> ('n mcp_error + unit) \<times> 'n client" where
  "read_info js capture r c =
     (if \<not> capture then (Inr (), c)
      else case seqR (read_capped (rp_body r) max_reply_bytes ''MCP initialize'') (parse_initialize_info js) of
             Inl e \<Rightarrow> (Inl e, c)
           | Inr info \<Rightarrow> (Inr (), c\<lparr>cl_info := Some info\<rparr>))"

definition acknowledge :: "'n server \<Rightarrow> string option \<Rightarrow> 'n client \<Rightarrow> 'n client" where
  "acknowledge srv sid c = (case sid of None \<Rightarrow> c | Some s \<Rightarrow> snd (send srv (ack_request s) c))"

definition ensure_session_with ::
    "'n parser \<Rightarrow> 'n server \<Rightarrow> bool \<Rightarrow> 'n client \<Rightarrow> ('n mcp_error + string option) \<times> 'n client" where
  "ensure_session_with js srv capture c =
     (case cl_session c of
        Some sid \<Rightarrow> (Inr (Some sid), c)
      | None \<Rightarrow>
          (case send srv init_request c of
             (NoAnswer, c) \<Rightarrow> (Inl (SendFailed ''MCP initialize''), c)
           | (Answer r, c) \<Rightarrow>
               if \<not> is_success (rp_status r) then
                 (Inl (InitializeStatus (rp_status r) (error_body (rp_body r))), c)
               else
                 (case read_info js capture r c of
                    (Inl e, c) \<Rightarrow> (Inl e, c)
                  | (Inr _, c) \<Rightarrow>
                      (Inr (rp_session r), (acknowledge srv (rp_session r) c)\<lparr>cl_session := rp_session r\<rparr>))))"

definition ensure_session ::
    "'n parser \<Rightarrow> 'n server \<Rightarrow> 'n client \<Rightarrow> ('n mcp_error + string option) \<times> 'n client" where
  "ensure_session js srv c = ensure_session_with js srv False c"

definition forget_session :: "'n client \<Rightarrow> 'n client" where
  "forget_session c = c\<lparr>cl_session := None\<rparr>"

definition mcp_probe :: "'n parser \<Rightarrow> 'n server \<Rightarrow> 'n client \<Rightarrow> ('n mcp_error + unit) \<times> 'n client" where
  "mcp_probe js srv c =
     (let (r, c) = ensure_session js srv (forget_session c) in (map_sum id (\<lambda>_. ()) r, c))"

definition initialize_info ::
    "'n parser \<Rightarrow> 'n server \<Rightarrow> 'n client \<Rightarrow> ('n mcp_error + string option) \<times> 'n client" where
  "initialize_info js srv c =
     (case ensure_session_with js srv True (forget_session c) of
        (Inl e, c) \<Rightarrow> (Inl e, c)
      | (Inr _, c) \<Rightarrow> (Inr (case cl_info c of None \<Rightarrow> None | Some i \<Rightarrow> i), c))"

section \<open>Calls\<close>

datatype 'n call_error = StaleSession "'n mcp_error" | Fatal "'n mcp_error"

fun call_failure :: "'n call_error \<Rightarrow> 'n mcp_error" where
  "call_failure (StaleSession e) = e"
| "call_failure (Fatal e) = e"

text \<open>What \<open>post_rpc\<close> makes of an answer.\<close>

definition decode_answer :: "'n parser \<Rightarrow> string \<Rightarrow> answer \<Rightarrow> 'n call_error + 'n json" where
  "decode_answer js label a =
     (case a of
        NoAnswer \<Rightarrow> Inl (Fatal (SendFailed label))
      | Answer r \<Rightarrow>
          if \<not> is_success (rp_status r) then
            (let err = HttpStatus label (rp_status r) (error_body (rp_body r)) in
             Inl (if is_stale_session_status (rp_status r) then StaleSession err else Fatal err))
          else
            (case seqR (read_capped (rp_body r) max_reply_bytes label) (\<lambda>t. ok_or (NotJson label) (parse_rpc_body js t)) of
               Inl e \<Rightarrow> Inl (Fatal e)
             | Inr b \<Rightarrow>
                 (case json_get ''error'' b of
                    Some e \<Rightarrow> Inl (Fatal (JsonRpcError label e))
                  | None \<Rightarrow> Inr b)))"

definition post_rpc ::
    "'n parser \<Rightarrow> 'n server \<Rightarrow> string \<Rightarrow> 'n json \<Rightarrow> string \<Rightarrow> 'n client \<Rightarrow> ('n call_error + 'n json) \<times> 'n client" where
  "post_rpc js srv meth params label c =
     (case ensure_session js srv c of
        (Inl e, c) \<Rightarrow> (Inl (Fatal e), c)
      | (Inr sid, c) \<Rightarrow>
          (let (a, c) = send srv \<lparr>rq_method = meth, rq_session = sid, rq_params = params\<rparr> c in
           (decode_answer js label a, c)))"

definition call_params :: "string \<Rightarrow> 'n json \<Rightarrow> 'n json" where
  "call_params name arguments = JObject [(''arguments'', arguments), (''name'', JString name)]"

definition tool_text :: "string \<Rightarrow> 'n json \<Rightarrow> 'n call_error + string" where
  "tool_text name b =
     seqR (ok_or (Fatal (ContentMissing name)) (extract_text b)) (\<lambda>t.
     if Option.bind (json_get ''result'' b) (json_get ''isError'') = Some (JBool True)
     then Inl (Fatal (ToolReportedError name t)) else Inr t)"

definition try_call_tool ::
    "'n parser \<Rightarrow> 'n server \<Rightarrow> string \<Rightarrow> 'n json \<Rightarrow> 'n client \<Rightarrow> ('n call_error + string) \<times> 'n client" where
  "try_call_tool js srv name arguments c =
     (case post_rpc js srv ''tools/call'' (call_params name arguments) (''tool '' @ name) c of
        (Inl e, c) \<Rightarrow> (Inl e, c)
      | (Inr b, c) \<Rightarrow> (tool_text name b, c))"

text \<open>An attempt, and one more with a fresh session where the first met a stale one.\<close>

definition retry_stale ::
    "('n client \<Rightarrow> ('n call_error + 'a) \<times> 'n client) \<Rightarrow> 'n client \<Rightarrow> ('n mcp_error + 'a) \<times> 'n client" where
  "retry_stale once c =
     (case once c of
        (Inr x, c) \<Rightarrow> (Inr x, c)
      | (Inl (Fatal e), c) \<Rightarrow> (Inl e, c)
      | (Inl (StaleSession first), c) \<Rightarrow>
          (let (r, c) = once (forget_session c) in
           (map_sum (\<lambda>e. RetryFailed first (call_failure e)) id r, c)))"

definition call_tool ::
    "'n parser \<Rightarrow> 'n server \<Rightarrow> string \<Rightarrow> 'n json \<Rightarrow> 'n client \<Rightarrow> ('n mcp_error + string) \<times> 'n client" where
  "call_tool js srv name arguments c = retry_stale (try_call_tool js srv name arguments) c"

definition max_tool_pages :: nat where "max_tool_pages = 50"

fun list_pages ::
    "nat \<Rightarrow> 'n parser \<Rightarrow> 'n server \<Rightarrow> string option \<Rightarrow> tool_summary list \<Rightarrow> 'n client \<Rightarrow>
     ('n mcp_error + tool_summary list) \<times> 'n client" where
  "list_pages 0 js srv cursor tools c = (Inl TooManyPages, c)"
| "list_pages (Suc n) js srv cursor tools c =
     (let params = (case cursor of None \<Rightarrow> JObject [] | Some k \<Rightarrow> JObject [(''cursor'', JString k)]) in
      case retry_stale (post_rpc js srv ''tools/list'' params ''tools/list'') c of
        (Inl e, c) \<Rightarrow> (Inl e, c)
      | (Inr b, c) \<Rightarrow>
          (case parse_tools_page (case json_get ''result'' b of None \<Rightarrow> JNull | Some v \<Rightarrow> v) of
             Inl e \<Rightarrow> (Inl e, c)
           | Inr (page, None) \<Rightarrow> (Inr (tools @ page), c)
           | Inr (page, Some k) \<Rightarrow> list_pages n js srv (Some k) (tools @ page) c))"

definition list_tools ::
    "'n parser \<Rightarrow> 'n server \<Rightarrow> 'n client \<Rightarrow> ('n mcp_error + tool_summary list) \<times> 'n client" where
  "list_tools js srv c = list_pages max_tool_pages js srv None [] c"

end
