(* ===== verification/Mcp_Laws.thy ===== *)
theory Mcp_Laws
  imports Mcp_Client
begin

text \<open>
  Laws of the MCP client: which requests an attempt and its retry send, and that every call is sent under
  the session that the server granted last.
\<close>

section \<open>Attempts and their retry\<close>

definition count_method :: "string \<Rightarrow> 'n request list \<Rightarrow> nat" where
  "count_method meth rs = length (filter (\<lambda>r. rq_method r = meth) rs)"

lemma count_method_simps [simp]:
  "count_method m [] = 0"
  "count_method m (r # rs) = (if rq_method r = m then 1 else 0) + count_method m rs"
  "count_method m (rs @ rs') = count_method m rs + count_method m rs'"
  by (simp_all add: count_method_def)

text \<open>The requests \<open>rs\<close> were answered with a stale-session status at their last one.\<close>

definition met_stale :: "'n server \<Rightarrow> 'n request list \<Rightarrow> bool" where
  "met_stale srv sent \<longleftrightarrow>
     (case srv sent of Answer a \<Rightarrow> is_stale_session_status (rp_status a) | NoAnswer \<Rightarrow> False)"

locale rpc_attempt =
  fixes srv :: "'n server" and meth :: string
    and once :: "'n client \<Rightarrow> ('n call_error + 'a) \<times> 'n client"
  assumes sends: "\<exists>rs. cl_sent (snd (once c)) = cl_sent c @ rs \<and> length rs \<le> 3 \<and> count_method meth rs \<le> 1"
    and stale: "fst (once c) = Inl (StaleSession e) \<Longrightarrow>
      (\<exists>past r. cl_sent (snd (once c)) = past @ [r] \<and> length (cl_sent c) \<le> length past \<and> rq_method r = meth) \<and>
      met_stale srv (cl_sent (snd (once c)))"
begin

lemma retry_cases:
  obtains (once) "cl_sent (snd (retry_stale once c)) = cl_sent (snd (once c))"
  | (twice) e where "fst (once c) = Inl (StaleSession e)"
    "cl_sent (snd (retry_stale once c)) = cl_sent (snd (once (forget_session (snd (once c)))))"
proof -
  obtain r c1 where o: "once c = (r, c1)" by fastforce
  consider x where "r = Inr x" | e where "r = Inl (Fatal e)" | e where "r = Inl (StaleSession e)"
    by (cases r) (auto intro: call_error.exhaust)
  then show ?thesis
  proof cases
    case (3 e)
    obtain r2 c2 where "once (forget_session c1) = (r2, c2)" by fastforce
    then show ?thesis using that(2) o 3 by (simp add: retry_stale_def)
  qed (use that(1) o in \<open>simp_all add: retry_stale_def\<close>)
qed

lemma retry_sends:
  "\<exists>rs. cl_sent (snd (retry_stale once c)) = cl_sent c @ rs \<and> length rs \<le> 6 \<and> count_method meth rs \<le> 2 \<and>
     (count_method meth rs = 2 \<longrightarrow>
       (\<exists>mid r tail. rs = mid @ r # tail \<and> rq_method r = meth \<and> met_stale srv (cl_sent c @ mid @ [r])))"
proof (cases c rule: retry_cases)
  case once
  then show ?thesis using sends[of c] by fastforce
next
  case (twice e)
  obtain rs where rs: "cl_sent (snd (once c)) = cl_sent c @ rs" "length rs \<le> 3" "count_method meth rs \<le> 1"
    using sends by blast
  obtain rs' where rs': "cl_sent (snd (retry_stale once c)) = cl_sent c @ rs @ rs'" "length rs' \<le> 3"
    "count_method meth rs' \<le> 1"
    using sends[of "forget_session (snd (once c))"] twice(2) rs(1) by (auto simp: forget_session_def)
  obtain past r where r: "cl_sent c @ rs = past @ [r]" "length (cl_sent c) \<le> length past" "rq_method r = meth"
    "met_stale srv (cl_sent c @ rs)"
    using stale[OF twice(1)] rs(1) by auto
  then obtain mid where "rs = mid @ [r]" by (auto simp: append_eq_append_conv2 append_eq_Cons_conv)
  then show ?thesis
    using rs rs' r(3,4) by (intro exI[of _ "rs @ rs'"]) auto
qed

end

section \<open>The requests of one attempt\<close>

lemma send_sent [simp]: "cl_sent (snd (send srv r c)) = cl_sent c @ [r]" "fst (send srv r c) = srv (cl_sent c @ [r])"
  by (simp_all add: send_def Let_def)

lemma send_session [simp]: "cl_session (snd (send srv r c)) = cl_session c"
  by (simp add: send_def Let_def)

lemma read_info_keeps [simp]:
  "cl_sent (snd (read_info js capture r c)) = cl_sent c" "cl_session (snd (read_info js capture r c)) = cl_session c"
  by (auto simp: read_info_def split: sum.splits)

lemma acknowledge_sent:
  "cl_sent (acknowledge srv sid c) = cl_sent c @ (case sid of None \<Rightarrow> [] | Some s \<Rightarrow> [ack_request s])"
  by (auto simp: acknowledge_def split: option.splits)

text \<open>What negotiating a session sends and leaves, on every branch.\<close>

lemma ensure_cases:
  obtains (cached) sid where "cl_session c = Some sid" "ensure_session_with js srv capture c = (Inr (Some sid), c)"
  | (failed) e where "cl_session c = None" "fst (ensure_session_with js srv capture c) = Inl e"
      "cl_sent (snd (ensure_session_with js srv capture c)) = cl_sent c @ [init_request]"
      "cl_session (snd (ensure_session_with js srv capture c)) = None"
  | (fresh) a where "cl_session c = None" "srv (cl_sent c @ [init_request]) = Answer a" "is_success (rp_status a)"
      "fst (ensure_session_with js srv capture c) = Inr (rp_session a)"
      "cl_sent (snd (ensure_session_with js srv capture c)) =
         cl_sent c @ init_request # (case rp_session a of None \<Rightarrow> [] | Some s \<Rightarrow> [ack_request s])"
      "cl_session (snd (ensure_session_with js srv capture c)) = rp_session a"
proof (cases "cl_session c")
  case (Some sid)
  then show ?thesis using that(1) by (simp add: ensure_session_with_def)
next
  case None
  obtain c1 where c1: "send srv init_request c = (srv (cl_sent c @ [init_request]), c1)"
    "cl_sent c1 = cl_sent c @ [init_request]" "cl_session c1 = None"
    using None by (simp add: send_def Let_def)
  show ?thesis
  proof (cases "srv (cl_sent c @ [init_request])")
    case NoAnswer
    then show ?thesis using that(2) None c1 by (simp add: ensure_session_with_def)
  next
    case (Answer a)
    obtain q c2 where c2: "read_info js capture a c1 = (q, c2)" by fastforce
    then have keeps: "cl_sent c2 = cl_sent c1" "cl_session c2 = None"
      using read_info_keeps[of js capture a c1] c1(3) by simp_all
    show ?thesis
    proof (cases "is_success (rp_status a)")
      case False
      then show ?thesis using that(2) None Answer c1 by (simp add: ensure_session_with_def)
    next
      case True
      then show ?thesis
        using that(2,3) None Answer c1 c2 keeps
        by (cases q) (simp_all add: ensure_session_with_def acknowledge_sent)
    qed
  qed
qed

definition rpc_request :: "string \<Rightarrow> 'n json \<Rightarrow> string option \<Rightarrow> 'n request" where
  "rpc_request meth params sid = \<lparr>rq_method = meth, rq_session = sid, rq_params = params\<rparr>"

lemma post_rpc_cases:
  obtains (refused) e where "fst (ensure_session_with js srv False c) = Inl e"
      "post_rpc js srv meth params label c = (Inl (Fatal e), snd (ensure_session_with js srv False c))"
  | (posted) sid where "fst (ensure_session_with js srv False c) = Inr sid"
      "post_rpc js srv meth params label c =
        (let (a, c) = send srv (rpc_request meth params sid) (snd (ensure_session_with js srv False c)) in
         (decode_answer js label a, c))"
proof (cases "ensure_session_with js srv False c")
  case (Pair r c1)
  then show ?thesis using that by (cases r) (auto simp: post_rpc_def ensure_session_def rpc_request_def)
qed

lemma decode_stale: "decode_answer js label (srv sent) = Inl (StaleSession e) \<Longrightarrow> met_stale srv sent"
  by (auto simp: decode_answer_def met_stale_def Let_def split: answer.splits if_splits sum.splits option.splits)

lemma handshake_methods [simp]:
  "rq_method init_request = ''initialize''" "rq_method (ack_request s) = ''notifications/initialized''"
  "rq_method (rpc_request meth params sid) = meth" "rq_session (rpc_request meth params sid) = sid"
  by (simp_all add: init_request_def ack_request_def rpc_request_def)

lemma ensure_sends:
  "\<exists>rs. cl_sent (snd (ensure_session_with js srv capture c)) = cl_sent c @ rs \<and> length rs \<le> 2 \<and>
     (\<forall>r \<in> set rs. rq_method r \<in> {''initialize'', ''notifications/initialized''})"
  by (cases rule: ensure_cases[where c = c and js = js and srv = srv and capture = capture]) (auto split: option.splits)

lemma handshake_uncounted:
  "\<forall>r \<in> set rs. rq_method r \<in> {''initialize'', ''notifications/initialized''} \<Longrightarrow>
   meth \<notin> {''initialize'', ''notifications/initialized''} \<Longrightarrow> count_method meth rs = 0"
  by (induction rs) auto

lemma post_rpc_attempt:
  assumes "meth \<notin> {''initialize'', ''notifications/initialized''}"
  shows "rpc_attempt srv meth (post_rpc js srv meth params label)"
proof
  fix c :: "'a client"
  obtain rs where rs: "cl_sent (snd (ensure_session_with js srv False c)) = cl_sent c @ rs" "length rs \<le> 2"
    "\<forall>r \<in> set rs. rq_method r \<in> {''initialize'', ''notifications/initialized''}"
    using ensure_sends by blast
  note none = handshake_uncounted[OF rs(3) assms]
  show "\<exists>rs. cl_sent (snd (post_rpc js srv meth params label c)) = cl_sent c @ rs \<and> length rs \<le> 3 \<and>
      count_method meth rs \<le> 1"
  proof (cases rule: post_rpc_cases[where js = js and srv = srv and c = c and meth = meth and params = params and label = label])
    case (refused e)
    then show ?thesis using rs none by auto
  next
    case (posted sid)
    then have "cl_sent (snd (post_rpc js srv meth params label c)) = cl_sent c @ rs @ [rpc_request meth params sid]"
      using rs(1) by (simp add: send_def Let_def)
    then show ?thesis using rs(2) none by (intro exI[of _ "rs @ [rpc_request meth params sid]"]) simp
  qed
  fix e
  assume st: "fst (post_rpc js srv meth params label c) = Inl (StaleSession e)"
  then show "(\<exists>past r. cl_sent (snd (post_rpc js srv meth params label c)) = past @ [r] \<and>
      length (cl_sent c) \<le> length past \<and> rq_method r = meth) \<and>
      met_stale srv (cl_sent (snd (post_rpc js srv meth params label c)))"
  proof (cases rule: post_rpc_cases[where js = js and srv = srv and c = c and meth = meth and params = params and label = label])
    case (posted sid)
    then have "cl_sent (snd (post_rpc js srv meth params label c)) =
        (cl_sent c @ rs) @ [rpc_request meth params sid]"
      "decode_answer js label (srv (cl_sent c @ rs @ [rpc_request meth params sid])) = Inl (StaleSession e)"
      using rs(1) st by (simp_all add: send_def Let_def)
    then show ?thesis using decode_stale by fastforce
  qed simp
qed

interpretation listing: rpc_attempt srv "''tools/list''" "post_rpc js srv ''tools/list'' params ''tools/list''"
  for srv :: "'n server" and js params
  by (rule post_rpc_attempt) simp

lemma tool_text_fatal: "tool_text name b \<noteq> Inl (StaleSession e)"
  by (auto simp: tool_text_def seqR_def ok_or_def split: sum.splits option.splits)

lemma try_call_post:
  "snd (try_call_tool js srv name arguments c) =
     snd (post_rpc js srv ''tools/call'' (call_params name arguments) (''tool '' @ name) c)"
  "fst (try_call_tool js srv name arguments c) = Inl (StaleSession e) \<longleftrightarrow>
     fst (post_rpc js srv ''tools/call'' (call_params name arguments) (''tool '' @ name) c) = Inl (StaleSession e)"
  by (auto simp: try_call_tool_def tool_text_fatal split: prod.splits sum.splits)

interpretation calling: rpc_attempt srv "''tools/call''" "try_call_tool js srv name arguments"
  for srv :: "'n server" and js name arguments
  using post_rpc_attempt[of "''tools/call''" srv js "call_params name arguments" "''tool '' @ name"]
  unfolding rpc_attempt_def try_call_post by simp

lemma list_pages_sends:
  "\<exists>rs. cl_sent (snd (list_pages n js srv cursor tools c)) = cl_sent c @ rs \<and> length rs \<le> 6 * n \<and>
     count_method ''tools/list'' rs \<le> 2 * n"
proof (induction n arbitrary: cursor tools c)
  case (Suc n)
  let ?params = "case cursor of None \<Rightarrow> JObject [] | Some k \<Rightarrow> JObject [(''cursor'', JString k)]"
  obtain r c1 where c1: "retry_stale (post_rpc js srv ''tools/list'' ?params ''tools/list'') c = (r, c1)" by fastforce
  obtain rs where rs: "cl_sent c1 = cl_sent c @ rs" "length rs \<le> 6" "count_method ''tools/list'' rs \<le> 2"
    using listing.retry_sends[of js srv ?params c] c1 by auto
  have stop: ?case if "snd (list_pages (Suc n) js srv cursor tools c) = c1"
    using that rs by fastforce
  have more: ?case if "list_pages (Suc n) js srv cursor tools c = list_pages n js srv (Some k) t c1" for k t
  proof -
    obtain rs' where "cl_sent (snd (list_pages n js srv (Some k) t c1)) = cl_sent c1 @ rs'" "length rs' \<le> 6 * n"
      "count_method ''tools/list'' rs' \<le> 2 * n" using Suc.IH by blast
    then show ?thesis using that rs by (intro exI[of _ "rs @ rs'"]) simp
  qed
  show ?case
  proof (cases r)
    case (Inl e)
    then show ?thesis by (intro stop) (simp add: c1 Let_def)
  next
    case (Inr b)
    let ?page = "parse_tools_page (case json_get ''result'' b of None \<Rightarrow> JNull | Some v \<Rightarrow> v)"
    consider e where "?page = Inl e" | p where "?page = Inr (p, None)" | p k where "?page = Inr (p, Some k)"
      by (metis (no_types) obj_sumE option.exhaust surj_pair)
    then show ?thesis
    proof cases
      case (3 p k)
      then show ?thesis using Inr c1 by (intro more[of k "tools @ p"]) (simp add: Let_def)
    qed (intro stop; use Inr c1 in \<open>simp add: Let_def\<close>)+
  qed
qed simp

section \<open>The session of a call\<close>

text \<open>The session that the server granted in its last successful answer to \<open>initialize\<close>; the requests are
  listed from the last to the first.\<close>

fun granted_rev :: "'n server \<Rightarrow> 'n request list \<Rightarrow> string option" where
  "granted_rev srv [] = None"
| "granted_rev srv (r # past) =
     (if rq_method r = ''initialize'' then
        (case srv (rev (r # past)) of
           Answer a \<Rightarrow> if is_success (rp_status a) then rp_session a else granted_rev srv past
         | NoAnswer \<Rightarrow> granted_rev srv past)
      else granted_rev srv past)"

definition granted :: "'n server \<Rightarrow> 'n request list \<Rightarrow> string option" where
  "granted srv sent = granted_rev srv (rev sent)"

fun calls_carry_rev :: "'n server \<Rightarrow> 'n request list \<Rightarrow> bool" where
  "calls_carry_rev srv [] = True"
| "calls_carry_rev srv (r # past) \<longleftrightarrow>
     (rq_method r \<in> {''tools/call'', ''tools/list''} \<longrightarrow> rq_session r = granted_rev srv past) \<and>
     calls_carry_rev srv past"

definition client_ok :: "'n server \<Rightarrow> 'n client \<Rightarrow> bool" where
  "client_ok srv c \<longleftrightarrow>
     (cl_session c \<noteq> None \<longrightarrow> cl_session c = granted srv (cl_sent c)) \<and> calls_carry_rev srv (rev (cl_sent c))"

lemma ensure_ok:
  assumes "client_ok srv c"
  shows "client_ok srv (snd (ensure_session_with js srv capture c))"
    and "fst (ensure_session_with js srv capture c) = Inr sid \<Longrightarrow>
      granted srv (cl_sent (snd (ensure_session_with js srv capture c))) = sid"
  by (cases rule: ensure_cases[where c = c and js = js and srv = srv and capture = capture];
      use assms in \<open>auto simp: client_ok_def granted_def split: option.splits\<close>)+

lemma post_rpc_ok:
  assumes "client_ok srv c" "meth \<noteq> ''initialize''"
  shows "client_ok srv (snd (post_rpc js srv meth params label c))"
proof (cases rule: post_rpc_cases[where js = js and srv = srv and c = c and meth = meth and params = params and label = label])
  case (refused e)
  then show ?thesis using ensure_ok(1)[OF assms(1)] by simp
next
  case (posted sid)
  then show ?thesis
    using ensure_ok[OF assms(1), of js False] assms(2) by (auto simp: client_ok_def granted_def send_def Let_def)
qed

lemma clear_ok: "client_ok srv c \<Longrightarrow> client_ok srv (forget_session c)"
  by (simp add: client_ok_def forget_session_def)

lemma retry_ok:
  assumes "\<And>c. client_ok srv c \<Longrightarrow> client_ok srv (snd (once c))" "client_ok srv c"
  shows "client_ok srv (snd (retry_stale once c))"
proof -
  obtain r c1 where o: "once c = (r, c1)" by fastforce
  obtain r2 c2 where o2: "once (forget_session c1) = (r2, c2)" by fastforce
  have "client_ok srv c1" "client_ok srv c2"
    using assms(1)[OF assms(2)] assms(1)[OF clear_ok, of c1] o o2 by simp_all
  then show ?thesis using o o2 by (auto simp: retry_stale_def split: sum.splits call_error.splits)
qed

lemma list_pages_ok: "client_ok srv c \<Longrightarrow> client_ok srv (snd (list_pages n js srv cursor tools c))"
proof (induction n arbitrary: cursor tools c)
  case (Suc n)
  let ?params = "case cursor of None \<Rightarrow> JObject [] | Some k \<Rightarrow> JObject [(''cursor'', JString k)]"
  obtain r c1 where c1: "retry_stale (post_rpc js srv ''tools/list'' ?params ''tools/list'') c = (r, c1)" by fastforce
  have "client_ok srv (snd (retry_stale (post_rpc js srv ''tools/list'' ?params ''tools/list'') c))"
    by (rule retry_ok[OF post_rpc_ok Suc.prems]) simp_all
  then have "client_ok srv c1" using c1 by simp
  then show ?case
    using Suc.IH[of c1] by (simp add: c1 Let_def split: sum.split option.split prod.split)
qed simp

datatype 'n client_op = CallTool string "'n json" | ListTools | Probe | InitializeInfo

fun run_op :: "'n parser \<Rightarrow> 'n server \<Rightarrow> 'n client_op \<Rightarrow> 'n client \<Rightarrow> 'n client" where
  "run_op js srv (CallTool name arguments) c = snd (call_tool js srv name arguments c)"
| "run_op js srv ListTools c = snd (list_tools js srv c)"
| "run_op js srv Probe c = snd (mcp_probe js srv c)"
| "run_op js srv InitializeInfo c = snd (initialize_info js srv c)"

definition new_client :: "'n client" where
  "new_client = \<lparr>cl_session = None, cl_info = None, cl_sent = []\<rparr>"

definition run_client :: "'n parser \<Rightarrow> 'n server \<Rightarrow> 'n client_op list \<Rightarrow> 'n client" where
  "run_client js srv ops = foldl (\<lambda>c op. run_op js srv op c) new_client ops"

lemma run_op_ok: "client_ok srv c \<Longrightarrow> client_ok srv (run_op js srv op c)"
proof (cases op)
  case (CallTool name arguments)
  have "client_ok srv (snd (try_call_tool js srv name arguments c))" if "client_ok srv c" for c
    using post_rpc_ok[OF that] by (simp add: try_call_post(1))
  then show "client_ok srv c \<Longrightarrow> client_ok srv (run_op js srv op c)"
    using CallTool by (simp add: call_tool_def retry_ok)
next
  case ListTools
  then show "client_ok srv c \<Longrightarrow> client_ok srv (run_op js srv op c)" by (simp add: list_tools_def list_pages_ok)
next
  case Probe
  have "snd (mcp_probe js srv c) = snd (ensure_session_with js srv False (forget_session c))"
    by (simp add: mcp_probe_def ensure_session_def split: prod.split)
  then show "client_ok srv c \<Longrightarrow> client_ok srv (run_op js srv op c)" using Probe by (simp add: ensure_ok clear_ok)
next
  case InitializeInfo
  have "snd (initialize_info js srv c) = snd (ensure_session_with js srv True (forget_session c))"
    by (simp add: initialize_info_def split: prod.split sum.split)
  then show "client_ok srv c \<Longrightarrow> client_ok srv (run_op js srv op c)"
    using InitializeInfo by (simp add: ensure_ok clear_ok)
qed

lemma run_client_ok: "client_ok srv (run_client js srv ops)"
proof -
  have "client_ok srv (foldl (\<lambda>c op. run_op js srv op c) c ops)" if "client_ok srv c" for c
    using that by (induction ops arbitrary: c) (simp_all add: run_op_ok)
  moreover have "client_ok srv (new_client :: 'a client)" by (simp add: new_client_def client_ok_def)
  ultimately show ?thesis by (simp add: run_client_def)
qed

lemma calls_carry_nth:
  assumes "calls_carry_rev srv (rev sent)" "i < length sent" "rq_method (sent ! i) \<in> {''tools/call'', ''tools/list''}"
  shows "rq_session (sent ! i) = granted srv (take i sent)"
  using assms
proof (induction sent arbitrary: i rule: rev_induct)
  case (snoc r sent)
  then show ?case by (cases "i < length sent") (auto simp: granted_def nth_append less_Suc_eq)
qed simp

section \<open>Replies\<close>

lemma read_chunks_bounded:
  "read_chunks bytes cs broken m label = Inr t \<Longrightarrow> int (length bytes) \<le> m \<Longrightarrow>
   \<not> broken \<and> int (length (bytes @ concat cs)) \<le> m \<and> t = from_utf8_lossy (bytes @ concat cs)"
proof (induction cs arbitrary: bytes)
  case (Cons c cs)
  then show ?case by (fastforce split: if_splits)
qed (auto split: if_splits)

lemma read_chunks_complete:
  "\<not> broken \<Longrightarrow> int (length (bytes @ concat cs)) \<le> m \<Longrightarrow>
   read_chunks bytes cs broken m label = Inr (from_utf8_lossy (bytes @ concat cs))"
  by (induction cs arbitrary: bytes) auto

lemma read_capped_exact:
  "0 \<le> m \<Longrightarrow> read_capped b m label = Inr t \<longleftrightarrow>
     \<not> b_broken b \<and> int (length (concat (b_chunks b))) \<le> m \<and> t = from_utf8_lossy (concat (b_chunks b))"
  using read_chunks_bounded[of "[]" "b_chunks b" "b_broken b" m label t] read_chunks_complete[of "b_broken b" "[]" "b_chunks b" m label]
  by (auto simp: read_capped_def)

lemma decode_ok:
  "decode_answer js label a = Inr v \<longleftrightarrow>
     (\<exists>r t. a = Answer r \<and> is_success (rp_status r) \<and> read_capped (rp_body r) max_reply_bytes label = (Inr t :: 'n mcp_error + string) \<and>
        parse_rpc_body js t = Some v \<and> json_get ''error'' v = None)" for js :: "'n parser"
  by (auto simp: decode_answer_def Let_def seqR_def ok_or_def split: answer.splits sum.splits option.splits if_splits)

lemma post_rpc_result:
  assumes "post_rpc js srv meth params label c = (Inr v, c')"
  shows "decode_answer js label (srv (cl_sent c')) = Inr v"
  using assms by (cases rule: post_rpc_cases[where js = js and srv = srv and c = c and meth = meth and params = params and label = label])
    (auto simp: send_def Let_def)

lemma call_result:
  assumes "call_tool js srv name arguments c = (Inr t, c')"
  shows "\<exists>v. decode_answer js (''tool '' @ name) (srv (cl_sent c')) = Inr v \<and> tool_text name v = Inr t"
proof -
  have once: "\<exists>v. decode_answer js (''tool '' @ name) (srv (cl_sent c')) = Inr v \<and> tool_text name v = Inr t"
    if "try_call_tool js srv name arguments c1 = (Inr t, c')" for c1
    using that post_rpc_result[of js srv "''tools/call''" "call_params name arguments" "''tool '' @ name" c1]
    by (auto simp: try_call_tool_def split: prod.splits sum.splits)
  have "map_sum f id x = Inr t \<Longrightarrow> x = Inr t" for f :: "'a call_error \<Rightarrow> 'a mcp_error" and x
    by (cases x) simp_all
  then show ?thesis
    using assms once by (auto simp: call_tool_def retry_stale_def split: prod.splits sum.splits call_error.splits)
qed

end
