(* ===== verification/Mcp_Resolve.thy ===== *)
theory Mcp_Resolve
  imports Mcp_Client Capabilities
begin

text \<open>
  The MCP servers of the active host, \<open>crates/llmenv-mcp/src/resolve.rs\<close>: plain and bundle servers by their
  tags, the memory backend as a network client, the codebase memory as a local process, with every error.
  The URL parser is a parameter; parts that are only copied (permissions, hook settings) are of type \<open>'q\<close>.
\<close>

section \<open>Types\<close>

datatype mcp_transport = StdioT | HttpT | SseT

record mcp_server =
  ms_name :: string
  ms_when :: "string list"
  ms_transport :: mcp_transport
  ms_command :: "string option"
  ms_args :: "string list"
  ms_env :: "(string \<times> string) list"
  ms_url :: "string option"
  ms_headers :: "(string \<times> string) list"
  ms_disabled :: bool
  ms_disabled_tools :: "string list"
  ms_timeout :: "nat option"
  ms_always_load :: "bool option"

datatype resolved_kind =
    Stdio string "string list" "(string \<times> string) list"
  | Remote string mcp_transport

record 'q resolved_mcp =
  rm_name :: string
  rm_kind :: resolved_kind
  rm_headers :: "(string \<times> string) list"
  rm_timeout :: "nat option"
  rm_disabled_tools :: "string list"
  rm_mcp_permissions :: "'q option"
  rm_memory_hook :: "'q option"
  rm_always_load :: "bool option"

record 'q memory_entry =
  en_server_host :: string
  en_port :: nat
  en_when :: "string list"
  en_mcp_permissions :: "'q option"
  en_hook :: 'q
  en_always_load :: "bool option"

record 'q codebase_entry =
  ce_when :: "string list"
  ce_index_path :: "string option"
  ce_mcp_permissions :: "'q option"
  ce_mem_budget_mb :: "nat option"

datatype resolve_error =
    MemoryUnknownServerHost string
  | StdioMissingCommand string
  | RemoteMissingUrl string string
  | AmbiguousMemory "string list"
  | AmbiguousCodebaseMemory "string list"
  | IndexPathUnexpandable merge_error
  | CleartextPublicAddress string ip_addr
  | BundleMcpReservedName string
  | BundleMcpInvalidName string

definition memory_mcp_name :: string where "memory_mcp_name = ''icm''"
definition codebase_memory_mcp_name :: string where "codebase_memory_mcp_name = ''codebase-memory-mcp''"

section \<open>IPv6 literals\<close>

text \<open>\<open>Ipv6Addr::from_str\<close>, as far as whether it succeeds: hexadecimal groups, one \<open>::\<close>, and a dotted IPv4
  address as the last two groups.\<close>

definition is_hex :: "char \<Rightarrow> bool" where
  "is_hex c \<longleftrightarrow> is_ascii_digit c \<or> 97 \<le> byte c \<and> byte c \<le> 102 \<or> 65 \<le> byte c \<and> byte c \<le> 70"

definition read_group :: "string \<Rightarrow> string option" where
  "read_group s =
     (let d = takeWhile is_hex s in if d = [] \<or> 4 < length d then None else Some (drop (length d) s))"

definition decimal :: "string \<Rightarrow> nat" where
  "decimal d = foldl (\<lambda>n c. 10 * n + (byte c - 48)) 0 d"

definition read_octet :: "string \<Rightarrow> string option" where
  "read_octet s =
     (let d = takeWhile is_ascii_digit s in
      if d = [] \<or> 3 < length d \<or> hd d = CHR ''0'' \<and> 1 < length d \<or> 255 < decimal d then None
      else Some (drop (length d) s))"

definition read_dot :: "string \<Rightarrow> string option" where
  "read_dot s = (case s of CHR ''.'' # r \<Rightarrow> Some r | _ \<Rightarrow> None)"

definition read_v4 :: "string \<Rightarrow> string option" where
  "read_v4 s =
     Option.bind (read_octet s) (\<lambda>s. Option.bind (Option.bind (read_dot s) read_octet) (\<lambda>s.
     Option.bind (Option.bind (read_dot s) read_octet) (\<lambda>s. Option.bind (read_dot s) read_octet)))"

text \<open>The number of groups that were read, whether the last two were an IPv4 address, and the rest.\<close>

function read_groups :: "nat \<Rightarrow> nat \<Rightarrow> string \<Rightarrow> nat \<times> bool \<times> string" where
  "read_groups i limit s =
     (if limit \<le> i then (limit, False, s)
      else
        case (if i = 0 then Some s else case s of CHR '':'' # r \<Rightarrow> Some r | _ \<Rightarrow> None) of
          None \<Rightarrow> (i, False, s)
        | Some r \<Rightarrow>
            (case (if i < limit - 1 then read_v4 r else None) of
               Some r' \<Rightarrow> (i + 2, True, r')
             | None \<Rightarrow>
                 (case read_group r of
                    Some r' \<Rightarrow> read_groups (i + 1) limit r'
                  | None \<Rightarrow> (i, False, s))))"
  by pat_completeness auto
termination
  by (relation "measure (\<lambda>(i, limit, s). limit - i)") auto

declare read_groups.simps [simp del]

definition is_ipv6_literal :: "string \<Rightarrow> bool" where
  "is_ipv6_literal s =
     (let (n, v4, r) = read_groups 0 8 s in
      if n = 8 then r = []
      else if v4 then False
      else case r of
             CHR '':'' # CHR '':'' # r' \<Rightarrow> snd (snd (read_groups 0 (8 - (n + 1)) r')) = []
           | _ \<Rightarrow> False)"

section \<open>Resolution\<close>

definition tag_active :: "string list \<Rightarrow> string list \<Rightarrow> bool" where
  "tag_active w active_tags = list_ex (\<lambda>t. t \<in> set active_tags) w"

definition memory_is_tag_active :: "'q memory_entry \<Rightarrow> string list \<Rightarrow> bool" where
  "memory_is_tag_active m active_tags = tag_active (en_when m) active_tags"

definition is_valid_mcp_name :: "string \<Rightarrow> bool" where
  "is_valid_mcp_name name \<longleftrightarrow>
     name \<noteq> [] \<and> list_all (\<lambda>c. is_ascii_alphanumeric c \<or> c = CHR ''_'' \<or> c = CHR ''-'') name"

definition reject_public_cleartext ::
    "(string \<Rightarrow> url_parts option) \<Rightarrow> string \<Rightarrow> string \<Rightarrow> resolve_error + unit" where
  "reject_public_cleartext parse_url name url =
     (case public_cleartext_literal parse_url url of
        Some a \<Rightarrow> Inl (CleartextPublicAddress name a)
      | None \<Rightarrow> Inr ())"

definition stdio_kind :: "mcp_server \<Rightarrow> resolve_error + resolved_kind" where
  "stdio_kind m =
     seqR (ok_or (StdioMissingCommand (ms_name m)) (ms_command m)) (\<lambda>command.
     Inr (Stdio command (ms_args m) (ms_env m)))"

fun transport_text :: "mcp_transport \<Rightarrow> string" where
  "transport_text StdioT = ''stdio''"
| "transport_text HttpT = ''http''"
| "transport_text SseT = ''sse''"

definition remote_kind ::
    "(string \<Rightarrow> url_parts option) \<Rightarrow> mcp_server \<Rightarrow> mcp_transport \<Rightarrow> resolve_error + resolved_kind" where
  "remote_kind parse_url m transport =
     seqR (ok_or (RemoteMissingUrl (ms_name m) (transport_text transport)) (ms_url m)) (\<lambda>url.
     seqR (reject_public_cleartext parse_url (ms_name m) url) (\<lambda>_.
     Inr (Remote url transport)))"

definition resolve_static ::
    "(string \<Rightarrow> url_parts option) \<Rightarrow> mcp_server \<Rightarrow> resolve_error + 'q resolved_mcp" where
  "resolve_static parse_url m =
     seqR (case ms_transport m of StdioT \<Rightarrow> stdio_kind m | t \<Rightarrow> remote_kind parse_url m t) (\<lambda>kind.
     Inr \<lparr>rm_name = ms_name m, rm_kind = kind, rm_headers = ms_headers m, rm_timeout = ms_timeout m,
          rm_disabled_tools = ms_disabled_tools m, rm_mcp_permissions = None, rm_memory_hook = None,
          rm_always_load = ms_always_load m\<rparr>)"

definition memory_url :: "string \<Rightarrow> nat \<Rightarrow> string" where
  "memory_url a port =
     (if is_ipv6_literal a then ''http://['' @ a @ '']:'' @ nat_str port @ ''/mcp''
      else ''http://'' @ a @ '':'' @ nat_str port @ ''/mcp'')"

definition resolve_memory ::
    "(string \<Rightarrow> url_parts option) \<Rightarrow> 'q memory_entry \<Rightarrow> (string \<times> string) list \<Rightarrow> resolve_error + 'q resolved_mcp" where
  "resolve_memory parse_url mem hosts =
     seqR (ok_or (MemoryUnknownServerHost (en_server_host mem)) (map_of hosts (en_server_host mem))) (\<lambda>a.
     let url = memory_url a (en_port mem) in
     seqR (reject_public_cleartext parse_url memory_mcp_name url) (\<lambda>_.
     Inr \<lparr>rm_name = memory_mcp_name, rm_kind = Remote url HttpT, rm_headers = [], rm_timeout = None,
          rm_disabled_tools = [], rm_mcp_permissions = en_mcp_permissions mem,
          rm_memory_hook = Some (en_hook mem),
          rm_always_load = Some (case en_always_load mem of None \<Rightarrow> True | Some b \<Rightarrow> b)\<rparr>))"

fun resolve_plain ::
    "(string \<Rightarrow> url_parts option) \<Rightarrow> mcp_server list \<Rightarrow> string list \<Rightarrow> resolve_error + 'q resolved_mcp list" where
  "resolve_plain parse_url [] active_tags = Inr []"
| "resolve_plain parse_url (m # ms) active_tags =
     (if ms_disabled m \<or> \<not> tag_active (ms_when m) active_tags then resolve_plain parse_url ms active_tags
      else seqR (resolve_static parse_url m) (\<lambda>r.
           seqR (resolve_plain parse_url ms active_tags) (\<lambda>rs. Inr (r # rs))))"

definition resolve_mcps ::
    "(string \<Rightarrow> url_parts option) \<Rightarrow> mcp_server list \<Rightarrow> 'q memory_entry list \<Rightarrow> (string \<times> string) list \<Rightarrow>
     string list \<Rightarrow> resolve_error + 'q resolved_mcp list" where
  "resolve_mcps parse_url mcp memory host active_tags =
     seqR (resolve_plain parse_url mcp active_tags) (\<lambda>out.
     case filter (\<lambda>m. memory_is_tag_active m active_tags) memory of
       [] \<Rightarrow> Inr out
     | [m] \<Rightarrow> seqR (resolve_memory parse_url m host) (\<lambda>r. Inr (out @ [r]))
     | ms \<Rightarrow> Inl (AmbiguousMemory (map en_server_host ms)))"

fun resolve_bundle_mcps ::
    "(string \<Rightarrow> url_parts option) \<Rightarrow> mcp_server list \<Rightarrow> string list \<Rightarrow> resolve_error + 'q resolved_mcp list" where
  "resolve_bundle_mcps parse_url [] active_tags = Inr []"
| "resolve_bundle_mcps parse_url (m # ms) active_tags =
     (if ms_name m = memory_mcp_name then Inl (BundleMcpReservedName (ms_name m))
      else if \<not> is_valid_mcp_name (ms_name m) then Inl (BundleMcpInvalidName (ms_name m))
      else if ms_disabled m then resolve_bundle_mcps parse_url ms active_tags
      else if ms_when m = [] \<or> tag_active (ms_when m) active_tags then
        seqR (resolve_static parse_url m) (\<lambda>r.
        seqR (resolve_bundle_mcps parse_url ms active_tags) (\<lambda>rs. Inr (r # rs)))
      else resolve_bundle_mcps parse_url ms active_tags)"

definition resolve_codebase_memory :: "env_var \<Rightarrow> 'q codebase_entry \<Rightarrow> resolve_error + 'q resolved_mcp" where
  "resolve_codebase_memory home cm =
     seqR (case ce_index_path cm of
             None \<Rightarrow> Inr []
           | Some p \<Rightarrow>
               (case expand_tilde_with_env home p of
                  Inl e \<Rightarrow> Inl (IndexPathUnexpandable e)
                | Inr expanded \<Rightarrow> Inr (map_insert ''CBM_CACHE_DIR'' expanded []))) (\<lambda>env.
     let env = (case ce_mem_budget_mb cm of
                  None \<Rightarrow> env
                | Some budget \<Rightarrow> map_insert ''CBM_MEM_BUDGET_MB'' (nat_str budget) env) in
     Inr \<lparr>rm_name = codebase_memory_mcp_name, rm_kind = Stdio ''codebase-memory-mcp'' [] env, rm_headers = [],
          rm_timeout = None, rm_disabled_tools = [], rm_mcp_permissions = ce_mcp_permissions cm,
          rm_memory_hook = None, rm_always_load = None\<rparr>)"

definition resolve_codebase_memory_entries ::
    "env_var \<Rightarrow> 'q codebase_entry list \<Rightarrow> string list \<Rightarrow> resolve_error + 'q resolved_mcp list" where
  "resolve_codebase_memory_entries home es active_tags =
     (case filter (\<lambda>c. tag_active (ce_when c) active_tags) es of
        [] \<Rightarrow> Inr []
      | [c] \<Rightarrow> seqR (resolve_codebase_memory home c) (\<lambda>r. Inr [r])
      | cs \<Rightarrow> Inl (AmbiguousCodebaseMemory (map (\<lambda>c. join_str '','' (ce_when c)) cs)))"

section \<open>Laws\<close>

text \<open>A resolved entry never sends in clear text to an address that the URL names outside the operator's network.\<close>

definition no_public_cleartext :: "(string \<Rightarrow> url_parts option) \<Rightarrow> 'q resolved_mcp \<Rightarrow> bool" where
  "no_public_cleartext parse_url r =
     (case rm_kind r of Stdio _ _ _ \<Rightarrow> True | Remote url _ \<Rightarrow> public_cleartext_literal parse_url url = None)"

lemma reject_ok: "reject_public_cleartext parse_url name url = Inr u \<longleftrightarrow> public_cleartext_literal parse_url url = None"
  by (simp add: reject_public_cleartext_def split: option.split)

lemma static_safe: "resolve_static parse_url m = Inr r \<Longrightarrow> no_public_cleartext parse_url r \<and> rm_name r = ms_name m"
  by (auto simp: resolve_static_def stdio_kind_def remote_kind_def seqR_ok reject_ok no_public_cleartext_def
      split: mcp_transport.splits)

lemma memory_safe:
  "resolve_memory parse_url m host = Inr r \<Longrightarrow> no_public_cleartext parse_url r \<and> rm_name r = memory_mcp_name"
  by (auto simp: resolve_memory_def seqR_ok reject_ok no_public_cleartext_def Let_def)

lemma plain_exact:
  "resolve_plain parse_url ms tags = Inr rs \<Longrightarrow>
     list_all2 (\<lambda>m r. resolve_static parse_url m = Inr r)
       (filter (\<lambda>m. \<not> ms_disabled m \<and> tag_active (ms_when m) tags) ms) rs"
  by (induction ms arbitrary: rs) (auto simp: seqR_ok split: if_splits)

lemma bundle_exact:
  "resolve_bundle_mcps parse_url ms tags = Inr rs \<Longrightarrow>
     list_all2 (\<lambda>m r. resolve_static parse_url m = Inr r)
       (filter (\<lambda>m. \<not> ms_disabled m \<and> (ms_when m = [] \<or> tag_active (ms_when m) tags)) ms) rs \<and>
     (\<forall>m \<in> set ms. ms_name m \<noteq> memory_mcp_name \<and> is_valid_mcp_name (ms_name m))"
  by (induction ms arbitrary: rs) (auto simp: seqR_ok split: if_splits)

lemma list_all2_safe:
  "list_all2 (\<lambda>m r. resolve_static parse_url m = Inr r) ms rs \<Longrightarrow> \<forall>r \<in> set rs. no_public_cleartext parse_url r"
  by (induction rule: list_all2_induct) (auto simp: static_safe)

lemma list_all2_names: "list_all2 (\<lambda>m r. resolve_static parse_url m = Inr r) ms rs \<Longrightarrow> map rm_name rs = map ms_name ms"
  by (induction rule: list_all2_induct) (auto simp: static_safe)

end
