(* ===== verification/Mcp_Theorems.thy ===== *)
theory Mcp_Theorems
  imports Mcp_Laws Mcp_Resolve
begin

text \<open>
  The properties of the MCP client and resolver: which addresses a client can reach, what it sends, under
  which session, what it returns, and which servers are resolved.
\<close>

section \<open>Addresses\<close>

text \<open>The address policy on numbers.  An IPv4 address that llmenv may contact is not link-local, not
  unspecified and not the broadcast address; an IPv6 address that wraps an IPv4 address is judged by that one.\<close>

definition allowed_v4 :: "nat \<Rightarrow> bool" where
  "allowed_v4 n \<longleftrightarrow> n div 2 ^ 16 \<noteq> quad 169 254 0 0 div 2 ^ 16 \<and> n \<noteq> 0 \<and> n \<noteq> 2 ^ 32 - 1"

fun allowed_target :: "ip_addr \<Rightarrow> bool" where
  "allowed_target (V4 a) = allowed_v4 (unat a)"
| "allowed_target (V6 a) =
     (case wrapped_v4 (unat a) of
        Some n \<Rightarrow> allowed_v4 n
      | None \<Rightarrow> unat a \<noteq> 0 \<and> unat a div 2 ^ 118 \<noteq> 0x3fa)"

text \<open>The operator's own network: loopback, private, shared (Tailscale) and unique-local addresses.\<close>

definition own_v4 :: "ipv4 \<Rightarrow> bool" where
  "own_v4 a \<longleftrightarrow> v4_block (quad 127 0 0 0) 8 a \<or> v4_block (quad 10 0 0 0) 8 a \<or> v4_block (quad 172 16 0 0) 12 a \<or>
     v4_block (quad 192 168 0 0) 16 a \<or> v4_block (quad 100 64 0 0) 10 a"

fun own_network :: "ip_addr \<Rightarrow> bool" where
  "own_network (V4 a) = own_v4 a"
| "own_network (V6 a) =
     (if unat a div 2 ^ 32 = 0xffff then own_v4 (low (segment 6 a) (segment 7 a))
      else unat a = 1 \<or> v6_block 0x7e 7 a)"

lemma blocked_v4_allowed: "blocked_v4 a AllowPrivateNetwork = None \<longleftrightarrow> allowed_v4 (unat a)"
proof -
  have "octet 0 (0 :: ipv4) = 0" "octet 0 (- 1 :: ipv4) = 255" by code_simp+
  then have "\<not> (v4_is_unspecified a \<or> v4_is_broadcast a \<or> v4_is_link_local a)" if "v4_is_loopback a \<or> v4_is_private a"
    using that by (auto simp: v4_is_loopback_def v4_is_private_def v4_is_unspecified_def v4_is_broadcast_def v4_is_link_local_def)
  then have "blocked_v4 a AllowPrivateNetwork = None \<longleftrightarrow>
      \<not> v4_is_link_local a \<and> \<not> v4_is_unspecified a \<and> \<not> v4_is_broadcast a"
    by (auto simp: blocked_v4_def only_if_def)
  then show ?thesis
    unfolding v4_link_local_block v4_unspecified_block v4_broadcast_block
    by (simp add: allowed_v4_def v4_block_def quad_def)
qed

lemma blocked_allowed: "blocked_reason ip AllowPrivateNetwork = None \<longleftrightarrow> allowed_target ip"
proof (cases ip)
  case (V6 a)
  show ?thesis
  proof (cases "embedded_ipv4 a")
    case None
    then have w: "wrapped_v4 (unat a) = None" using embedded_exact[of a] by simp
    have "unat a = 0 \<longleftrightarrow> v6_is_unspecified a" by (simp add: v6_is_unspecified_def unsigned_eq_0_iff)
    moreover have "\<not> v6_block 0x3fa 10 a" if "is_unique_local_v6 a \<or> v6_is_loopback a"
    proof -
      have "unat a div 2 ^ 121 = unat a div 2 ^ 118 div 8" by (simp add: div_mult2_eq [symmetric])
      then show ?thesis using that
        by (auto simp: v6_unique_local_block v6_block_def v6_is_loopback_def)
    qed
    moreover have "v6_is_loopback a \<Longrightarrow> \<not> v6_is_unspecified a" by (simp add: v6_is_loopback_def v6_is_unspecified_def)
    ultimately show ?thesis
      unfolding V6 using None w by (auto simp: Let_def only_if_def v6_link_local_block v6_block_def)
  next
    case (Some v)
    then have "wrapped_v4 (unat a) = Some (unat v)" using embedded_exact[of a] by simp
    then show ?thesis unfolding V6 using Some by (simp add: blocked_v4_allowed)
  qed
qed (simp add: blocked_v4_allowed)

lemma cleartext_own_v4: "cleartext_safe_v4 a \<longleftrightarrow> own_v4 a"
  unfolding cleartext_safe_v4.simps v4_loopback_block v4_private_blocks v4_cgnat_block own_v4_def by blast

lemma cleartext_own: "is_cleartext_safe ip \<longleftrightarrow> own_network ip"
proof (cases ip)
  case (V6 a)
  have "v6_is_loopback a \<longleftrightarrow> unat a = 1" by (simp add: v6_is_loopback_def word_unat_eq_iff)
  then show ?thesis
    unfolding V6 own_network.simps is_cleartext_safe.simps to_ipv4_mapped_def mapped_prefix
    by (simp add: cleartext_own_v4 v6_unique_local_block del: cleartext_safe_v4.simps)
qed (simp add: cleartext_own_v4 del: cleartext_safe_v4.simps)

text \<open>C26. A client reaches only allowed addresses: every address a client is pinned to is allowed, also
  when it is wrapped in an IPv6 address, and with a cleartext URL every one of them is in the operator's own
  network.  This holds whatever the name of the host resolves to.\<close>
theorem client_addresses_are_safe:
  assumes "with_headers parse_url lookup header_name header_value url headers = Inr p"
  shows "pin_addrs p \<noteq> [] \<and> (\<forall>a \<in> set (pin_addrs p). allowed_target (fst a)) \<and>
    (\<forall>u. parse_url url = Some u \<and> up_scheme u = ''http'' \<longrightarrow> (\<forall>a \<in> set (pin_addrs p). own_network (fst a)))"
proof -
  obtain h as where v: "validate_url_production parse_url lookup url AllowPrivateNetwork = Inr (h, as)"
    "require_https_for_public parse_url url as = Inr ()" "pin_addrs p = as"
    using assms by (auto simp: with_headers_def seqR_ok)
  have "own_network (fst a)" if "parse_url url = Some u" "up_scheme u = ''http''" "a \<in> set as" for u a
  proof -
    have "find (\<lambda>a. \<not> is_cleartext_safe (fst a)) as = None"
      using v(2) that(1,2) by (simp add: require_https_for_public_def ok_or_def split: option.splits)
    then show ?thesis using that(3) by (cases a) (auto simp: find_None_iff cleartext_own)
  qed
  then show ?thesis using url_validated[OF v(1)] unfolding v(3) blocked_allowed by blast
qed

text \<open>A resolver that knows one name, with a link-local and a private address.\<close>

definition demo_parse_url :: "string \<Rightarrow> url_parts option" where
  "demo_parse_url url =
     (if url = ''http://still.local:7878/mcp'' then
        Some \<lparr>up_scheme = ''http'', up_host = Some (HostDomain ''still.local''), up_port = Some 7878\<rparr>
      else None)"

definition demo_lookup :: "string \<Rightarrow> nat \<Rightarrow> dns_answer" where
  "demo_lookup name port =
     DnsResolved [(V6 0xfe800000000000000000000000000001, port), (V4 0xC0A80105, port)]"

definition demo_pinned :: pinned where
  "demo_pinned =
     \<lparr>pin_url = ''http://still.local:7878/mcp'', pin_host = HostDomain ''still.local'',
      pin_addrs = [(V4 0xC0A80105, 7878)], pin_headers = []\<rparr>"

lemma demo_client:
  "with_headers demo_parse_url demo_lookup Some (\<lambda>_. True) ''http://still.local:7878/mcp'' [] = Inr demo_pinned"
  by code_simp

theorem client_addresses_are_safe_witness: "own_network (V4 0xC0A80105) \<and> allowed_target (V4 0xC0A80105)"
proof -
  have "(V4 0xC0A80105, 7878) \<in> set (pin_addrs demo_pinned)" by (simp add: demo_pinned_def)
  moreover have "demo_parse_url ''http://still.local:7878/mcp'' =
      Some \<lparr>up_scheme = ''http'', up_host = Some (HostDomain ''still.local''), up_port = Some 7878\<rparr>"
    by (simp add: demo_parse_url_def)
  ultimately show ?thesis using client_addresses_are_safe[OF demo_client] by fastforce
qed

text \<open>A shared address of a carrier or of Tailscale, and a site-local IPv6 address, count as public.\<close>

lemma shared_address_counts_as_public:
  "blocked_reason (V4 0x64400001) PublicOnly = None \<and>
   blocked_reason (V6 0xfec00000000000000000000000000001) PublicOnly = None \<and> is_cleartext_safe (V4 0x64400001)"
  by code_simp

section \<open>Calls\<close>

text \<open>C27. A tool call is sent once, and a second time only after the server refused the first for its
  session: whatever the server answers, a call sends at most six requests and at most two of them are the
  call; when there are two, the first was answered with status 400 or 404.  So a call that got through is
  never repeated.\<close>
theorem call_resent_only_after_refusal:
  "\<exists>rs. cl_sent (snd (call_tool js srv name arguments c)) = cl_sent c @ rs \<and> length rs \<le> 6 \<and>
     count_method ''tools/call'' rs \<le> 2 \<and>
     (count_method ''tools/call'' rs = 2 \<longrightarrow>
       (\<exists>mid r tail a. rs = mid @ r # tail \<and> rq_method r = ''tools/call'' \<and>
          srv (cl_sent c @ mid @ [r]) = Answer a \<and> (rp_status a = 400 \<or> rp_status a = 404)))"
  using calling.retry_sends[of js srv name arguments c] unfolding call_tool_def met_stale_def
  by (fastforce simp: is_stale_session_status_def split: answer.splits)

text \<open>A server that forgets its first session: it refuses the first call and serves the second.\<close>

definition demo_reply :: "nat \<Rightarrow> string option \<Rightarrow> string \<Rightarrow> answer" where
  "demo_reply status sid t =
     Answer \<lparr>rp_status = status, rp_session = sid, rp_body = \<lparr>b_chunks = [t], b_broken = False\<rparr>\<rparr>"

definition demo_server :: "nat server" where
  "demo_server sent =
     (if rq_method (last sent) = ''initialize'' then demo_reply 200 (Some (nat_str (length sent))) ''{}''
      else if rq_method (last sent) = ''tools/call'' \<and> length sent \<le> 3 then demo_reply 404 None ''gone''
      else demo_reply 200 None ''ok'')"

definition demo_js :: "nat parser" where
  "demo_js t =
     (if t = ''ok'' then
        Some (JObject [(''result'', JObject [(''content'', JArray [JObject [(''text'', JString ''hello'')]])])])
      else None)"

definition demo_call :: "(nat mcp_error + string) \<times> nat client" where
  "demo_call = call_tool demo_js demo_server ''recall'' JNull new_client"

lemma demo_call_twice: "count_method ''tools/call'' (cl_sent (snd demo_call)) = 2"
  by code_simp

theorem call_resent_only_after_refusal_witness:
  "\<exists>mid r tail a. cl_sent (snd demo_call) = mid @ r # tail \<and> rq_method r = ''tools/call'' \<and>
     demo_server (mid @ [r]) = Answer a \<and> (rp_status a = 400 \<or> rp_status a = 404)"
  using call_resent_only_after_refusal[of demo_js demo_server "''recall''" JNull new_client] demo_call_twice
  by (simp add: demo_call_def new_client_def)

text \<open>A call returns only what the server said: a text comes from a reply to the last request of the
  client with a success status, read to its end and at most 8 MiB long, whose JSON has no error, whose content
  holds that text and which is not marked as a tool error.\<close>
lemma call_returns_the_reply:
  assumes "call_tool js srv name arguments c = (Inr t, c')"
  shows "\<exists>a v. srv (cl_sent c') = Answer a \<and> 200 \<le> rp_status a \<and> rp_status a \<le> 299 \<and>
    \<not> b_broken (rp_body a) \<and> length (concat (b_chunks (rp_body a))) \<le> 8388608 \<and>
    parse_rpc_body js (from_utf8_lossy (concat (b_chunks (rp_body a)))) = Some v \<and> json_get ''error'' v = None \<and>
    extract_text v = Some t \<and> Option.bind (json_get ''result'' v) (json_get ''isError'') \<noteq> Some (JBool True)"
proof -
  obtain v where v: "decode_answer js (''tool '' @ name) (srv (cl_sent c')) = Inr v" "tool_text name v = Inr t"
    using call_result[OF assms] by blast
  have "extract_text v = Some t \<and> Option.bind (json_get ''result'' v) (json_get ''isError'') \<noteq> Some (JBool True)"
    using v(2) by (auto simp: tool_text_def seqR_ok ok_or_def split: option.splits if_splits)
  then show ?thesis
    using v(1) unfolding decode_ok by (auto simp: read_capped_exact is_success_def max_reply_bytes_def)
qed

lemma demo_call_ok: "call_tool demo_js demo_server ''recall'' JNull new_client = (Inr ''hello'', snd demo_call)"
  by code_simp

lemma call_returns_the_reply_witness:
  "\<exists>a. demo_server (cl_sent (snd demo_call)) = Answer a \<and> rp_status a \<le> 299 \<and> \<not> b_broken (rp_body a)"
  using call_returns_the_reply[OF demo_call_ok] by blast

text \<open>C28. Every call carries the session that the server granted last: in any run of client operations
  against any server, a call or listing is sent with the session id of the last successful answer to
  \<open>initialize\<close> before it, or with none where that answer gave none.\<close>
theorem calls_carry_granted_session:
  assumes "i < length (cl_sent (run_client js srv ops))"
    and "rq_method (cl_sent (run_client js srv ops) ! i) \<in> {''tools/call'', ''tools/list''}"
  shows "rq_session (cl_sent (run_client js srv ops) ! i) = granted srv (take i (cl_sent (run_client js srv ops)))"
  using calls_carry_nth[OF _ assms] run_client_ok[of srv js ops] by (simp add: client_ok_def)

theorem calls_carry_granted_session_witness:
  "rq_session (cl_sent (run_client demo_js demo_server [CallTool ''recall'' JNull]) ! 5) = Some ''4''"
proof -
  let ?sent = "cl_sent (run_client demo_js demo_server [CallTool ''recall'' JNull])"
  have "5 < length ?sent" "rq_method (?sent ! 5) \<in> {''tools/call'', ''tools/list''}"
    "granted demo_server (take 5 ?sent) = Some ''4''" by code_simp+
  then show ?thesis using calls_carry_granted_session by metis
qed

text \<open>Listing the tools ends against any server: at most 50 pages are asked for, each at most twice, so
  at most 100 listings among at most 300 requests are sent, also to a server that always names a next page.\<close>
lemma listing_is_bounded:
  "\<exists>rs. cl_sent (snd (list_tools js srv c)) = cl_sent c @ rs \<and> length rs \<le> 300 \<and> count_method ''tools/list'' rs \<le> 100"
  using list_pages_sends[of max_tool_pages js srv None "[]" c] by (simp add: list_tools_def max_tool_pages_def)

section \<open>Resolution\<close>

lemma no_public_literal:
  assumes "public_cleartext_literal parse_url url = None" "parse_url url = Some u" "up_scheme u = ''http''"
    and "up_host u = Some (HostV4 a) \<and> ip = V4 a \<or> up_host u = Some (HostV6 b) \<and> ip = V6 b"
  shows "own_network ip"
  using assms by (auto simp: public_cleartext_literal_def cleartext_own split: if_splits)

lemma resolve_mcps_parts:
  assumes "resolve_mcps parse_url mcp memory host tags = Inr rs"
  obtains out mem where "resolve_plain parse_url mcp tags = Inr out" "rs = out @ mem"
    "length (filter (\<lambda>m. memory_is_tag_active m tags) memory) \<le> 1"
    "list_all2 (\<lambda>m r. resolve_memory parse_url m host = Inr r) (filter (\<lambda>m. memory_is_tag_active m tags) memory) mem"
proof -
  obtain out where out: "resolve_plain parse_url mcp tags = Inr out"
    "(case filter (\<lambda>m. memory_is_tag_active m tags) memory of [] \<Rightarrow> Inr out
      | [m] \<Rightarrow> seqR (resolve_memory parse_url m host) (\<lambda>r. Inr (out @ [r]))
      | ms \<Rightarrow> Inl (AmbiguousMemory (map en_server_host ms))) = Inr rs"
    using assms by (auto simp: resolve_mcps_def seqR_ok)
  consider "filter (\<lambda>m. memory_is_tag_active m tags) memory = []"
    | m where "filter (\<lambda>m. memory_is_tag_active m tags) memory = [m]"
    | m n ms where "filter (\<lambda>m. memory_is_tag_active m tags) memory = m # n # ms"
    by (metis list.exhaust)
  then show ?thesis
  proof cases
    case 1
    then show ?thesis using that[of out "[]"] out by simp
  next
    case (2 m)
    then obtain r where "resolve_memory parse_url m host = Inr r" "rs = out @ [r]"
      using out(2) by (auto simp: seqR_ok)
    then show ?thesis using that[of out "[r]"] out(1) 2 by simp
  next
    case (3 m n ms)
    then show ?thesis using out(2) by simp
  qed
qed

text \<open>Resolution is exact and keeps secrets off the open network: the result lists the enabled plain
  servers with an active tag, in their order, followed by the memory server if a memory entry is active (at
  most one is), and no entry has a cleartext URL whose host is an address outside the operator's own network.\<close>
lemma resolved_servers_exact:
  assumes "resolve_mcps parse_url mcp memory host tags = Inr rs"
  shows "map rm_name rs =
      map ms_name (filter (\<lambda>m. \<not> ms_disabled m \<and> (\<exists>t \<in> set (ms_when m). t \<in> set tags)) mcp) @
      map (\<lambda>_. ''icm'') (filter (\<lambda>m. \<exists>t \<in> set (en_when m). t \<in> set tags) memory) \<and>
    length (filter (\<lambda>m. \<exists>t \<in> set (en_when m). t \<in> set tags) memory) \<le> 1 \<and>
    (\<forall>r \<in> set rs. \<forall>url t u ip. rm_kind r = Remote url t \<and> parse_url url = Some u \<and> up_scheme u = ''http'' \<and>
       (case up_host u of Some (HostV4 a) \<Rightarrow> ip = V4 a | Some (HostV6 a) \<Rightarrow> ip = V6 a | _ \<Rightarrow> False) \<longrightarrow>
       own_network ip)"
proof -
  obtain out mem where o: "resolve_plain parse_url mcp tags = Inr out" "rs = out @ mem"
    "length (filter (\<lambda>m. memory_is_tag_active m tags) memory) \<le> 1"
    "list_all2 (\<lambda>m r. resolve_memory parse_url m host = Inr r) (filter (\<lambda>m. memory_is_tag_active m tags) memory) mem"
    using assms by (rule resolve_mcps_parts)
  note plain = plain_exact[OF o(1)]
  have active: "tag_active w tags \<longleftrightarrow> (\<exists>t \<in> set w. t \<in> set tags)" for w by (simp add: tag_active_def list_ex_iff)
  have mem: "map rm_name mem = map (\<lambda>_. ''icm'') (filter (\<lambda>m. memory_is_tag_active m tags) memory)"
    "\<forall>r \<in> set mem. no_public_cleartext parse_url r"
    using o(4) by (induction rule: list_all2_induct) (auto simp: memory_safe memory_mcp_name_def)
  have safe: "\<forall>r \<in> set rs. no_public_cleartext parse_url r"
    using list_all2_safe[OF plain] mem(2) unfolding o(2) by auto
  have "own_network ip" if "r \<in> set rs" "rm_kind r = Remote url t" "parse_url url = Some u" "up_scheme u = ''http''"
    "case up_host u of Some (HostV4 a) \<Rightarrow> ip = V4 a | Some (HostV6 a) \<Rightarrow> ip = V6 a | _ \<Rightarrow> False" for r url t u ip
  proof -
    have "public_cleartext_literal parse_url url = None"
      using safe that(1,2) by (auto simp: no_public_cleartext_def split: resolved_kind.splits)
    then show ?thesis
      using no_public_literal[of parse_url url u] that(3-5) by (auto split: option.splits host.splits)
  qed
  then show ?thesis
    using list_all2_names[OF plain] mem(1) o(3) unfolding o(2) active memory_is_tag_active_def by auto
qed

definition demo_server_entry :: mcp_server where
  "demo_server_entry =
     \<lparr>ms_name = ''ctx'', ms_when = [''home''], ms_transport = HttpT, ms_command = None, ms_args = [], ms_env = [],
      ms_url = Some ''https://ctx.example/mcp'', ms_headers = [], ms_disabled = False, ms_disabled_tools = [],
      ms_timeout = None, ms_always_load = None\<rparr>"

definition demo_memory_entry :: "unit memory_entry" where
  "demo_memory_entry =
     \<lparr>en_server_host = ''still'', en_port = 80, en_when = [''home''], en_mcp_permissions = None, en_hook = (),
      en_always_load = None\<rparr>"

definition demo_resolved :: "unit resolved_mcp list" where
  "demo_resolved =
     [\<lparr>rm_name = ''ctx'', rm_kind = Remote ''https://ctx.example/mcp'' HttpT, rm_headers = [], rm_timeout = None,
       rm_disabled_tools = [], rm_mcp_permissions = None, rm_memory_hook = None, rm_always_load = None\<rparr>,
      \<lparr>rm_name = ''icm'', rm_kind = Remote ''http://still.local:80/mcp'' HttpT, rm_headers = [], rm_timeout = None,
       rm_disabled_tools = [], rm_mcp_permissions = None, rm_memory_hook = Some (), rm_always_load = Some True\<rparr>]"

lemma demo_resolve:
  "resolve_mcps demo_parse_url [demo_server_entry, demo_server_entry\<lparr>ms_disabled := True\<rparr>] [demo_memory_entry]
     [(''still'', ''still.local'')] [''home''] = Inr demo_resolved"
  by code_simp

lemma resolved_servers_exact_witness: "map rm_name demo_resolved = [''ctx'', ''icm'']"
  using resolved_servers_exact[OF demo_resolve] by (simp add: demo_server_entry_def demo_memory_entry_def)

end
