(* ===== verification/Proxy_Path.thy ===== *)
theory Proxy_Path
  imports Json_Merge Text
begin

text \<open>
  The paths of the launch proxy, \<open>crates/llmenv-config/src/proxy_path.rs\<close>: parsing, reading, setting and
  removing a value in a JSON document.  Main results: a printed path reads back, a value that was set is
  found, and what a set leaves alone.
\<close>

section \<open>Paths\<close>

datatype path_segment = Key string | Index nat

datatype path_error = EmptyPath | EmptySegment | ExpectedBracket | UnmatchedBracket | InvalidIndex string | NoSegments

definition max_index :: nat where "max_index = 2 ^ 64 - 1"

text \<open>The bracketed indices after a key.\<close>

function parse_indices :: "string \<Rightarrow> path_error + path_segment list" where
  "parse_indices rest =
     (if rest = [] then Inr []
      else if hd rest \<noteq> CHR ''['' then Inl ExpectedBracket
      else case find_char CHR '']'' rest of
             None \<Rightarrow> Inl UnmatchedBracket
           | Some close \<Rightarrow>
               (let idx = drop 1 (take close rest) in
                case parse_unsigned max_index idx of
                  None \<Rightarrow> Inl (InvalidIndex idx)
                | Some i \<Rightarrow> seqR (parse_indices (drop (close + 1) rest)) (\<lambda>segs. Inr (Index i # segs))))"
  by pat_completeness auto
termination
  by (relation "measure length") auto

declare parse_indices.simps [simp del]

definition parse_dotted :: "string \<Rightarrow> path_error + path_segment list" where
  "parse_dotted dotted =
     (if dotted = [] then Inl EmptySegment
      else case find_char CHR ''['' dotted of
             Some start \<Rightarrow>
               seqR (parse_indices (drop start dotted)) (\<lambda>segs.
               Inr ((if start = 0 then [] else [Key (take start dotted)]) @ segs))
           | None \<Rightarrow> Inr [Key dotted])"

definition parse_path :: "string \<Rightarrow> path_error + path_segment list" where
  "parse_path p =
     (if p = [] then Inl EmptyPath
      else seqR (map_res parse_dotted (split_on (\<lambda>c. c = CHR ''.'') p)) (\<lambda>parts.
           let segments = concat parts in
           if segments = [] then Inl NoSegments else Inr segments))"

section \<open>Documents\<close>

fun get_path :: "'n json \<Rightarrow> path_segment list \<Rightarrow> 'n json option" where
  "get_path v [] = Some v"
| "get_path v (Key k # rest) =
     (case v of
        JObject m \<Rightarrow> (case map_of m k of None \<Rightarrow> None | Some w \<Rightarrow> get_path w rest)
      | _ \<Rightarrow> None)"
| "get_path v (Index i # rest) =
     (case v of
        JArray a \<Rightarrow> if i < length a then get_path (a ! i) rest else None
      | _ \<Rightarrow> None)"

definition object_of :: "'n json \<Rightarrow> (string \<times> 'n json) list" where
  "object_of v = (case v of JObject m \<Rightarrow> m | _ \<Rightarrow> [])"

definition array_of :: "'n json \<Rightarrow> 'n json list" where
  "array_of v = (case v of JArray a \<Rightarrow> a | _ \<Rightarrow> [])"

text \<open>\<open>resize\<close> to at least one element past the index.\<close>

definition fill_to :: "nat \<Rightarrow> 'n json list \<Rightarrow> 'n json list" where
  "fill_to i a = (if length a \<le> i then a @ replicate (i + 1 - length a) JNull else a)"

fun set_path :: "'n json \<Rightarrow> path_segment list \<Rightarrow> 'n json \<Rightarrow> 'n json" where
  "set_path v [] x = x"
| "set_path v (Key k # rest) x =
     (let m = object_of v in
      JObject (map_insert k (set_path (case map_of m k of None \<Rightarrow> JNull | Some w \<Rightarrow> w) rest x) m))"
| "set_path v (Index i # rest) x =
     (let a = fill_to i (array_of v) in JArray (a[i := set_path (a ! i) rest x]))"

fun remove_path :: "'n json \<Rightarrow> path_segment list \<Rightarrow> 'n json \<times> bool" where
  "remove_path v [] = (v, False)"
| "remove_path v [Key k] =
     (case v of
        JObject m \<Rightarrow> (JObject (AList.delete k m), map_of m k \<noteq> None)
      | _ \<Rightarrow> (v, False))"
| "remove_path v [Index i] =
     (case v of
        JArray a \<Rightarrow> if i < length a then (JArray (take i a @ drop (i + 1) a), True) else (v, False)
      | _ \<Rightarrow> (v, False))"
| "remove_path v (Key k # next # rest) =
     (case v of
        JObject m \<Rightarrow>
          (case map_of m k of
             None \<Rightarrow> (v, False)
           | Some w \<Rightarrow> (let r = remove_path w (next # rest) in (JObject (map_insert k (fst r) m), snd r)))
      | _ \<Rightarrow> (v, False))"
| "remove_path v (Index i # next # rest) =
     (case v of
        JArray a \<Rightarrow>
          if i < length a then
            (let r = remove_path (a ! i) (next # rest) in (JArray (a[i := fst r]), snd r))
          else (v, False)
      | _ \<Rightarrow> (v, False))"

section \<open>Laws\<close>

lemma length_fill: "length (fill_to i a) = max (length a) (i + 1)"
  by (simp add: fill_to_def)

lemma get_set_same: "get_path (set_path v p x) p = Some x"
proof (induction v p x rule: set_path.induct)
  case (2 v k rest x)
  then show ?case by (simp add: Let_def map_of_insert)
next
  case (3 v i rest x)
  then show ?case by (simp add: Let_def length_fill)
qed simp

text \<open>Two paths part by a key when they agree up to an object and then name different keys of it.\<close>

fun parted :: "path_segment list \<Rightarrow> path_segment list \<Rightarrow> bool" where
  "parted (Key k # p) (Key l # q) \<longleftrightarrow> k \<noteq> l \<or> parted p q"
| "parted (Index i # p) (Index j # q) \<longleftrightarrow> i = j \<and> parted p q"
| "parted _ _ \<longleftrightarrow> False"

lemma parted_nonempty: "parted p q \<Longrightarrow> q \<noteq> []"
  by (cases "(p, q)" rule: parted.cases) auto

lemma get_null: "q \<noteq> [] \<Longrightarrow> get_path JNull q = None"
  by (cases "(JNull, q)" rule: get_path.cases) auto

lemma get_set_parted: "parted p q \<Longrightarrow> get_path (set_path v p x) q = get_path v q"
proof (induction p q arbitrary: v rule: parted.induct)
  case (1 k p l q)
  show ?case
  proof (cases "k = l")
    case True
    then have "parted p q" "q \<noteq> []"
      using 1(2) parted_nonempty by auto
    then show ?thesis
      using True 1(1) by (auto simp: Let_def map_of_insert object_of_def get_null split: json.splits option.splits)
  qed (auto simp: Let_def map_of_insert object_of_def split: json.splits option.splits)
next
  case (2 i p j q)
  then have p: "i = j" "parted p q" "q \<noteq> []"
    using parted_nonempty by auto
  then have "get_path (set_path w p x) q = get_path w q" for w
    using 2(1) by blast
  then show ?case
    using p by (auto simp: Let_def length_fill fill_to_def array_of_def nth_append get_null split: json.splits)
qed simp_all

subsection \<open>Removing\<close>

lemma map_insert_same: "sorted_map m \<Longrightarrow> map_of m k = Some w \<Longrightarrow> map_insert k w m = m"
  by (induction m) (auto simp: sorted_map_def dest!: map_of_SomeD split: if_splits)

lemma remove_path_result: "snd (remove_path v p) \<longleftrightarrow> p \<noteq> [] \<and> get_path v p \<noteq> None"
  by (induction v p rule: remove_path.induct)
     (auto split: json.splits option.splits prod.splits simp: Let_def)

fun sorted_json :: "'n json \<Rightarrow> bool" where
  "sorted_json (JArray a) = list_all sorted_json a"
| "sorted_json (JObject m) = (sorted_map m \<and> list_all (\<lambda>(k, w). sorted_json w) m)"
| "sorted_json _ = True"

text \<open>A remove that finds nothing leaves the document as it was.\<close>

lemma remove_absent:
  "sorted_json v \<Longrightarrow> get_path v p = None \<Longrightarrow> fst (remove_path v p) = v"
proof (induction v p rule: remove_path.induct)
  case (2 v k)
  then show ?case by (auto split: json.splits option.splits simp: delete_id map_of_eq_None_iff)
next
  case (3 v i)
  then show ?case by (auto split: json.splits)
next
  case (4 v k s rest)
  show ?case
  proof (cases v)
    case (JObject m)
    show ?thesis
    proof (cases "map_of m k")
      case (Some w)
      then have "sorted_json w" "get_path w (s # rest) = None"
        using 4(2,3) JObject by (auto simp: list_all_iff dest: map_of_SomeD)
      then have "fst (remove_path w (s # rest)) = w"
        using 4(1) JObject Some by blast
      then show ?thesis
        using JObject Some 4(2) by (simp add: Let_def map_insert_same)
    qed (use JObject in simp)
  qed simp_all
next
  case (5 v i s rest)
  then show ?case
    by (auto split: json.splits prod.splits simp: Let_def list_all_iff)
qed simp

lemma get_remove_parted: "parted p q \<Longrightarrow> get_path (fst (remove_path v p)) q = get_path v q"
proof (induction v p arbitrary: q rule: remove_path.induct)
  case (2 v k)
  then show ?case
    by (cases "([Key k], q)" rule: parted.cases)
      (auto split: json.splits simp: delete_conv map_of_delete)
next
  case (3 v i)
  then show ?case by (cases "([Index i], q)" rule: parted.cases) auto
next
  case (4 v k s rest)
  obtain l q' where q: "q = Key l # q'" "k \<noteq> l \<or> parted (s # rest) q'"
    using 4(2) by (cases "(Key k # s # rest, q)" rule: parted.cases) auto
  show ?case
  proof (cases v)
    case (JObject m)
    then show ?thesis
      using q 4(1)[of m _ q'] by (auto simp: Let_def map_of_insert split: option.splits prod.splits)
  qed (use q in simp_all)
next
  case (5 v i s rest)
  obtain q' where q: "q = Index i # q'" "parted (s # rest) q'"
    using 5(2) by (cases "(Index i # s # rest, q)" rule: parted.cases) auto
  show ?case
  proof (cases v)
    case (JArray a)
    then show ?thesis
      using q 5(1)[of a q'] by (auto simp: Let_def split: prod.splits)
  qed (use q in simp_all)
qed simp

subsection \<open>Array lengths\<close>

text \<open>No array of the document is longer than \<open>n\<close>.\<close>

fun arrays_within :: "nat \<Rightarrow> 'n json \<Rightarrow> bool" where
  "arrays_within n (JArray a) = (length a \<le> n \<and> list_all (arrays_within n) a)"
| "arrays_within n (JObject m) = list_all (\<lambda>(k, w). arrays_within n w) m"
| "arrays_within n _ = True"

definition index_within :: "nat \<Rightarrow> path_segment \<Rightarrow> bool" where
  "index_within n s = (case s of Index i \<Rightarrow> i < n | Key _ \<Rightarrow> True)"

lemma arrays_within_insert:
  "arrays_within n w \<Longrightarrow> arrays_within n (JObject m) \<Longrightarrow> arrays_within n (JObject (map_insert k w m))"
  by (auto simp: list_all_iff dest!: set_map_insert)

lemma arrays_within_fill:
  "i < n \<Longrightarrow> arrays_within n (JArray a) \<Longrightarrow> arrays_within n (JArray (fill_to i a))"
  by (auto simp: fill_to_def list_all_iff)

lemma arrays_within_update:
  "arrays_within n (JArray a) \<Longrightarrow> arrays_within n w \<Longrightarrow> arrays_within n (JArray (a[i := w]))"
  by (auto simp: list_all_iff dest!: set_update_subset_insert[THEN subsetD])

lemma set_path_within:
  "arrays_within n v \<Longrightarrow> arrays_within n x \<Longrightarrow> list_all (index_within n) p \<Longrightarrow> arrays_within n (set_path v p x)"
proof (induction v p x rule: set_path.induct)
  case (2 v k rest x)
  let ?m = "object_of v"
  have m: "arrays_within n (JObject ?m)"
    using 2(2) by (cases v) (simp_all add: object_of_def)
  then have "arrays_within n (case map_of ?m k of None \<Rightarrow> JNull | Some w \<Rightarrow> w)"
    by (auto simp: list_all_iff dest: map_of_SomeD split: option.splits)
  then have "arrays_within n (set_path (case map_of ?m k of None \<Rightarrow> JNull | Some w \<Rightarrow> w) rest x)"
    using 2 by simp
  then show ?case
    using arrays_within_insert[OF _ m] by (simp add: Let_def)
next
  case (3 v i rest x)
  let ?a = "fill_to i (array_of v)"
  have i: "i < n"
    using 3(4) by (simp add: index_within_def)
  have "arrays_within n (JArray (array_of v))"
    using 3(2) by (cases v) (simp_all add: array_of_def)
  then have a: "arrays_within n (JArray ?a)"
    using arrays_within_fill[OF i] by blast
  moreover have "i < length ?a"
    by (simp add: length_fill)
  ultimately have "arrays_within n (?a ! i)"
    by (auto simp: list_all_iff)
  then have "arrays_within n (set_path (?a ! i) rest x)"
    using 3 by simp
  then show ?case
    using arrays_within_update[OF a] by (simp add: Let_def)
qed simp

lemma remove_path_within: "arrays_within n v \<Longrightarrow> arrays_within n (fst (remove_path v p))"
proof (induction v p rule: remove_path.induct)
  case (2 v k)
  then show ?case
    by (cases v) (auto simp: list_all_iff AList.delete_eq)
next
  case (3 v i)
  then show ?case
    by (cases v) (auto simp: list_all_iff dest: in_set_takeD in_set_dropD)
next
  case (4 v k s rest)
  show ?case
  proof (cases v)
    case (JObject m)
    show ?thesis
    proof (cases "map_of m k")
      case (Some w)
      then have "arrays_within n w"
        using 4(2) JObject by (auto simp: list_all_iff dest: map_of_SomeD)
      then have "arrays_within n (fst (remove_path w (s # rest)))"
        using 4(1) JObject Some by simp
      then show ?thesis
        using JObject Some arrays_within_insert 4(2) by (auto simp: Let_def simp del: arrays_within.simps split: prod.splits)
    qed (use JObject 4(2) in simp)
  qed (use 4(2) in simp_all)
next
  case (5 v i s rest)
  show ?case
  proof (cases v)
    case (JArray a)
    show ?thesis
    proof (cases "i < length a")
      case True
      then have "arrays_within n (a ! i)"
        using 5(2) JArray by (auto simp: list_all_iff)
      then have "arrays_within n (fst (remove_path (a ! i) (s # rest)))"
        using 5(1) JArray True by simp
      then show ?thesis
        using JArray True arrays_within_update 5(2) by (auto simp: Let_def simp del: arrays_within.simps split: prod.splits)
    qed (use JArray 5(2) in simp)
  qed (use 5(2) in simp_all)
qed simp

section \<open>Printed paths\<close>

text \<open>A dotted part: a key, possibly empty, and its indices.\<close>

type_synonym path_part = "string \<times> nat list"

definition show_index :: "nat \<Rightarrow> string" where
  "show_index i = ''['' @ nat_str i @ '']''"

definition show_part :: "path_part \<Rightarrow> string" where
  "show_part g = fst g @ concat (map show_index (snd g))"

definition show_path :: "path_part list \<Rightarrow> string" where
  "show_path gs = join_str ''.'' (map show_part gs)"

definition part_segments :: "path_part \<Rightarrow> path_segment list" where
  "part_segments g = (if fst g = [] then [] else [Key (fst g)]) @ map Index (snd g)"

definition plain_part :: "path_part \<Rightarrow> bool" where
  "plain_part g \<longleftrightarrow>
     (fst g \<noteq> [] \<or> snd g \<noteq> []) \<and> CHR ''.'' \<notin> set (fst g) \<and> CHR ''['' \<notin> set (fst g) \<and>
     list_all (\<lambda>i. i \<le> max_index) (snd g)"

lemma nat_str_plain: "c \<in> set (nat_str n) \<Longrightarrow> c \<noteq> CHR ''.'' \<and> c \<noteq> CHR '']'' \<and> c \<noteq> CHR ''[''"
  using nat_str_digits[of n] by (auto simp: list_all_iff is_ascii_digit_def byte_def)

lemma parse_indices_show:
  "list_all (\<lambda>i. i \<le> max_index) idx \<Longrightarrow> parse_indices (concat (map show_index idx)) = Inr (map Index idx)"
proof (induction idx)
  case Nil
  then show ?case by (simp add: parse_indices.simps)
next
  case (Cons i idx)
  let ?t = "concat (map show_index idx)"
  have f: "find_char CHR '']'' ((CHR ''['' # nat_str i) @ CHR '']'' # ?t) = Some (Suc (length (nat_str i)))"
    by (subst find_char_append) (auto dest: nat_str_plain)
  have "parse_unsigned max_index (nat_str i) = Some i"
    using Cons.prems by (simp add: parse_unsigned_nat_str)
  then show ?case
    using Cons f by (subst parse_indices.simps) (simp add: show_index_def[of i])
qed

lemma parse_dotted_show: "plain_part g \<Longrightarrow> parse_dotted (show_part g) = Inr (part_segments g)"
proof -
  assume g: "plain_part g"
  obtain k idx where k: "g = (k, idx)" by fastforce
  have kb: "CHR ''['' \<notin> set k" and ok: "list_all (\<lambda>i. i \<le> max_index) idx" and ne: "k \<noteq> [] \<or> idx \<noteq> []"
    using g k by (simp_all add: plain_part_def)
  show ?thesis
  proof (cases idx)
    case Nil
    then have "find_char CHR ''['' k = None"
      using kb by (simp add: find_char_none)
    then show ?thesis
      using Nil ne k by (simp add: parse_dotted_def show_part_def part_segments_def)
  next
    case (Cons i js)
    have e: "k @ concat (map show_index idx) = k @ CHR ''['' # (nat_str i @ '']'' @ concat (map show_index js))"
      by (simp add: Cons show_index_def)
    have f: "find_char CHR ''['' (k @ concat (map show_index idx)) = Some (length k)"
      unfolding e by (rule find_char_append[OF kb])
    have "k @ concat (map show_index idx) \<noteq> []"
      by (simp add: e)
    then show ?thesis
      using f parse_indices_show[OF ok] k by (simp add: parse_dotted_def show_part_def part_segments_def)
  qed
qed

lemma show_part_plain: "plain_part g \<Longrightarrow> c \<in> set (show_part g) \<Longrightarrow> c \<noteq> CHR ''.''"
  by (auto simp: plain_part_def show_part_def show_index_def dest: nat_str_plain split: if_splits)

lemma show_part_nonempty: "plain_part g \<Longrightarrow> show_part g \<noteq> []"
  by (cases "snd g") (auto simp: plain_part_def show_part_def show_index_def)

lemma map_res_all: "(\<And>x. x \<in> set xs \<Longrightarrow> f (g x) = Inr (h x)) \<Longrightarrow> map_res f (map g xs) = Inr (map h xs)"
  by (induction xs) simp_all

lemma parse_show_path:
  assumes "gs \<noteq> []" "list_all plain_part gs"
  shows "parse_path (show_path gs) = Inr (concat (map part_segments gs))"
proof -
  have s: "split_on (\<lambda>c. c = CHR ''.'') (show_path gs) = map show_part gs"
    unfolding show_path_def
    by (rule split_on_join) (use assms show_part_plain in \<open>auto simp: list_all_iff\<close>)
  have m: "map_res parse_dotted (map show_part gs) = Inr (map part_segments gs)"
    by (rule map_res_all) (use assms parse_dotted_show in \<open>auto simp: list_all_iff\<close>)
  have "show_path gs \<noteq> []"
    unfolding show_path_def
    by (rule join_str_nonempty) (use assms show_part_nonempty in \<open>auto simp: list_all_iff last_map\<close>)
  moreover have "concat (map part_segments gs) \<noteq> []"
    using assms by (cases gs) (auto simp: part_segments_def plain_part_def)
  ultimately show ?thesis
    by (simp add: parse_path_def s m)
qed

text \<open>A closing bracket outside an index is part of the key, although the comment on \<open>parse_path\<close> lists an
  unmatched bracket of either kind as an error.\<close>

lemma unmatched_close_is_a_key: "parse_path ''a]'' = Inr [Key ''a]'']"
  by code_simp

section \<open>Documents as an interface\<close>

text \<open>What the rewriting rules rely on: a value that was set is read back, and an edit leaves alone what
  parts from it by a key.\<close>

datatype ('p, 'v) edit = SetAt 'p 'v | RemoveAt 'p

locale keyed_document =
  fixes get :: "'d \<Rightarrow> 'p \<Rightarrow> 'v option"
    and put :: "'d \<Rightarrow> 'p \<Rightarrow> 'v \<Rightarrow> 'd"
    and remove :: "'d \<Rightarrow> 'p \<Rightarrow> 'd"
    and apart :: "'p \<Rightarrow> 'p \<Rightarrow> bool"
  assumes get_put: "get (put d p x) p = Some x"
    and get_put_apart: "apart p q \<Longrightarrow> get (put d p x) q = get d q"
    and get_remove_apart: "apart p q \<Longrightarrow> get (remove d p) q = get d q"
begin

primrec run_edit :: "('p, 'v) edit \<Rightarrow> 'd \<Rightarrow> 'd" where
  "run_edit (SetAt p x) d = put d p x"
| "run_edit (RemoveAt p) d = remove d p"

primrec edit_at :: "('p, 'v) edit \<Rightarrow> 'p" where
  "edit_at (SetAt p x) = p"
| "edit_at (RemoveAt p) = p"

lemma edit_apart: "apart (edit_at e) q \<Longrightarrow> get (run_edit e d) q = get d q"
  by (cases e) (simp_all add: get_put_apart get_remove_apart)

lemma edits_apart: "(\<And>e. e \<in> set es \<Longrightarrow> apart (edit_at e) q) \<Longrightarrow> get (fold run_edit es d) q = get d q"
  by (induction es arbitrary: d) (simp_all add: edit_apart)

lemma put_survives:
  "(\<And>e. e \<in> set es \<Longrightarrow> apart (edit_at e) p) \<Longrightarrow> get (fold run_edit es (put d p x)) p = Some x"
  by (simp add: edits_apart get_put)

end

interpretation doc: keyed_document get_path set_path "\<lambda>d p. fst (remove_path d p)" parted
  by unfold_locales (simp_all add: get_set_same get_set_parted get_remove_parted)

end
