(* ===== verification/Launch_Proxy.thy ===== *)
theory Launch_Proxy
  imports Proxy_Path Mcp_Urls Shell
begin

text \<open>
  The local API proxy of \<open>llmenv launch\<close>, \<open>src/launch/proxy.rs\<close>: the rewriting rules on headers and body,
  the check of the peer token, and the forwarding of one request.  The HTTP, JSON, regular expression and
  URL libraries are the functions of a record.  Main results: what a set rule wrote is still there after the
  later rules, the token comparison is equality, and when and how a request reaches the upstream.
\<close>

section \<open>Rules\<close>

datatype proxy_target = HeaderTarget string | BodyTarget string

datatype proxy_condition_target = HeaderCond string | BodyCond "string option"

datatype 'n proxy_op = OpSet "'n json" | OpRemove | OpStrip string bool

datatype 'n proxy_check = CheckMissing | CheckPresent | CheckEquals "'n json" | CheckMatches string bool

record 'n proxy_condition =
  pc_target :: proxy_condition_target
  pc_check :: "'n proxy_check"

record 'n proxy_rule =
  pr_target :: proxy_target
  pr_op :: "'n proxy_op"
  pr_when :: "'n proxy_condition list"

section \<open>Libraries\<close>

text \<open>A header map is the list of its pairs; names are in the normal form of \<open>HeaderName\<close>.\<close>

type_synonym headers = "(string \<times> string) list"

record target_url = url_parts +
  tu_userinfo :: string
  tu_path :: string
  tu_query :: "string option"

text \<open>
  \<open>HeaderName::try_from\<close>, whether \<open>HeaderValue::try_from\<close> and \<open>to_str\<close> succeed, \<open>Regex::new\<close> with its
  test and its removal of all matches, \<open>serde_json::to_string\<close>, the display of a value, \<open>from_slice\<close>, and
  what \<open>Url::set_path\<close> and \<open>Url::set_query\<close> store.
\<close>

record 'n proxy_lib =
  pl_header_name :: "string \<Rightarrow> string option"
  pl_header_value :: "string \<Rightarrow> bool"
  pl_visible :: "string \<Rightarrow> bool"
  pl_regex :: "string \<Rightarrow> ((string \<Rightarrow> bool) \<times> (string \<Rightarrow> string)) option"
  pl_to_string :: "'n json \<Rightarrow> string option"
  pl_display :: "'n json \<Rightarrow> string"
  pl_from_slice :: "string \<Rightarrow> 'n json option"
  pl_set_path :: "target_url \<Rightarrow> string \<Rightarrow> string"
  pl_set_query :: "target_url \<Rightarrow> string option \<Rightarrow> string option"

definition header_get :: "'n proxy_lib \<Rightarrow> headers \<Rightarrow> string \<Rightarrow> string option" where
  "header_get lib hs name = Option.bind (pl_header_name lib name) (map_of hs)"

definition header_str :: "'n proxy_lib \<Rightarrow> headers \<Rightarrow> string \<Rightarrow> string option" where
  "header_str lib hs name =
     (case header_get lib hs name of
        Some v \<Rightarrow> if pl_visible lib v then Some v else None
      | None \<Rightarrow> None)"

text \<open>\<open>HeaderMap::insert\<close> replaces every value of the name.\<close>

fun header_insert :: "string \<Rightarrow> string \<Rightarrow> headers \<Rightarrow> headers" where
  "header_insert n v [] = [(n, v)]"
| "header_insert n v ((m, w) # hs) =
     (if m = n then (n, v) # filter (\<lambda>h. fst h \<noteq> n) hs else (m, w) # header_insert n v hs)"

definition header_remove :: "'n proxy_lib \<Rightarrow> string \<Rightarrow> headers \<Rightarrow> headers" where
  "header_remove lib name hs =
     (case pl_header_name lib name of None \<Rightarrow> hs | Some n \<Rightarrow> filter (\<lambda>h. fst h \<noteq> n) hs)"

text \<open>\<open>str::contains\<close>, and \<open>str::replace\<close> with nothing: the matches from the left, none overlapping.\<close>

fun contains_str :: "string \<Rightarrow> string \<Rightarrow> bool" where
  "contains_str p [] \<longleftrightarrow> p = []"
| "contains_str p (c # cs) \<longleftrightarrow> starts_with (c # cs) p \<or> contains_str p cs"

function drop_matches :: "string \<Rightarrow> string \<Rightarrow> string" where
  "drop_matches p s =
     (if p = [] \<or> s = [] then s
      else if starts_with s p then drop_matches p (drop (length p) s)
      else hd s # drop_matches p (tl s))"
  by pat_completeness auto
termination
  by (relation "measure (\<lambda>(p, s). length s)") auto

declare drop_matches.simps [simp del]

section \<open>Applying the rules\<close>

definition matches_pattern :: "'n proxy_lib \<Rightarrow> string \<Rightarrow> bool \<Rightarrow> string \<Rightarrow> bool" where
  "matches_pattern lib pattern is_regex t =
     (if is_regex then (case pl_regex lib pattern of Some re \<Rightarrow> fst re t | None \<Rightarrow> False)
      else contains_str pattern t)"

fun check_matches_str :: "'n proxy_lib \<Rightarrow> 'n proxy_check \<Rightarrow> string option \<Rightarrow> bool" where
  "check_matches_str lib CheckMissing v = (v = None)"
| "check_matches_str lib CheckPresent v = (v \<noteq> None)"
| "check_matches_str lib (CheckEquals expected) v =
     (case v of None \<Rightarrow> False | Some s \<Rightarrow> (case json_str expected of None \<Rightarrow> False | Some e \<Rightarrow> e = s))"
| "check_matches_str lib (CheckMatches pattern rx) v =
     (case v of None \<Rightarrow> False | Some s \<Rightarrow> matches_pattern lib pattern rx s)"

fun check_matches_value :: "'n proxy_lib \<Rightarrow> 'n proxy_check \<Rightarrow> 'n json option \<Rightarrow> bool" where
  "check_matches_value lib CheckMissing found = (found = None)"
| "check_matches_value lib CheckPresent found = (found \<noteq> None)"
| "check_matches_value lib (CheckEquals expected) found = (found = Some expected)"
| "check_matches_value lib (CheckMatches pattern rx) found =
     (case found of
        None \<Rightarrow> False
      | Some w \<Rightarrow> matches_pattern lib pattern rx (case json_str w of Some s \<Rightarrow> s | None \<Rightarrow> pl_display lib w))"

definition condition_matches :: "'n proxy_lib \<Rightarrow> 'n proxy_condition \<Rightarrow> headers \<Rightarrow> 'n json \<Rightarrow> bool" where
  "condition_matches lib cond hs body =
     (case pc_target cond of
        HeaderCond name \<Rightarrow> check_matches_str lib (pc_check cond) (header_str lib hs name)
      | BodyCond None \<Rightarrow>
          (case pl_to_string lib body of
             None \<Rightarrow> False
           | Some serialized \<Rightarrow> check_matches_str lib (pc_check cond) (Some serialized))
      | BodyCond (Some path) \<Rightarrow>
          (case parse_path path of
             Inl _ \<Rightarrow> False
           | Inr segments \<Rightarrow> check_matches_value lib (pc_check cond) (get_path body segments)))"

definition strip_pattern :: "'n proxy_lib \<Rightarrow> string \<Rightarrow> bool \<Rightarrow> string \<Rightarrow> string" where
  "strip_pattern lib pattern is_regex t =
     (if is_regex then (case pl_regex lib pattern of Some re \<Rightarrow> snd re t | None \<Rightarrow> t)
      else drop_matches pattern t)"

definition apply_body_op :: "'n proxy_lib \<Rightarrow> string \<Rightarrow> 'n proxy_op \<Rightarrow> 'n json \<Rightarrow> 'n json" where
  "apply_body_op lib path op body =
     (case parse_path path of
        Inl _ \<Rightarrow> body
      | Inr segments \<Rightarrow>
          (case op of
             OpSet value \<Rightarrow> set_path body segments value
           | OpRemove \<Rightarrow> fst (remove_path body segments)
           | OpStrip pattern rx \<Rightarrow>
               (case Option.bind (get_path body segments) json_str of
                  None \<Rightarrow> body
                | Some current \<Rightarrow> set_path body segments (JString (strip_pattern lib pattern rx current)))))"

definition apply_header_op :: "'n proxy_lib \<Rightarrow> string \<Rightarrow> 'n proxy_op \<Rightarrow> headers \<Rightarrow> headers" where
  "apply_header_op lib name op hs =
     (case op of
        OpSet value \<Rightarrow>
          (case json_str value of
             None \<Rightarrow> hs
           | Some s \<Rightarrow>
               (case pl_header_name lib name of
                  None \<Rightarrow> hs
                | Some n \<Rightarrow> if pl_header_value lib s then header_insert n s hs else hs))
      | OpRemove \<Rightarrow> header_remove lib name hs
      | OpStrip pattern rx \<Rightarrow>
          (case pl_header_name lib name of
             None \<Rightarrow> hs
           | Some n \<Rightarrow>
               (case header_str lib hs name of
                  None \<Rightarrow> hs
                | Some current \<Rightarrow>
                    (let stripped = strip_pattern lib pattern rx current in
                     if pl_header_value lib stripped then header_insert n stripped hs else hs))))"

definition apply_op :: "'n proxy_lib \<Rightarrow> 'n proxy_rule \<Rightarrow> headers \<times> 'n json \<Rightarrow> headers \<times> 'n json" where
  "apply_op lib r hb =
     (case pr_target r of
        HeaderTarget name \<Rightarrow> (apply_header_op lib name (pr_op r) (fst hb), snd hb)
      | BodyTarget path \<Rightarrow> (fst hb, apply_body_op lib path (pr_op r) (snd hb)))"

definition rule_fires :: "'n proxy_lib \<Rightarrow> 'n proxy_rule \<Rightarrow> headers \<times> 'n json \<Rightarrow> bool" where
  "rule_fires lib r hb = list_all (\<lambda>c. condition_matches lib c (fst hb) (snd hb)) (pr_when r)"

fun apply_rules :: "'n proxy_lib \<Rightarrow> 'n proxy_rule list \<Rightarrow> headers \<times> 'n json \<Rightarrow> headers \<times> 'n json" where
  "apply_rules lib [] hb = hb"
| "apply_rules lib (r # rs) hb = apply_rules lib rs (if rule_fires lib r hb then apply_op lib r hb else hb)"

section \<open>One request\<close>

definition peer_auth_header :: string where "peer_auth_header = ''x-llmenv-launch-proxy-token''"

definition max_request_body_bytes :: int where "max_request_body_bytes = 64 * 1024 * 1024"

definition as_bytes :: "string \<Rightarrow> 8 word list" where
  "as_bytes s = map (\<lambda>c. word_of_nat (byte c)) s"

definition constant_time_eq :: "8 word list \<Rightarrow> 8 word list \<Rightarrow> bool" where
  "constant_time_eq a b =
     (if length a \<noteq> length b then False
      else foldl (\<lambda>acc (x, y). or acc (xor x y)) 0 (zip a b) = 0)"

definition peer_authorized :: "'n proxy_lib \<Rightarrow> headers \<Rightarrow> string \<Rightarrow> bool" where
  "peer_authorized lib hs token =
     (case header_str lib hs peer_auth_header of
        None \<Rightarrow> False
      | Some v \<Rightarrow> constant_time_eq (as_bytes v) (as_bytes token))"

definition eq_ignore_ascii_case :: "string \<Rightarrow> string \<Rightarrow> bool" where
  "eq_ignore_ascii_case a b \<longleftrightarrow> map to_ascii_lower a = map to_ascii_lower b"

definition hop_header :: "string \<Rightarrow> bool" where
  "hop_header name \<longleftrightarrow>
     name \<in> set [''host'', ''content-length'', ''connection'', ''transfer-encoding'', ''te'', ''upgrade'',
                 ''proxy-authorization''] \<or>
     eq_ignore_ascii_case name ''keep-alive'' \<or> eq_ignore_ascii_case name peer_auth_header"

definition forwarded_headers :: "'n proxy_lib \<Rightarrow> headers \<Rightarrow> headers" where
  "forwarded_headers lib hs = filter (\<lambda>h. \<not> hop_header (fst h) \<and> pl_visible lib (snd h)) hs"

datatype incoming_body = BodyBytes string | BodyBroken

record proxy_request =
  pq_method :: string
  pq_path :: string
  pq_query :: "string option"
  pq_headers :: headers
  pq_body :: incoming_body

record outgoing =
  og_method :: string
  og_url :: target_url
  og_headers :: headers
  og_body :: string

text \<open>The upstream's answer; a chunk that failed to arrive is \<open>None\<close>.\<close>

record upstream_reply =
  ur_status :: nat
  ur_headers :: headers
  ur_chunks :: "string option list"

datatype refusal = PeerAuth | ReadBody | NotJson | DoubleSlash | Reserialize | UpstreamFailed

datatype proxy_response = Refused nat refusal | Relayed nat headers "string list"

definition trim_end_slash :: "string \<Rightarrow> string" where
  "trim_end_slash s = rev (dropWhile (\<lambda>c. c = CHR ''/'') (rev s))"

definition target_of :: "'n proxy_lib \<Rightarrow> target_url \<Rightarrow> proxy_request \<Rightarrow> target_url" where
  "target_of lib upstream req =
     (let u = upstream\<lparr>tu_path := pl_set_path lib upstream (trim_end_slash (tu_path upstream) @ pq_path req)\<rparr> in
      u\<lparr>tu_query := pl_set_query lib u (pq_query req)\<rparr>)"

text \<open>The body that the rules see: nothing is \<open>null\<close>.\<close>

definition read_body :: "'n proxy_lib \<Rightarrow> incoming_body \<Rightarrow> refusal + 'n json" where
  "read_body lib b =
     (case b of
        BodyBroken \<Rightarrow> Inl ReadBody
      | BodyBytes s \<Rightarrow>
          if max_request_body_bytes < int (length s) then Inl ReadBody
          else if s = [] then Inr JNull
          else (case pl_from_slice lib s of None \<Rightarrow> Inl NotJson | Some v \<Rightarrow> Inr v))"

definition rewrite :: "'n proxy_lib \<Rightarrow> target_url \<Rightarrow> 'n proxy_rule list \<Rightarrow> proxy_request \<Rightarrow> refusal + outgoing" where
  "rewrite lib upstream rules req =
     seqR (read_body lib (pq_body req)) (\<lambda>json_body.
     let hb = apply_rules lib rules (pq_headers req, json_body) in
     if starts_with (pq_path req) ''//'' then Inl DoubleSlash
     else case pl_to_string lib (snd hb) of
            None \<Rightarrow> Inl Reserialize
          | Some bytes \<Rightarrow>
              Inr \<lparr>og_method = pq_method req, og_url = target_of lib upstream req,
                   og_headers = forwarded_headers lib (fst hb), og_body = bytes\<rparr>)"

definition relay :: "upstream_reply \<Rightarrow> proxy_response" where
  "relay r = Relayed (ur_status r) (ur_headers r) (List.map_filter (\<lambda>c. c) (ur_chunks r))"

text \<open>What was sent to the upstream, if anything, and the response to the caller.\<close>

definition handle ::
  "'n proxy_lib \<Rightarrow> target_url \<Rightarrow> 'n proxy_rule list \<Rightarrow> string \<Rightarrow> (outgoing \<Rightarrow> upstream_reply option) \<Rightarrow>
   proxy_request \<Rightarrow> outgoing option \<times> proxy_response" where
  "handle lib upstream rules token send req =
     (if \<not> peer_authorized lib (pq_headers req) token then (None, Refused 401 PeerAuth)
      else case rewrite lib upstream rules req of
             Inl e \<Rightarrow> (None, Refused 400 e)
           | Inr out \<Rightarrow>
               (Some out, case send out of None \<Rightarrow> Refused 502 UpstreamFailed | Some r \<Rightarrow> relay r))"

section \<open>The token\<close>

lemma as_bytes_inj: "as_bytes a = as_bytes b \<longleftrightarrow> a = b"
proof -
  have "inj (\<lambda>c. word_of_nat (byte c) :: 8 word)"
  proof (rule injI)
    fix c d assume "word_of_nat (byte c) = (word_of_nat (byte d) :: 8 word)"
    then have "unat (word_of_nat (byte c) :: 8 word) = unat (word_of_nat (byte d) :: 8 word)"
      by simp
    moreover have "byte c < 256" "byte d < 256"
      by (simp_all add: byte_def)
    ultimately have "byte c = byte d"
      by (simp add: unat_of_nat)
    then show "c = d"
      by (simp add: byte_def)
  qed
  then show ?thesis
    unfolding as_bytes_def by (simp add: inj_map_eq_map)
qed

lemma or_eq_0: "or a b = 0 \<longleftrightarrow> a = 0 \<and> b = (0 :: 8 word)"
  by (auto simp: bit_eq_iff bit_or_iff)

lemma xor_eq_0: "xor a b = 0 \<longleftrightarrow> a = (b :: 8 word)"
  by (auto simp: bit_eq_iff bit_xor_iff)

lemma fold_difference:
  "length a = length b \<Longrightarrow>
   foldl (\<lambda>acc (x, y). or acc (xor x y)) d (zip a b) = 0 \<longleftrightarrow> d = 0 \<and> a = (b :: 8 word list)"
  by (induction a b arbitrary: d rule: list_induct2) (auto simp: or_eq_0 xor_eq_0)

lemma constant_time_eq_iff: "constant_time_eq a b \<longleftrightarrow> a = b"
  by (auto simp: constant_time_eq_def fold_difference)

lemma peer_authorized_iff: "peer_authorized lib hs token \<longleftrightarrow> header_str lib hs peer_auth_header = Some token"
  by (auto simp: peer_authorized_def constant_time_eq_iff as_bytes_inj split: option.splits)

section \<open>The rules\<close>

lemma apply_rules_append: "apply_rules lib (rs @ ss) hb = apply_rules lib ss (apply_rules lib rs hb)"
  by (induction rs arbitrary: hb) simp_all

lemma strip_absent: "Option.bind (get_path body segs) json_str = None \<Longrightarrow> parse_path p = Inr segs \<Longrightarrow>
  apply_body_op lib p (OpStrip pat rx) body = body"
  by (simp add: apply_body_op_def)

text \<open>A rule on the body is at most one edit of the document, at the path of the rule.\<close>

lemma body_op_edit:
  "parse_path p = Inr segs \<Longrightarrow>
   apply_body_op lib p op body = body \<or>
   (\<exists>e. doc.edit_at e = segs \<and> apply_body_op lib p op body = doc.run_edit e body)"
proof (cases op)
  case (OpSet x)
  assume "parse_path p = Inr segs"
  then have "doc.edit_at (SetAt segs x) = segs \<and> apply_body_op lib p op body = doc.run_edit (SetAt segs x) body"
    by (simp add: OpSet apply_body_op_def)
  then show ?thesis by blast
next
  case OpRemove
  assume "parse_path p = Inr segs"
  then have "doc.edit_at (RemoveAt segs) = segs \<and> apply_body_op lib p op body = doc.run_edit (RemoveAt segs) body"
    by (simp add: OpRemove apply_body_op_def)
  then show ?thesis by blast
next
  case (OpStrip pat rx)
  assume p: "parse_path p = Inr segs"
  show ?thesis
  proof (cases "Option.bind (get_path body segs) json_str")
    case None
    then show ?thesis using p OpStrip strip_absent by blast
  next
    case (Some s)
    let ?e = "SetAt segs (JString (strip_pattern lib pat rx s))"
    have "doc.edit_at ?e = segs \<and> apply_body_op lib p op body = doc.run_edit ?e body"
      using Some p OpStrip by (simp add: apply_body_op_def)
    then show ?thesis by blast
  qed
qed

text \<open>The rule leaves the value at \<open>q\<close> alone: it is on a header, its path does not parse, or parts from \<open>q\<close>.\<close>

definition leaves_alone :: "path_segment list \<Rightarrow> 'n proxy_rule \<Rightarrow> bool" where
  "leaves_alone q r =
     (case pr_target r of
        HeaderTarget _ \<Rightarrow> True
      | BodyTarget p \<Rightarrow> (case parse_path p of Inl _ \<Rightarrow> True | Inr segs \<Rightarrow> parted segs q))"

lemma body_op_unparsed: "parse_path p = Inl e \<Longrightarrow> apply_body_op lib p op body = body"
  by (simp add: apply_body_op_def)

lemma body_op_apart:
  assumes "parse_path p = Inr segs" "parted segs q"
  shows "get_path (apply_body_op lib p op body) q = get_path body q"
  using body_op_edit[OF assms(1), of lib op body] doc.edit_apart assms(2) by metis

lemma apply_op_apart: "leaves_alone q r \<Longrightarrow> get_path (snd (apply_op lib r hb)) q = get_path (snd hb) q"
  by (auto simp: leaves_alone_def apply_op_def body_op_apart body_op_unparsed split: proxy_target.splits sum.splits)

lemma apply_rules_apart:
  "list_all (leaves_alone q) rs \<Longrightarrow> get_path (snd (apply_rules lib rs hb)) q = get_path (snd hb) q"
  by (induction rs arbitrary: hb) (simp_all add: apply_op_apart)

text \<open>Headers: a rule touches the header it names, and no other.\<close>

lemma map_of_filter_other: "m \<noteq> n \<Longrightarrow> map_of (filter (\<lambda>h. fst h \<noteq> n) hs) m = map_of hs m"
  by (induction hs) auto

lemma map_of_header_insert: "map_of (header_insert n v hs) = (map_of hs)(n \<mapsto> v)"
  by (induction n v hs rule: header_insert.induct) (auto simp: fun_eq_iff map_of_filter_other)

lemma apply_header_other:
  "pl_header_name lib name \<noteq> Some m \<Longrightarrow> map_of (apply_header_op lib name op hs) m = map_of hs m"
  by (auto simp: apply_header_op_def header_remove_def map_of_header_insert map_of_filter_other Let_def
      split: proxy_op.splits option.splits)

section \<open>Bounds\<close>

definition rule_within :: "nat \<Rightarrow> 'n proxy_rule \<Rightarrow> bool" where
  "rule_within n r \<longleftrightarrow>
     (case pr_target r of
        HeaderTarget _ \<Rightarrow> True
      | BodyTarget p \<Rightarrow> (case parse_path p of Inl _ \<Rightarrow> True | Inr segs \<Rightarrow> list_all (index_within n) segs)) \<and>
     (case pr_op r of OpSet x \<Rightarrow> arrays_within n x | _ \<Rightarrow> True)"

lemma body_op_within:
  assumes "parse_path p = Inr segs" "list_all (index_within n) segs" "arrays_within n body"
    "\<And>x. op = OpSet x \<Longrightarrow> arrays_within n x"
  shows "arrays_within n (apply_body_op lib p op body)"
  using assms by (cases op) (simp_all add: apply_body_op_def set_path_within remove_path_within split: option.split)

lemma apply_op_within:
  assumes "rule_within n r" "arrays_within n (snd hb)"
  shows "arrays_within n (snd (apply_op lib r hb))"
proof (cases "pr_target r")
  case (HeaderTarget name)
  then show ?thesis using assms by (simp add: apply_op_def)
next
  case (BodyTarget p)
  show ?thesis
  proof (cases "parse_path p")
    case (Inl e)
    then show ?thesis using assms BodyTarget by (simp add: apply_op_def body_op_unparsed)
  next
    case (Inr segs)
    then have "list_all (index_within n) segs" "\<And>x. pr_op r = OpSet x \<Longrightarrow> arrays_within n x"
      using assms(1) BodyTarget by (simp_all add: rule_within_def)
    then have "arrays_within n (apply_body_op lib p (pr_op r) (snd hb))"
      by (rule body_op_within[OF Inr _ assms(2)])
    then show ?thesis
      using BodyTarget by (simp add: apply_op_def)
  qed
qed

lemma apply_rules_within:
  "list_all (rule_within n) rs \<Longrightarrow> arrays_within n (snd hb) \<Longrightarrow> arrays_within n (snd (apply_rules lib rs hb))"
  by (induction rs arbitrary: hb) (simp_all add: apply_op_within)

section \<open>Forwarding\<close>

lemma handle_sent:
  "fst (handle lib upstream rules token send req) = Some out \<longleftrightarrow>
   peer_authorized lib (pq_headers req) token \<and> rewrite lib upstream rules req = Inr out"
  by (auto simp: handle_def split: sum.splits)

lemma rewrite_ok:
  "rewrite lib upstream rules req = Inr out \<longleftrightarrow>
   (\<exists>v bytes. read_body lib (pq_body req) = Inr v \<and> \<not> starts_with (pq_path req) ''//'' \<and>
      pl_to_string lib (snd (apply_rules lib rules (pq_headers req, v))) = Some bytes \<and>
      out = \<lparr>og_method = pq_method req, og_url = target_of lib upstream req,
             og_headers = forwarded_headers lib (fst (apply_rules lib rules (pq_headers req, v))), og_body = bytes\<rparr>)"
  by (cases "read_body lib (pq_body req)") (auto simp: rewrite_def Let_def split: option.splits)

lemma target_keeps_upstream:
  "up_scheme (target_of lib u req) = up_scheme u \<and> up_host (target_of lib u req) = up_host u \<and>
   up_port (target_of lib u req) = up_port u \<and> tu_userinfo (target_of lib u req) = tu_userinfo u"
  by (simp add: target_of_def Let_def)

lemma forwarded_safe: "h \<in> set (forwarded_headers lib hs) \<Longrightarrow> \<not> hop_header (fst h) \<and> h \<in> set hs"
  by (simp add: forwarded_headers_def)

end
