(* ===== verification/Validate_Names.thy ===== *)
theory Validate_Names
  imports Launch_Proxy Nudges Bundles Mcp_Resolve
begin

text \<open>
  The checks on single values of \<open>config.yaml\<close>: \<open>crates/llmenv-config/src/validate.rs\<close> (names and folders),
  \<open>validate/permissions.rs\<close>, \<open>validate/scope_match.rs\<close>, \<open>validate/widgets.rs\<close>, the reference helpers of
  \<open>schema.rs\<close> and \<open>expand_env_refs\<close> of \<open>llmenv-util\<close>.  Main results: which rule texts still balance once they
  are wrapped, what an expanded reference looks like, and that a hostname that passes has no wildcard.
\<close>

section \<open>Names and folders\<close>

definition is_ascii_alphabetic :: "char \<Rightarrow> bool" where
  "is_ascii_alphabetic c \<longleftrightarrow> is_ascii_upper c \<or> is_ascii_lower c"

definition is_var_char :: "char \<Rightarrow> bool" where
  "is_var_char c \<longleftrightarrow> is_ascii_alphanumeric c \<or> c = CHR ''_''"

definition is_valid_var_name :: "string \<Rightarrow> bool" where
  "is_valid_var_name name =
     (case name of
        [] \<Rightarrow> False
      | first # _ \<Rightarrow> (is_ascii_alphabetic first \<or> first = CHR ''_'') \<and> list_all is_var_char name)"

definition is_safe_state_subdir :: "string \<Rightarrow> bool" where
  "is_safe_state_subdir subdir =
     (if subdir = [] \<or> subdir = ''.'' \<or> subdir = ''..'' then False
      else CHR ''/'' \<notin> set subdir \<and> CHR 0x5C \<notin> set subdir \<and> CHR '':'' \<notin> set subdir \<and>
           CHR 0x00 \<notin> set subdir)"

definition is_safe_cache_dir :: "string \<Rightarrow> bool" where
  "is_safe_cache_dir dir =
     (if dir = [] \<or> 4096 < int (length dir) then False
      else CHR 0x00 \<notin> set dir \<and> \<not> has_parent_component dir)"

section \<open>Variable references\<close>

function expand_env_refs :: "(string \<Rightarrow> string option) \<Rightarrow> string \<Rightarrow> string option" where
  "expand_env_refs env [] = Some []"
| "expand_env_refs env (c # cs) =
     (if c \<noteq> CHR ''$'' then map_option (\<lambda>out. c # out) (expand_env_refs env cs)
      else
        (let braced = starts_with cs ''{'';
             rest = (if braced then drop 1 cs else cs);
             name = takeWhile is_var_char rest;
             after = drop (length name) rest in
         if name = [] \<or> braced \<and> \<not> starts_with after ''}'' then None
         else case env name of
                None \<Rightarrow> None
              | Some v \<Rightarrow>
                  if v = [] then None
                  else map_option (\<lambda>out. v @ out) (expand_env_refs env (if braced then drop 1 after else after))))"
  by pat_completeness auto
termination
  by (relation "measure (\<lambda>(env, s). length s)") (auto simp: Let_def)

definition allowed_root_shape_is_valid :: "string \<Rightarrow> bool" where
  "allowed_root_shape_is_valid root0 =
     (let root = trim root0 in
      case (case root of
              CHR ''~'' # after \<Rightarrow> if after = [] \<or> starts_with after ''/'' then Some after else None
            | _ \<Rightarrow> Some root) of
        None \<Rightarrow> False
      | Some rest \<Rightarrow>
          if \<not> (starts_with root ''/'' \<or> starts_with root ''~'' \<or> starts_with root ''$'') then False
          else expand_env_refs (\<lambda>_. Some ''x'') rest \<noteq> None)"

section \<open>Parentheses\<close>

fun balanced_from :: "int \<Rightarrow> bool \<Rightarrow> string \<Rightarrow> bool" where
  "balanced_from depth prev_was_escape [] \<longleftrightarrow> depth = 0"
| "balanced_from depth prev_was_escape (c # cs) \<longleftrightarrow>
     (if prev_was_escape then balanced_from depth False cs
      else if c = CHR 0x5C then balanced_from depth True cs
      else if c = CHR ''('' then balanced_from (depth + 1) False cs
      else if c = CHR '')'' then (if depth - 1 < 0 then False else balanced_from (depth - 1) False cs)
      else balanced_from depth False cs)"

definition has_balanced_parens :: "string \<Rightarrow> bool" where
  "has_balanced_parens s = balanced_from 0 False s"

section \<open>Scope matches\<close>

definition is_valid_cidr :: "(string \<Rightarrow> bool) \<Rightarrow> string \<Rightarrow> bool" where
  "is_valid_cidr is_ipnet cidr =
     (case split_once CHR ''/'' cidr of
        None \<Rightarrow> False
      | Some (addr, _) \<Rightarrow>
          (let ipv4_leading_zero = CHR '':'' \<notin> set addr \<and>
                 list_ex (\<lambda>octet. 1 < length octet \<and> starts_with octet ''0'') (split_on (\<lambda>c. c = CHR ''.'') addr) in
           \<not> ipv4_leading_zero \<and> is_ipnet cidr))"

definition hex_value :: "char \<Rightarrow> nat" where
  "hex_value c =
     (if is_ascii_digit c then byte c - 48 else if is_ascii_lower c then byte c - 87 else byte c - 55)"

text \<open>Whether \<open>u8::from_str_radix(digits, 16)\<close> succeeds.\<close>

definition is_hex_u8 :: "string \<Rightarrow> bool" where
  "is_hex_u8 digits =
     (let d = (if starts_with digits ''+'' then drop 1 digits else digits) in
      d \<noteq> [] \<and> list_all is_hex d \<and> foldl (\<lambda>n c. 16 * n + hex_value c) 0 d < 256)"

definition is_valid_mac_address :: "string \<Rightarrow> bool" where
  "is_valid_mac_address mac =
     (let parts = split_on (\<lambda>c. c = CHR '':'') mac in
      length parts = 6 \<and> list_all (\<lambda>octet. 1 \<le> length octet \<and> length octet \<le> 2 \<and> is_hex_u8 octet) parts)"

definition is_valid_label :: "string \<Rightarrow> bool" where
  "is_valid_label label \<longleftrightarrow>
     label \<noteq> [] \<and> length label \<le> 63 \<and> \<not> starts_with label ''-'' \<and> \<not> ends_with label ''-'' \<and>
     list_all (\<lambda>c. is_ascii_alphanumeric c \<or> c = CHR ''-'') label"

definition is_valid_hostname :: "string \<Rightarrow> bool" where
  "is_valid_hostname hostname =
     (if hostname = [] \<or> 253 < int (length hostname) then False
      else list_all is_valid_label (split_on (\<lambda>c. c = CHR ''.'') hostname))"

text \<open>Whether \<open>str::parse\<close> reads an \<open>IpAddr\<close>: a dotted quad or an IPv6 literal, to the end of the text.\<close>

definition is_ip_addr :: "string \<Rightarrow> bool" where
  "is_ip_addr s = (case read_v4 s of Some rest \<Rightarrow> rest = [] | None \<Rightarrow> is_ipv6_literal s)"

section \<open>References to plugins and repositories\<close>

definition split_plugin_ref :: "string \<Rightarrow> (string \<times> string) option" where
  "split_plugin_ref s =
     (case split_once CHR '':'' s of
        None \<Rightarrow> None
      | Some (marketplace, plugin) \<Rightarrow>
          if marketplace = [] \<or> plugin = [] \<or> CHR '':'' \<in> set plugin then None
          else Some (marketplace, plugin))"

definition reserved_official_marketplaces :: "string list" where
  "reserved_official_marketplaces =
     [''claude-plugins-official'', ''claude-code-plugins'', ''claude-code-marketplace'',
      ''anthropic-marketplace'', ''anthropic-plugins'']"

definition official_marketplace_owner :: string where "official_marketplace_owner = ''anthropics''"

definition is_reserved_official_marketplace :: "string \<Rightarrow> bool" where
  "is_reserved_official_marketplace name \<longleftrightarrow> name \<in> set reserved_official_marketplaces"

definition github_prefixes :: "string list" where
  "github_prefixes = [''https://github.com/'', ''http://github.com/'', ''ssh://git@github.com/'',
     ''git://github.com/'', ''git@github.com:'']"

fun strip_first_prefix :: "string list \<Rightarrow> string \<Rightarrow> string option" where
  "strip_first_prefix [] s = None"
| "strip_first_prefix (p # ps) s = (case strip_prefix s p of Some r \<Rightarrow> Some r | None \<Rightarrow> strip_first_prefix ps s)"

definition github_owner_repo :: "string \<Rightarrow> (string \<times> string) option" where
  "github_owner_repo source0 =
     Option.bind (strip_first_prefix github_prefixes source0) (\<lambda>rest.
     case split_on (\<lambda>c. c = CHR ''/'') (trim_end_slash rest) of
       owner # repo0 # _ \<Rightarrow>
         if owner = [] \<or> repo0 = [] then None
         else (let repo = (case strip_suffix repo0 ''.git'' of Some r \<Rightarrow> r | None \<Rightarrow> repo0) in
               if repo = [] then None else Some (owner, repo))
     | _ \<Rightarrow> None)"

section \<open>Widgets\<close>

definition widget_display_presets :: "(string \<times> string list) list" where
  "widget_display_presets =
     [(''usage_5h'', [''clock_24h'', ''clock_12h'']), (''usage_7d'', [''clock_24h'', ''clock_12h'']),
      (''model'', [''short'', ''version'', ''full'']), (''pr'', [''number'', ''url''])]"

definition widget_display_ok :: "string \<Rightarrow> string \<Rightarrow> bool" where
  "widget_display_ok widget v =
     (case map_of widget_display_presets widget of None \<Rightarrow> True | Some allowed \<Rightarrow> v \<in> set allowed)"

section \<open>Laws of the parentheses\<close>

text \<open>The scan of the front of a text: the depth and the escape flag it leaves, none if a closing
  parenthesis came too early.\<close>

fun scan :: "int \<Rightarrow> bool \<Rightarrow> string \<Rightarrow> (int \<times> bool) option" where
  "scan d e [] = Some (d, e)"
| "scan d e (c # cs) =
     (if e then scan d False cs
      else if c = CHR 0x5C then scan d True cs
      else if c = CHR ''('' then scan (d + 1) False cs
      else if c = CHR '')'' then (if d - 1 < 0 then None else scan (d - 1) False cs)
      else scan d False cs)"

lemma balanced_scan: "balanced_from d e s \<longleftrightarrow> (case scan d e s of None \<Rightarrow> False | Some r \<Rightarrow> fst r = 0)"
  by (induction d e s rule: balanced_from.induct) simp_all

lemma scan_append: "scan d e (s @ t) = (case scan d e s of None \<Rightarrow> None | Some (d', e') \<Rightarrow> scan d' e' t)"
  by (induction d e s rule: scan.induct) auto

lemma scan_nonneg: "0 \<le> d \<Longrightarrow> scan d e s = Some (d', e') \<Longrightarrow> 0 \<le> d'"
  by (induction d e s rule: scan.induct) (auto split: if_splits)

text \<open>A text that is scanned one level deeper: either the same text on the outer level, or it closes a
  parenthesis that it did not open.\<close>

lemma scan_deeper: "scan d e s = Some (d', e') \<Longrightarrow> scan (d + 1) e s = Some (d' + 1, e')"
  by (induction d e s rule: scan.induct) (auto split: if_splits simp: algebra_simps)

text \<open>The last character is a backslash that escapes nothing.\<close>

definition dangling :: "string \<Rightarrow> bool" where
  "dangling s \<longleftrightarrow> (case scan 0 False s of Some (d, e) \<Rightarrow> e | None \<Rightarrow> False)"

definition plain_name :: "string \<Rightarrow> bool" where
  "plain_name tool \<longleftrightarrow> list_all (\<lambda>c. c \<noteq> CHR 0x5C \<and> c \<noteq> CHR ''('' \<and> c \<noteq> CHR '')'') tool"

lemma scan_plain: "plain_name tool \<Longrightarrow> scan d False tool = Some (d, False)"
  by (induction tool) (simp_all add: plain_name_def)

text \<open>A value that passes still balances as \<open>Tool(value)\<close> unless it ends in such a backslash.\<close>

lemma wrapped_balance:
  assumes "plain_name tool" "has_balanced_parens v"
  shows "has_balanced_parens (tool @ ''('' @ v @ '')'') \<longleftrightarrow> \<not> dangling v"
proof -
  obtain e where e: "scan 0 False v = Some (0, e)"
    using assms(2) by (auto simp: has_balanced_parens_def balanced_scan split: option.splits)
  have "scan 0 False (tool @ ''('' @ v @ '')'') = (if e then Some (1, False) else Some (0, False))"
    using scan_deeper[OF e] by (simp add: scan_append scan_plain[OF assms(1)])
  then show ?thesis
    using e by (simp add: has_balanced_parens_def balanced_scan dangling_def)
qed

section \<open>Laws of the references\<close>

lemma expand_no_dollar:
  "CHR ''$'' \<notin> set s \<Longrightarrow> expand_env_refs env s = Some s"
  by (induction s) auto

text \<open>The pieces of a text: plain text, and a reference with or without braces.\<close>

datatype piece = Plain string | Ref string bool

definition show_piece :: "piece \<Rightarrow> string" where
  "show_piece p = (case p of Plain s \<Rightarrow> s | Ref n b \<Rightarrow> if b then ''${'' @ n @ ''}'' else ''$'' @ n)"

definition piece_value :: "(string \<Rightarrow> string option) \<Rightarrow> piece \<Rightarrow> string option" where
  "piece_value env p =
     (case p of
        Plain s \<Rightarrow> Some s
      | Ref n b \<Rightarrow> (case env n of None \<Rightarrow> None | Some v \<Rightarrow> if v = [] then None else Some v))"

fun pieces_value :: "(string \<Rightarrow> string option) \<Rightarrow> piece list \<Rightarrow> string option" where
  "pieces_value env [] = Some []"
| "pieces_value env (p # ps) =
     (case piece_value env p of None \<Rightarrow> None | Some v \<Rightarrow> map_option (\<lambda>out. v @ out) (pieces_value env ps))"

text \<open>Plain text has no dollar sign, a name is not empty, and a name without braces ends where the next
  piece cannot go on with it.\<close>

fun well_cut :: "piece list \<Rightarrow> bool" where
  "well_cut [] \<longleftrightarrow> True"
| "well_cut (Plain s # ps) \<longleftrightarrow> CHR ''$'' \<notin> set s \<and> well_cut ps"
| "well_cut (Ref n b # ps) \<longleftrightarrow>
     n \<noteq> [] \<and> list_all is_var_char n \<and>
     (b \<or> (case concat (map show_piece ps) of [] \<Rightarrow> True | c # _ \<Rightarrow> \<not> is_var_char c)) \<and> well_cut ps"

lemma take_name:
  "list_all is_var_char n \<Longrightarrow> (case r of [] \<Rightarrow> True | c # _ \<Rightarrow> \<not> is_var_char c) \<Longrightarrow> takeWhile is_var_char (n @ r) = n"
  by (induction n) (auto split: list.splits)

lemma expand_plain:
  "CHR ''$'' \<notin> set s \<Longrightarrow> expand_env_refs env (s @ t) = map_option (\<lambda>out. s @ out) (expand_env_refs env t)"
  by (cases "expand_env_refs env t"; induction s) auto

lemma var_char_not_brace: "\<not> is_var_char (CHR ''{'')" "\<not> is_var_char (CHR ''}'')"
  by (simp_all add: is_var_char_def is_ascii_alphanumeric_def is_ascii_digit_def is_ascii_upper_def
      is_ascii_lower_def byte_def)

lemma name_no_brace: "n \<noteq> [] \<Longrightarrow> list_all is_var_char n \<Longrightarrow> \<not> starts_with (n @ r) ''{''"
  using var_char_not_brace(1) by (cases n) (auto simp: starts_with_def)

lemma expand_ref:
  assumes "n \<noteq> []" "list_all is_var_char n" "b \<or> (case r of [] \<Rightarrow> True | c # _ \<Rightarrow> \<not> is_var_char c)"
  shows "expand_env_refs env (show_piece (Ref n b) @ r) =
    (case piece_value env (Ref n b) of None \<Rightarrow> None | Some v \<Rightarrow> map_option (\<lambda>out. v @ out) (expand_env_refs env r))"
proof (cases b)
  case True
  have "takeWhile is_var_char (n @ CHR ''}'' # r) = n"
    by (rule take_name[OF assms(2)]) (simp add: var_char_not_brace)
  then show ?thesis
    using True assms(1)
    by (simp add: show_piece_def piece_value_def Let_def starts_with_def split: option.split)
next
  case False
  then have "takeWhile is_var_char (n @ r) = n"
    using take_name assms(2,3) by blast
  then show ?thesis
    using False assms(1) name_no_brace[OF assms(1,2)]
    by (simp add: show_piece_def piece_value_def Let_def split: option.split)
qed

lemma expand_pieces: "well_cut ps \<Longrightarrow> expand_env_refs env (concat (map show_piece ps)) = pieces_value env ps"
proof (induction ps rule: well_cut.induct)
  case (2 s ps)
  then show ?case by (simp add: show_piece_def piece_value_def expand_plain)
next
  case (3 n b ps)
  then have "expand_env_refs env (show_piece (Ref n b) @ concat (map show_piece ps)) =
    (case piece_value env (Ref n b) of None \<Rightarrow> None
     | Some v \<Rightarrow> map_option (\<lambda>out. v @ out) (expand_env_refs env (concat (map show_piece ps))))"
    by (intro expand_ref) simp_all
  moreover have "expand_env_refs env (concat (map show_piece ps)) = pieces_value env ps"
    using 3 by simp
  ultimately show ?case by (simp split: option.split)
qed simp

section \<open>Laws of the names\<close>

lemma split_once_some: "split_once c s = Some (a, b) \<longleftrightarrow> s = a @ c # b \<and> c \<notin> set a"
proof (induction s arbitrary: a)
  case (Cons x s)
  show ?case
  proof (cases "x = c")
    case True
    then show ?thesis by (cases a) auto
  next
    case False
    then show ?thesis using Cons by (cases a) auto
  qed
qed simp

lemma plugin_ref_exact:
  "split_plugin_ref s = Some (m, p) \<longleftrightarrow>
   s = m @ '':'' @ p \<and> m \<noteq> [] \<and> p \<noteq> [] \<and> CHR '':'' \<notin> set m \<and> CHR '':'' \<notin> set p"
proof
  assume "split_plugin_ref s = Some (m, p)"
  then have "split_once CHR '':'' s = Some (m, p)" "m \<noteq> []" "p \<noteq> []" "CHR '':'' \<notin> set p"
    by (auto simp: split_plugin_ref_def split: option.splits if_splits)
  then show "s = m @ '':'' @ p \<and> m \<noteq> [] \<and> p \<noteq> [] \<and> CHR '':'' \<notin> set m \<and> CHR '':'' \<notin> set p"
    by (simp add: split_once_some)
next
  assume r: "s = m @ '':'' @ p \<and> m \<noteq> [] \<and> p \<noteq> [] \<and> CHR '':'' \<notin> set m \<and> CHR '':'' \<notin> set p"
  then have "split_once CHR '':'' s = Some (m, p)"
    by (simp add: split_once_some)
  then show "split_plugin_ref s = Some (m, p)"
    using r by (simp add: split_plugin_ref_def)
qed

lemma split_on_covers: "c \<in> set s \<Longrightarrow> \<not> p c \<Longrightarrow> \<exists>w \<in> set (split_on p s). c \<in> set w"
  by (induction s) (auto split: list.splits)

lemma star_not_in_label: "is_valid_label w \<Longrightarrow> CHR ''*'' \<notin> set w"
proof -
  have "\<not> is_ascii_alphanumeric (CHR ''*'')"
    by (simp add: is_ascii_alphanumeric_def is_ascii_digit_def is_ascii_upper_def is_ascii_lower_def byte_def)
  then show "is_valid_label w \<Longrightarrow> CHR ''*'' \<notin> set w"
    by (auto simp: is_valid_label_def list_all_iff)
qed

lemma hostname_no_star: "is_valid_hostname h \<Longrightarrow> CHR ''*'' \<notin> set h"
  using split_on_covers[of "CHR ''*''" h "\<lambda>c. c = CHR ''.''"] star_not_in_label
  by (fastforce simp: is_valid_hostname_def list_all_iff split: if_splits)

lemma lower_star: "to_ascii_lower c = CHR ''*'' \<longleftrightarrow> c = CHR ''*''"
proof -
  have "byte (CHR ''*'') = 42" by code_simp
  moreover have "to_ascii_lower c = c \<or> byte (to_ascii_lower c) = byte c + 32 \<and> is_ascii_upper c"
    by (auto simp: to_ascii_lower_def is_ascii_upper_def)
  moreover have "\<not> is_ascii_upper (CHR ''*'')" by code_simp
  ultimately show ?thesis
    by (auto simp: is_ascii_upper_def to_ascii_lower_def)
qed

lemma lower_no_star: "is_valid_hostname h \<Longrightarrow> CHR ''*'' \<notin> set (to_lower h)"
  using hostname_no_star[of h] by (auto simp: to_lower_def lower_star[symmetric] image_iff) (metis lower_star)

end
