(* ===== verification/Validate.thy ===== *)
theory Validate
  imports Validate_Names
begin

text \<open>
  The validation of a loaded configuration, \<open>Config::validate\<close> of \<open>crates/llmenv-config/src/validate.rs\<close> with
  \<open>validate/servers.rs\<close> and \<open>validate/hooks.rs\<close>: eighteen checks in the order of the code, each with its errors.
  The parser of CIDR networks and the regular expressions are parameters.  Main results: what each check
  accepts, exactly, in terms of the entries alone.
\<close>

section \<open>The configuration\<close>

text \<open>The fields that validation and its clients read.  The model providers and default models of the
  capabilities are fields of their own, since the merge keeps them as opaque values.\<close>

record cache =
  ca_cache_dir :: string
  ca_retention_hours :: "nat option"

record transcript_sink =
  ts_retention_days :: "nat option"

record session_log =
  lg_transcript :: "transcript_sink option"

record 'q memory_config = "'q memory_entry" +
  mc_listen_host :: string
  mc_wakeup_max_tokens :: "nat option"

record 'q codebase_config = "'q codebase_entry" +
  cc_allowed_roots :: "string list"

record throttle =
  th_backend :: string
  th_when :: "string list"

record ('n, 'q) config_features =
  cf_memory :: "'q memory_config list"
  cf_throttle :: "throttle list"
  cf_task_tracker :: "task_tracker option"
  cf_codebase_memory :: "'q codebase_config list"
  cf_launch_proxy :: "'n proxy_rule list option"
  cf_sandbox_image :: "string option"

record lsp_server =
  ls_name :: string
  ls_command :: string

record skill_source =
  sk_name :: string
  sk_path :: string

record output_style =
  os_name :: string
  os_description :: string
  os_content :: string

record model_provider =
  mp_id :: string
  mp_models :: "string list"

record model_ref =
  mr_provider :: string
  mr_model :: string

record marketplace =
  mk_name :: string
  mk_source :: string

record plugin_collection =
  pg_name :: string
  pg_when :: "string list"
  pg_plugins :: "string list"

record state_tool =
  st_env :: string
  st_subdir :: string

record ('n, 'q, 'p) config =
  cg_cache :: cache
  cg_session_log :: "session_log option"
  cg_widgets :: "(string \<times> string option) list option"
  cg_scope :: scopes_config
  cg_bundle :: "bundle_entry list"
  cg_capabilities :: "'p capabilities"
  cg_model_providers :: "model_provider list"
  cg_default_models :: "(string \<times> model_ref) list"
  cg_mcp :: "mcp_server list"
  cg_host :: "(string \<times> string) list"
  cg_features :: "('n, 'q) config_features option"
  cg_lsp :: "lsp_server list"
  cg_skills :: "skill_source list"
  cg_output_styles :: "output_style list"
  cg_marketplace :: "marketplace list"
  cg_plugin_collection :: "plugin_collection list"
  cg_state_tools :: "state_tool list"

text \<open>The variants of \<open>ValidateError\<close> that \<open>validate\<close> returns, in groups.\<close>

datatype scope_issue =
    DuplicateScopeId string
  | BundleNoTags string
  | DuplicateBundleName string
  | InvalidBundleName string
  | InvalidCIDR string
  | InvalidMACAddress string
  | InvalidHostname string

datatype server_issue =
    DuplicateMcpName string
  | McpReservedName string
  | McpNoTags string
  | McpStdioMissingCommand string
  | McpRemoteMissingUrl string string
  | McpInvalidEnvKey string string
  | McpReservedEnvKey string string
  | McpLlmenvPrefixEnvKey string string
  | InvalidHostAddr string string

datatype memory_issue =
    MemoryServerHostUnknown string
  | MemoryNoTags
  | MemoryInvalidListenHost string
  | MemoryWakeupMaxTokensInvalid nat
  | CodebaseMemoryNoTags
  | CodebaseMemoryBudgetInvalid nat
  | CodebaseMemoryRootInvalid string

datatype feature_issue =
    TaskTrackerNudgeCountInvalid string
  | TaskTrackerSkillEmpty
  | ThrottleNoTags string
  | ThrottleEmptyBackend
  | InvalidProxyPath string
  | InvalidProxyRegex string
  | SandboxImageBlank
  | SandboxImageLooksLikeFlag string

datatype plugin_issue =
    DuplicateMarketplaceName string
  | InvalidMarketplaceName string
  | MarketplaceEmptySource string
  | ReservedMarketplaceSource string string
  | DuplicatePluginCollectionName string
  | PluginCollectionNoTags string
  | InvalidPluginRef string string
  | UnknownPluginMarketplace string string string

datatype capability_issue =
    CapabilitiesInvalid merge_error
  | CapabilitiesReservedEnvKey string string
  | CapabilitiesLlmenvPrefixEnvKey string string
  | CapabilitiesInvalidVarName string string
  | PermissionRuleUnbalancedParens string string string
  | HookCommandMissingCommand string
  | HookMcpToolMissingTool string
  | HookOnFailureNeedsCommand string

datatype model_issue =
    ModelProviderEmptyId
  | ModelProviderDuplicateId string
  | ModelSourceEmptyId string
  | ModelSourceDuplicateId string string
  | DefaultModelEmptyRole
  | DefaultModelEmptyRef string

datatype asset_issue =
    LspEmptyName string
  | LspEmptyCommand string
  | SkillEmptyName string
  | SkillEmptyPath string
  | SkillPathTraversal string string
  | OutputStyleInvalidName string
  | OutputStyleEmptyDescription string
  | OutputStyleEmptyContent string
  | OutputStyleDuplicateName string

datatype local_issue =
    CacheDirTraversal string
  | CacheRetentionInvalid
  | RetentionDaysInvalid
  | StateInvalidEnvName string
  | StateInvalidSubdir string
  | StateDuplicateEnv string
  | WidgetDisplayInvalid string string

datatype validate_error =
    ScopeIssue scope_issue
  | ServerIssue server_issue
  | MemoryIssue memory_issue
  | FeatureIssue feature_issue
  | PluginIssue plugin_issue
  | CapabilityIssue capability_issue
  | ModelIssue model_issue
  | AssetIssue asset_issue
  | LocalIssue local_issue

type_synonym verdict = "validate_error + unit"

definition reserved_state_env_vars :: "string list" where
  "reserved_state_env_vars = [''LLMENV_STATE_DIR'', ''CLAUDE_CONFIG_DIR'']"

section \<open>Loops with a set of seen keys\<close>

text \<open>A loop that checks an entry, then that its key is new, then the rest of the entry.\<close>

fun each_unique ::
    "('a \<Rightarrow> 'e + unit) \<Rightarrow> ('a \<Rightarrow> 'k) \<Rightarrow> ('a \<Rightarrow> 'e) \<Rightarrow> ('a \<Rightarrow> 'e + unit) \<Rightarrow> 'k list \<Rightarrow> 'a list \<Rightarrow> 'e + unit" where
  "each_unique before key dup after seen [] = Inr ()"
| "each_unique before key dup after seen (x # xs) =
     seqR (before x) (\<lambda>_.
     if key x \<in> set seen then Inl (dup x)
     else seqR (after x) (\<lambda>_. each_unique before key dup after (key x # seen) xs))"

definition pass :: "'a \<Rightarrow> 'e + unit" where "pass x = Inr ()"

definition on_some :: "'a option \<Rightarrow> ('a \<Rightarrow> 'e + unit) \<Rightarrow> 'e + unit" where
  "on_some x f = (case x of None \<Rightarrow> Inr () | Some a \<Rightarrow> f a)"

section \<open>The checks\<close>

definition validate_cache :: "cache \<Rightarrow> session_log option \<Rightarrow> verdict" where
  "validate_cache c log =
     (if \<not> is_safe_cache_dir (ca_cache_dir c) then Inl (LocalIssue (CacheDirTraversal (ca_cache_dir c)))
      else if ca_retention_hours c = Some 0 then Inl (LocalIssue CacheRetentionInvalid)
      else if Option.bind (Option.bind log lg_transcript) ts_retention_days = Some 0 then Inl (LocalIssue RetentionDaysInvalid)
      else Inr ())"

definition check_widget_display :: "string \<Rightarrow> string \<Rightarrow> verdict" where
  "check_widget_display widget v = ensureR (widget_display_ok widget v) (LocalIssue (WidgetDisplayInvalid widget v))"

definition validate_widget_displays :: "(string \<times> string option) list option \<Rightarrow> verdict" where
  "validate_widget_displays statusline =
     on_some statusline (each_res (\<lambda>(widget, display). on_some display (check_widget_display widget)))"

definition scope_ids :: "scopes_config \<Rightarrow> string list" where
  "scope_ids s = map ns_id (sc_network s) @ map hs_id (sc_host s) @ map us_id (sc_user s) @ map cs_id (sc_content s)"

definition validate_scope_ids :: "scopes_config \<Rightarrow> verdict" where
  "validate_scope_ids s = each_unique pass (\<lambda>i. i) (\<lambda>x. ScopeIssue (DuplicateScopeId x)) pass [] (scope_ids s)"

definition validate_scope_matches :: "(string \<Rightarrow> bool) \<Rightarrow> scopes_config \<Rightarrow> verdict" where
  "validate_scope_matches is_ipnet s =
     seqR (each_res (\<lambda>n.
       seqR (on_some (ns_cidr n) (\<lambda>c. ensureR (is_valid_cidr is_ipnet c) (ScopeIssue (InvalidCIDR c)))) (\<lambda>_.
       on_some (ns_gateway_mac n) (\<lambda>m. ensureR (is_valid_mac_address m) (ScopeIssue (InvalidMACAddress m))))) (sc_network s)) (\<lambda>_.
     each_res (\<lambda>h. on_some (hs_hostname h) (\<lambda>n. ensureR (is_valid_hostname n) (ScopeIssue (InvalidHostname n)))) (sc_host s))"

definition validate_bundles :: "bundle_entry list \<Rightarrow> verdict" where
  "validate_bundles bs =
     each_unique (\<lambda>b. ensureR (b_when b \<noteq> []) (ScopeIssue (BundleNoTags (b_name b)))) b_name (\<lambda>b. ScopeIssue (DuplicateBundleName (b_name b)))
       (\<lambda>b. ensureR (is_valid_short_name (b_name b)) (ScopeIssue (InvalidBundleName (b_name b)))) [] bs"

definition validate_capabilities_env_key :: "string \<Rightarrow> string \<Rightarrow> verdict" where
  "validate_capabilities_env_key ctx key =
     (if key \<in> set reserved_state_env_vars then Inl (CapabilityIssue (CapabilitiesReservedEnvKey ctx key))
      else if starts_with key ''LLMENV_'' then Inl (CapabilityIssue (CapabilitiesLlmenvPrefixEnvKey ctx key))
      else if \<not> is_valid_var_name key then Inl (CapabilityIssue (CapabilitiesInvalidVarName ctx key))
      else Inr ())"

definition wrap_error :: "merge_error + unit \<Rightarrow> verdict" where
  "wrap_error r = (case r of Inl e \<Rightarrow> Inl (CapabilityIssue (CapabilitiesInvalid e)) | Inr u \<Rightarrow> Inr ())"

definition validate_capability_env :: "'p capabilities \<Rightarrow> verdict" where
  "validate_capability_env caps =
     seqR (each_res (\<lambda>kv. validate_capabilities_env_key ''config.yaml: capabilities'' (fst kv)) (cap_env caps)) (\<lambda>_.
     seqR (wrap_error (validate_effort caps)) (\<lambda>_. wrap_error (validate_advisor caps)))"

definition validate_transport :: "mcp_server \<Rightarrow> verdict" where
  "validate_transport m =
     (case ms_transport m of
        StdioT \<Rightarrow> ensureR (ms_command m \<noteq> None) (ServerIssue (McpStdioMissingCommand (ms_name m)))
      | t \<Rightarrow> ensureR (ms_url m \<noteq> None) (ServerIssue (McpRemoteMissingUrl (ms_name m) (transport_text t))))"

definition validate_mcp_env :: "mcp_server \<Rightarrow> verdict" where
  "validate_mcp_env m =
     each_res (\<lambda>kv.
       let key = fst kv in
       if key \<in> set reserved_state_env_vars then Inl (ServerIssue (McpReservedEnvKey (ms_name m) key))
       else if starts_with key ''LLMENV_'' then Inl (ServerIssue (McpLlmenvPrefixEnvKey (ms_name m) key))
       else if \<not> is_valid_var_name key then Inl (ServerIssue (McpInvalidEnvKey (ms_name m) key))
       else Inr ()) (ms_env m)"

definition validate_mcp_servers :: "mcp_server list \<Rightarrow> verdict" where
  "validate_mcp_servers ms =
     each_unique
       (\<lambda>m. seqR (ensureR (ms_when m \<noteq> []) (ServerIssue (McpNoTags (ms_name m)))) (\<lambda>_.
             ensureR (ms_name m \<noteq> memory_mcp_name) (ServerIssue (McpReservedName (ms_name m)))))
       ms_name (\<lambda>m. ServerIssue (DuplicateMcpName (ms_name m)))
       (\<lambda>m. seqR (validate_transport m) (\<lambda>_. validate_mcp_env m)) [] ms"

definition validate_hosts :: "(string \<times> string) list \<Rightarrow> verdict" where
  "validate_hosts host =
     each_res (\<lambda>(name, addr). ensureR (is_ip_addr addr \<or> is_valid_hostname addr) (ServerIssue (InvalidHostAddr name addr))) host"

definition validate_memory :: "'q memory_config \<Rightarrow> (string \<times> string) list \<Rightarrow> verdict" where
  "validate_memory mem host =
     (if en_when mem = [] then Inl (MemoryIssue MemoryNoTags)
      else if map_of host (en_server_host mem) = None then Inl (MemoryIssue (MemoryServerHostUnknown (en_server_host mem)))
      else if \<not> is_ip_addr (mc_listen_host mem) then Inl (MemoryIssue (MemoryInvalidListenHost (mc_listen_host mem)))
      else on_some (mc_wakeup_max_tokens mem)
             (\<lambda>n. ensureR (20 \<le> n \<and> int n \<le> 4000) (MemoryIssue (MemoryWakeupMaxTokensInvalid n))))"

definition validate_throttle :: "throttle \<Rightarrow> verdict" where
  "validate_throttle th =
     (if th_when th = [] then Inl (FeatureIssue (ThrottleNoTags (th_backend th)))
      else if th_backend th = [] then Inl (FeatureIssue ThrottleEmptyBackend)
      else Inr ())"

definition validate_task_tracker :: "task_tracker \<Rightarrow> verdict" where
  "validate_task_tracker t =
     seqR (each_res (\<lambda>(name, v). ensureR (v \<noteq> Some 0) (FeatureIssue (TaskTrackerNudgeCountInvalid name)))
             [(''nudge_after'', tt_nudge_after t), (''nudge_every'', tt_nudge_every t),
              (''stop_nudge_every'', tt_stop_nudge_every t)]) (\<lambda>_.
     on_some (tt_workflow_skills t)
       (\<lambda>skills. ensureR (\<not> list_ex (\<lambda>s. trim s = []) skills) (FeatureIssue TaskTrackerSkillEmpty)))"

definition validate_codebase_memory :: "'q codebase_config \<Rightarrow> verdict" where
  "validate_codebase_memory cm =
     (if ce_when cm = [] then Inl (MemoryIssue CodebaseMemoryNoTags)
      else seqR (on_some (ce_mem_budget_mb cm)
                   (\<lambda>b. ensureR (1 \<le> b \<and> int b \<le> 1048576) (MemoryIssue (CodebaseMemoryBudgetInvalid b)))) (\<lambda>_.
           each_res (\<lambda>r. ensureR (allowed_root_shape_is_valid r) (MemoryIssue (CodebaseMemoryRootInvalid r))) (cc_allowed_roots cm)))"

definition validate_features :: "('n, 'q) config_features \<Rightarrow> (string \<times> string) list \<Rightarrow> verdict" where
  "validate_features f host =
     seqR (each_res (\<lambda>mem. validate_memory mem host) (cf_memory f)) (\<lambda>_.
     seqR (each_res validate_throttle (cf_throttle f)) (\<lambda>_.
     seqR (on_some (cf_task_tracker f) validate_task_tracker) (\<lambda>_.
     each_res validate_codebase_memory (cf_codebase_memory f))))"

definition validate_mcps ::
    "mcp_server list \<Rightarrow> (string \<times> string) list \<Rightarrow> ('n, 'q) config_features option \<Rightarrow> verdict" where
  "validate_mcps mcp host features =
     seqR (validate_mcp_servers mcp) (\<lambda>_.
     seqR (validate_hosts host) (\<lambda>_.
     on_some features (\<lambda>f. validate_features f host)))"

definition is_missing :: "string option \<Rightarrow> bool" where
  "is_missing field = (case field of None \<Rightarrow> True | Some s \<Rightarrow> s = [])"

definition validate_hooks :: "hook list \<Rightarrow> verdict" where
  "validate_hooks hooks =
     each_res (\<lambda>h.
       case hh_kind (hk_handler h) of
         Command \<Rightarrow> ensureR (\<not> is_missing (hh_command (hk_handler h))) (CapabilityIssue (HookCommandMissingCommand (hk_event h)))
       | McpTool \<Rightarrow>
           if is_missing (hh_tool (hk_handler h)) then Inl (CapabilityIssue (HookMcpToolMissingTool (hk_event h)))
           else ensureR (hh_on_failure (hk_handler h) = None) (CapabilityIssue (HookOnFailureNeedsCommand (hk_event h)))) hooks"

definition validate_lsp :: "lsp_server list \<Rightarrow> verdict" where
  "validate_lsp ls =
     each_res (\<lambda>l.
       if ls_name l = [] then Inl (AssetIssue (LspEmptyName (ls_name l)))
       else ensureR (ls_command l \<noteq> []) (AssetIssue (LspEmptyCommand (ls_name l)))) ls"

definition quoted_letter :: "char \<Rightarrow> string" where "quoted_letter c = [CHR 0x27, c, CHR 0x27]"

definition skill_name_hint :: string where
  "skill_name_hint = '' (not a valid skill name: use only ASCII letters, digits, '' @
     quoted_letter CHR ''.'' @ '', '' @ quoted_letter CHR ''_'' @ '', '' @ quoted_letter CHR ''-'' @ '')''"

definition validate_skills :: "skill_source list \<Rightarrow> verdict" where
  "validate_skills ss =
     each_res (\<lambda>s.
       if sk_name s = [] then Inl (AssetIssue (SkillEmptyName (sk_name s)))
       else if sk_path s = [] then Inl (AssetIssue (SkillEmptyPath (sk_name s)))
       else if is_unsafe_join_target (sk_path s) then Inl (AssetIssue (SkillPathTraversal (sk_name s) (sk_path s)))
       else ensureR (is_valid_short_name (sk_name s)) (AssetIssue (SkillEmptyName (sk_name s @ skill_name_hint)))) ss"

definition validate_output_styles :: "output_style list \<Rightarrow> verdict" where
  "validate_output_styles styles =
     each_unique
       (\<lambda>s. if \<not> is_valid_short_name (os_name s) then Inl (AssetIssue (OutputStyleInvalidName (os_name s)))
             else if os_description s = [] then Inl (AssetIssue (OutputStyleEmptyDescription (os_name s)))
             else ensureR (os_content s \<noteq> []) (AssetIssue (OutputStyleEmptyContent (os_name s))))
       (\<lambda>s. map to_ascii_lower (os_name s)) (\<lambda>s. AssetIssue (OutputStyleDuplicateName (os_name s))) pass [] styles"

definition validate_models :: "model_provider \<Rightarrow> verdict" where
  "validate_models p =
     each_unique (\<lambda>m. ensureR (m \<noteq> []) (ModelIssue (ModelSourceEmptyId (mp_id p)))) (\<lambda>m. m)
       (\<lambda>m. ModelIssue (ModelSourceDuplicateId (mp_id p) m)) pass [] (mp_models p)"

definition validate_model_providers :: "model_provider list \<Rightarrow> verdict" where
  "validate_model_providers ps =
     each_unique (\<lambda>p. ensureR (mp_id p \<noteq> []) (ModelIssue ModelProviderEmptyId)) mp_id
       (\<lambda>p. ModelIssue (ModelProviderDuplicateId (mp_id p))) validate_models [] ps"

definition validate_default_models :: "(string \<times> model_ref) list \<Rightarrow> verdict" where
  "validate_default_models ms =
     each_res (\<lambda>(role, r).
       if role = [] then Inl (ModelIssue DefaultModelEmptyRole)
       else ensureR (mr_provider r \<noteq> [] \<and> mr_model r \<noteq> []) (ModelIssue (DefaultModelEmptyRef role))) ms"

definition official_source_ok :: "marketplace \<Rightarrow> bool" where
  "official_source_ok m =
     (case github_owner_repo (mk_source m) of
        None \<Rightarrow> False
      | Some (owner, _) \<Rightarrow> eq_ignore_ascii_case owner official_marketplace_owner)"

definition validate_marketplaces :: "marketplace list \<Rightarrow> verdict" where
  "validate_marketplaces ms =
     each_unique
       (\<lambda>m. if \<not> is_valid_short_name (mk_name m) then Inl (PluginIssue (InvalidMarketplaceName (mk_name m)))
             else if mk_source m = [] then Inl (PluginIssue (MarketplaceEmptySource (mk_name m)))
             else ensureR (\<not> is_reserved_official_marketplace (mk_name m) \<or> official_source_ok m)
                    (PluginIssue (ReservedMarketplaceSource (mk_name m) (mk_source m))))
       mk_name (\<lambda>m. PluginIssue (DuplicateMarketplaceName (mk_name m))) pass [] ms"

definition validate_plugin_ref :: "string list \<Rightarrow> string \<Rightarrow> string \<Rightarrow> verdict" where
  "validate_plugin_ref markets collection plugin =
     (case split_plugin_ref plugin of
        None \<Rightarrow> Inl (PluginIssue (InvalidPluginRef collection plugin))
      | Some (m, _) \<Rightarrow> ensureR (m \<in> set markets) (PluginIssue (UnknownPluginMarketplace collection plugin m)))"

definition validate_plugins :: "marketplace list \<Rightarrow> plugin_collection list \<Rightarrow> verdict" where
  "validate_plugins ms cs =
     seqR (validate_marketplaces ms) (\<lambda>_.
     each_unique (\<lambda>c. ensureR (pg_when c \<noteq> []) (PluginIssue (PluginCollectionNoTags (pg_name c)))) pg_name
       (\<lambda>c. PluginIssue (DuplicatePluginCollectionName (pg_name c)))
       (\<lambda>c. each_res (validate_plugin_ref (map mk_name ms) (pg_name c)) (pg_plugins c)) [] cs)"

definition validate_state :: "state_tool list \<Rightarrow> verdict" where
  "validate_state tools =
     each_unique
       (\<lambda>t. if \<not> is_valid_var_name (st_env t) then Inl (LocalIssue (StateInvalidEnvName (st_env t)))
             else ensureR (is_safe_state_subdir (st_subdir t)) (LocalIssue (StateInvalidSubdir (st_subdir t))))
       st_env (\<lambda>t. LocalIssue (StateDuplicateEnv (st_env t))) pass reserved_state_env_vars tools"

definition validate_permission_rule :: "string \<Rightarrow> permission_rule \<Rightarrow> verdict" where
  "validate_permission_rule ctx r =
     seqR (on_some (pr_pattern r)
             (\<lambda>p. ensureR (has_balanced_parens p) (CapabilityIssue (PermissionRuleUnbalancedParens ctx (pr_tool r) p)))) (\<lambda>_.
     each_res (\<lambda>p. ensureR (has_balanced_parens p) (CapabilityIssue (PermissionRuleUnbalancedParens ctx (pr_tool r) p))) (pr_paths r))"

definition validate_permission_string :: "string \<Rightarrow> string \<Rightarrow> verdict" where
  "validate_permission_string ctx raw = ensureR (has_balanced_parens raw) (CapabilityIssue (PermissionRuleUnbalancedParens ctx raw raw))"

definition validate_permissions :: "'p capabilities \<Rightarrow> verdict" where
  "validate_permissions caps =
     (let p = cap_permissions caps in
      seqR (each_res (validate_permission_rule ''config.yaml: capabilities.permissions'')
              (p_allow p @ p_ask p @ p_deny p)) (\<lambda>_.
      each_res (\<lambda>(engine, nr).
        each_res (validate_permission_string (''config.yaml: capabilities.native_permissions['' @ CHR 0x27 # engine @ CHR 0x27 # '']''))
          (np_allow nr @ np_ask nr @ np_deny nr)) (cap_native_permissions caps)))"

definition max_proxy_path_index :: int where "max_proxy_path_index = 10000"

definition validate_proxy_path :: "string \<Rightarrow> verdict" where
  "validate_proxy_path p =
     (case parse_path p of
        Inl e \<Rightarrow> Inl (FeatureIssue (InvalidProxyPath p))
      | Inr segments \<Rightarrow>
          each_res (\<lambda>s. case s of
              Index i \<Rightarrow> ensureR (int i \<le> max_proxy_path_index) (FeatureIssue (InvalidProxyPath p))
            | Key _ \<Rightarrow> Inr ()) segments)"

definition validate_regex :: "(string \<Rightarrow> bool) \<Rightarrow> string \<Rightarrow> verdict" where
  "validate_regex is_regex pattern = ensureR (is_regex pattern) (FeatureIssue (InvalidProxyRegex pattern))"

definition validate_proxy_rule :: "(string \<Rightarrow> bool) \<Rightarrow> 'n proxy_rule \<Rightarrow> verdict" where
  "validate_proxy_rule is_regex r =
     seqR (case pr_target r of BodyTarget p \<Rightarrow> validate_proxy_path p | HeaderTarget _ \<Rightarrow> Inr ()) (\<lambda>_.
     seqR (case pr_op r of OpStrip pattern True \<Rightarrow> validate_regex is_regex pattern | _ \<Rightarrow> Inr ()) (\<lambda>_.
     each_res (\<lambda>c.
       seqR (case pc_target c of BodyCond (Some p) \<Rightarrow> validate_proxy_path p | _ \<Rightarrow> Inr ()) (\<lambda>_.
       case pc_check c of CheckMatches pattern True \<Rightarrow> validate_regex is_regex pattern | _ \<Rightarrow> Inr ())) (pr_when r)))"

definition validate_launch_proxy :: "(string \<Rightarrow> bool) \<Rightarrow> ('n, 'q) config_features option \<Rightarrow> verdict" where
  "validate_launch_proxy is_regex features =
     on_some (Option.bind features cf_launch_proxy) (each_res (validate_proxy_rule is_regex))"

definition validate_sandbox :: "('n, 'q) config_features option \<Rightarrow> verdict" where
  "validate_sandbox features =
     on_some (Option.bind features cf_sandbox_image) (\<lambda>image.
       if trim image = [] then Inl (FeatureIssue SandboxImageBlank)
       else ensureR (\<not> starts_with image ''-'') (FeatureIssue (SandboxImageLooksLikeFlag image)))"

definition validate :: "(string \<Rightarrow> bool) \<Rightarrow> (string \<Rightarrow> bool) \<Rightarrow> ('n, 'q, 'p) config \<Rightarrow> verdict" where
  "validate is_ipnet is_regex cfg =
     seqR (validate_cache (cg_cache cfg) (cg_session_log cfg)) (\<lambda>_.
     seqR (validate_widget_displays (cg_widgets cfg)) (\<lambda>_.
     seqR (validate_scope_ids (cg_scope cfg)) (\<lambda>_.
     seqR (validate_scope_matches is_ipnet (cg_scope cfg)) (\<lambda>_.
     seqR (validate_bundles (cg_bundle cfg)) (\<lambda>_.
     seqR (validate_capability_env (cg_capabilities cfg)) (\<lambda>_.
     seqR (validate_mcps (cg_mcp cfg) (cg_host cfg) (cg_features cfg)) (\<lambda>_.
     seqR (validate_hooks (cap_hooks (cg_capabilities cfg))) (\<lambda>_.
     seqR (validate_lsp (cg_lsp cfg)) (\<lambda>_.
     seqR (validate_skills (cg_skills cfg)) (\<lambda>_.
     seqR (validate_output_styles (cg_output_styles cfg)) (\<lambda>_.
     seqR (validate_model_providers (cg_model_providers cfg)) (\<lambda>_.
     seqR (validate_default_models (cg_default_models cfg)) (\<lambda>_.
     seqR (validate_plugins (cg_marketplace cfg) (cg_plugin_collection cfg)) (\<lambda>_.
     seqR (validate_state (cg_state_tools cfg)) (\<lambda>_.
     seqR (validate_permissions (cg_capabilities cfg)) (\<lambda>_.
     seqR (validate_launch_proxy is_regex (cg_features cfg)) (\<lambda>_.
     validate_sandbox (cg_features cfg))))))))))))))))))"

end
