(* ===== verification/Validate_Laws.thy ===== *)
theory Validate_Laws
  imports Validate
begin

text \<open>
  What the checks of the configuration accept, and which error they report.  A check of one entry is exact
  when it passes for exactly the good entries; the loops over such checks are proved once, for all of them.
\<close>

section \<open>Exact checks\<close>

locale exact_check =
  fixes check :: "'a \<Rightarrow> 'e + unit" and good :: "'a \<Rightarrow> bool"
  assumes exact: "check x = Inr () \<longleftrightarrow> good x"
begin

lemma loop: "each_res check xs = Inr u \<longleftrightarrow> list_all good xs"
  by (simp add: each_res_ok exact list_all_iff)

lemma optional: "on_some x check = Inr () \<longleftrightarrow> (\<forall>a. x = Some a \<longrightarrow> good a)"
  by (cases x) (simp_all add: on_some_def exact)

text \<open>The error of a loop is the one of its first bad entry.\<close>

lemma first_error:
  "each_res check xs = Inl e \<longleftrightarrow> (\<exists>ys x zs. xs = ys @ x # zs \<and> list_all good ys \<and> check x = Inl e)"
proof (induction xs)
  case (Cons x xs)
  show ?case
  proof (cases "check x")
    case (Inl e')
    then have "\<not> good x" using exact[of x] by simp
    then have "(\<exists>ys y zs. x # xs = ys @ y # zs \<and> list_all good ys \<and> check y = Inl e) \<longleftrightarrow> check x = Inl e"
      by (metis append_eq_Cons_conv append_Nil list.inject list.pred_inject)
    then show ?thesis
      using Inl by simp
  next
    case (Inr u)
    then have g: "good x" using exact[of x] by simp
    have "(\<exists>ys y zs. x # xs = ys @ y # zs \<and> list_all good ys \<and> check y = Inl e) \<longleftrightarrow>
      (\<exists>ys y zs. xs = ys @ y # zs \<and> list_all good ys \<and> check y = Inl e)" (is "?l \<longleftrightarrow> ?r")
    proof
      assume ?l
      then obtain ys y zs where y: "x # xs = ys @ y # zs" "list_all good ys" "check y = Inl e" by blast
      then obtain ys' where "ys = x # ys'"
        using Inr by (cases ys) auto
      then show ?r using y by auto
    next
      assume ?r
      then obtain ys y zs where "xs = ys @ y # zs" "list_all good ys" "check y = Inl e" by blast
      then have "x # xs = (x # ys) @ y # zs \<and> list_all good (x # ys) \<and> check y = Inl e"
        using g by simp
      then show ?l by blast
    qed
    then show ?thesis
      using Cons Inr by simp
  qed
qed simp

end

lemma on_some_ok: "on_some x f = Inr u \<longleftrightarrow> (\<forall>a. x = Some a \<longrightarrow> f a = Inr ())"
  by (cases x) (simp_all add: on_some_def)

lemma pass_ok [simp]: "pass x = Inr u"
  by (simp add: pass_def)

lemma each_unique_ok:
  "each_unique before key dup after seen xs = Inr u \<longleftrightarrow>
   (\<forall>x \<in> set xs. before x = Inr () \<and> after x = Inr () \<and> key x \<notin> set seen) \<and> distinct (map key xs)"
  by (induction xs arbitrary: seen) (auto simp: seqR_ok image_iff)

section \<open>Keys of the environment\<close>

definition free_env_key :: "string \<Rightarrow> bool" where
  "free_env_key key \<longleftrightarrow> key \<notin> set reserved_state_env_vars \<and> \<not> starts_with key ''LLMENV_'' \<and> is_valid_var_name key"

interpretation env_key: exact_check "validate_capabilities_env_key ctx" free_env_key for ctx
  by unfold_locales (simp add: validate_capabilities_env_key_def free_env_key_def)

interpretation mcp_env: exact_check validate_mcp_env "\<lambda>m. list_all (\<lambda>kv. free_env_key (fst kv)) (ms_env m)"
  by unfold_locales (auto simp: validate_mcp_env_def each_res_ok free_env_key_def list_all_iff Let_def)

section \<open>Servers\<close>

definition served :: "mcp_server \<Rightarrow> bool" where
  "served m = (case ms_transport m of StdioT \<Rightarrow> ms_command m \<noteq> None | _ \<Rightarrow> ms_url m \<noteq> None)"

interpretation transport: exact_check validate_transport served
  by unfold_locales (simp add: validate_transport_def served_def split: mcp_transport.split)

lemma mcp_servers_ok:
  "validate_mcp_servers ms = Inr u \<longleftrightarrow>
   (\<forall>m \<in> set ms. ms_when m \<noteq> [] \<and> ms_name m \<noteq> memory_mcp_name \<and> served m \<and>
      list_all (\<lambda>kv. free_env_key (fst kv)) (ms_env m)) \<and>
   distinct (map ms_name ms)"
  by (auto simp: validate_mcp_servers_def each_unique_ok seqR_ok transport.exact mcp_env.exact)

definition good_memory :: "(string \<times> string) list \<Rightarrow> 'q memory_config \<Rightarrow> bool" where
  "good_memory host mem \<longleftrightarrow>
     en_when mem \<noteq> [] \<and> map_of host (en_server_host mem) \<noteq> None \<and> is_ip_addr (mc_listen_host mem) \<and>
     (\<forall>n. mc_wakeup_max_tokens mem = Some n \<longrightarrow> 20 \<le> n \<and> int n \<le> 4000)"

interpretation memory: exact_check "\<lambda>mem. validate_memory mem host" "good_memory host" for host
  by unfold_locales (simp add: validate_memory_def good_memory_def on_some_ok)

section \<open>Permission rules\<close>

definition good_rule :: "permission_rule \<Rightarrow> bool" where
  "good_rule r \<longleftrightarrow>
     (\<forall>p. pr_pattern r = Some p \<longrightarrow> has_balanced_parens p) \<and> list_all has_balanced_parens (pr_paths r)"

interpretation permission: exact_check "validate_permission_rule ctx" good_rule for ctx
  by unfold_locales
    (auto simp: validate_permission_rule_def good_rule_def seqR_ok on_some_ok each_res_ok list_all_iff)

section \<open>Proxy rules\<close>

definition good_path :: "string \<Rightarrow> bool" where
  "good_path p = (case parse_path p of Inl _ \<Rightarrow> False | Inr segs \<Rightarrow> list_all (index_within 10001) segs)"

interpretation proxy_path: exact_check validate_proxy_path good_path
  by unfold_locales
    (auto simp: validate_proxy_path_def good_path_def each_res_ok list_all_iff index_within_def
      max_proxy_path_index_def split: sum.splits path_segment.splits)

lemma proxy_rule_ok:
  "validate_proxy_rule is_regex r = Inr u \<Longrightarrow>
   (\<forall>p. pr_target r = BodyTarget p \<longrightarrow> good_path p) \<and> (\<forall>pat. pr_op r = OpStrip pat True \<longrightarrow> is_regex pat)"
  by (auto simp: validate_proxy_rule_def seqR_ok proxy_path.exact validate_regex_def)

section \<open>Plugins\<close>

definition good_plugin :: "string list \<Rightarrow> string \<Rightarrow> bool" where
  "good_plugin markets plugin = (case split_plugin_ref plugin of None \<Rightarrow> False | Some (m, _) \<Rightarrow> m \<in> set markets)"

interpretation plugin: exact_check "validate_plugin_ref markets collection" "good_plugin markets" for markets collection
  by unfold_locales (auto simp: validate_plugin_ref_def good_plugin_def split: option.splits)

lemma marketplaces_ok:
  "validate_marketplaces ms = Inr u \<longleftrightarrow>
   (\<forall>m \<in> set ms. is_valid_short_name (mk_name m) \<and> mk_source m \<noteq> [] \<and>
      (is_reserved_official_marketplace (mk_name m) \<longrightarrow> official_source_ok m)) \<and>
   distinct (map mk_name ms)"
  by (auto simp: validate_marketplaces_def each_unique_ok)

lemma plugins_ok:
  "validate_plugins ms cs = Inr u \<longleftrightarrow>
   validate_marketplaces ms = Inr () \<and>
   (\<forall>c \<in> set cs. pg_when c \<noteq> [] \<and> list_all (good_plugin (map mk_name ms)) (pg_plugins c)) \<and>
   distinct (map pg_name cs)"
  by (auto simp: validate_plugins_def seqR_ok each_unique_ok plugin.loop)

section \<open>Local folders and names\<close>

lemma bundles_ok:
  "validate_bundles bs = Inr u \<longleftrightarrow>
   (\<forall>b \<in> set bs. b_when b \<noteq> [] \<and> is_valid_short_name (b_name b)) \<and> distinct (map b_name bs)"
  by (auto simp: validate_bundles_def each_unique_ok)

lemma state_ok:
  "validate_state tools = Inr u \<longleftrightarrow>
   (\<forall>t \<in> set tools. is_valid_var_name (st_env t) \<and> is_safe_state_subdir (st_subdir t) \<and>
      st_env t \<notin> set reserved_state_env_vars) \<and>
   distinct (map st_env tools)"
  by (auto simp: validate_state_def each_unique_ok)

lemma skills_ok:
  "validate_skills ss = Inr u \<longleftrightarrow>
   (\<forall>s \<in> set ss. sk_path s \<noteq> [] \<and> \<not> is_unsafe_join_target (sk_path s) \<and> is_valid_short_name (sk_name s))"
  by (auto simp: validate_skills_def each_res_ok is_valid_short_name_def)

lemma scope_ids_ok: "validate_scope_ids s = Inr u \<longleftrightarrow> distinct (scope_ids s)"
  by (simp add: validate_scope_ids_def each_unique_ok)

lemma scope_matches_ok:
  "validate_scope_matches is_ipnet s = Inr u \<longleftrightarrow>
   (\<forall>n \<in> set (sc_network s).
      (\<forall>c. ns_cidr n = Some c \<longrightarrow> is_valid_cidr is_ipnet c) \<and>
      (\<forall>m. ns_gateway_mac n = Some m \<longrightarrow> is_valid_mac_address m)) \<and>
   (\<forall>h \<in> set (sc_host s). \<forall>n. hs_hostname h = Some n \<longrightarrow> is_valid_hostname n)"
  by (auto simp: validate_scope_matches_def seqR_ok each_res_ok on_some_ok)

section \<open>The whole configuration\<close>

lemma validate_parts:
  assumes "validate is_ipnet is_regex cfg = Inr u"
  shows "validate_scope_ids (cg_scope cfg) = Inr ()" "validate_scope_matches is_ipnet (cg_scope cfg) = Inr ()"
    "validate_bundles (cg_bundle cfg) = Inr ()" "validate_capability_env (cg_capabilities cfg) = Inr ()"
    "validate_mcps (cg_mcp cfg) (cg_host cfg) (cg_features cfg) = Inr ()"
    "validate_skills (cg_skills cfg) = Inr ()"
    "validate_plugins (cg_marketplace cfg) (cg_plugin_collection cfg) = Inr ()"
    "validate_state (cg_state_tools cfg) = Inr ()" "validate_permissions (cg_capabilities cfg) = Inr ()"
    "validate_launch_proxy is_regex (cg_features cfg) = Inr ()"
  using assms by (simp_all add: validate_def seqR_ok)

lemma validated_servers:
  assumes "validate is_ipnet is_regex cfg = Inr u"
  shows "validate_mcp_servers (cg_mcp cfg) = Inr ()"
    "\<And>f. cg_features cfg = Some f \<Longrightarrow> list_all (good_memory (cg_host cfg)) (cf_memory f)"
  using validate_parts(5)[OF assms]
  by (auto simp: validate_mcps_def validate_features_def seqR_ok on_some_ok memory.loop)

lemma validated_rules:
  assumes "validate is_ipnet is_regex cfg = Inr u" "cg_features cfg = Some f" "cf_launch_proxy f = Some rules"
    "r \<in> set rules"
  shows "validate_proxy_rule is_regex r = Inr ()"
  using validate_parts(10)[OF assms(1)] assms(2-4) by (simp add: validate_launch_proxy_def on_some_ok each_res_ok)

lemma validated_permission:
  assumes "validate is_ipnet is_regex cfg = Inr u"
    "r \<in> set (p_allow (cap_permissions (cg_capabilities cfg)) @ p_ask (cap_permissions (cg_capabilities cfg)) @
              p_deny (cap_permissions (cg_capabilities cfg)))"
  shows "good_rule r"
proof -
  have "list_all good_rule (p_allow (cap_permissions (cg_capabilities cfg)) @
      p_ask (cap_permissions (cg_capabilities cfg)) @ p_deny (cap_permissions (cg_capabilities cfg)))"
    using validate_parts(9)[OF assms(1)]
    by (simp only: validate_permissions_def Let_def seqR_ok permission.loop) blast
  then show ?thesis
    using assms(2) by (auto simp only: list_all_iff)
qed

lemma validated_env:
  assumes "validate is_ipnet is_regex cfg = Inr u"
  shows "list_all (\<lambda>kv. free_env_key (fst kv)) (cap_env (cg_capabilities cfg))"
  using validate_parts(4)[OF assms]
  by (auto simp: validate_capability_env_def seqR_ok each_res_ok env_key.exact list_all_iff)

section \<open>Resolution after validation\<close>

text \<open>The memory entries as the resolver reads them.\<close>

definition memory_entries :: "('n, 'q, 'p) config \<Rightarrow> 'q memory_entry list" where
  "memory_entries cfg =
     (case cg_features cfg of None \<Rightarrow> [] | Some f \<Rightarrow> map memory_entry.truncate (cf_memory f))"

definition address_error :: "resolve_error \<Rightarrow> bool" where
  "address_error e = (case e of CleartextPublicAddress _ _ \<Rightarrow> True | _ \<Rightarrow> False)"

lemma reject_err: "reject_public_cleartext parse_url name url = Inl e \<Longrightarrow> address_error e"
  by (auto simp: reject_public_cleartext_def address_error_def split: option.splits)

lemma static_err: "served m \<Longrightarrow> resolve_static parse_url m = Inl e \<Longrightarrow> address_error e"
  by (auto simp: served_def resolve_static_def stdio_kind_def remote_kind_def seqR_err ok_or_def reject_err
      split: mcp_transport.splits option.splits)

lemma plain_err:
  "(\<And>m. m \<in> set ms \<Longrightarrow> served m) \<Longrightarrow> resolve_plain parse_url ms tags = Inl e \<Longrightarrow> address_error e"
proof (induction ms)
  case (Cons m ms)
  then have "served m" "\<And>x. x \<in> set ms \<Longrightarrow> served x" by simp_all
  then show ?case
    using Cons by (auto simp: seqR_err dest: static_err split: if_splits)
qed simp

lemma plain_names:
  "resolve_plain parse_url ms tags = Inr out \<Longrightarrow> subseq (map rm_name out) (map ms_name ms)"
proof (induction ms arbitrary: out)
  case (Cons m ms)
  then show ?case
    by (auto simp: seqR_ok static_safe split: if_splits)
qed simp

lemma subseq_keeps_distinct: "subseq xs ys \<Longrightarrow> distinct ys \<Longrightarrow> distinct xs \<and> set xs \<subseteq> set ys"
  by (induction xs ys rule: list_emb.induct) auto

lemma memory_err:
  "map_of host (en_server_host mem) \<noteq> None \<Longrightarrow> resolve_memory parse_url mem host = Inl e \<Longrightarrow> address_error e"
  by (auto simp: resolve_memory_def seqR_err ok_or_def Let_def reject_err split: option.splits)

lemma resolve_after_checks:
  fixes mems :: "'q memory_entry list"
  assumes "\<And>m. m \<in> set ms \<Longrightarrow> served m \<and> ms_name m \<noteq> memory_mcp_name" "distinct (map ms_name ms)"
    "\<And>x. x \<in> set mems \<Longrightarrow> map_of host (en_server_host x) \<noteq> None"
  shows "case resolve_mcps parse_url ms mems host tags of
      Inl e \<Rightarrow> address_error e \<or>
        (\<exists>hosts. e = AmbiguousMemory hosts \<and> 2 \<le> length (filter (\<lambda>m. memory_is_tag_active m tags) mems))
    | Inr servers \<Rightarrow> distinct (map rm_name servers)"
proof (cases "resolve_plain parse_url ms tags :: resolve_error + 'q resolved_mcp list")
  case (Inl e)
  then show ?thesis
    using plain_err[OF _ Inl] assms(1) by (simp add: resolve_mcps_def)
next
  case (Inr out)
  then have sub: "subseq (map rm_name out) (map ms_name ms)"
    by (rule plain_names)
  then have d: "distinct (map rm_name out)"
    using subseq_keeps_distinct[OF _ assms(2)] by blast
  have n: "memory_mcp_name \<notin> set (map rm_name out)"
    using subseq_keeps_distinct[OF sub assms(2)] assms(1) by force
  let ?active = "filter (\<lambda>m. memory_is_tag_active m tags) mems"
  consider (none) "?active = []" | (one) m where "?active = [m]" | (more) a b ms' where "?active = a # b # ms'"
    by (metis list.exhaust)
  then show ?thesis
  proof cases
    case (one m)
    then have "m \<in> set ?active" by simp
    then have "map_of host (en_server_host m) \<noteq> None"
      using assms(3) by auto
    then show ?thesis
      using Inr one d n
      by (cases "resolve_memory parse_url m host") (auto simp: resolve_mcps_def memory_err dest: memory_safe)
  qed (use Inr d in \<open>simp_all add: resolve_mcps_def\<close>)
qed

lemma known_memory_host:
  assumes "validate is_ipnet is_regex cfg = Inr u" "x \<in> set (memory_entries cfg)"
  shows "map_of (cg_host cfg) (en_server_host x) \<noteq> None"
proof (cases "cg_features cfg")
  case (Some f)
  then obtain c where "c \<in> set (cf_memory f)" "x = memory_entry.truncate c"
    using assms(2) by (auto simp: memory_entries_def)
  then show ?thesis
    using validated_servers(2)[OF assms(1) Some] by (simp add: list_all_iff good_memory_def memory_entry.defs)
qed (use assms(2) in \<open>simp add: memory_entries_def\<close>)

section \<open>Confined names\<close>

lemma short_name_component: "is_valid_short_name n \<Longrightarrow> path_components n = [Normal n]"
  using valid_short_name_components[of n "[]"] by (simp add: is_valid_short_name_def)

lemma confined_bundles:
  "validate is_ipnet is_regex cfg = Inr u \<Longrightarrow> \<forall>b \<in> set (cg_bundle cfg). path_components (b_name b) = [Normal (b_name b)]"
  by (drule validate_parts(3)) (simp add: bundles_ok short_name_component)

lemma confined_skills:
  "validate is_ipnet is_regex cfg = Inr u \<Longrightarrow>
   \<forall>s \<in> set (cg_skills cfg). path_components (sk_name s) = [Normal (sk_name s)] \<and>
     \<not> is_absolute (sk_path s) \<and> \<not> has_parent_component (sk_path s)"
  by (drule validate_parts(6)) (simp add: skills_ok short_name_component is_unsafe_join_target_def)

lemma good_plugin_market:
  "good_plugin (map mk_name ms) q \<Longrightarrow> \<exists>m p. q = mk_name m @ '':'' @ p \<and> m \<in> set ms"
  by (fastforce simp: good_plugin_def plugin_ref_exact split: option.splits)

lemma official_marketplace:
  assumes "validate_marketplaces ms = Inr u" "m \<in> set ms" "mk_name m \<in> set reserved_official_marketplaces"
  shows "\<exists>owner repo. github_owner_repo (mk_source m) = Some (owner, repo) \<and> eq_ignore_ascii_case owner ''anthropics''"
proof -
  have "official_source_ok m"
    using assms by (simp add: marketplaces_ok is_reserved_official_marketplace_def)
  then show ?thesis
    by (auto simp: official_source_ok_def official_marketplace_owner_def split: option.splits)
qed

lemma confined_plugins:
  assumes "validate is_ipnet is_regex cfg = Inr u"
  shows "\<forall>c \<in> set (cg_plugin_collection cfg). \<forall>q \<in> set (pg_plugins c). \<exists>m p.
     q = mk_name m @ '':'' @ p \<and> m \<in> set (cg_marketplace cfg) \<and>
     (mk_name m \<in> set reserved_official_marketplaces \<longrightarrow>
        (\<exists>owner repo. github_owner_repo (mk_source m) = Some (owner, repo) \<and> eq_ignore_ascii_case owner ''anthropics''))"
proof (intro ballI)
  fix c q assume c: "c \<in> set (cg_plugin_collection cfg)" "q \<in> set (pg_plugins c)"
  have ms: "validate_marketplaces (cg_marketplace cfg) = Inr ()"
    and "good_plugin (map mk_name (cg_marketplace cfg)) q"
    using validate_parts(7)[OF assms] c by (auto simp: plugins_ok list_all_iff)
  then obtain m p where "q = mk_name m @ '':'' @ p" "m \<in> set (cg_marketplace cfg)"
    using good_plugin_market by blast
  then show "\<exists>m p. q = mk_name m @ '':'' @ p \<and> m \<in> set (cg_marketplace cfg) \<and>
     (mk_name m \<in> set reserved_official_marketplaces \<longrightarrow>
        (\<exists>owner repo. github_owner_repo (mk_source m) = Some (owner, repo) \<and> eq_ignore_ascii_case owner ''anthropics''))"
    using official_marketplace[OF ms] by blast
qed

lemma free_key_not_reserved: "free_env_key k \<Longrightarrow> k \<noteq> ''LLMENV_STATE_DIR'' \<and> k \<noteq> ''CLAUDE_CONFIG_DIR''"
  by (auto simp: free_env_key_def reserved_state_env_vars_def)

lemma confined_env:
  assumes "validate is_ipnet is_regex cfg = Inr u"
  shows "\<forall>k \<in> set (map fst (cap_env (cg_capabilities cfg)) @ concat (map (\<lambda>m. map fst (ms_env m)) (cg_mcp cfg)) @
             map st_env (cg_state_tools cfg)). k \<noteq> ''LLMENV_STATE_DIR'' \<and> k \<noteq> ''CLAUDE_CONFIG_DIR''"
proof
  fix k assume "k \<in> set (map fst (cap_env (cg_capabilities cfg)) @ concat (map (\<lambda>m. map fst (ms_env m)) (cg_mcp cfg)) @
             map st_env (cg_state_tools cfg))"
  then consider (caps) "k \<in> fst ` set (cap_env (cg_capabilities cfg))"
    | (mcp) m where "m \<in> set (cg_mcp cfg)" "k \<in> fst ` set (ms_env m)"
    | (tool) t where "t \<in> set (cg_state_tools cfg)" "k = st_env t"
    by auto
  then show "k \<noteq> ''LLMENV_STATE_DIR'' \<and> k \<noteq> ''CLAUDE_CONFIG_DIR''"
  proof cases
    case caps
    then have "free_env_key k"
      using validated_env[OF assms] by (auto simp: list_all_iff)
    then show ?thesis by (rule free_key_not_reserved)
  next
    case mcp
    then have "free_env_key k"
      using validated_servers(1)[OF assms] by (auto simp: mcp_servers_ok list_all_iff)
    then show ?thesis by (rule free_key_not_reserved)
  next
    case tool
    then show ?thesis
      using validate_parts(8)[OF assms] by (auto simp: state_ok reserved_state_env_vars_def)
  qed
qed

lemma index_within_mono: "m \<le> n \<Longrightarrow> index_within m s \<Longrightarrow> index_within n s"
  by (cases s) (simp_all add: index_within_def)

lemma rule_within_checked:
  assumes "(\<forall>p. pr_target r = BodyTarget p \<longrightarrow> good_path p) \<and> (\<forall>pat. pr_op r = OpStrip pat True \<longrightarrow> is_regex pat)"
    "\<And>x. pr_op r = OpSet x \<Longrightarrow> arrays_within n x" "10000 < n"
  shows "rule_within n r"
proof -
  have "10001 \<le> n" using assms(3) by simp
  then have "list_all (index_within 10001) segs \<Longrightarrow> list_all (index_within n) segs" for segs
    using index_within_mono by (auto simp: list_all_iff)
  then show ?thesis
    using assms(1,2) by (auto simp: rule_within_def good_path_def split: proxy_target.splits sum.splits proxy_op.splits)
qed

end
