(* ===== verification/Setup_Theorems.thy ===== *)
theory Setup_Theorems
  imports Validate_Laws
begin

text \<open>
  The properties of the configuration checks and of the launch proxy, alone and together: what a validated
  configuration guarantees to the scope matcher, the MCP resolver, the permission renderers and the proxy.
\<close>

section \<open>A sample configuration\<close>

definition setup_caps :: "nat capabilities" where
  "setup_caps =
     \<lparr>cap_permissions = \<lparr>p_default_mode = None, p_preset = None, p_allow = [], p_ask = [],
        p_deny = [\<lparr>pr_tool = ''Bash'', pr_pattern = Some [CHR ''a'', CHR 0x5C], pr_paths = []\<rparr>,
                  \<lparr>pr_tool = ''Bash'', pr_pattern = Some ''f(x)'', pr_paths = []\<rparr>]\<rparr>,
      cap_hooks = [], cap_plugins = [], cap_mcp = [], cap_lsp = [], cap_skills = [], cap_output_styles = [],
      cap_env = [(''EDITOR'', ''vi'')], cap_auto_memory_enabled = None, cap_effort_level = None, cap_model_effort = [],
      cap_advisor_model = None, cap_advisor_size = None, cap_native_permissions = [], cap_native_hooks = [],
      cap_native_plugins = [], cap_native_mcp = [], cap_native_model_providers = [], cap_native_default_models = [],
      cap_native = [], cap_features = None, cap_host = [], cap_model_providers = [], cap_default_models = []\<rparr>"

definition setup_rules :: "nat proxy_rule list" where
  "setup_rules =
     [\<lparr>pr_target = BodyTarget ''a[1]'', pr_op = OpSet (JBool True), pr_when = []\<rparr>,
      \<lparr>pr_target = BodyTarget ''b.c'', pr_op = OpRemove, pr_when = []\<rparr>,
      \<lparr>pr_target = HeaderTarget ''x-a'', pr_op = OpRemove, pr_when = []\<rparr>]"

definition setup_features :: "(nat, nat) config_features" where
  "setup_features =
     \<lparr>cf_memory = [\<lparr>en_server_host = ''hub'', en_port = 7, en_when = [''t''], en_mcp_permissions = None, en_hook = 0,
        en_always_load = None, mc_listen_host = ''127.0.0.1'', mc_wakeup_max_tokens = None\<rparr>],
      cf_throttle = [], cf_task_tracker = None, cf_codebase_memory = [], cf_launch_proxy = Some setup_rules,
      cf_sandbox_image = None\<rparr>"

definition setup_config :: "(nat, nat, nat) config" where
  "setup_config =
     \<lparr>cg_cache = \<lparr>ca_cache_dir = ''~/.cache/llmenv'', ca_retention_hours = Some 1\<rparr>,
      cg_session_log = None, cg_widgets = Some [(''pr'', Some ''url'')],
      cg_scope = \<lparr>sc_network = [], sc_host = [\<lparr>hs_id = ''h'', hs_hostname = Some ''Hub.local'', hs_tags = [''t'']\<rparr>],
        sc_user = [], sc_content = []\<rparr>,
      cg_bundle = [\<lparr>b_name = ''base'', b_when = [''t'']\<rparr>], cg_capabilities = setup_caps,
      cg_model_providers = [], cg_default_models = [],
      cg_mcp = [\<lparr>ms_name = ''files'', ms_when = [''t''], ms_transport = StdioT, ms_command = Some ''fs'', ms_args = [],
        ms_env = [(''ROOT'', ''/'')], ms_url = None, ms_headers = [], ms_disabled = False, ms_disabled_tools = [],
        ms_timeout = None, ms_always_load = None\<rparr>],
      cg_host = [(''hub'', ''hub.local'')], cg_features = Some setup_features, cg_lsp = [], cg_skills = [],
      cg_output_styles = [],
      cg_marketplace = [\<lparr>mk_name = ''m'', mk_source = ''/srv/m''\<rparr>],
      cg_plugin_collection = [\<lparr>pg_name = ''c'', pg_when = [''t''], pg_plugins = [''m:p'']\<rparr>],
      cg_state_tools = [\<lparr>st_env = ''TOOL_DIR'', st_subdir = ''tool''\<rparr>]\<rparr>"

definition no_net :: "string \<Rightarrow> bool" where "no_net s = False"

lemma setup_paths: "parse_path ''a[1]'' = Inr [Key ''a'', Index 1]" "parse_path ''b.c'' = Inr [Key ''b'', Key ''c'']"
proof -
  have "show_path [(''a'', [1])] = ''a[1]''" by code_simp
  moreover have "plain_part (''a'', [1])" by (simp add: plain_part_def max_index_def)
  ultimately show "parse_path ''a[1]'' = Inr [Key ''a'', Index 1]"
    using parse_show_path[of "[(''a'', [1])]"] by (simp add: part_segments_def)
  show "parse_path ''b.c'' = Inr [Key ''b'', Key ''c'']" by code_simp
qed

lemma setup_proxy: "validate_launch_proxy no_net (Some setup_features) = Inr ()"
  by (simp add: validate_launch_proxy_def setup_features_def setup_rules_def on_some_def validate_proxy_rule_def
      validate_proxy_path_def setup_paths max_proxy_path_index_def ensureR_def)

lemma setup_servers:
  "validate_mcps (cg_mcp setup_config) (cg_host setup_config) (Some setup_features) = Inr ()"
  by code_simp

lemma setup_scopes:
  "validate_scope_ids (cg_scope setup_config) = Inr ()" "validate_scope_matches no_net (cg_scope setup_config) = Inr ()"
  by code_simp+

lemma setup_permissions: "validate_permissions setup_caps = Inr ()" "validate_capability_env setup_caps = Inr ()"
  by code_simp+

lemma setup_names:
  "validate_cache (cg_cache setup_config) (cg_session_log setup_config) = Inr ()"
  "validate_widget_displays (cg_widgets setup_config) = Inr ()"
  "validate_bundles (cg_bundle setup_config) = Inr ()"
  "validate_plugins (cg_marketplace setup_config) (cg_plugin_collection setup_config) = Inr ()"
  "validate_state (cg_state_tools setup_config) = Inr ()"
  by code_simp+

lemma setup_valid: "validate no_net no_net setup_config = Inr ()"
proof -
  have "cg_features setup_config = Some setup_features" "cg_capabilities setup_config = setup_caps"
    by (simp_all add: setup_config_def)
  moreover have "validate_sandbox (Some setup_features) = Inr ()"
    by (simp add: validate_sandbox_def setup_features_def on_some_def)
  moreover have "validate_hooks (cap_hooks setup_caps) = Inr ()" "validate_lsp (cg_lsp setup_config) = Inr ()"
    "validate_skills (cg_skills setup_config) = Inr ()" "validate_output_styles (cg_output_styles setup_config) = Inr ()"
    "validate_model_providers (cg_model_providers setup_config) = Inr ()"
    "validate_default_models (cg_default_models setup_config) = Inr ()"
    by code_simp+
  ultimately show ?thesis
    by (simp add: validate_def setup_proxy setup_servers setup_scopes setup_permissions setup_names)
qed

definition setup_lib :: "nat proxy_lib" where
  "setup_lib =
     \<lparr>pl_header_name = Some, pl_header_value = (\<lambda>_. True), pl_visible = (\<lambda>_. True), pl_regex = (\<lambda>_. None),
      pl_to_string = (\<lambda>v. if v = JNull then Some ''null'' else Some ''{}''), pl_display = (\<lambda>_. ''{}''),
      pl_from_slice = (\<lambda>_. Some (JObject [])), pl_set_path = (\<lambda>_ p. p), pl_set_query = (\<lambda>_ q. q)\<rparr>"

lemma setup_resolved:
  "\<exists>servers :: nat resolved_mcp list.
     resolve_mcps (\<lambda>_. None) (cg_mcp setup_config) (memory_entries setup_config) (cg_host setup_config) [''t''] =
     Inr servers \<and> length servers = 2"
proof -
  have "(case resolve_mcps (\<lambda>_. None) (cg_mcp setup_config) (memory_entries setup_config)
     (cg_host setup_config) [''t''] of Inl _ \<Rightarrow> False | Inr servers \<Rightarrow> length servers = 2)"
    by code_simp
  then show ?thesis by (auto split: sum.splits)
qed

section \<open>The scope matcher\<close>

text \<open>A host scope of a validated configuration is compared by name, ignoring the case of ASCII letters:
  validation leaves no wildcard for the matcher to expand.\<close>

lemma validated_host_scopes_match_by_name:
  assumes "validate is_ipnet is_regex cfg = Inr ()" and "h \<in> set (sc_host (cg_scope cfg))"
  shows "matches_host h e \<longleftrightarrow> (\<exists>name. hs_hostname h = Some name \<and> to_lower name = to_lower (en_hostname e))"
proof (cases "hs_hostname h")
  case (Some name)
  then have "is_valid_hostname name"
    using validate_parts(2)[OF assms(1)] assms(2) by (simp add: scope_matches_ok)
  then have "CHR ''*'' \<notin> set (to_lower name)"
    by (rule lower_no_star)
  then show ?thesis
    using Some by (simp add: matches_host_def glob_matches_def Let_def)
qed (simp add: matches_host_def)

definition setup_env :: "nat host_env" where
  "setup_env = \<lparr>en_hostname = ''HUB.local'', en_user = ''u'', en_cwd = [], en_gateway_mac = None, en_local_addrs = [],
     en_ssid = None, en_home = None, en_os = ''linux'', en_extra_tags = []\<rparr>"

lemma validated_host_scopes_match_by_name_witness:
  "validate no_net no_net setup_config = Inr () \<and>
   list_all (\<lambda>h. matches_host h setup_env) (sc_host (cg_scope setup_config))"
proof -
  have "h \<in> set (sc_host (cg_scope setup_config)) \<Longrightarrow> matches_host h setup_env" for h
    using validated_host_scopes_match_by_name[OF setup_valid, of h setup_env]
    by (simp add: setup_config_def setup_env_def to_lower_def) code_simp
  then show ?thesis
    using setup_valid by (simp add: list_all_iff)
qed

section \<open>The server resolver\<close>

text \<open>C30. On a validated configuration the resolver fails for one of two reasons only: a server is addressed
  in clear text outside the operator's network, or two memory entries are active together.  No missing command,
  URL or host remains, and the names of the servers it returns are distinct.\<close>

theorem validated_servers_resolve:
  assumes "validate is_ipnet is_regex cfg = Inr ()"
  shows "case resolve_mcps parse_url (cg_mcp cfg) (memory_entries cfg) (cg_host cfg) tags of
      Inl e \<Rightarrow> address_error e \<or>
        (\<exists>hosts. e = AmbiguousMemory hosts \<and> 2 \<le> length (filter (\<lambda>m. memory_is_tag_active m tags) (memory_entries cfg)))
    | Inr servers \<Rightarrow> distinct (map rm_name servers)"
proof -
  have m: "\<And>m. m \<in> set (cg_mcp cfg) \<Longrightarrow> served m \<and> ms_name m \<noteq> memory_mcp_name" "distinct (map ms_name (cg_mcp cfg))"
    using validated_servers(1)[OF assms] by (auto simp: mcp_servers_ok)
  have h: "map_of (cg_host cfg) (en_server_host x) \<noteq> None" if "x \<in> set (memory_entries cfg)" for x
    using known_memory_host[OF assms that] .
  show ?thesis
    by (rule resolve_after_checks) (use m h in auto)
qed

theorem validated_servers_resolve_witness:
  "validate no_net no_net setup_config = Inr () \<and>
   (\<exists>servers. resolve_mcps (\<lambda>_. None) (cg_mcp setup_config) (memory_entries setup_config)
        (cg_host setup_config) [''t''] = Inr servers \<and> length servers = 2 \<and> distinct (map rm_name servers))"
proof -
  obtain servers where r: "resolve_mcps (\<lambda>_. None) (cg_mcp setup_config) (memory_entries setup_config)
      (cg_host setup_config) [''t''] = Inr servers" "length servers = 2"
    using setup_resolved by blast
  then have "distinct (map rm_name servers)"
    using validated_servers_resolve[OF setup_valid, where parse_url = "\<lambda>_. None" and tags = "[''t'']"] by simp
  then show ?thesis using r setup_valid by blast
qed

section \<open>The permission renderers\<close>

text \<open>A permission rule of a validated configuration, written as \<open>Tool(value)\<close> the way the engines read it,
  has balanced parentheses exactly when its value does not end in a backslash that escapes nothing.\<close>

lemma validated_rule_balances_when_wrapped:
  assumes "validate is_ipnet is_regex cfg = Inr ()" and "plain_name (pr_tool r)"
    and "r \<in> set (p_allow (cap_permissions (cg_capabilities cfg)) @ p_ask (cap_permissions (cg_capabilities cfg)) @
                    p_deny (cap_permissions (cg_capabilities cfg)))"
    and "pr_pattern r = Some v \<or> v \<in> set (pr_paths r)"
  shows "has_balanced_parens (pr_tool r @ ''('' @ v @ '')'') \<longleftrightarrow> \<not> dangling v"
proof -
  have "good_rule r"
    using validated_permission[OF assms(1,3)] .
  then have "has_balanced_parens v"
    using assms(4) by (auto simp: good_rule_def list_all_iff)
  then show ?thesis
    by (rule wrapped_balance[OF assms(2)])
qed

definition open_rule :: permission_rule where
  "open_rule = \<lparr>pr_tool = ''Bash'', pr_pattern = Some [CHR ''a'', CHR 0x5C], pr_paths = []\<rparr>"

lemma validated_rule_balances_when_wrapped_witness:
  "validate no_net no_net setup_config = Inr () \<and> open_rule \<in> set (p_deny (cap_permissions (cg_capabilities setup_config))) \<and>
   \<not> has_balanced_parens (''Bash'' @ ''('' @ [CHR ''a'', CHR 0x5C] @ '')'')"
proof -
  have "open_rule \<in> set (p_deny (cap_permissions (cg_capabilities setup_config)))"
    by (simp add: open_rule_def setup_config_def setup_caps_def)
  moreover have "plain_name (pr_tool open_rule)" "dangling [CHR ''a'', CHR 0x5C]"
    by code_simp+
  moreover have "pr_pattern open_rule = Some [CHR ''a'', CHR 0x5C]" "pr_tool open_rule = ''Bash''"
    by (simp_all add: open_rule_def)
  ultimately show ?thesis
    using validated_rule_balances_when_wrapped[OF setup_valid, of open_rule "[CHR ''a'', CHR 0x5C]"] setup_valid
    by auto
qed

section \<open>Names\<close>



section \<open>The proxy rules\<close>

text \<open>C31. The rules of a validated configuration never make an array of the request body longer than it was
  beyond 10001 elements: for every bound above 10000 that the body and the written values respect, the rewritten
  body respects it too.\<close>

theorem validated_rules_bound_arrays:
  assumes "validate is_ipnet is_regex cfg = Inr ()" and "cg_features cfg = Some f"
    and "cf_launch_proxy f = Some rules" and "10000 < n" and "arrays_within n body"
    and "\<And>r x. r \<in> set rules \<Longrightarrow> pr_op r = OpSet x \<Longrightarrow> arrays_within n x"
  shows "arrays_within n (snd (apply_rules lib rules (hs, body)))"
proof -
  have "rule_within n r" if "r \<in> set rules" for r
    using proxy_rule_ok[OF validated_rules[OF assms(1-3) that]] assms(6)[OF that] assms(4) rule_within_checked by blast
  then show ?thesis
    using apply_rules_within[of n rules "(hs, body)"] assms(5) by (simp add: list_all_iff)
qed

theorem validated_rules_bound_arrays_witness:
  "validate no_net no_net setup_config = Inr () \<and>
   arrays_within 10001 (snd (apply_rules setup_lib setup_rules ([], JArray [JNull])))"
proof -
  have "arrays_within 10001 (JArray [JNull :: nat json])" by simp
  moreover have "\<And>r x. r \<in> set setup_rules \<Longrightarrow> pr_op r = OpSet x \<Longrightarrow> arrays_within 10001 x"
    by (auto simp: setup_rules_def)
  moreover have "cg_features setup_config = Some setup_features" "cf_launch_proxy setup_features = Some setup_rules"
    by (simp_all add: setup_config_def setup_features_def)
  ultimately have "arrays_within 10001 (snd (apply_rules setup_lib setup_rules ([], JArray [JNull])))"
    using validated_rules_bound_arrays[OF setup_valid, of setup_features setup_rules 10001 "JArray [JNull]" setup_lib "[]"]
    by simp
  then show ?thesis using setup_valid by blast
qed

text \<open>What a set rule writes is what the upstream receives: the rule fires, and the later rules are on
  headers or on paths that part from its path at a key.\<close>

lemma set_rule_holds:
  assumes "pr_target r = BodyTarget p" and "parse_path p = Inr segs" and "pr_op r = OpSet x"
    and "rule_fires lib r (apply_rules lib before hb)" and "list_all (leaves_alone segs) later"
  shows "get_path (snd (apply_rules lib (before @ r # later) hb)) segs = Some x"
proof -
  have "apply_rules lib (before @ r # later) hb = apply_rules lib later (apply_op lib r (apply_rules lib before hb))"
    using assms(4) by (simp add: apply_rules_append)
  then show ?thesis
    using assms(1-3,5) by (simp add: apply_rules_apart apply_op_def apply_body_op_def doc.get_put)
qed

lemma set_rule_holds_witness:
  "get_path (snd (apply_rules setup_lib setup_rules ([], JNull))) [Key ''a'', Index 1] = Some (JBool True)"
proof -
  have "list_all (leaves_alone [Key ''a'', Index 1]) (tl setup_rules)"
    by (simp add: setup_rules_def leaves_alone_def setup_paths)
  then have "get_path (snd (apply_rules setup_lib ([] @ hd setup_rules # tl setup_rules) ([], JNull)))
      [Key ''a'', Index 1] = Some (JBool True)"
    by (intro set_rule_holds[where p = "''a[1]''"]) (simp_all add: setup_rules_def setup_paths rule_fires_def
        del: One_nat_def)
  then show ?thesis by (simp add: setup_rules_def)
qed

section \<open>The proxy\<close>

text \<open>C32. A request reaches the upstream only if its first peer token header is the token of the session and its
  path cannot name another host; it goes to the scheme, host, port and credentials of the upstream, with a body of at
  most 64 MiB read, and no header of it carries the token, frames a message or names a host.\<close>

theorem proxy_sends_safely:
  assumes "fst (handle lib upstream rules token deliver req) = Some out"
  shows "header_str lib (pq_headers req) peer_auth_header = Some token \<and> \<not> starts_with (pq_path req) ''//'' \<and>
    (\<exists>s. pq_body req = BodyBytes s \<and> int (length s) \<le> 67108864) \<and>
    up_scheme (og_url out) = up_scheme upstream \<and> up_host (og_url out) = up_host upstream \<and>
    up_port (og_url out) = up_port upstream \<and> tu_userinfo (og_url out) = tu_userinfo upstream \<and>
    (\<forall>h \<in> set (og_headers out). \<not> eq_ignore_ascii_case (fst h) ''x-llmenv-launch-proxy-token'' \<and>
       fst h \<notin> set [''host'', ''content-length'', ''connection'', ''transfer-encoding'', ''te'', ''upgrade'', ''proxy-authorization''])"
proof -
  have a: "peer_authorized lib (pq_headers req) token" and r: "rewrite lib upstream rules req = Inr out"
    using assms by (simp_all add: handle_sent)
  obtain v where v: "read_body lib (pq_body req) = Inr v" "\<not> starts_with (pq_path req) ''//''"
      "og_url out = target_of lib upstream req"
      "og_headers out = forwarded_headers lib (fst (apply_rules lib rules (pq_headers req, v)))"
    using r by (auto simp: rewrite_ok)
  have "\<exists>s. pq_body req = BodyBytes s \<and> int (length s) \<le> 67108864"
    using v(1) by (auto simp: read_body_def max_request_body_bytes_def split: incoming_body.splits if_splits)
  moreover have "\<not> hop_header (fst h)" if "h \<in> set (og_headers out)" for h
    using that v(4) forwarded_safe by metis
  ultimately show ?thesis
    using a v(2,3) target_keeps_upstream[of lib upstream req]
    by (simp add: peer_authorized_iff hop_header_def peer_auth_header_def)
qed

definition setup_request :: proxy_request where
  "setup_request = \<lparr>pq_method = ''POST'', pq_path = ''/v1/messages'', pq_query = None,
     pq_headers = [(''x-llmenv-launch-proxy-token'', ''s3''), (''x-api-key'', ''k'')], pq_body = BodyBytes []\<rparr>"

definition setup_upstream :: target_url where
  "setup_upstream = \<lparr>up_scheme = ''https'', up_host = Some (HostDomain ''gw''), up_port = None, tu_userinfo = [],
     tu_path = ''/anthropic/'', tu_query = None\<rparr>"

lemma setup_sent:
  "fst (handle setup_lib setup_upstream [] ''s3'' (\<lambda>_. None) setup_request) =
   Some \<lparr>og_method = ''POST'', og_url = setup_upstream\<lparr>tu_path := ''/anthropic/v1/messages''\<rparr>,
         og_headers = [(''x-api-key'', ''k'')], og_body = ''null''\<rparr>"
  by code_simp

theorem proxy_sends_safely_witness:
  "\<exists>out. fst (handle setup_lib setup_upstream [] ''s3'' (\<lambda>_. None) setup_request) = Some out \<and>
     up_host (og_url out) = Some (HostDomain ''gw'') \<and> og_headers out = [(''x-api-key'', ''k'')]"
  using proxy_sends_safely[OF setup_sent] setup_sent by (auto simp: setup_upstream_def)

section \<open>Divergences\<close>

text \<open>A request without a body is forwarded with one: the four bytes of a JSON null.\<close>

lemma empty_body_becomes_null:
  assumes "pl_to_string lib JNull = Some ''null''" "peer_authorized lib (pq_headers req) token"
    "pq_body req = BodyBytes []" "\<not> starts_with (pq_path req) ''//''"
  shows "\<exists>out. fst (handle lib upstream [] token deliver req) = Some out \<and> og_body out = ''null''"
  using assms by (simp add: handle_def rewrite_def read_body_def max_request_body_bytes_def)

text \<open>A sign passes as a digit of a MAC address, and an absolute skill path is refused.\<close>

lemma mac_with_a_sign: "is_valid_mac_address ''+a:0:0:0:0:0''"
  by code_simp

lemma absolute_skill_refused:
  "validate_skills [\<lparr>sk_name = ''s'', sk_path = ''/srv/s''\<rparr>] = Inl (AssetIssue (SkillPathTraversal ''s'' ''/srv/s''))"
  by code_simp

text \<open>A wildcard, which the matcher of host scopes would expand, does not pass.\<close>

lemma wildcard_host_refused: "\<not> is_valid_hostname ''*.example.com''" "glob_matches ''*.example.com'' ''dev.example.com''"
  by code_simp+

end
