(* ===== verification/Throttling.thy ===== *)
theory Throttling
  imports Validate
begin

text \<open>
  The usage throttle, \<open>src/throttle\<close>: the active entry, its state file, the cached usage snapshot, the umans
  backend, the delay and the budget note of one hook call.  Files are values with their failures, the backend's
  answer and the URL and time parsers are parameters.  Main results: the delay is within its cap and falls with
  the remaining requests, a fresh snapshot is not fetched again, and where the token goes.
\<close>

section \<open>Configuration\<close>

type_synonym u64 = "64 word"

definition mul_u64 :: "u64 \<Rightarrow> u64 \<Rightarrow> u64" where
  "mul_u64 a b = (if 2 ^ 64 \<le> uint a * uint b then - 1 else a * b)"

record throttle_entry = throttle +
  te_cache_ttl :: u64
  te_max_wait :: u64
  te_soft_threshold :: u64

datatype throttle_error =
    SeveralActive "string list"
  | StateNotWritten
  | StateNotRemoved
  | StateUnreadable
  | StateCorrupt
  | BadBackendName string
  | UmansConfigFailed
  | UmansNotHttps string
  | UmansAddress url_error
  | UmansNoAddresses host
  | UmansRequestFailed
  | UmansRedirected nat
  | UmansStatus nat
  | UmansTooLarge
  | UmansBodyBroken
  | UmansBadUsage

definition resolve_active_throttle :: "throttle_entry list \<Rightarrow> string list \<Rightarrow> throttle_error + throttle_entry option" where
  "resolve_active_throttle ts active_tags =
     (case filter (\<lambda>t. tag_active (th_when t) active_tags) ts of
        [] \<Rightarrow> Inr None
      | [t] \<Rightarrow> Inr (Some t)
      | active \<Rightarrow> Inl (SeveralActive (map th_backend active)))"

section \<open>Usage and delay\<close>

record usage_snapshot =
  un_remaining :: "u64 option"
  un_limit :: "u64 option"
  un_resets_at :: "string option"
  un_penalized :: bool

definition compute_delay :: "usage_snapshot \<Rightarrow> throttle_entry \<Rightarrow> u64" where
  "compute_delay s cfg =
     (if un_penalized s then te_max_wait cfg
      else case un_remaining s of
             None \<Rightarrow> 0
           | Some remaining \<Rightarrow>
               if remaining = 0 then te_max_wait cfg
               else if remaining < te_soft_threshold cfg then
                 mul_u64 (te_max_wait cfg) (te_soft_threshold cfg - remaining) div te_soft_threshold cfg
               else 0)"

definition u64_str :: "u64 \<Rightarrow> string" where
  "u64_str n = nat_str (unat n)"

definition budget_note :: "usage_snapshot \<Rightarrow> throttle_entry \<Rightarrow> string" where
  "budget_note s cfg =
     (case un_remaining s of
        None \<Rightarrow> []
      | Some remaining \<Rightarrow>
          (case un_limit s of
             None \<Rightarrow> ''Throttle: '' @ u64_str remaining @ '' requests remaining in window.''
           | Some limit \<Rightarrow>
               if remaining < te_soft_threshold cfg then
                 ''Throttle: '' @ u64_str remaining @ ''/'' @ u64_str limit @ '' requests remaining (below soft cap of ''
                 @ u64_str (te_soft_threshold cfg) @ ''; delays active).''
               else
                 ''Throttle: '' @ u64_str remaining @ ''/'' @ u64_str limit @ '' requests remaining in window. ''
                 @ u64_str (remaining - te_soft_threshold cfg) @ '' call(s) before soft cap.''))"

section \<open>The umans backend\<close>

record umans_config =
  uc_api_endpoint :: string
  uc_api_token :: string

record umans_priority =
  uq_low :: "bool option"
  uq_boxed_until :: "string option"

record umans_usage =
  ug_remaining_requests :: "u64 option"
  ug_priority :: "umans_priority option"

text \<open>\<open>limits.requests.limit\<close> and \<open>window.resets_at\<close>: each level may be absent.\<close>

record umans_body =
  ub_limits :: "u64 option option option"
  ub_window :: "string option option"
  ub_usage :: "umans_usage option"

text \<open>What the call needs from its surroundings: its configuration file, the URL parser and the resolver, the
  reply to one request, the JSON parser, and the time parser with the clock.\<close>

record umans_world =
  uw_config :: "throttle_error + umans_config"
  uw_parse_url :: "string \<Rightarrow> url_parts option"
  uw_lookup :: "string \<Rightarrow> nat \<Rightarrow> dns_answer"
  uw_reply :: answer
  uw_parse_body :: "string \<Rightarrow> umans_body option"
  uw_parse_time :: "string \<Rightarrow> int option"
  uw_now :: int

definition is_future_timestamp :: "umans_world \<Rightarrow> string \<Rightarrow> bool" where
  "is_future_timestamp w s =
     (if s = [] then False
      else case uw_parse_time w s of None \<Rightarrow> False | Some ts \<Rightarrow> uw_now w < ts)"

definition is_penalized :: "umans_world \<Rightarrow> umans_priority \<Rightarrow> bool" where
  "is_penalized w p =
     (let low = (case uq_low p of None \<Rightarrow> False | Some b \<Rightarrow> b);
          boxed = (case uq_boxed_until p of None \<Rightarrow> False | Some s \<Rightarrow> is_future_timestamp w s) in
      low \<or> boxed)"

definition map_umans_body :: "umans_world \<Rightarrow> umans_body \<Rightarrow> usage_snapshot" where
  "map_umans_body w b =
     \<lparr>un_remaining = Option.bind (ub_usage b) ug_remaining_requests,
      un_limit = Option.bind (Option.bind (ub_limits b) (\<lambda>l. l)) (\<lambda>r. r),
      un_resets_at = Option.bind (ub_window b) (\<lambda>w. w),
      un_penalized = (case Option.bind (ub_usage b) ug_priority of None \<Rightarrow> False | Some p \<Rightarrow> is_penalized w p)\<rparr>"

definition max_body :: int where "max_body = 65536"

fun usage_chunks :: "string \<Rightarrow> string list \<Rightarrow> bool \<Rightarrow> throttle_error + string" where
  "usage_chunks got [] broken = (if broken then Inl UmansBodyBroken else Inr got)"
| "usage_chunks got (c # cs) broken =
     (if max_body < int (length got) + int (length c) then Inl UmansTooLarge
      else usage_chunks (got @ c) cs broken)"

text \<open>The request that carries the token: its URL, the token and the addresses it connects to.\<close>

record token_request =
  tk_url :: string
  tk_token :: string
  tk_host :: host
  tk_addrs :: "socket_addr list"

definition usage_reply :: "umans_world \<Rightarrow> throttle_error + string" where
  "usage_reply w =
     (case uw_reply w of
        NoAnswer \<Rightarrow> Inl UmansRequestFailed
      | Answer r \<Rightarrow>
          if 300 \<le> rp_status r \<and> rp_status r \<le> 399 then Inl (UmansRedirected (rp_status r))
          else if \<not> is_success (rp_status r) then Inl (UmansStatus (rp_status r))
          else usage_chunks [] (b_chunks (rp_body r)) (b_broken (rp_body r)))"

definition fetch_usage_body ::
    "umans_world \<Rightarrow> string \<Rightarrow> string \<Rightarrow> host \<Rightarrow> socket_addr list \<Rightarrow> token_request option \<times> (throttle_error + string)" where
  "fetch_usage_body w url token h addrs =
     (if addrs = [] then (None, Inl (UmansNoAddresses h))
      else (Some \<lparr>tk_url = url, tk_token = token, tk_host = h, tk_addrs = addrs\<rparr>, usage_reply w))"

definition fetch_usage :: "umans_world \<Rightarrow> token_request option \<times> (throttle_error + usage_snapshot)" where
  "fetch_usage w =
     (case uw_config w of
        Inl e \<Rightarrow> (None, Inl e)
      | Inr cfg \<Rightarrow>
          (let url = trim_end_slash (uc_api_endpoint cfg) @ ''/v1/usage'' in
           if \<not> starts_with url ''https://'' then (None, Inl (UmansNotHttps (uc_api_endpoint cfg)))
           else case validate_url_production (uw_parse_url w) (uw_lookup w) url PublicOnly of
                  Inl e \<Rightarrow> (None, Inl (UmansAddress e))
                | Inr (h, addrs) \<Rightarrow>
                    (case fetch_usage_body w url (uc_api_token cfg) h addrs of
                       (sent, raw) \<Rightarrow>
                         (sent, seqR raw (\<lambda>text0.
                                seqR (ok_or UmansBadUsage (uw_parse_body w text0)) (\<lambda>b. Inr (map_umans_body w b)))))))"

section \<open>Files\<close>

text \<open>The cached snapshot: its time stamp, if one can be read, and its content.  Times are in nanoseconds.
  The state file holds an entry, a JSON null, another content, or it cannot be read.\<close>

datatype usage_cache = NoUsage | UsageStatFails | UsageFile "int option" "usage_snapshot json_file"

datatype throttle_file = EntryFile throttle_entry | NullFile | OddFile | BrokenFile

text \<open>The cache is written in place, so that a failed write leaves another file, the answer \<open>CacheLeft\<close>.\<close>

datatype cache_answer = CacheWritten | CacheLeft usage_cache

record throttle_dir =
  td_config :: "throttle_file option"
  td_usage :: usage_cache
  td_now :: int
  td_write_ok :: bool
  td_remove_ok :: bool
  td_cache_answer :: cache_answer

definition remove_stale_throttle :: "throttle_dir \<Rightarrow> (throttle_error + unit) \<times> throttle_dir" where
  "remove_stale_throttle d =
     (if td_config d = None then (Inr (), d)
      else if td_remove_ok d then (Inr (), d\<lparr>td_config := None\<rparr>)
      else (Inl StateNotRemoved, d))"

definition store_active_throttle :: "throttle_entry option \<Rightarrow> throttle_dir \<Rightarrow> (throttle_error + unit) \<times> throttle_dir" where
  "store_active_throttle t d =
     (case t of
        Some cfg \<Rightarrow>
          if td_write_ok d then (Inr (), d\<lparr>td_config := Some (EntryFile cfg)\<rparr>) else (Inl StateNotWritten, d)
      | None \<Rightarrow> remove_stale_throttle d)"

definition read_throttle_config :: "throttle_dir \<Rightarrow> throttle_error + throttle_entry option" where
  "read_throttle_config d =
     (case td_config d of
        None \<Rightarrow> Inr None
      | Some BrokenFile \<Rightarrow> Inl StateUnreadable
      | Some (EntryFile cfg) \<Rightarrow> Inr (Some cfg)
      | Some NullFile \<Rightarrow> Inl StateCorrupt
      | Some OddFile \<Rightarrow> Inl StateCorrupt)"

text \<open>The other reader parses an optional entry, so that a JSON null is the absent one.\<close>

definition read_active_throttle :: "throttle_dir \<Rightarrow> throttle_error + throttle_entry option" where
  "read_active_throttle d =
     (case td_config d of
        None \<Rightarrow> Inr None
      | Some BrokenFile \<Rightarrow> Inl StateUnreadable
      | Some (EntryFile cfg) \<Rightarrow> Inr (Some cfg)
      | Some NullFile \<Rightarrow> Inr None
      | Some OddFile \<Rightarrow> Inl StateCorrupt)"

definition try_read_cache :: "throttle_dir \<Rightarrow> u64 \<Rightarrow> usage_snapshot option" where
  "try_read_cache d cache_ttl =
     (case td_usage d of
        UsageFile (Some stamp) content \<Rightarrow>
          if td_now d < stamp then None
          else if uint cache_ttl * 1000000000 \<le> td_now d - stamp then None
          else (case content of Parsed snap \<Rightarrow> Some snap | _ \<Rightarrow> None)
      | _ \<Rightarrow> None)"

definition write_cache :: "usage_snapshot \<Rightarrow> throttle_dir \<Rightarrow> throttle_dir" where
  "write_cache snap d =
     (case td_cache_answer d of
        CacheWritten \<Rightarrow> d\<lparr>td_usage := UsageFile (Some (td_now d)) (Parsed snap)\<rparr>
      | CacheLeft f \<Rightarrow> d\<lparr>td_usage := f\<rparr>)"

definition is_backend_char :: "char \<Rightarrow> bool" where
  "is_backend_char c \<longleftrightarrow> is_ascii_alphanumeric c \<or> c = CHR ''-'' \<or> c = CHR ''_''"

text \<open>A backend is what its call sends and answers.  The cached fetch gives the snapshot, the folder, and the
  request that was sent.\<close>

type_synonym throttle_backend = "token_request option \<times> (throttle_error + usage_snapshot)"

definition fetch_cached ::
    "throttle_backend \<Rightarrow> throttle_entry \<Rightarrow> throttle_dir \<Rightarrow>
     (throttle_error + usage_snapshot) \<times> throttle_dir \<times> token_request option" where
  "fetch_cached backend cfg d =
     (if \<not> list_all is_backend_char (th_backend cfg) then (Inl (BadBackendName (th_backend cfg)), d, None)
      else case try_read_cache d (te_cache_ttl cfg) of
             Some snap \<Rightarrow> (Inr snap, d, None)
           | None \<Rightarrow>
               (case snd backend of
                  Inl e \<Rightarrow> (Inl e, d, fst backend)
                | Inr snap \<Rightarrow> (Inr snap, write_cache snap d, fst backend)))"

definition backend_for :: "umans_world \<Rightarrow> throttle_entry \<Rightarrow> throttle_backend option" where
  "backend_for w cfg = (if th_backend cfg = ''umans'' then Some (fetch_usage w) else None)"

text \<open>One hook call: the seconds it sleeps, its note or its failure, the folder, and the request that was sent.\<close>

record throttle_run =
  tr_delay :: u64
  tr_note :: "throttle_error + string"
  tr_dir :: throttle_dir
  tr_sent :: "token_request option"

definition run_throttle_inner :: "umans_world \<Rightarrow> string \<Rightarrow> throttle_dir \<Rightarrow> throttle_run" where
  "run_throttle_inner w event d =
     (case read_throttle_config d of
        Inl e \<Rightarrow> \<lparr>tr_delay = 0, tr_note = Inl e, tr_dir = d, tr_sent = None\<rparr>
      | Inr None \<Rightarrow> \<lparr>tr_delay = 0, tr_note = Inr [], tr_dir = d, tr_sent = None\<rparr>
      | Inr (Some cfg) \<Rightarrow>
          (case backend_for w cfg of
             None \<Rightarrow> \<lparr>tr_delay = 0, tr_note = Inr [], tr_dir = d, tr_sent = None\<rparr>
           | Some backend \<Rightarrow>
               (case fetch_cached backend cfg d of
                  (Inl e, d', sent) \<Rightarrow> \<lparr>tr_delay = 0, tr_note = Inl e, tr_dir = d', tr_sent = sent\<rparr>
                | (Inr snap, d', sent) \<Rightarrow>
                    \<lparr>tr_delay = compute_delay snap cfg,
                     tr_note = Inr (if event = ''prompt'' then budget_note snap cfg else []),
                     tr_dir = d', tr_sent = sent\<rparr>)))"

section \<open>The hook\<close>

datatype throttle_notice = CannotReadStdin | NameNotText | StdinNotJson | HookFailed throttle_error

definition engine_event_name :: "string \<Rightarrow> string" where
  "engine_event_name event =
     (if event = ''prompt'' then ''UserPromptSubmit'' else if event = ''pre-tool'' then ''PreToolUse'' else [])"

text \<open>The event name that the hook answers to, with the notices it adds; \<open>parse\<close> reads the text as JSON.\<close>

definition hook_event_name :: "(string \<Rightarrow> 'n json option) \<Rightarrow> string \<Rightarrow> string \<Rightarrow> string \<times> throttle_notice list" where
  "hook_event_name parse stdin event =
     (let (found, notices) =
        (case parse stdin of
           Some v \<Rightarrow>
             (case json_get ''hook_event_name'' v of
                None \<Rightarrow> (None, [])
              | Some JNull \<Rightarrow> (None, [])
              | Some (JString s) \<Rightarrow> (Some s, [])
              | Some _ \<Rightarrow> (None, [NameNotText]))
         | None \<Rightarrow> (None, if trim stdin \<noteq> [] then [StdinNotJson] else [])) in
      (case found of
         Some s \<Rightarrow> if s \<noteq> [] then s else engine_event_name event
       | None \<Rightarrow> engine_event_name event, notices))"

record hook_answer =
  ha_event :: string
  ha_note :: string
  ha_notices :: "throttle_notice list"
  ha_delay :: u64
  ha_dir :: throttle_dir
  ha_sent :: "token_request option"

definition run_throttle_hook ::
    "(string \<Rightarrow> 'n json option) \<Rightarrow> string option \<Rightarrow> umans_world \<Rightarrow> string \<Rightarrow> throttle_dir \<Rightarrow> hook_answer" where
  "run_throttle_hook parse stdin w event d =
     (case stdin of
        None \<Rightarrow> \<lparr>ha_event = engine_event_name event, ha_note = [], ha_notices = [CannotReadStdin],
                  ha_delay = 0, ha_dir = d, ha_sent = None\<rparr>
      | Some txt \<Rightarrow>
          (let (name, notices) = hook_event_name parse txt event;
               run = run_throttle_inner w event d in
           \<lparr>ha_event = name,
            ha_note = (case tr_note run of Inl _ \<Rightarrow> [] | Inr n \<Rightarrow> n),
            ha_notices = notices @ (case tr_note run of Inl e \<Rightarrow> [HookFailed e] | Inr _ \<Rightarrow> []),
            ha_delay = tr_delay run, ha_dir = tr_dir run, ha_sent = tr_sent run\<rparr>))"

text \<open>The text of the answer: the note, then the notices, each on a line of its own.\<close>

definition throttle_output :: "string \<Rightarrow> string list \<Rightarrow> string option \<Rightarrow> string" where
  "throttle_output note_line notices recorded =
     join_str [CHR 0x0A] (filter (\<lambda>p. p \<noteq> []) (note_line # notices @ (case recorded of None \<Rightarrow> [] | Some r \<Rightarrow> [r])))"

section \<open>Laws\<close>

lemma mul_u64_guard: "2 ^ 64 \<le> uint a * uint b \<longleftrightarrow> 2 ^ 64 \<le> unat a * unat b"
  for a b :: u64
proof -
  have "uint a * uint b = int (unat a * unat b)"
    by (simp only: uint_nat of_nat_mult)
  moreover have "(2 :: int) ^ 64 = int (2 ^ 64)"
    by simp
  ultimately show ?thesis
    by (simp only: of_nat_le_iff)
qed

lemma unat_mul_u64: "unat (mul_u64 a b) = min (2 ^ 64 - 1) (unat a * unat b)"
proof (cases "2 ^ 64 \<le> unat a * unat b")
  case True
  have "unat (- 1 :: u64) = 2 ^ 64 - 1"
    by (simp add: unsigned_minus_1_eq_mask mask_eq_exp_minus_1)
  then show ?thesis
    using True unfolding mul_u64_def mul_u64_guard by (simp add: min_def)
next
  case False
  then have "unat (a * b) = unat a * unat b"
    by (simp add: unat_word_ariths)
  then show ?thesis
    using False unfolding mul_u64_def mul_u64_guard by (simp add: min_def)
qed

text \<open>The delay in plain numbers.\<close>

definition ideal_delay :: "nat \<Rightarrow> nat \<Rightarrow> nat \<Rightarrow> nat" where
  "ideal_delay max_wait threshold remaining =
     (if remaining = 0 then max_wait
      else if remaining < threshold then min (2 ^ 64 - 1) (max_wait * (threshold - remaining)) div threshold
      else 0)"

lemma compute_delay_exact:
  "unat (compute_delay s cfg) =
   (if un_penalized s then unat (te_max_wait cfg)
    else case un_remaining s of
           None \<Rightarrow> 0
         | Some r \<Rightarrow> ideal_delay (unat (te_max_wait cfg)) (unat (te_soft_threshold cfg)) (unat r))"
proof -
  have "unat (te_soft_threshold cfg - r) = unat (te_soft_threshold cfg) - unat r" if "r < te_soft_threshold cfg" for r
    using that by (simp add: unat_sub order_less_imp_le)
  then show ?thesis
    by (simp add: compute_delay_def ideal_delay_def unat_div unat_mul_u64 word_less_nat_alt unat_eq_zero split: option.split)
qed

lemma ideal_delay_cap: "ideal_delay m t r \<le> m"
proof -
  have "m * (t - r) div t \<le> m" if "0 < t"
    using that by (metis diff_le_self div_le_mono div_mult_self_is_m mult.commute mult_le_mono2)
  moreover have "min (2 ^ 64 - 1) (m * (t - r)) div t \<le> m * (t - r) div t"
    by (rule div_le_mono) simp
  ultimately show ?thesis
    by (auto simp: ideal_delay_def intro: order_trans)
qed

lemma ideal_delay_antitone: "r \<le> r' \<Longrightarrow> ideal_delay m t r' \<le> ideal_delay m t r"
proof (cases "r = 0")
  case True
  then show ?thesis using ideal_delay_cap[of m t r'] by (simp add: ideal_delay_def)
next
  case False
  assume le: "r \<le> r'"
  have "min (2 ^ 64 - 1) (m * (t - r')) div t \<le> min (2 ^ 64 - 1) (m * (t - r)) div t"
    by (intro div_le_mono min.mono mult_le_mono diff_le_mono2 le order_refl)
  then show ?thesis using False le by (simp add: ideal_delay_def)
qed

text \<open>A snapshot that was just written is read back until its time to live has passed.\<close>

lemma cache_round_trip:
  assumes "td_cache_answer d = CacheWritten" "td_now d \<le> now" "now < td_now d + uint ttl * 1000000000"
  shows "try_read_cache ((write_cache snap d)\<lparr>td_now := now\<rparr>) ttl = Some snap"
  using assms by (simp add: try_read_cache_def write_cache_def)

lemma fetch_usage_sent:
  assumes "fst (fetch_usage w) = Some r"
  shows "starts_with (tk_url r) ''https://'' \<and> tk_addrs r \<noteq> [] \<and>
    (\<forall>a \<in> set (tk_addrs r). blocked_reason (fst a) PublicOnly = None)"
proof -
  obtain cfg where cfg: "uw_config w = Inr cfg"
    using assms by (auto simp: fetch_usage_def split: sum.splits)
  let ?url = "trim_end_slash (uc_api_endpoint cfg) @ ''/v1/usage''"
  have https: "starts_with ?url ''https://''"
    using assms cfg by (auto simp: fetch_usage_def Let_def split: if_splits)
  obtain h addrs where v: "validate_url_production (uw_parse_url w) (uw_lookup w) ?url PublicOnly = Inr (h, addrs)"
    using assms cfg https by (auto simp: fetch_usage_def Let_def split: sum.splits prod.splits)
  have "fst (fetch_usage_body w ?url (uc_api_token cfg) h addrs) = Some r"
    using assms cfg https v by (simp add: fetch_usage_def Let_def split: prod.splits)
  then have "addrs \<noteq> []" "tk_url r = ?url" "tk_addrs r = addrs"
    by (auto simp: fetch_usage_body_def split: if_splits)
  then show ?thesis
    using https url_validated[OF v] by simp
qed

lemma usage_chunks_bounded: "usage_chunks got cs broken = Inr raw \<Longrightarrow> int (length got) \<le> max_body \<Longrightarrow> int (length raw) \<le> max_body"
  by (induction got cs broken rule: usage_chunks.induct) (auto split: if_splits)

end
