(* ===== verification/Read_Once.thy ===== *)
theory Read_Once
  imports Throttling Nudges
begin

text \<open>
  The read-once hook, \<open>src/hook_run/read_once.rs\<close> and its folder: the cache file of a session in the folder of the
  feature, the stamp and the key of a file, and the decision on one call of the Read tool.  The file system is a
  record of its answers, and the two readings of the clock in one call are separate values.  Main results: when a
  read is answered as a repeat, and what a cache file can hold.
\<close>

section \<open>The cache\<close>

record read_entry =
  re_path :: string
  re_mtime_unix :: int
  re_first_read_at :: int
  re_hits :: u64
  re_tokens_saved :: u64

record session_cache =
  rc_session_id :: string
  rc_entries :: "string \<rightharpoonup> read_entry"
  rc_read_failed :: bool

datatype read_once_mode = ModeWarn | ModeDeny

record read_once_config =
  ro_mode :: read_once_mode
  ro_ttl_seconds :: u64

definition i64_max :: int where "i64_max = 9223372036854775807"

definition clamp_i64 :: "int \<Rightarrow> int" where
  "clamp_i64 x = max (- i64_max - 1) (min i64_max x)"

definition within_ttl :: "int \<Rightarrow> int \<Rightarrow> u64 \<Rightarrow> bool" where
  "within_ttl now first_read_at ttl_seconds \<longleftrightarrow> clamp_i64 (now - first_read_at) < min i64_max (uint ttl_seconds)"

definition new_cache :: "string \<Rightarrow> session_cache" where
  "new_cache session_id = \<lparr>rc_session_id = session_id, rc_entries = Map.empty, rc_read_failed = False\<rparr>"

definition prune_entries :: "int \<Rightarrow> u64 \<Rightarrow> session_cache \<Rightarrow> session_cache" where
  "prune_entries now ttl_seconds c =
     c\<lparr>rc_entries := (\<lambda>k. case rc_entries c k of
                          None \<Rightarrow> None
                        | Some e \<Rightarrow> if within_ttl now (re_first_read_at e) ttl_seconds then Some e else None)\<rparr>"

text \<open>The failure mark is not part of the file.\<close>

definition load_cache :: "int \<Rightarrow> string \<Rightarrow> u64 \<Rightarrow> session_cache hook_dir \<Rightarrow> session_cache" where
  "load_cache now session_id ttl_seconds d =
     prune_entries now ttl_seconds
       (case hd_files d session_id of
          None \<Rightarrow> new_cache session_id
        | Some (Parsed c) \<Rightarrow> c\<lparr>rc_read_failed := False\<rparr>
        | Some Malformed \<Rightarrow> new_cache session_id
        | Some (Unreadable k) \<Rightarrow> (new_cache session_id)\<lparr>rc_read_failed := True\<rparr>)"

definition save_cache :: "session_cache \<Rightarrow> session_cache hook_dir \<Rightarrow> bool \<times> session_cache hook_dir" where
  "save_cache c d =
     (if rc_read_failed c then (True, d)
      else write_file (rc_session_id c) c (prune_stale_json_files 7 d))"

section \<open>Files\<close>

text \<open>The answers of the file system: the metadata of a path with its modification time in nanoseconds since 1970,
  its canonical form, whether it names an entry, and the canonical form of a folder by its components.\<close>

datatype stat_answer = NoStat | NoModified | Stat int u64

record read_world =
  rw_stat :: "string \<Rightarrow> stat_answer"
  rw_canonical :: "string \<Rightarrow> string option"
  rw_exists :: "string \<Rightarrow> bool"
  rw_canonical_folder :: "component list \<Rightarrow> string option"

definition read_stamp :: "read_world \<Rightarrow> string \<Rightarrow> (int \<times> u64) option" where
  "read_stamp w path =
     (case rw_stat w path of
        NoStat \<Rightarrow> None
      | NoModified \<Rightarrow> None
      | Stat modified size0 \<Rightarrow>
          if modified < 0 then None
          else Some (sint (word_of_int (modified div 1000000000) :: 64 word), size0))"

definition canonical_parent_join :: "read_world \<Rightarrow> string \<Rightarrow> string option" where
  "canonical_parent_join w path =
     (if rw_exists w path then None
      else if path_components path = [] then None
      else case last (path_components path) of
             Normal name \<Rightarrow>
               (let parent = butlast (path_components path) in
                case rw_canonical_folder w (if parent = [] then [CurDir] else parent) of
                  None \<Rightarrow> None
                | Some folder \<Rightarrow> Some (if folder = ''/'' then ''/'' @ name else folder @ ''/'' @ name))
           | _ \<Rightarrow> None)"

definition cache_key :: "read_world \<Rightarrow> string \<Rightarrow> string" where
  "cache_key w path =
     (case rw_canonical w path of
        Some p \<Rightarrow> p
      | None \<Rightarrow> (case canonical_parent_join w path of Some p \<Rightarrow> p | None \<Rightarrow> path))"

section \<open>The hook\<close>

definition read_file_path :: "(string \<times> 'n json) list \<Rightarrow> string option" where
  "read_file_path tool_input =
     Option.bind (case map_of tool_input ''file_path'' of Some v \<Rightarrow> Some v | None \<Rightarrow> map_of tool_input ''filePath'') json_str"

definition repeat_message :: "string \<Rightarrow> u64 \<Rightarrow> string" where
  "repeat_message file_path tokens =
     file_path @ '' was already read this session (~'' @ u64_str tokens
     @ '' tokens saved from re-read). Prefer the copy already in context.''"

definition repeat_answer :: "read_once_mode \<Rightarrow> string \<Rightarrow> string" where
  "repeat_answer mode msg = (case mode of ModeDeny \<Rightarrow> ''__DENY__:'' @ msg | ModeWarn \<Rightarrow> msg)"

text \<open>The part of the hook after its guards: the file \<open>file_path\<close> with its stamp, in a checked session.\<close>

definition track_read ::
    "read_world \<Rightarrow> int \<Rightarrow> int \<Rightarrow> read_once_config \<Rightarrow> string \<Rightarrow> string \<Rightarrow> int \<times> u64 \<Rightarrow>
     session_cache hook_dir \<Rightarrow> string \<times> session_cache hook_dir" where
  "track_read w now0 now cfg session_id file_path stamp d =
     (let path_key = cache_key w file_path;
          d1 = snd (lock_state_file session_id d);
          c = load_cache now0 session_id (ro_ttl_seconds cfg) d1;
          tokens = snd stamp div 4;
          fresh = (\<lambda>p. \<lparr>re_path = p, re_mtime_unix = fst stamp, re_first_read_at = now, re_hits = 0,
                        re_tokens_saved = 0\<rparr>) in
      case rc_entries c path_key of
        Some e \<Rightarrow>
          if re_mtime_unix e = fst stamp \<and> within_ttl now (re_first_read_at e) (ro_ttl_seconds cfg) then
            (repeat_answer (ro_mode cfg) (repeat_message file_path tokens), d1)
          else ([], snd (save_cache (c\<lparr>rc_entries := (rc_entries c)(path_key \<mapsto> fresh (re_path e))\<rparr>) d1))
      | None \<Rightarrow> ([], snd (save_cache (c\<lparr>rc_entries := (rc_entries c)(path_key \<mapsto> fresh file_path)\<rparr>) d1)))"

definition handle_read ::
    "read_world \<Rightarrow> int \<Rightarrow> int \<Rightarrow> 'n json \<Rightarrow> string option \<Rightarrow> read_once_config \<Rightarrow>
     session_cache hook_dir \<Rightarrow> string \<times> session_cache hook_dir" where
  "handle_read w now0 now payload session_id cfg d =
     (if Option.bind (json_get ''tool_name'' payload) json_str \<noteq> Some ''Read'' then ([], d)
      else case json_get ''tool_input'' payload of
             Some (JObject tool_input) \<Rightarrow>
               (case read_file_path tool_input of
                  None \<Rightarrow> ([], d)
                | Some file_path \<Rightarrow>
                    if map_of tool_input ''offset'' \<noteq> None \<or> map_of tool_input ''limit'' \<noteq> None then ([], d)
                    else case read_stamp w file_path of
                           None \<Rightarrow> ([], d)
                         | Some stamp \<Rightarrow>
                             (case session_id of
                                None \<Rightarrow> ([], d)
                              | Some s \<Rightarrow>
                                  if \<not> is_valid_short_name s then ([], d)
                                  else track_read w now0 now cfg s file_path stamp d))
           | _ \<Rightarrow> ([], d))"

text \<open>The clear command: the entry at the folder, and whether the command succeeds and reports a cache.\<close>

datatype folder_entry = NoEntry | FolderEntry | OtherEntry | EntryUnknown

definition clear_cache :: "folder_entry \<Rightarrow> bool \<Rightarrow> (bool option) \<times> folder_entry" where
  "clear_cache f removed =
     (case f of
        NoEntry \<Rightarrow> (Some False, NoEntry)
      | EntryUnknown \<Rightarrow> (None, EntryUnknown)
      | FolderEntry \<Rightarrow> if removed then (Some True, NoEntry) else (None, FolderEntry)
      | OtherEntry \<Rightarrow> if removed then (Some True, NoEntry) else (None, OtherEntry))"

section \<open>Laws\<close>

lemma load_cache_entries:
  "rc_entries (load_cache now s ttl d) k = Some e \<longleftrightarrow>
   (\<exists>c. hd_files d s = Some (Parsed c) \<and> rc_entries c k = Some e \<and> within_ttl now (re_first_read_at e) ttl)"
  by (auto simp: load_cache_def prune_entries_def new_cache_def split: option.splits json_file.splits if_splits)

lemma load_cache_id:
  "rc_session_id (load_cache now s ttl d) =
   (case hd_files d s of Some (Parsed c) \<Rightarrow> rc_session_id c | _ \<Rightarrow> s)"
  by (simp add: load_cache_def prune_entries_def new_cache_def split: option.splits json_file.splits)

lemma load_cache_failed: "rc_read_failed (load_cache now s ttl d) \<longleftrightarrow> (\<exists>k. hd_files d s = Some (Unreadable k))"
  by (simp add: load_cache_def prune_entries_def new_cache_def split: option.splits json_file.splits)

lemma lock_keeps_files [simp]: "hd_files (snd (lock_state_file key d)) = hd_files d"
  by (simp add: lock_state_file_def lock_state_file_timed_def Let_def split: lock_file.split)

lemma lock_keeps_writes [simp]: "hd_writes (snd (lock_state_file key d)) = hd_writes d"
  by (simp add: lock_state_file_def lock_state_file_timed_def Let_def split: lock_file.split)

text \<open>A cache file is sound when it is named by its own session and counts nothing.\<close>

definition cache_sound :: "string \<Rightarrow> session_cache \<Rightarrow> bool" where
  "cache_sound key c \<longleftrightarrow> rc_session_id c = key \<and> (\<forall>k e. rc_entries c k = Some e \<longrightarrow> re_hits e = 0 \<and> re_tokens_saved e = 0)"

definition caches_sound :: "session_cache hook_dir \<Rightarrow> bool" where
  "caches_sound d \<longleftrightarrow> (\<forall>key c. hd_files d key = Some (Parsed c) \<longrightarrow> cache_sound key c)"

lemma load_cache_sound: "caches_sound d \<Longrightarrow> cache_sound s (load_cache now s ttl d)"
  by (auto simp: caches_sound_def cache_sound_def load_cache_entries load_cache_id split: option.split json_file.split)

lemma save_cache_sound:
  assumes "caches_sound d" "cache_sound s c"
  shows "caches_sound (snd (save_cache c d))"
  using assms by (auto simp: save_cache_def caches_sound_def write_file_def prune_stale_json_files_def Let_def cache_sound_def
      split: write_answer.splits list.splits if_splits)

lemma sound_update:
  "cache_sound s c \<Longrightarrow> re_hits e = 0 \<Longrightarrow> re_tokens_saved e = 0 \<Longrightarrow> cache_sound s (c\<lparr>rc_entries := (rc_entries c)(k \<mapsto> e)\<rparr>)"
  by (simp add: cache_sound_def)

lemma lock_keeps_sound: "caches_sound (snd (lock_state_file key d)) = caches_sound d"
  by (simp add: caches_sound_def)

lemma track_read_sound:
  assumes "caches_sound d"
  shows "caches_sound (snd (track_read w now0 now cfg s p stamp d))"
proof -
  let ?d = "snd (lock_state_file s d)"
  have d: "caches_sound ?d" using assms by (simp add: lock_keeps_sound)
  have c: "cache_sound s (load_cache now0 s (ro_ttl_seconds cfg) ?d)"
    using d by (rule load_cache_sound)
  have "caches_sound (snd (save_cache ((load_cache now0 s (ro_ttl_seconds cfg) ?d)
      \<lparr>rc_entries := (rc_entries (load_cache now0 s (ro_ttl_seconds cfg) ?d))(k \<mapsto> e)\<rparr>) ?d))"
    if "re_hits e = 0" "re_tokens_saved e = 0" for k e
    by (rule save_cache_sound[OF d sound_update[OF c that]])
  then show ?thesis
    using d by (simp add: track_read_def Let_def split: option.split)
qed

lemma handle_read_sound: "caches_sound d \<Longrightarrow> caches_sound (snd (handle_read w now0 now payload sid cfg d))"
  by (simp add: handle_read_def track_read_sound split: option.split json.split)

text \<open>The guards of the hook, as one value: the session, the file and its stamp.\<close>

definition tracked :: "read_world \<Rightarrow> 'n json \<Rightarrow> string option \<Rightarrow> (string \<times> string \<times> int \<times> u64) option" where
  "tracked w payload sid =
     (if Option.bind (json_get ''tool_name'' payload) json_str \<noteq> Some ''Read'' then None
      else case json_get ''tool_input'' payload of
             Some (JObject m) \<Rightarrow>
               Option.bind (read_file_path m) (\<lambda>p.
                 if map_of m ''offset'' \<noteq> None \<or> map_of m ''limit'' \<noteq> None then None
                 else Option.bind (read_stamp w p) (\<lambda>stamp.
                   Option.bind sid (\<lambda>s. if is_valid_short_name s then Some (s, p, stamp) else None)))
           | _ \<Rightarrow> None)"

lemma handle_read_tracked:
  "handle_read w now0 now payload sid cfg d =
   (case tracked w payload sid of
      None \<Rightarrow> ([], d)
    | Some (s, p, stamp) \<Rightarrow> track_read w now0 now cfg s p stamp d)"
  by (simp add: handle_read_def tracked_def split: option.split json.split)

lemma repeat_answer_some: "repeat_answer mode (repeat_message p n) \<noteq> []"
  by (simp add: repeat_answer_def repeat_message_def split: read_once_mode.split)

text \<open>A tracked read is answered as a repeat exactly when the cache file of its session holds an entry for its key
  with the same second of modification that is inside its time to live at both readings of the clock.\<close>

definition known_read :: "int \<Rightarrow> int \<Rightarrow> u64 \<Rightarrow> string \<Rightarrow> string \<Rightarrow> int \<Rightarrow> session_cache hook_dir \<Rightarrow> bool" where
  "known_read now0 now ttl s key mtime d \<longleftrightarrow>
     (\<exists>c e. hd_files d s = Some (Parsed c) \<and> rc_entries c key = Some e \<and> re_mtime_unix e = mtime \<and>
        within_ttl now0 (re_first_read_at e) ttl \<and> within_ttl now (re_first_read_at e) ttl)"

lemma track_read_exact:
  "fst (track_read w now0 now cfg s p stamp d) =
   (if known_read now0 now (ro_ttl_seconds cfg) s (cache_key w p) (fst stamp) d
    then repeat_answer (ro_mode cfg) (repeat_message p (snd stamp div 4)) else [])"
proof (cases "rc_entries (load_cache now0 s (ro_ttl_seconds cfg) (snd (lock_state_file s d))) (cache_key w p)")
  case None
  then have "\<not> known_read now0 now (ro_ttl_seconds cfg) s (cache_key w p) (fst stamp) d"
    using load_cache_entries[of now0 s "ro_ttl_seconds cfg" "snd (lock_state_file s d)" "cache_key w p"]
    by (auto simp: known_read_def)
  then show ?thesis using None by (simp add: track_read_def Let_def)
next
  case (Some e)
  then obtain c where "hd_files d s = Some (Parsed c)" "rc_entries c (cache_key w p) = Some e"
    "within_ttl now0 (re_first_read_at e) (ro_ttl_seconds cfg)"
    using load_cache_entries[of now0 s "ro_ttl_seconds cfg" "snd (lock_state_file s d)" "cache_key w p" e] by auto
  then show ?thesis using Some by (simp add: track_read_def Let_def known_read_def)
qed

text \<open>A read that passes and whose cache file is written is recorded with its second and its time.\<close>

lemma track_read_records:
  assumes "fst (track_read w now0 now cfg s p stamp d) = []" "caches_sound d"
    "\<And>k. hd_files d s \<noteq> Some (Unreadable k)" "hd_writes d = []"
  shows "\<exists>c e. hd_files (snd (track_read w now0 now cfg s p stamp d)) s = Some (Parsed c) \<and>
    rc_entries c (cache_key w p) = Some e \<and> re_mtime_unix e = fst stamp \<and> re_first_read_at e = now"
proof -
  let ?d = "snd (lock_state_file s d)"
  let ?c = "load_cache now0 s (ro_ttl_seconds cfg) ?d"
  let ?fresh = "\<lambda>q. \<lparr>re_path = q, re_mtime_unix = fst stamp, re_first_read_at = now, re_hits = 0, re_tokens_saved = 0\<rparr>"
  have miss: "\<not> (\<exists>e. rc_entries ?c (cache_key w p) = Some e \<and> re_mtime_unix e = fst stamp \<and>
      within_ttl now (re_first_read_at e) (ro_ttl_seconds cfg))"
    using assms(1) by (auto simp: track_read_def Let_def repeat_answer_some)
  obtain q where q: "snd (track_read w now0 now cfg s p stamp d) =
      snd (save_cache (?c\<lparr>rc_entries := (rc_entries ?c)(cache_key w p \<mapsto> ?fresh q)\<rparr>) ?d)"
    using miss by (cases "rc_entries ?c (cache_key w p)") (auto simp: track_read_def Let_def)
  have "\<not> rc_read_failed ?c" using assms(3) by (simp add: load_cache_failed)
  moreover have "rc_session_id ?c = s"
    using load_cache_sound[of ?d s now0 "ro_ttl_seconds cfg"] assms(2) by (simp add: cache_sound_def lock_keeps_sound)
  ultimately have "hd_files (snd (track_read w now0 now cfg s p stamp d)) s =
      Some (Parsed (?c\<lparr>rc_entries := (rc_entries ?c)(cache_key w p \<mapsto> ?fresh q)\<rparr>))"
    unfolding q by (simp add: save_cache_def write_file_def prune_stale_json_files_def assms(4) Let_def)
  then show ?thesis by simp
qed

text \<open>A call leaves the cache file of every other session as it is, but for files over seven days old.\<close>

lemma save_cache_other:
  assumes "rc_session_id c = s" "other \<noteq> s"
  shows "hd_files (snd (save_cache c d)) other = hd_files d other \<or>
    is_stale (hd_ages d other) (7 * 86400) \<and> hd_files (snd (save_cache c d)) other = None"
  using assms by (simp add: save_cache_def write_file_def prune_stale_json_files_def Let_def
      split: write_answer.split list.split)

lemma lock_keeps_ages [simp]: "hd_ages (snd (lock_state_file key d)) = hd_ages d"
  by (simp add: lock_state_file_def lock_state_file_timed_def Let_def split: lock_file.split)

lemma track_read_frame:
  assumes "caches_sound d" "other \<noteq> s"
  shows "hd_files (snd (track_read w now0 now cfg s p stamp d)) other = hd_files d other \<or>
    is_stale (hd_ages d other) (7 * 86400) \<and> hd_files (snd (track_read w now0 now cfg s p stamp d)) other = None"
proof -
  let ?d = "snd (lock_state_file s d)"
  have id: "rc_session_id (load_cache now0 s (ro_ttl_seconds cfg) ?d) = s"
    using load_cache_sound[of ?d s now0 "ro_ttl_seconds cfg"] assms(1) by (simp add: cache_sound_def lock_keeps_sound)
  have "hd_files (snd (save_cache (load_cache now0 s (ro_ttl_seconds cfg) ?d\<lparr>rc_entries := f\<rparr>) ?d)) other = hd_files d other \<or>
    is_stale (hd_ages d other) (7 * 86400) \<and>
    hd_files (snd (save_cache (load_cache now0 s (ro_ttl_seconds cfg) ?d\<lparr>rc_entries := f\<rparr>) ?d)) other = None" for f
    using save_cache_other[of "load_cache now0 s (ro_ttl_seconds cfg) ?d\<lparr>rc_entries := f\<rparr>" s other ?d] id assms(2) by simp
  then show ?thesis
    by (auto simp: track_read_def Let_def split: option.splits)
qed

text \<open>The size of a file is not part of its identity: two stamps with the same second give the same decision.\<close>

lemma size_is_not_compared:
  "fst (track_read w now0 now cfg s p (m, size1) d) = [] \<longleftrightarrow> fst (track_read w now0 now cfg s p (m, size2) d) = []"
  by (simp add: track_read_exact repeat_answer_some)

text \<open>A run of calls, of any sessions, with any answers of the file system and of the clock.\<close>

record 'n read_call =
  rl_world :: read_world
  rl_now0 :: int
  rl_now :: int
  rl_payload :: "'n json"
  rl_session :: "string option"
  rl_config :: read_once_config

definition call_read :: "'n read_call \<Rightarrow> session_cache hook_dir \<Rightarrow> string \<times> session_cache hook_dir" where
  "call_read c d = handle_read (rl_world c) (rl_now0 c) (rl_now c) (rl_payload c) (rl_session c) (rl_config c) d"

lemma run_reads_sound: "caches_sound d \<Longrightarrow> caches_sound (fold (\<lambda>c d. snd (call_read c d)) cs d)"
  by (induction cs arbitrary: d) (simp_all add: call_read_def handle_read_sound)

lemma empty_dir_sound: "caches_sound empty_dir"
  by (simp add: caches_sound_def empty_dir_def)

end
