(* ===== verification/Cache_Laws.thy ===== *)
theory Cache_Laws
  imports Cache_Sweep
begin

text \<open>
  The laws of the cache sweeps.  Two interfaces carry them: a step whose removals are decided by its entry alone
  (\<open>planned_step\<close>), and a step that counts its entry once (\<open>counted_step\<close>); both are interpreted on the steps of
  \<open>gc\<close>, of its generations and of \<open>prune\<close>.
\<close>

section \<open>Age\<close>

text \<open>The stamps of the files in a tree, without the entries that vanished.\<close>

fun file_stamps :: "age_source \<Rightarrow> folder_list \<Rightarrow> int list"
and entry_stamps :: "age_source \<Rightarrow> cache_entry list \<Rightarrow> int list" where
  "file_stamps age (NoListing e) = []"
| "file_stamps age (Listing es) = entry_stamps age es"
| "entry_stamps age [] = []"
| "entry_stamps age (BadEntry e # es) = entry_stamps age es"
| "entry_stamps age (CacheEntry name (CacheNode k (NoMeta e) l) # es) = entry_stamps age es"
| "entry_stamps age (CacheEntry name (CacheNode k (NoTime e) l) # es) = entry_stamps age es"
| "entry_stamps age (CacheEntry name (CacheNode k (Stamped m c) l) # es) =
     (if k = KindFolder then file_stamps age l else [stamp_of age m c]) @ entry_stamps age es"

definition join_max :: "int option \<Rightarrow> int list \<Rightarrow> int option" where
  "join_max b xs = fold (\<lambda>x m. Some (case m of None \<Rightarrow> x | Some y \<Rightarrow> max y x)) xs b"

lemma join_max_append [simp]: "join_max b (xs @ ys) = join_max (join_max b xs) ys"
  by (simp add: join_max_def)

lemma join_max_nil [simp]: "join_max b [] = b"
  by (simp add: join_max_def)

lemma see_stamp_files [simp]:
  "nw_non_dir (see_stamp True x n) = nw_non_dir n"
  "nw_non_dir (see_stamp False x n) = join_max (nw_non_dir n) [x]"
  by (simp_all add: see_stamp_def join_max_def Let_def)

lemma walk_files:
  "walk_mtime age l n = Inr n' \<Longrightarrow> nw_non_dir n' = join_max (nw_non_dir n) (file_stamps age l)"
  "walk_cache_entries age es n = Inr n' \<Longrightarrow> nw_non_dir n' = join_max (nw_non_dir n) (entry_stamps age es)"
proof (induction age l n and age es n arbitrary: n' and n' rule: walk_mtime_walk_cache_entries.induct)
  case (9 age name k m c l es n)
  let ?n = "see_stamp (k = KindFolder) (stamp_of age m c) n"
  show ?case
  proof (cases "k = KindFolder")
    case True
    then obtain n2 where w: "walk_mtime age l ?n = Inr n2" "walk_cache_entries age es n2 = Inr n'"
      using "9.prems" by (simp add: Let_def split: sum.splits)
    have "nw_non_dir n2 = join_max (nw_non_dir ?n) (file_stamps age l)"
      by (rule "9.IH"(1)[OF refl True w(1)])
    moreover have "nw_non_dir n' = join_max (nw_non_dir n2) (entry_stamps age es)"
      by (rule "9.IH"(2)[OF refl True w])
    ultimately show ?thesis using True by simp
  next
    case False
    then have "walk_cache_entries age es ?n = Inr n'" using "9.prems" by (simp add: Let_def)
    then have "nw_non_dir n' = join_max (nw_non_dir ?n) (entry_stamps age es)"
      by (rule "9.IH"(3)[OF refl False])
    then show ?thesis using False by (simp add: join_max_def)
  qed
qed simp_all

lemma join_max_upper: "x \<in> set xs \<or> b = Some x \<Longrightarrow> \<exists>m. join_max b xs = Some m \<and> x \<le> m"
proof (induction xs arbitrary: b x)
  case (Cons y ys)
  let ?b = "Some (case b of None \<Rightarrow> y | Some z \<Rightarrow> max z y)"
  have step: "join_max b (y # ys) = join_max ?b ys" by (simp add: join_max_def)
  show ?case
  proof (cases "x \<in> set ys")
    case True
    then show ?thesis using Cons.IH[of x ?b] step by simp
  next
    case False
    then have "x \<le> the ?b" using Cons.prems by (auto split: option.split)
    then show ?thesis using Cons.IH[of "the ?b" ?b] step by (auto intro: order_trans)
  qed
qed simp

text \<open>The age of a folder is that of its newest file.\<close>

lemma newest_file_bounds:
  assumes "newest_file_mtime age t = Inr m" "x \<in> set (file_stamps age (ct_list t))"
  shows "x \<le> m"
proof -
  obtain mo ch where st: "ct_stat t = Stamped mo ch"
    using assms(1) by (auto simp: newest_file_mtime_def split: node_stat.splits)
  obtain n where w: "walk_mtime age (ct_list t) \<lparr>nw_any = stamp_of age mo ch, nw_non_dir = None\<rparr> = Inr n"
    and m: "m = (case nw_non_dir n of None \<Rightarrow> nw_any n | Some x \<Rightarrow> x)"
    using assms(1) st by (auto simp: newest_file_mtime_def split: sum.splits)
  have "nw_non_dir n = join_max None (file_stamps age (ct_list t))"
    using walk_files(1)[OF w] by simp
  then show ?thesis
    using join_max_upper[of x "file_stamps age (ct_list t)" None] assms(2) m by auto
qed

section \<open>Removals\<close>

lemma gc_remove_simps [simp]:
  "sr_removed (gc_remove True a p r) = sr_removed r @ [p]"
  "sr_attempts (gc_remove True a p r) = sr_attempts r"
  "sr_attempts (gc_remove False a p r) = sr_attempts r @ [p]"
  "sr_removed (gc_remove False a p r) = sr_removed r @ (if a \<in> {Removed, Gone} then [p] else [])"
  "sr_kept (gc_remove dry a p r) = sr_kept r"
  by (auto simp: gc_remove_def record_failure_def Let_def split: remove_answer.split)

lemma record_failure_simps [simp]:
  "sr_removed (record_failure p c r) = sr_removed r"
  "sr_attempts (record_failure p c r) = sr_attempts r"
  "sr_kept (record_failure p c r) = sr_kept r"
  by (simp_all add: record_failure_def)

lemma keep_entry_simps [simp]:
  "sr_removed (keep_entry r) = sr_removed r"
  "sr_attempts (keep_entry r) = sr_attempts r"
  "sr_failed (keep_entry r) = sr_failed r"
  by (simp_all add: keep_entry_def)

text \<open>The two sweeps remove in the same way.\<close>

lemma prune_removals:
  "prune_remove_dir sys dry p r = gc_remove dry (remove_dir_all_forcing_writable sys p) p r"
  "prune_remove_link sys dry p r = gc_remove dry (fst (sys p)) p r"
  by (auto simp: prune_remove_dir_def prune_remove_link_def gc_remove_def Let_def split: remove_answer.split)

section \<open>Plans\<close>

locale planned_step =
  fixes step :: "removals \<Rightarrow> bool \<Rightarrow> 'e \<Rightarrow> sweep_report \<Rightarrow> sweep_report"
    and plan :: "'e \<Rightarrow> sweep_path list"
  assumes previewed: "sr_removed (step sys True e r) = sr_removed r @ plan e"
    and preview_idle: "sr_attempts (step sys True e r) = sr_attempts r"
    and attempted: "sr_attempts (step sys False e r) = sr_attempts r @ plan e"
    and removed_planned: "\<exists>ps. set ps \<subseteq> set (plan e) \<and> sr_removed (step sys False e r) = sr_removed r @ ps"
begin

lemma fold_previewed: "sr_removed (fold (step sys True) es r) = sr_removed r @ concat (map plan es)"
  by (induction es arbitrary: r) (simp_all add: previewed)

lemma fold_preview_idle: "sr_attempts (fold (step sys True) es r) = sr_attempts r"
  by (induction es arbitrary: r) (simp_all add: preview_idle)

lemma fold_attempted: "sr_attempts (fold (step sys False) es r) = sr_attempts r @ concat (map plan es)"
  by (induction es arbitrary: r) (simp_all add: attempted)

lemma fold_removed_planned:
  "\<exists>ps. set ps \<subseteq> set (concat (map plan es)) \<and> sr_removed (fold (step sys False) es r) = sr_removed r @ ps"
proof (induction es arbitrary: r)
  case (Cons e es)
  obtain ps where "set ps \<subseteq> set (plan e)" "sr_removed (step sys False e r) = sr_removed r @ ps"
    using removed_planned by blast
  moreover obtain qs where "set qs \<subseteq> set (concat (map plan es))"
    "sr_removed (fold (step sys False) es (step sys False e r)) = sr_removed (step sys False e r) @ qs"
    using Cons by blast
  ultimately have "set (ps @ qs) \<subseteq> set (concat (map plan (e # es))) \<and>
      sr_removed (fold (step sys False) (e # es) r) = sr_removed r @ (ps @ qs)" by auto
  then show ?case by blast
qed simp

end

definition folder_plan :: "sweep_setup \<Rightarrow> sweep_path \<Rightarrow> string \<Rightarrow> cache_tree \<Rightarrow> sweep_path list" where
  "folder_plan u p name t =
     (if has_tmp_extension name then [p]
      else if name = state_dir_name then []
      else case newest_file_mtime (ar_source (su_rule u)) t of
             Inl _ \<Rightarrow> []
           | Inr m \<Rightarrow> if is_expired (su_now u) m (ar_older_than (su_rule u)) then [p] else [])"

definition shape_plan :: "sweep_setup \<Rightarrow> sweep_path \<Rightarrow> cache_entry \<Rightarrow> sweep_path list" where
  "shape_plan u dir e =
     (case e of
        BadEntry _ \<Rightarrow> []
      | CacheEntry name t \<Rightarrow> if ct_kind t = KindFolder then folder_plan u (dir @ [name]) name t else [])"

definition list_plan :: "sweep_setup \<Rightarrow> sweep_path \<Rightarrow> folder_list \<Rightarrow> sweep_path list" where
  "list_plan u dir l = (case l of NoListing _ \<Rightarrow> [] | Listing es \<Rightarrow> concat (map (shape_plan u dir) es))"

definition generation :: "string \<Rightarrow> hashing_mode \<Rightarrow> string \<Rightarrow> bool" where
  "generation pkg_version hashing name \<longleftrightarrow> hashing = HashNormal \<and> name = version_major pkg_version"

definition gc_plan :: "string \<Rightarrow> sweep_setup \<Rightarrow> hashing_mode \<Rightarrow> cache_entry \<Rightarrow> sweep_path list" where
  "gc_plan pkg_version u hashing e =
     (case e of
        BadEntry _ \<Rightarrow> []
      | CacheEntry name t \<Rightarrow>
          (case ct_kind t of
             KindLink \<Rightarrow> [[name]]
           | KindFolder \<Rightarrow>
               if generation pkg_version hashing name
               then list_plan u [name] (ct_list t)
               else folder_plan u [name] name t
           | _ \<Rightarrow> []))"

definition prune_plan ::
    "string \<Rightarrow> sweep_setup \<Rightarrow> prune_mode \<Rightarrow> hashing_mode \<Rightarrow> string option \<Rightarrow> cache_entry \<Rightarrow> sweep_path list" where
  "prune_plan version_tag u mode hashing cv e =
     (case e of
        BadEntry _ \<Rightarrow> []
      | CacheEntry name t \<Rightarrow>
          if ct_kind t = KindLink \<or> ct_kind t = KindFolder \<and>
             (has_tmp_extension name \<or> name \<noteq> state_dir_name \<and>
               (case mode of
                  PruneAll \<Rightarrow> True
                | PruneStaleOnly \<Rightarrow> \<not> is_current_name version_tag name hashing cv
                | PruneOlderThan rule \<Rightarrow>
                    is_current_name version_tag name hashing cv \<and>
                    (case newest_file_mtime (ar_source rule) t of
                       Inl _ \<Rightarrow> False | Inr m \<Rightarrow> is_expired (su_now u) m (ar_older_than rule))))
          then [[name]] else [])"

abbreviation with_run :: "sweep_setup \<Rightarrow> removals \<Rightarrow> bool \<Rightarrow> sweep_setup" where
  "with_run u sys dry \<equiv> u\<lparr>su_removals := sys, su_dry_run := dry\<rparr>"

lemma generation_branch:
  "(hashing = HashNormal \<and> is_current_name vt name hashing
      (if hashing = HashNormal then Some (version_major pv) else None)) = generation pv hashing name"
  by (simp add: is_current_name_def generation_def)

lemma collect_plan:
  "sr_removed (collect_if_expired (with_run u sys True) p name t r) = sr_removed r @ folder_plan u p name t"
  "sr_attempts (collect_if_expired (with_run u sys True) p name t r) = sr_attempts r"
  "sr_attempts (collect_if_expired (with_run u sys False) p name t r) = sr_attempts r @ folder_plan u p name t"
  "\<exists>ps. set ps \<subseteq> set (folder_plan u p name t) \<and>
     sr_removed (collect_if_expired (with_run u sys False) p name t r) = sr_removed r @ ps"
  by (auto simp: collect_if_expired_def folder_plan_def gc_remove_dir_def split: sum.splits io_fault.splits)

interpretation shape: planned_step "\<lambda>sys dry. gc_shape_entry (with_run u sys dry) dir" "shape_plan u dir"
  by unfold_locales
    (auto simp: gc_shape_entry_def shape_plan_def collect_plan split: cache_entry.split node_kind.split io_fault.split)

lemma shapes_plan:
  "sr_removed (snd (gc_normal_shapes (with_run u sys True) dir l r)) =
     sr_removed r @ list_plan u dir l"
  "sr_attempts (snd (gc_normal_shapes (with_run u sys True) dir l r)) = sr_attempts r"
  "sr_attempts (snd (gc_normal_shapes (with_run u sys False) dir l r)) =
     sr_attempts r @ list_plan u dir l"
  "\<exists>ps. set ps \<subseteq> set (list_plan u dir l) \<and>
     sr_removed (snd (gc_normal_shapes (with_run u sys False) dir l r)) = sr_removed r @ ps"
  using shape.fold_removed_planned[where u = u and sys = sys and dir = dir]
  by (cases l; simp add: gc_normal_shapes_def list_plan_def shape.fold_previewed shape.fold_preview_idle shape.fold_attempted
      split: io_fault.split)+

lemma gc_folder_entry:
  "ct_kind t = KindFolder \<Longrightarrow> gc_entry vt pv u hashing (CacheEntry name t) r =
   (if generation pv hashing name then
      (let s = gc_normal_shapes u [name] (ct_list t) r in if fst s then snd s else record_failure [name] NotSwept (snd s))
    else collect_if_expired u [name] name t r)"
  unfolding gc_entry_def generation_branch by (simp add: case_prod_beta Let_def)

lemma gc_other_entry:
  "ct_kind t = KindLink \<Longrightarrow> gc_entry vt pv u hashing (CacheEntry name t) r = gc_remove_link (su_removals u) (su_dry_run u) [name] r"
  "ct_kind t = KindFile \<Longrightarrow> gc_entry vt pv u hashing (CacheEntry name t) r = keep_entry r"
  "ct_kind t = KindFails f \<Longrightarrow> gc_entry vt pv u hashing (CacheEntry name t) r =
     (if f = Vanished then r else record_failure [name] TypeUnreadable r)"
  "gc_entry vt pv u hashing (BadEntry f) r = record_failure [] EntryUnreadable r"
  by (simp_all add: gc_entry_def split: io_fault.split)

lemma gc_entry_plan:
  "sr_removed (gc_entry vt pv (with_run u sys True) hashing e r) = sr_removed r @ gc_plan pv u hashing e"
  "sr_attempts (gc_entry vt pv (with_run u sys True) hashing e r) = sr_attempts r"
  "sr_attempts (gc_entry vt pv (with_run u sys False) hashing e r) = sr_attempts r @ gc_plan pv u hashing e"
  "\<exists>ps. set ps \<subseteq> set (gc_plan pv u hashing e) \<and>
     sr_removed (gc_entry vt pv (with_run u sys False) hashing e r) = sr_removed r @ ps"
proof -
  consider f where "e = BadEntry f" | n t f where "e = CacheEntry n t" "ct_kind t = KindFails f"
    | n t where "e = CacheEntry n t" "ct_kind t = KindLink" | n t where "e = CacheEntry n t" "ct_kind t = KindFile"
    | n t where "e = CacheEntry n t" "ct_kind t = KindFolder"
    by (cases e) (metis node_kind.exhaust)+
  note kinds = this
  show "sr_removed (gc_entry vt pv (with_run u sys True) hashing e r) = sr_removed r @ gc_plan pv u hashing e"
    by (rule kinds) (simp_all add: gc_other_entry gc_folder_entry gc_plan_def gc_remove_link_def collect_plan shapes_plan Let_def)
  show "sr_attempts (gc_entry vt pv (with_run u sys True) hashing e r) = sr_attempts r"
    by (rule kinds) (simp_all add: gc_other_entry gc_folder_entry gc_plan_def gc_remove_link_def collect_plan shapes_plan Let_def)
  show "sr_attempts (gc_entry vt pv (with_run u sys False) hashing e r) = sr_attempts r @ gc_plan pv u hashing e"
    by (rule kinds) (simp_all add: gc_other_entry gc_folder_entry gc_plan_def gc_remove_link_def collect_plan shapes_plan Let_def)
  show "\<exists>ps. set ps \<subseteq> set (gc_plan pv u hashing e) \<and>
     sr_removed (gc_entry vt pv (with_run u sys False) hashing e r) = sr_removed r @ ps"
    by (rule kinds) (auto simp: gc_other_entry gc_folder_entry gc_plan_def gc_remove_link_def Let_def
        collect_plan(4) shapes_plan(4))
qed

interpretation swept: planned_step "\<lambda>sys dry. gc_entry vt pv (with_run u sys dry) hashing" "gc_plan pv u hashing"
  by unfold_locales (rule gc_entry_plan)+

interpretation pruned: planned_step "\<lambda>sys dry. prune_entry vt (with_run u sys dry) mode hashing cv" "prune_plan vt u mode hashing cv"
  by unfold_locales
    (auto simp: prune_entry_def prune_plan_def prune_folder_def prune_removals Let_def
      split: cache_entry.split node_kind.split io_fault.split prune_mode.split sum.split)

section \<open>Counts\<close>

definition tally :: "sweep_report \<Rightarrow> nat" where
  "tally r = length (sr_removed r) + sr_kept r + length (sr_failed r)"

definition failed_paths :: "sweep_report \<Rightarrow> sweep_path set" where
  "failed_paths r = fst ` set (sr_failed r)"

lemma disjoint_step: "B \<subseteq> insert k C \<Longrightarrow> k \<notin> A \<Longrightarrow> A \<inter> C = {} \<Longrightarrow> A \<inter> B = {}"
  by blast

lemma subset_step: "X \<subseteq> A \<union> B \<Longrightarrow> B \<subseteq> insert k C \<Longrightarrow> X \<subseteq> insert k A \<union> C"
  by blast

text \<open>A step counts its entry with a weight, and its failures are below the key of the entry.\<close>

locale counted_step =
  fixes step :: "'e \<Rightarrow> sweep_report \<Rightarrow> sweep_report"
    and key :: "sweep_path \<Rightarrow> sweep_path"
    and key_of :: "'e \<Rightarrow> sweep_path"
    and counts :: "'e \<Rightarrow> bool"
    and weight :: "'e \<Rightarrow> nat"
  assumes counted: "counts e \<Longrightarrow> key_of e \<notin> key ` failed_paths r \<Longrightarrow> tally (step e r) = tally r + weight e"
    and failures: "key ` failed_paths (step e r) \<subseteq> insert (key_of e) (key ` failed_paths r)"
begin

lemma fold_counted:
  "list_all counts es \<Longrightarrow> distinct (map key_of es) \<Longrightarrow> key_of ` set es \<inter> key ` failed_paths r = {} \<Longrightarrow>
   tally (fold step es r) = tally r + sum_list (map weight es)"
proof (induction es arbitrary: r)
  case (Cons e es)
  have "key_of ` set es \<inter> key ` failed_paths (step e r) = {}"
    by (rule disjoint_step[OF failures]) (use Cons.prems(2,3) in auto)
  then have "tally (fold step es (step e r)) = tally (step e r) + sum_list (map weight es)"
    using Cons.IH Cons.prems by simp
  then show ?case using counted[of e r] Cons.prems by simp
qed simp

lemma fold_failures: "key ` failed_paths (fold step es r) \<subseteq> key_of ` set es \<union> key ` failed_paths r"
proof (induction es arbitrary: r)
  case (Cons e es)
  show ?case using subset_step[OF Cons.IH failures] by simp
qed simp

end

lemma tally_record_failure: "tally (record_failure p c r) = tally r + (if p \<in> failed_paths r then 0 else 1)"
  by (auto simp: tally_def record_failure_def failed_paths_def map_of_eq_None_iff)

lemma tally_keep_entry [simp]: "tally (keep_entry r) = tally r + 1"
  by (simp add: tally_def keep_entry_def)

lemma failed_record_failure [simp]: "failed_paths (record_failure p c r) = insert p (failed_paths r)"
  by (auto simp: failed_paths_def record_failure_def map_of_eq_None_iff image_iff dest: map_of_SomeD)

lemma failed_keep_entry [simp]: "failed_paths (keep_entry r) = failed_paths r"
  by (simp add: failed_paths_def)

lemma failed_attempt [simp]: "failed_paths (r\<lparr>sr_attempts := a\<rparr>) = failed_paths r" "failed_paths (r\<lparr>sr_removed := a\<rparr>) = failed_paths r"
  by (simp_all add: failed_paths_def)

lemma tally_attempt [simp]: "tally (r\<lparr>sr_attempts := a\<rparr>) = tally r"
  by (simp add: tally_def)

lemma tally_removed [simp]: "tally (r\<lparr>sr_removed := sr_removed r @ [p]\<rparr>) = tally r + 1"
  by (simp add: tally_def)

lemma tally_gc_remove: "p \<notin> failed_paths r \<Longrightarrow> tally (gc_remove dry a p r) = tally r + 1"
  using tally_removed[of "r\<lparr>sr_attempts := sr_attempts r @ [p]\<rparr>" p]
  by (simp add: gc_remove_def tally_record_failure Let_def split: remove_answer.split)

lemma failed_gc_remove: "failed_paths (gc_remove dry a p r) \<subseteq> insert p (failed_paths r)"
  by (auto simp: gc_remove_def Let_def split: remove_answer.split)

text \<open>The entries that are counted: no part of the answers for them is missing.\<close>

fun entry_name :: "cache_entry \<Rightarrow> string" where
  "entry_name (CacheEntry name t) = name"
| "entry_name (BadEntry e) = []"

fun steady :: "age_source \<Rightarrow> cache_entry \<Rightarrow> bool" where
  "steady age (BadEntry e) \<longleftrightarrow> False"
| "steady age (CacheEntry name t) \<longleftrightarrow> ct_kind t \<noteq> KindFails Vanished \<and> newest_file_mtime age t \<noteq> Inl Vanished"

fun entry_path :: "sweep_path \<Rightarrow> cache_entry \<Rightarrow> sweep_path" where
  "entry_path dir (CacheEntry name t) = dir @ [name]"
| "entry_path dir (BadEntry e) = dir"

lemma tally_collect:
  "newest_file_mtime (ar_source (su_rule u)) t \<noteq> Inl Vanished \<Longrightarrow> p \<notin> failed_paths r \<Longrightarrow>
   tally (collect_if_expired u p name t r) = tally r + 1"
  by (auto simp: collect_if_expired_def gc_remove_dir_def tally_gc_remove tally_record_failure split: sum.split io_fault.split)

lemma failed_collect: "failed_paths (collect_if_expired u p name t r) \<subseteq> insert p (failed_paths r)"
  using failed_gc_remove by (auto simp: collect_if_expired_def gc_remove_dir_def split: sum.split io_fault.split)

interpretation shape_count: counted_step "gc_shape_entry u dir" "\<lambda>p. p" "entry_path dir" "steady (ar_source (su_rule u))" "\<lambda>_. 1"
proof
  show "tally (gc_shape_entry u dir e r) = tally r + 1"
    if "steady (ar_source (su_rule u)) e" "entry_path dir e \<notin> (\<lambda>p. p) ` failed_paths r" for e r
    using that by (cases e) (auto simp: gc_shape_entry_def tally_collect tally_record_failure split: node_kind.split io_fault.split)
  show "(\<lambda>p. p) ` failed_paths (gc_shape_entry u dir e r) \<subseteq> insert (entry_path dir e) ((\<lambda>p. p) ` failed_paths r)" for e r
    using failed_collect by (cases e) (auto simp: gc_shape_entry_def split: node_kind.split io_fault.split)
qed

fun listing_weight :: "folder_list \<Rightarrow> nat" where
  "listing_weight (Listing es) = length es"
| "listing_weight (NoListing Vanished) = 0"
| "listing_weight (NoListing OtherFault) = 1"

fun steady_listing :: "age_source \<Rightarrow> folder_list \<Rightarrow> bool" where
  "steady_listing age (Listing es) \<longleftrightarrow> list_all (steady age) es \<and> distinct (map entry_name es)"
| "steady_listing age (NoListing e) \<longleftrightarrow> True"

lemma steady_entry_path: "steady age e \<Longrightarrow> entry_path dir e = dir @ [entry_name e]"
  by (cases e) simp_all

lemma steady_paths_distinct:
  assumes "list_all (steady age) es" "distinct (map entry_name es)"
  shows "distinct (map (entry_path dir) es)"
proof -
  have "map (entry_path dir) es = map (\<lambda>n. dir @ [n]) (map entry_name es)"
    using assms(1) by (auto simp: list_all_iff steady_entry_path)
  then show ?thesis using assms(2) by (simp add: distinct_map inj_on_def)
qed

lemma shapes_counted:
  assumes "steady_listing (ar_source (su_rule u)) l" "[name] \<notin> take 1 ` failed_paths r"
  shows "tally (let s = gc_normal_shapes u [name] l r in if fst s then snd s else record_failure [name] NotSwept (snd s)) =
    tally r + listing_weight l"
proof (cases l)
  case (NoListing e)
  have "[name] \<notin> failed_paths r" using assms(2) by force
  then show ?thesis using NoListing by (cases e) (simp_all add: gc_normal_shapes_def tally_record_failure)
next
  case (Listing es)
  have "entry_path [name] ` set es \<inter> failed_paths r = {}"
  proof (rule ccontr)
    assume "entry_path [name] ` set es \<inter> failed_paths r \<noteq> {}"
    then obtain e where "e \<in> set es" "entry_path [name] e \<in> failed_paths r" by blast
    moreover have "take 1 (entry_path [name] e) = [name]" by (cases e) simp_all
    ultimately show False using assms(2) by force
  qed
  then have "tally (fold (gc_shape_entry u [name]) es r) = tally r + length es"
    using shape_count.fold_counted[of u es "[name]" r] assms(1) Listing
      steady_paths_distinct[of "ar_source (su_rule u)" es "[name]"] by (simp add: sum_list_triv)
  then show ?thesis using Listing by (simp add: gc_normal_shapes_def)
qed

lemma shapes_failures:
  "take 1 ` failed_paths (let s = gc_normal_shapes u [name] l r in if fst s then snd s else record_failure [name] NotSwept (snd s))
   \<subseteq> insert [name] (take 1 ` failed_paths r)"
proof (cases l)
  case (NoListing e)
  then show ?thesis by (cases e) (auto simp: gc_normal_shapes_def)
next
  case (Listing es)
  have "failed_paths (fold (gc_shape_entry u [name]) es r) \<subseteq> entry_path [name] ` set es \<union> failed_paths r"
    using shape_count.fold_failures[of u "[name]" es r] by simp
  moreover have "take 1 (entry_path [name] e) = [name]" for e by (cases e) simp_all
  ultimately have "take 1 ` failed_paths (fold (gc_shape_entry u [name]) es r) \<subseteq> insert [name] (take 1 ` failed_paths r)"
    by blast
  then show ?thesis using Listing by (simp add: gc_normal_shapes_def)
qed

text \<open>The top level of \<open>gc\<close>: a generation counts its own entries.\<close>

definition gc_steady :: "string \<Rightarrow> sweep_setup \<Rightarrow> hashing_mode \<Rightarrow> cache_entry \<Rightarrow> bool" where
  "gc_steady pv u hashing e \<longleftrightarrow>
     (case e of
        BadEntry _ \<Rightarrow> False
      | CacheEntry name t \<Rightarrow>
          if ct_kind t = KindFolder \<and> generation pv hashing name
          then steady_listing (ar_source (su_rule u)) (ct_list t)
          else steady (ar_source (su_rule u)) e)"

definition gc_weight :: "string \<Rightarrow> hashing_mode \<Rightarrow> cache_entry \<Rightarrow> nat" where
  "gc_weight pv hashing e =
     (case e of
        BadEntry _ \<Rightarrow> 1
      | CacheEntry name t \<Rightarrow>
          if ct_kind t = KindFolder \<and> generation pv hashing name then listing_weight (ct_list t) else 1)"

lemma gc_entry_counted:
  assumes "gc_steady pv u hashing e" "entry_path [] e \<notin> take 1 ` failed_paths r"
  shows "tally (gc_entry vt pv u hashing e r) = tally r + gc_weight pv hashing e"
proof (cases e)
  case (CacheEntry name t)
  have new: "[name] \<notin> failed_paths r" "[name] \<notin> take 1 ` failed_paths r"
    using assms(2) CacheEntry by force+
  show ?thesis
  proof (cases "ct_kind t")
    case KindFolder
    then show ?thesis
      using assms(1) CacheEntry new
      by (simp add: gc_folder_entry shapes_counted tally_collect gc_steady_def gc_weight_def split: if_splits)
  next
    case (KindFails f)
    then show ?thesis
      using assms(1) CacheEntry new by (auto simp: gc_other_entry tally_record_failure gc_steady_def gc_weight_def)
  qed (use CacheEntry new in \<open>simp_all add: gc_other_entry gc_remove_link_def tally_gc_remove gc_weight_def\<close>)
qed (use assms(1) in \<open>simp add: gc_steady_def\<close>)

lemma image_take_insert: "A \<subseteq> insert [n] B \<Longrightarrow> take 1 ` A \<subseteq> insert [n] (take 1 ` B)"
  by auto

lemma gc_entry_failures:
  "take 1 ` failed_paths (gc_entry vt pv u hashing e r) \<subseteq> insert (entry_path [] e) (take 1 ` failed_paths r)"
proof (cases e)
  case (CacheEntry name t)
  show ?thesis
  proof (cases "ct_kind t")
    case KindFolder
    then show ?thesis
      using CacheEntry shapes_failures[of u name "ct_list t" r] image_take_insert[OF failed_collect[of u "[name]" name t r]]
      by (simp add: gc_folder_entry)
  next
    case KindLink
    then show ?thesis
      using CacheEntry image_take_insert[OF failed_gc_remove] by (simp add: gc_other_entry gc_remove_link_def)
  qed (use CacheEntry in \<open>auto simp: gc_other_entry\<close>)
qed (simp add: gc_other_entry)

interpretation gc_count: counted_step "gc_entry vt pv u hashing" "take 1" "entry_path []" "gc_steady pv u hashing" "gc_weight pv hashing"
  by unfold_locales (rule gc_entry_counted gc_entry_failures; assumption?)+

lemma prune_folder_counted:
  assumes "case mode of PruneOlderThan rule \<Rightarrow> newest_file_mtime (ar_source rule) t \<noteq> Inl Vanished | _ \<Rightarrow> True"
    "[name] \<notin> failed_paths r"
  shows "tally (prune_folder vt u mode hashing cv name t r) = Suc (tally r)"
  using assms by (auto simp: prune_folder_def Let_def prune_removals tally_gc_remove tally_record_failure
      split: prune_mode.split sum.split io_fault.split)

definition prune_steady :: "prune_mode \<Rightarrow> cache_entry \<Rightarrow> bool" where
  "prune_steady mode e \<longleftrightarrow>
     (case e of
        BadEntry _ \<Rightarrow> False
      | CacheEntry name t \<Rightarrow>
          ct_kind t \<noteq> KindFails Vanished \<and>
          (case mode of PruneOlderThan rule \<Rightarrow> newest_file_mtime (ar_source rule) t \<noteq> Inl Vanished | _ \<Rightarrow> True))"

interpretation prune_count: counted_step "prune_entry vt u mode hashing cv" "\<lambda>p. p" "entry_path []" "prune_steady mode" "\<lambda>_. 1"
proof
  show "tally (prune_entry vt u mode hashing cv e r) = tally r + 1"
    if "prune_steady mode e" "entry_path [] e \<notin> (\<lambda>p. p) ` failed_paths r" for e r
    using that by (cases e) (auto simp: prune_entry_def prune_steady_def prune_removals tally_gc_remove tally_record_failure
        prune_folder_counted split: node_kind.split io_fault.split)
  show "(\<lambda>p. p) ` failed_paths (prune_entry vt u mode hashing cv e r) \<subseteq> insert (entry_path [] e) ((\<lambda>p. p) ` failed_paths r)" for e r
    using failed_gc_remove by (cases e) (auto simp: prune_entry_def prune_folder_def prune_removals Let_def
        split: node_kind.split io_fault.split prune_mode.split sum.split)
qed

section \<open>What is removed\<close>

text \<open>The entry at a path below a listing, and the folders that an age sweep may remove.\<close>

fun lies_at :: "cache_entry list \<Rightarrow> sweep_path \<Rightarrow> cache_tree \<Rightarrow> bool" where
  "lies_at es [] t \<longleftrightarrow> False"
| "lies_at es [n] t \<longleftrightarrow> CacheEntry n t \<in> set es"
| "lies_at es (g # n # p) t \<longleftrightarrow>
     list_ex (\<lambda>e. case e of
                    CacheEntry g' (CacheNode k s (Listing es')) \<Rightarrow> g' = g \<and> lies_at es' (n # p) t
                  | _ \<Rightarrow> False) es"

definition stale_folder :: "sweep_setup \<Rightarrow> string \<Rightarrow> cache_tree \<Rightarrow> bool" where
  "stale_folder u name t \<longleftrightarrow>
     has_tmp_extension name \<or>
     name \<noteq> state_dir_name \<and>
     list_all (\<lambda>x. ar_older_than (su_rule u) < su_now u - x) (file_stamps (ar_source (su_rule u)) (ct_list t))"

lemma folder_plan_stale:
  assumes "q \<in> set (folder_plan u p name t)"
  shows "q = p \<and> stale_folder u name t"
proof (cases "has_tmp_extension name")
  case True
  then show ?thesis using assms by (simp add: folder_plan_def stale_folder_def)
next
  case False
  obtain m where m: "newest_file_mtime (ar_source (su_rule u)) t = Inr m" "name \<noteq> state_dir_name" "q = p"
    "ar_older_than (su_rule u) < su_now u - m"
    using assms False
    by (cases "newest_file_mtime (ar_source (su_rule u)) t") (auto simp: folder_plan_def is_expired_def split: if_splits)
  have "ar_older_than (su_rule u) < su_now u - x" if "x \<in> set (file_stamps (ar_source (su_rule u)) (ct_list t))" for x
    using newest_file_bounds[OF m(1) that] m(4) by simp
  then show ?thesis using m by (simp add: stale_folder_def list_all_iff)
qed

lemma list_plan_stale:
  assumes "q \<in> set (list_plan u dir l)"
  shows "\<exists>es name t. l = Listing es \<and> CacheEntry name t \<in> set es \<and> ct_kind t = KindFolder \<and> q = dir @ [name] \<and> stale_folder u name t"
  using assms folder_plan_stale
  by (fastforce simp: list_plan_def shape_plan_def split: folder_list.splits cache_entry.splits if_splits)

lemma gc_plan_stale:
  assumes "q \<in> set (gc_plan pv u hashing e)" "e \<in> set es"
  shows "\<exists>t. lies_at es q t \<and> (ct_kind t = KindLink \<and> length q = 1 \<or> ct_kind t = KindFolder \<and> stale_folder u (last q) t)"
proof -
  obtain name t where e: "e = CacheEntry name t"
    using assms(1) by (cases e) (simp_all add: gc_plan_def)
  consider "ct_kind t = KindLink" "q = [name]"
    | "ct_kind t = KindFolder" "q \<in> set (folder_plan u [name] name t)"
    | "ct_kind t = KindFolder" "q \<in> set (list_plan u [name] (ct_list t))"
    using assms(1) e by (auto simp: gc_plan_def split: node_kind.splits if_splits)
  then show ?thesis
  proof cases
    case 1
    then show ?thesis using e assms(2) by auto
  next
    case 2
    then show ?thesis using e assms(2) folder_plan_stale[OF 2(2)] by auto
  next
    case 3
    obtain es' n' t' where l: "ct_list t = Listing es'" and mem: "CacheEntry n' t' \<in> set es'"
      and k: "ct_kind t' = KindFolder" and q: "q = [name] @ [n']" and st: "stale_folder u n' t'"
      using list_plan_stale[OF 3(2)] by blast
    have "lies_at es q t'"
      using assms(2) e l mem q by (cases t) (force simp: list_ex_iff)
    then show ?thesis using k q st by auto
  qed
qed

lemma setup_run [simp]: "with_run u (su_removals u) (su_dry_run u) = u"
  by simp

lemma gc_attempts:
  "sr_attempts (fold (gc_entry vt pv u hashing) es empty_report) =
   (if su_dry_run u then [] else concat (map (gc_plan pv u hashing) es))"
proof -
  have "sr_attempts (fold (gc_entry vt pv (with_run u (su_removals u) b) hashing) es empty_report) =
      (if b then [] else concat (map (gc_plan pv u hashing) es))" for b
    by (cases b) (simp_all only: swept.fold_preview_idle swept.fold_attempted, simp_all add: empty_report_def)
  from this[of "su_dry_run u"] show ?thesis by simp
qed

text \<open>On a root without generations the age sweep and the age mode of \<open>prune\<close> are the same function.\<close>

lemma gc_entry_is_prune_entry:
  "gc_entry vt pv u HashLoose = prune_entry vt u (PruneOlderThan (su_rule u)) HashLoose cv"
  by (intro ext)
    (simp add: gc_entry_def prune_entry_def prune_folder_def collect_if_expired_def is_current_name_def gc_remove_dir_def
      gc_remove_link_def prune_removals Let_def split: cache_entry.split node_kind.split io_fault.split sum.split)

end
