(* ===== verification/Content_Hash.thy ===== *)
theory Content_Hash
  imports Manifest Mcp_Resolve
begin

text \<open>
  The content hash of a merged manifest and the shape of a selection (\<open>src/materialize/cache.rs\<close>), and the drift
  checks on the hash (\<open>src/materialize/stale.rs\<close>, \<open>src/launch/drift.rs\<close>).  The digest, the readers of the bundle
  files and the YAML printer are parameters.  Main results: the bytes that are hashed determine the parts of the
  manifest they are made of, and the check reports a drift exactly when one of these parts has changed.
\<close>

section \<open>The bytes\<close>

fun le_bytes :: "nat \<Rightarrow> nat \<Rightarrow> string" where
  "le_bytes 0 n = []"
| "le_bytes (Suc k) n = char_of (n mod 256) # le_bytes k (n div 256)"

definition le64 :: "nat \<Rightarrow> string" where
  "le64 n = le_bytes 8 n"

definition len_prefixed :: "string \<Rightarrow> string" where
  "len_prefixed s = le64 (length s) @ s"

definition hash_list :: "('a \<Rightarrow> string) \<Rightarrow> 'a list \<Rightarrow> string" where
  "hash_list enc xs = le64 (length xs) @ concat (map enc xs)"

definition shape_bytes :: "string list \<times> string list \<Rightarrow> string" where
  "shape_bytes = (\<lambda>(tags, bundles). hash_list len_prefixed tags @ hash_list len_prefixed bundles)"

definition shape :: "(string \<Rightarrow> string) \<Rightarrow> string list \<Rightarrow> string list \<Rightarrow> string" where
  "shape sha256_hex tags bundles = take 12 (sha256_hex (shape_bytes (tags, bundles)))"

section \<open>The manifest\<close>

record resolved_plugin =
  rp_marketplace :: string
  rp_plugin :: string
  rp_collection :: string
  rp_install_path :: "string option"
  rp_git_commit_sha :: "string option"

record resolved_marketplace =
  rk_name :: string
  rk_source :: string
  rk_install_location :: "string option"
  rk_head :: "string option"

record ('p, 'q) merged_manifest = "'p manifest" +
  mm_mcps :: "'q resolved_mcp list"
  mm_plugins :: "resolved_plugin list"
  mm_marketplaces :: "resolved_marketplace list"

datatype hash_error = AssetError string path | SerializeError string

record hash_parts =
  hp_agents_md :: string
  hp_files :: "(string \<times> string) list"
  hp_rules :: "(string \<times> string \<times> string) list"
  hp_mcps :: "(string \<times> resolved_kind) list"
  hp_plugins :: "(string \<times> string \<times> string) list"
  hp_marketplaces :: "(string \<times> string \<times> string \<times> string) list"
  hp_natives :: "(string \<times> string) list \<times> (string \<times> string) list \<times> (string \<times> string) list
    \<times> (string \<times> string) list \<times> (string \<times> string) list"

definition or_empty :: "string option \<Rightarrow> string" where
  "or_empty s = (case s of None \<Rightarrow> [] | Some x \<Rightarrow> x)"

text \<open>The file contents with their relative paths, and a YAML table with its printed values.\<close>

definition hashed_files :: "(string \<Rightarrow> path \<Rightarrow> string option) \<Rightarrow> files \<Rightarrow> hash_error + (string \<times> string) list" where
  "hashed_files asset fs =
     map_res (\<lambda>(rel, root, abs). case asset root abs of
                None \<Rightarrow> Inl (AssetError root abs)
              | Some bytes \<Rightarrow> Inr (join_str ''/'' rel, bytes)) fs"

definition hashed_native :: "('p yaml \<Rightarrow> string option) \<Rightarrow> 'p yaml table \<Rightarrow> hash_error + (string \<times> string) list" where
  "hashed_native print t =
     map_res (\<lambda>(k, v). case print v of None \<Rightarrow> Inl (SerializeError k) | Some s \<Rightarrow> Inr (k, s)) t"

definition hash_parts_of ::
    "(string \<Rightarrow> path \<Rightarrow> string option) \<Rightarrow> ('p yaml \<Rightarrow> string option) \<Rightarrow> ('p, 'q) merged_manifest \<Rightarrow> hash_error + hash_parts" where
  "hash_parts_of asset print m =
     (let caps = mf_capabilities m in
      seqR (hashed_files asset (mf_files m)) (\<lambda>files0.
      seqR (hashed_native print (mf_native m)) (\<lambda>native.
      seqR (hashed_native print (cap_native_hooks caps)) (\<lambda>hooks.
      seqR (hashed_native print (cap_native_plugins caps)) (\<lambda>plugins.
      seqR (hashed_native print (cap_native_mcp caps)) (\<lambda>mcp.
      seqR (hashed_native print (cap_native_model_providers caps)) (\<lambda>providers.
        Inr \<lparr>hp_agents_md = mf_agents_md m,
             hp_files = files0,
             hp_rules = map (\<lambda>r. (rf_bundle r, join_str ''/'' (rf_rel r), rf_raw r)) (mf_rules m),
             hp_mcps = map (\<lambda>x. (rm_name x, rm_kind x)) (mm_mcps m),
             hp_plugins = map (\<lambda>p. (rp_marketplace p, rp_plugin p, or_empty (rp_git_commit_sha p))) (mm_plugins m),
             hp_marketplaces = map (\<lambda>k. (rk_name k, rk_source k, or_empty (rk_head k), or_empty (rk_install_location k)))
               (mm_marketplaces m),
             hp_natives = (native, hooks, plugins, mcp, providers)\<rparr>)))))))"

definition pair_bytes :: "string \<times> string \<Rightarrow> string" where
  "pair_bytes = (\<lambda>(a, b). len_prefixed a @ len_prefixed b)"

definition triple_bytes :: "string \<times> string \<times> string \<Rightarrow> string" where
  "triple_bytes = (\<lambda>(a, b). len_prefixed a @ pair_bytes b)"

definition market_bytes :: "string \<times> string \<times> string \<times> string \<Rightarrow> string" where
  "market_bytes = (\<lambda>(a, b). len_prefixed a @ triple_bytes b)"

definition transport_debug :: "mcp_transport \<Rightarrow> string" where
  "transport_debug t = (case t of StdioT \<Rightarrow> ''Stdio'' | HttpT \<Rightarrow> ''Http'' | SseT \<Rightarrow> ''Sse'')"

definition kind_bytes :: "resolved_kind \<Rightarrow> string" where
  "kind_bytes k =
     (case k of
        Stdio command args env \<Rightarrow>
          [CHR 0x00] @ len_prefixed command @ hash_list len_prefixed args @ hash_list pair_bytes env
      | Remote url transport \<Rightarrow> [CHR 0x01] @ len_prefixed url @ len_prefixed (transport_debug transport))"

definition server_bytes :: "string \<times> resolved_kind \<Rightarrow> string" where
  "server_bytes = (\<lambda>(name, kind). len_prefixed name @ kind_bytes kind)"

definition native_bytes ::
    "(string \<times> string) list \<times> (string \<times> string) list \<times> (string \<times> string) list
     \<times> (string \<times> string) list \<times> (string \<times> string) list \<Rightarrow> string" where
  "native_bytes = (\<lambda>(native, hooks, plugins, mcp, providers).
     hash_list pair_bytes native @ hash_list pair_bytes hooks @ hash_list pair_bytes plugins @
     hash_list pair_bytes mcp @ hash_list pair_bytes providers)"

definition parts_bytes :: "hash_parts \<Rightarrow> string" where
  "parts_bytes p =
     len_prefixed (hp_agents_md p) @ hash_list pair_bytes (hp_files p) @ hash_list triple_bytes (hp_rules p) @
     hash_list server_bytes (hp_mcps p) @ hash_list triple_bytes (hp_plugins p) @
     hash_list market_bytes (hp_marketplaces p) @ native_bytes (hp_natives p)"

definition hash_manifest ::
    "(string \<Rightarrow> string) \<Rightarrow> (string \<Rightarrow> path \<Rightarrow> string option) \<Rightarrow> ('p yaml \<Rightarrow> string option) \<Rightarrow>
     ('p, 'q) merged_manifest \<Rightarrow> hash_error + string" where
  "hash_manifest sha256_hex asset print m = seqR (hash_parts_of asset print m) (\<lambda>p. Inr (sha256_hex (parts_bytes p)))"

section \<open>Drift\<close>

datatype stale_status = Fresh | Stale string string | UnknownBoot

definition stale_status_of :: "string option \<Rightarrow> string \<Rightarrow> stale_status" where
  "stale_status_of booted current =
     (case booted of None \<Rightarrow> UnknownBoot | Some b \<Rightarrow> if b = current then Fresh else Stale b current)"

definition has_drifted :: "string \<Rightarrow> string \<Rightarrow> bool" where
  "has_drifted baseline current \<longleftrightarrow> baseline \<noteq> current"

text \<open>One tick of the watch of a launched session: the flag says that the notice was queued.\<close>

definition drift_tick :: "string \<Rightarrow> ('e + string option) \<Rightarrow> bool \<Rightarrow> bool" where
  "drift_tick baseline hash notified =
     (if notified then True
      else case hash of
             Inl _ \<Rightarrow> False
           | Inr None \<Rightarrow> False
           | Inr (Some current) \<Rightarrow> has_drifted baseline current)"

definition watch :: "string \<Rightarrow> ('e + string option) list \<Rightarrow> bool" where
  "watch baseline hashes = fold (drift_tick baseline) hashes False"

section \<open>Encoders\<close>

text \<open>An encoder delimits its values: two values whose bytes start the same text are the same value.\<close>

locale hash_encoder =
  fixes fits :: "'a \<Rightarrow> bool"
    and enc :: "'a \<Rightarrow> string"
  assumes delimits: "fits x \<Longrightarrow> fits y \<Longrightarrow> enc x @ s = enc y @ t \<Longrightarrow> x = y \<and> s = t"
begin

lemma injective: "fits x \<Longrightarrow> fits y \<Longrightarrow> enc x = enc y \<Longrightarrow> x = y"
  using delimits[of x y "[]" "[]"] by simp

lemma items_delimited:
  "list_all fits xs \<Longrightarrow> list_all fits ys \<Longrightarrow> length xs = length ys \<Longrightarrow>
   concat (map enc xs) @ s = concat (map enc ys) @ t \<Longrightarrow> xs = ys \<and> s = t"
proof (induction xs arbitrary: ys)
  case (Cons x xs)
  then obtain y zs where ys: "ys = y # zs" by (cases ys) simp_all
  have "x = y \<and> concat (map enc xs) @ s = concat (map enc zs) @ t"
    using Cons.prems ys by (intro delimits) simp_all
  then show ?case using Cons ys by simp
qed simp

end

lemma le_bytes_length [simp]: "length (le_bytes k n) = k"
  by (induction k arbitrary: n) simp_all

lemma le_bytes_injective: "n < 256 ^ k \<Longrightarrow> m < 256 ^ k \<Longrightarrow> le_bytes k n = le_bytes k m \<Longrightarrow> n = m"
proof (induction k arbitrary: n m)
  case (Suc k)
  have "n mod 256 = m mod 256"
    using Suc.prems(3) arg_cong[of _ _ "of_char :: char \<Rightarrow> nat"] by fastforce
  moreover have "n div 256 = m div 256"
    using Suc by (intro Suc.IH) (simp_all add: less_mult_imp_div_less mult.commute)
  ultimately show ?case by (metis div_mult_mod_eq)
qed simp

abbreviation fits64 :: "'a list \<Rightarrow> bool" where
  "fits64 xs \<equiv> length xs < 2 ^ 64"

lemma le64_delimits:
  assumes "n < 2 ^ 64" "m < 2 ^ 64" "le64 n @ s = le64 m @ t"
  shows "n = m \<and> s = t"
proof -
  have "le_bytes 8 n = le_bytes 8 m" "s = t"
    using assms(3) by (simp_all add: le64_def)
  then show ?thesis using le_bytes_injective[of n 8 m] assms(1,2) by simp
qed

interpretation str: hash_encoder fits64 len_prefixed
proof
  fix x y s t :: string
  assume "fits64 x" "fits64 y" "len_prefixed x @ s = len_prefixed y @ t"
  then have "length x = length y \<and> x @ s = y @ t"
    by (intro le64_delimits) (simp_all add: len_prefixed_def)
  then show "x = y \<and> s = t" by (metis append_eq_append_conv)
qed

lemma list_encoder:
  assumes "hash_encoder fits enc"
  shows "hash_encoder (\<lambda>xs. fits64 xs \<and> list_all fits xs) (hash_list enc)"
proof
  fix xs ys :: "'a list" and s t :: string
  assume fit: "fits64 xs \<and> list_all fits xs" "fits64 ys \<and> list_all fits ys" and eq: "hash_list enc xs @ s = hash_list enc ys @ t"
  have "length xs = length ys \<and> concat (map enc xs) @ s = concat (map enc ys) @ t"
    using fit eq by (intro le64_delimits) (simp_all add: hash_list_def)
  then show "xs = ys \<and> s = t"
    using hash_encoder.items_delimited[OF assms] fit by blast
qed

lemma seq_encoder:
  assumes "hash_encoder P e" "hash_encoder Q f"
  shows "hash_encoder (\<lambda>(x, y). P x \<and> Q y) (\<lambda>(x, y). e x @ f y)"
proof
  fix a b :: "'a \<times> 'b" and s t :: string
  assume fit: "case a of (x, y) \<Rightarrow> P x \<and> Q y" "case b of (x, y) \<Rightarrow> P x \<and> Q y"
    and eq: "(case a of (x, y) \<Rightarrow> e x @ f y) @ s = (case b of (x, y) \<Rightarrow> e x @ f y) @ t"
  obtain x y x' y' where ab: "a = (x, y)" "b = (x', y')" by (cases a, cases b)
  have "x = x' \<and> f y @ s = f y' @ t"
    using fit eq ab by (intro hash_encoder.delimits[OF assms(1)]) simp_all
  then show "a = b \<and> s = t"
    using hash_encoder.delimits[OF assms(2), of y y' s t] fit ab by simp
qed

abbreviation fits_list :: "('a \<Rightarrow> bool) \<Rightarrow> 'a list \<Rightarrow> bool" where
  "fits_list P xs \<equiv> fits64 xs \<and> list_all P xs"

definition pair_fits :: "string \<times> string \<Rightarrow> bool" where
  "pair_fits = (\<lambda>(a, b). fits64 a \<and> fits64 b)"

definition triple_fits :: "string \<times> string \<times> string \<Rightarrow> bool" where
  "triple_fits = (\<lambda>(a, b). fits64 a \<and> pair_fits b)"

definition market_fits :: "string \<times> string \<times> string \<times> string \<Rightarrow> bool" where
  "market_fits = (\<lambda>(a, b). fits64 a \<and> triple_fits b)"

fun kind_fits :: "resolved_kind \<Rightarrow> bool" where
  "kind_fits (Stdio command args env) \<longleftrightarrow> fits64 command \<and> fits_list fits64 args \<and> fits_list pair_fits env"
| "kind_fits (Remote url transport) \<longleftrightarrow> fits64 url"

interpretation pair: hash_encoder pair_fits pair_bytes
  unfolding pair_fits_def pair_bytes_def by (rule seq_encoder) (rule str.hash_encoder_axioms)+

interpretation triple: hash_encoder triple_fits triple_bytes
  unfolding triple_fits_def triple_bytes_def by (rule seq_encoder) (rule str.hash_encoder_axioms pair.hash_encoder_axioms)+

interpretation market: hash_encoder market_fits market_bytes
  unfolding market_fits_def market_bytes_def by (rule seq_encoder) (rule str.hash_encoder_axioms triple.hash_encoder_axioms)+

interpretation shape: hash_encoder "\<lambda>(a, b). fits_list fits64 a \<and> fits_list fits64 b" shape_bytes
  unfolding shape_bytes_def by (rule seq_encoder) (rule list_encoder, rule str.hash_encoder_axioms)+

text \<open>The two kinds of servers: the tag byte tells them apart.\<close>

lemma transport_debug_injective: "transport_debug a = transport_debug b \<Longrightarrow> a = b"
  by (cases a; cases b) (simp_all add: transport_debug_def)

lemma transport_debug_fits: "fits64 (transport_debug a)"
  by (simp add: transport_debug_def split: mcp_transport.split)

interpretation stdio: hash_encoder "\<lambda>(c, a, e). fits64 c \<and> fits_list fits64 a \<and> fits_list pair_fits e"
  "\<lambda>(c, a, e). len_prefixed c @ hash_list len_prefixed a @ hash_list pair_bytes e"
  using seq_encoder[OF str.hash_encoder_axioms
      seq_encoder[OF list_encoder[OF str.hash_encoder_axioms] list_encoder[OF pair.hash_encoder_axioms]]]
  by (simp add: case_prod_beta')

interpretation kind: hash_encoder kind_fits kind_bytes
proof
  fix x y :: resolved_kind and s t :: string
  assume fit: "kind_fits x" "kind_fits y" and eq: "kind_bytes x @ s = kind_bytes y @ t"
  consider c a e c' a' e' where "x = Stdio c a e" "y = Stdio c' a' e'"
    | u r u' r' where "x = Remote u r" "y = Remote u' r'"
    using eq by (cases x; cases y) (simp_all add: kind_bytes_def)
  then show "x = y \<and> s = t"
  proof cases
    case 1
    then show ?thesis
      using stdio.delimits[of "(c, a, e)" "(c', a', e')" s t] fit eq by (simp add: kind_bytes_def)
  next
    case 2
    then show ?thesis
      using pair.delimits[of "(u, transport_debug r)" "(u', transport_debug r')" s t] fit eq
        transport_debug_fits[of r] transport_debug_fits[of r'] transport_debug_injective[of r r']
      by (simp add: kind_bytes_def pair_fits_def pair_bytes_def)
  qed
qed

definition server_fits :: "string \<times> resolved_kind \<Rightarrow> bool" where
  "server_fits = (\<lambda>(n, k). fits64 n \<and> kind_fits k)"

interpretation server: hash_encoder server_fits server_bytes
  unfolding server_fits_def server_bytes_def by (rule seq_encoder) (rule str.hash_encoder_axioms kind.hash_encoder_axioms)+

abbreviation fits_table :: "(string \<times> string) list \<Rightarrow> bool" where
  "fits_table \<equiv> fits_list pair_fits"

interpretation table: hash_encoder fits_table "hash_list pair_bytes"
  by (rule list_encoder[OF pair.hash_encoder_axioms])

interpretation natives: hash_encoder
  "\<lambda>(a, b, c, d, e). fits_table a \<and> fits_table b \<and> fits_table c \<and> fits_table d \<and> fits_table e" native_bytes
  using seq_encoder[OF table.hash_encoder_axioms seq_encoder[OF table.hash_encoder_axioms
      seq_encoder[OF table.hash_encoder_axioms seq_encoder[OF table.hash_encoder_axioms table.hash_encoder_axioms]]]]
  by (simp add: native_bytes_def case_prod_beta')

definition parts_fit :: "hash_parts \<Rightarrow> bool" where
  "parts_fit p \<longleftrightarrow>
     fits64 (hp_agents_md p) \<and> fits_table (hp_files p) \<and> fits_list triple_fits (hp_rules p) \<and>
     fits_list server_fits (hp_mcps p) \<and> fits_list triple_fits (hp_plugins p) \<and>
     fits_list market_fits (hp_marketplaces p) \<and>
     (case hp_natives p of (a, b, c, d, e) \<Rightarrow> fits_table a \<and> fits_table b \<and> fits_table c \<and> fits_table d \<and> fits_table e)"

text \<open>The parts of a manifest as nested pairs, in the order of their bytes.\<close>

definition parts_tuple where
  "parts_tuple p = (hp_agents_md p, hp_files p, hp_rules p, hp_mcps p, hp_plugins p, hp_marketplaces p, hp_natives p)"

lemmas parts_encoder =
  seq_encoder[OF str.hash_encoder_axioms seq_encoder[OF table.hash_encoder_axioms
    seq_encoder[OF list_encoder[OF triple.hash_encoder_axioms] seq_encoder[OF list_encoder[OF server.hash_encoder_axioms]
      seq_encoder[OF list_encoder[OF triple.hash_encoder_axioms] seq_encoder[OF list_encoder[OF market.hash_encoder_axioms]
        natives.hash_encoder_axioms]]]]]]

interpretation parts: hash_encoder parts_fit parts_bytes
proof
  fix x y :: hash_parts and s t :: string
  assume fit: "parts_fit x" "parts_fit y" and eq: "parts_bytes x @ s = parts_bytes y @ t"
  have "parts_tuple x = parts_tuple y \<and> s = t"
    by (rule hash_encoder.delimits[OF parts_encoder])
      (use fit eq in \<open>simp_all add: parts_tuple_def parts_fit_def parts_bytes_def case_prod_beta'\<close>)
  then show "x = y \<and> s = t"
    by (cases x, cases y) (simp add: parts_tuple_def)
qed

section \<open>Drift checks\<close>

lemma hash_of_parts: "hash_manifest sha asset print m = Inr h \<longleftrightarrow> (\<exists>p. hash_parts_of asset print m = Inr p \<and> h = sha (parts_bytes p))"
  by (auto simp: hash_manifest_def seqR_def split: sum.splits)

text \<open>Parts of the manifest that the adapters render and that are not hashed: a change of the permissions, the
  hooks, the environment or the headers of a server leaves the hash as it is.\<close>

lemma hash_ignores_capabilities:
  assumes "cap_native_hooks c = cap_native_hooks (mf_capabilities m)"
    "cap_native_plugins c = cap_native_plugins (mf_capabilities m)"
    "cap_native_mcp c = cap_native_mcp (mf_capabilities m)"
    "cap_native_model_providers c = cap_native_model_providers (mf_capabilities m)"
  shows "hash_manifest sha asset print (m\<lparr>mf_capabilities := c\<rparr>) = hash_manifest sha asset print m"
  using assms by (simp add: hash_manifest_def hash_parts_of_def Let_def)

lemma hash_ignores_server_details:
  "map (\<lambda>x. (rm_name x, rm_kind x)) xs = map (\<lambda>x. (rm_name x, rm_kind x)) (mm_mcps m) \<Longrightarrow>
   hash_manifest sha asset print (m\<lparr>mm_mcps := xs\<rparr>) = hash_manifest sha asset print m"
  by (simp add: hash_manifest_def hash_parts_of_def)

text \<open>The watch of a session queues its notice when some tick has seen another hash.\<close>

lemma fold_drift: "fold (drift_tick b) hs n \<longleftrightarrow> n \<or> (\<exists>h. Inr (Some h) \<in> set hs \<and> h \<noteq> b)"
  by (induction hs arbitrary: n) (auto simp: drift_tick_def has_drifted_def split: sum.splits option.splits)

lemma watch_exact: "watch b hs \<longleftrightarrow> (\<exists>h. Inr (Some h) \<in> set hs \<and> h \<noteq> b)"
  by (simp add: watch_def fold_drift)

end
