(* ===== verification/Upkeep_Theorems.thy ===== *)
theory Upkeep_Theorems
  imports Read_Once Cache_Laws Content_Hash
begin

text \<open>
  The properties of the upkeep around a session: the throttle, the read-once hook, the cache sweeps and the drift
  checks.
\<close>

section \<open>The throttle\<close>











text \<open>A second call within the time to live answers from the snapshot that the first one fetched, and sends nothing.\<close>

lemma second_call_is_quiet:
  assumes "td_config d = Some (EntryFile cfg)" "th_backend cfg = ''umans''" "td_cache_answer d = CacheWritten"
    "try_read_cache d (te_cache_ttl cfg) = None" "snd (fetch_usage w) = Inr snap"
    "td_now d \<le> now" "now < td_now d + uint (te_cache_ttl cfg) * 1000000000"
  shows "run_throttle_inner w' event' (tr_dir (run_throttle_inner w event d)\<lparr>td_now := now\<rparr>) =
    \<lparr>tr_delay = tr_delay (run_throttle_inner w event d),
     tr_note = Inr (if event' = ''prompt'' then budget_note snap cfg else []),
     tr_dir = tr_dir (run_throttle_inner w event d)\<lparr>td_now := now\<rparr>, tr_sent = None\<rparr>"
proof -
  have plain: "list_all is_backend_char (th_backend cfg)"
    unfolding assms(2) by code_simp
  have first: "run_throttle_inner w event d =
      \<lparr>tr_delay = compute_delay snap cfg, tr_note = Inr (if event = ''prompt'' then budget_note snap cfg else []),
       tr_dir = write_cache snap d, tr_sent = fst (fetch_usage w)\<rparr>"
    using assms(1,2,4,5) plain by (simp add: run_throttle_inner_def read_throttle_config_def backend_for_def fetch_cached_def)
  have "td_config (write_cache snap d\<lparr>td_now := now\<rparr>) = Some (EntryFile cfg)"
    using assms(1,3) by (simp add: write_cache_def)
  then show ?thesis
    using cache_round_trip[OF assms(3,6,7), of snap] assms(2) plain
    by (simp add: first, simp add: run_throttle_inner_def read_throttle_config_def backend_for_def fetch_cached_def)
qed

text \<open>A state file that holds a JSON null is off for the status commands and broken for the hook.\<close>

lemma null_state_reads_apart:
  "td_config d = Some NullFile \<Longrightarrow> read_active_throttle d = Inr None \<and> read_throttle_config d = Inl StateCorrupt"
  by (simp add: read_active_throttle_def read_throttle_config_def)

section \<open>The read-once hook\<close>








section \<open>The cache sweeps\<close>

text \<open>C37. The age sweep removes only what it may: a path on which a removal is called names a link at the top level, a
  folder of a broken write, or a folder other than the durable state folder each of whose files is older than the
  rule allows.\<close>

theorem gc_removes_only_stale:
  assumes "gc vt pv u hashing (Listing es) = Inr r" "q \<in> set (sr_attempts r)"
  shows "\<exists>t. lies_at es q t \<and> (ct_kind t = KindLink \<and> length q = 1 \<or> ct_kind t = KindFolder \<and> stale_folder u (last q) t)"
proof -
  have "r = fold (gc_entry vt pv u hashing) es empty_report"
    using assms(1) by (simp add: gc_def)
  then have "q \<in> set (concat (map (gc_plan pv u hashing) es))"
    using assms(2) by (simp add: gc_attempts split: if_splits)
  then obtain e where "e \<in> set es" "q \<in> set (gc_plan pv u hashing e)" by auto
  then show ?thesis using gc_plan_stale by blast
qed

definition upkeep_folder :: "int \<Rightarrow> cache_tree" where
  "upkeep_folder m = CacheNode KindFolder (Stamped 99 99) (Listing [CacheEntry ''f'' (CacheNode KindFile (Stamped m m) (NoListing OtherFault))])"

definition upkeep_root :: "cache_entry list" where
  "upkeep_root = [CacheEntry ''old'' (upkeep_folder 10), CacheEntry ''new'' (upkeep_folder 95), CacheEntry ''state'' (upkeep_folder 10),
     CacheEntry ''x.tmp'' (upkeep_folder 99),
     CacheEntry ''3'' (CacheNode KindFolder (Stamped 99 99) (Listing [CacheEntry ''s'' (upkeep_folder 1), CacheEntry ''n'' (upkeep_folder 99)]))]"

definition upkeep_sweep :: sweep_setup where
  "upkeep_sweep = \<lparr>su_removals = (\<lambda>p. (Denied, if p = [''old''] then RemoveFails else Removed)), su_now = 100,
     su_dry_run = False, su_rule = \<lparr>ar_older_than = 50, ar_source = MtimeOrCtime\<rparr>\<rparr>"

definition upkeep_report :: sweep_report where
  "upkeep_report = \<lparr>sr_removed = [[''x.tmp''], [''3'', ''s'']], sr_kept = 3, sr_failed = [([''old''], NotRemoved)],
     sr_attempts = [[''old''], [''x.tmp''], [''3'', ''s'']]\<rparr>"

lemma upkeep_gc: "gc ''3.1-a'' ''3.1'' upkeep_sweep HashNormal (Listing upkeep_root) = Inr upkeep_report"
  by code_simp

theorem gc_removes_only_stale_witness:
  "gc ''3.1-a'' ''3.1'' upkeep_sweep HashNormal (Listing upkeep_root) = Inr upkeep_report \<and>
   (\<exists>t. lies_at upkeep_root [''3'', ''s''] t \<and> stale_folder upkeep_sweep ''s'' t)"
  using gc_removes_only_stale[OF upkeep_gc, of "[''3'', ''s'']"] upkeep_gc by (auto simp: upkeep_report_def)

text \<open>C38. A dry run is exact, for both sweeps: it removes nothing, and it lists, in order, the paths on which the real
  run calls a removal; the real run reports no other path as removed.\<close>

theorem sweeps_preview_exactly:
  "(\<exists>d r. gc vt pv (with_run u sys True) hashing (Listing es) = Inr d \<and> gc vt pv (with_run u sys False) hashing (Listing es) = Inr r \<and>
      sr_attempts d = [] \<and> sr_attempts r = sr_removed d \<and> set (sr_removed r) \<subseteq> set (sr_removed d)) \<and>
   (\<exists>d r. prune vt (with_run u sys True) mode hashing cv (Listing es) = Inr d \<and>
      prune vt (with_run u sys False) mode hashing cv (Listing es) = Inr r \<and>
      sr_attempts d = [] \<and> sr_attempts r = sr_removed d \<and> set (sr_removed r) \<subseteq> set (sr_removed d))"
proof
  show "\<exists>d r. gc vt pv (with_run u sys True) hashing (Listing es) = Inr d \<and> gc vt pv (with_run u sys False) hashing (Listing es) = Inr r \<and>
      sr_attempts d = [] \<and> sr_attempts r = sr_removed d \<and> set (sr_removed r) \<subseteq> set (sr_removed d)"
    using swept.fold_removed_planned[where vt = vt and pv = pv and u = u and hashing = hashing and es = es and sys = sys and r = empty_report]
    by (auto simp: gc_def swept.fold_previewed swept.fold_preview_idle swept.fold_attempted empty_report_def)
  show "\<exists>d r. prune vt (with_run u sys True) mode hashing cv (Listing es) = Inr d \<and>
      prune vt (with_run u sys False) mode hashing cv (Listing es) = Inr r \<and>
      sr_attempts d = [] \<and> sr_attempts r = sr_removed d \<and> set (sr_removed r) \<subseteq> set (sr_removed d)"
    using pruned.fold_removed_planned[where vt = vt and mode = mode and u = u and hashing = hashing and cv = cv and es = es and sys = sys and r = empty_report]
    by (auto simp: prune_def pruned.fold_previewed pruned.fold_preview_idle pruned.fold_attempted empty_report_def)
qed

lemma gc_steady_path: "gc_steady pv u hashing e \<Longrightarrow> entry_path [] e = [entry_name e]"
  by (cases e) (simp_all add: gc_steady_def)

text \<open>C39. The report of the age sweep covers every entry once: when no entry vanishes under it, the removed, the kept
  and the failed entries are as many as the entries it looked at, where the current generation stands for its own
  entries.\<close>

theorem gc_counts_every_entry:
  assumes "gc vt pv u hashing (Listing es) = Inr r" "list_all (gc_steady pv u hashing) es" "distinct (map entry_name es)"
  shows "length (sr_removed r) + sr_kept r + length (sr_failed r) = sum_list (map (gc_weight pv hashing) es)"
proof -
  have "entry_path [] e = [entry_name e]" if "e \<in> set es" for e
    using that assms(2) gc_steady_path by (auto simp: list_all_iff)
  then have "map (entry_path []) es = map (\<lambda>n. [n]) (map entry_name es)" by simp
  then have "distinct (map (entry_path []) es)"
    using assms(3) by (simp add: distinct_map inj_on_def)
  then have "tally (fold (gc_entry vt pv u hashing) es empty_report) = tally empty_report + sum_list (map (gc_weight pv hashing) es)"
    using assms(2) by (intro gc_count.fold_counted) (simp_all add: failed_paths_def empty_report_def)
  then show ?thesis
    using assms(1) by (simp add: gc_def tally_def empty_report_def)
qed

theorem gc_counts_every_entry_witness:
  "gc ''3.1-a'' ''3.1'' upkeep_sweep HashNormal (Listing upkeep_root) = Inr upkeep_report \<and>
   length (sr_removed upkeep_report) + sr_kept upkeep_report + length (sr_failed upkeep_report) =
   sum_list (map (gc_weight ''3.1'' HashNormal) upkeep_root)"
proof -
  have "list_all (gc_steady ''3.1'' upkeep_sweep HashNormal) upkeep_root" "distinct (map entry_name upkeep_root)"
    by code_simp+
  then show ?thesis using gc_counts_every_entry[OF upkeep_gc] upkeep_gc by blast
qed

text \<open>Without generations the age sweep and \<open>prune\<close> with the same rule give the same report.\<close>

lemma loose_gc_is_prune:
  "gc vt pv u HashLoose root = prune vt u (PruneOlderThan (su_rule u)) HashLoose cv root"
  by (simp add: gc_def prune_def gc_entry_is_prune_entry[of vt pv u cv] split: folder_list.split io_fault.split)

text \<open>A link that stands in for the state folder is unlinked in every mode.\<close>

lemma state_link_is_removed:
  "ct_kind t = KindLink \<Longrightarrow> su_dry_run u = False \<Longrightarrow> su_removals u [state_dir_name] = (Removed, a) \<Longrightarrow>
   \<exists>r. prune vt u PruneStaleOnly hashing cv (Listing [CacheEntry state_dir_name t]) = Inr r \<and> sr_removed r = [[state_dir_name]]"
  by (simp add: prune_def prune_entry_def prune_remove_link_def empty_report_def)

section \<open>Drift\<close>








text \<open>A session whose permissions, hooks or environment have changed on disk is reported as fresh.\<close>

lemma permission_change_is_fresh:
  assumes "hash_manifest sha asset print m = Inr h"
  shows "hash_manifest sha asset print (m\<lparr>mf_capabilities := mf_capabilities m
      \<lparr>cap_permissions := p, cap_hooks := hs, cap_env := e\<rparr>\<rparr>) = Inr h \<and> stale_status_of (Some h) h = Fresh"
  using assms hash_ignores_capabilities[of "mf_capabilities m\<lparr>cap_permissions := p, cap_hooks := hs, cap_env := e\<rparr>" m sha asset print]
  by (simp add: stale_status_of_def)

end
