(* ===== verification/Spec2Isabelle.thy ===== *)
theory Spec2Isabelle
  imports Samples Config_Theorems Shell_Theorems Hook_Theorems Engine_Theorems Mcp_Theorems Setup_Theorems Upkeep_Theorems
begin

text \<open>
  \<^bold>\<open>llmenv: the task tracker, the configuration merge, the commit gate, permissions, MCP, the launch proxy and upkeep.\<close>
  \<open>llmenv\<close> configures coding agents.  Seven sides of it are modelled.  The task tracker keeps tasks and
  sessions as JSON files in a store folder that several agents share.  A task has a state (open, in
  progress, waiting, done), an optional parent, blockers and a session; a session belongs to a
  project and to the conversation that opened it.  The configuration side evaluates scopes (network,
  host, user, content, project) to active tags, selects bundles by tag, and merges the configuration
  and the bundles into one manifest.  The commit gate reads a shell command before an agent runs it and
  decides whether it commits.  The engine side renders permission rules for opencode, the MCP side
  resolves and calls tool servers, the setup side checks the configuration and rewrites API requests, and the
  upkeep side throttles, answers repeated reads, sweeps caches and detects drift.  The task tracker and the theories that model it:

  \<^item> \<open>Base\<close>: results as sums, commands that pass the store (\<open>cmd\<close>, \<open>bnd\<close>, \<open>rd\<close>), the locales
    \<open>state_preorder\<close> (what every step keeps), \<open>keyed_store\<close> (lookup and update laws), \<open>graph_walk\<close>
    (reachability) and \<open>invariant_run\<close> (runs of steps), and generic list lemmas.
  \<^item> \<open>Text\<close>: strings as UTF-8 bytes, names (\<open>crates/llmenv-paths/src/names.rs\<close>), decimal numbers, and
    \<open>slugify\<close> (\<open>slug.rs\<close>).
  \<^item> \<open>Task_Store\<close>: the task files of \<open>crates/llmenv-task/src/lib.rs\<close>.  The store is a record of two
    folders, the lock and the clock; a folder lists files that are parsed, unreadable or malformed,
    and each system call can fail with an error kind that the state holds, so every error path is a
    value.  \<open>well_named\<close> is the invariant of the store.
  \<^item> \<open>Sessions\<close>, \<open>Elapsed\<close>: \<open>session.rs\<close>, \<open>session/checkpoint.rs\<close>, \<open>resume.rs\<close>, \<open>visibility.rs\<close>:
    session files, the identity of the caller, resume context, the elapsed time of \<open>ps\<close>.
  \<^item> \<open>Relations\<close>, \<open>Blockers\<close>, \<open>Parents\<close>: the queue and sub-tasks (\<open>relation.rs\<close>), the walk below a
    blocker (\<open>blockers.rs\<close>), the walks up the parent links (\<open>ancestors.rs\<close>, \<open>parent_chain.rs\<close>).
  \<^item> \<open>Resolve\<close>, \<open>Ownership\<close>: from a name to a slug (\<open>resolve.rs\<close>), and who may act on it
    (\<open>ownership.rs\<close>).
  \<^item> \<open>Task_Ops\<close>, \<open>Session_Ops\<close>: every operation that changes the store (\<open>lib.rs\<close>, \<open>edit.rs\<close>, \<open>note.rs\<close>,
    \<open>reopen.rs\<close>, \<open>session/finish.rs\<close>).
  \<^item> \<open>Display\<close>, \<open>Reminders\<close>: listing, current and next task, and what the hooks tell an agent.
  \<^item> \<open>Task_Cli\<close>: the commands of \<open>src/cli/mod.rs\<close> and its \<open>task_*.rs\<close> files, and runs of them.
  \<^item> \<open>Store_Lock\<close>: the re-entrant lock of \<open>store_lock.rs\<close>.
  \<^item> \<open>Store_Invariant\<close>, \<open>Task_Laws\<close>, \<open>Session_Laws\<close>, \<open>Command_Laws\<close>: what the operations keep and do.
  \<^item> \<open>Samples\<close>: a concrete store on which the properties are applied.

  The configuration side:

  \<^item> \<open>Json_Merge\<close>, \<open>Yaml_Merge\<close>: the deep merges of \<open>crates/llmenv-util/src/lib.rs\<close>.
  \<^item> \<open>Precedence\<close>: scalar and map fields by precedence (\<open>src/merge/precedence.rs\<close>).
  \<^item> \<open>Capabilities\<close>, \<open>Capability_Laws\<close>: the capability record (\<open>crates/llmenv-config/src/schema.rs\<close>) and
    its merge (\<open>src/merge/capabilities.rs\<close>).
  \<^item> \<open>Manifest\<close>: the merge of the bundles, their files and rules (\<open>src/merge/mod.rs\<close>, \<open>rules.rs\<close>).
  \<^item> \<open>Scope\<close>, \<open>Scope_Laws\<close>: scopes, tags and the project marker (\<open>crates/llmenv-scope/src\<close>).
  \<^item> \<open>Bundles\<close>: which bundles fire and with what rank (\<open>src/bundle_select.rs\<close>).
  \<^item> \<open>Config_Theorems\<close>: the properties of this side.

  The commit gate:

  \<^item> \<open>Shell\<close>: the splitter of \<open>src/hook_run/shell_split.rs\<close> and its two files, the gate and the step boundaries
    over its segments, the advisory of \<open>cd_guard.rs\<close> and the quoting of \<open>crates/llmenv-util/src/shell.rs\<close>.
  \<^item> \<open>Shell_Laws\<close>: the locale \<open>quoting\<close> (what a printer of words owes the passes of the splitter), its two
    instances, and commands nested in substitutions, scripts and \<open>eval\<close>.
  \<^item> \<open>Shell_Theorems\<close>: the properties of the splitter and of its verdict.
  \<^item> \<open>Hook_State\<close>: the per-session state files of the hooks (\<open>src/hook_run/session_state.rs\<close>), with the
    failures of locks, writes and removals as answers that the folder holds.
  \<^item> \<open>Nudges\<close>: the task nudges and the commit deny-once (\<open>task_nudge.rs\<close> and its files).
  \<^item> \<open>Repeats\<close>: repeated calls and reminders (\<open>repeat_detect.rs\<close>, \<open>stop_dedupe.rs\<close>).
  \<^item> \<open>Hook_Laws\<close>: counters, the marker of the gate, runs of hook calls, and the locale \<open>streak_counter\<close> of
    both trackers of repeats.
  \<^item> \<open>Hook_Theorems\<close>: the properties of the hooks.

  The permissions of opencode (\<open>src/adapter/opencode/permissions.rs\<close>, \<open>src/adapter/tools.rs\<close>):

  \<^item> \<open>Globs\<close>: the backtracking matcher and the overlap table over code points, both shown to decide the
    language of a pattern.
  \<^item> \<open>Glob_Subsumption\<close>: for which patterns the probes of the subsumption test are enough.
  \<^item> \<open>Neutral_Tools\<close>: the table of tool names.
  \<^item> \<open>Opencode_Permissions\<close>: the native rule syntax, the tiers of rules and the check of their order.
  \<^item> \<open>Engine_Theorems\<close>: the properties of this side.

  The MCP client and resolver (\<open>crates/llmenv-mcp/src\<close>):

  \<^item> \<open>Addresses\<close>: addresses as 32-bit and 128-bit words and the address policies (\<open>cleartext.rs\<close>, \<open>ssrf.rs\<close>),
    with the bit tests shown to be address blocks.
  \<^item> \<open>Mcp_Urls\<close>: the checks of a URL before a client is built.
  \<^item> \<open>Mcp_Client\<close>: bounded reads, sessions, calls and listings against any server.
  \<^item> \<open>Mcp_Laws\<close>: the locale \<open>rpc_attempt\<close> (what one attempt owes the retry) with its instances for calls and
    listings, and the session invariant.
  \<^item> \<open>Mcp_Resolve\<close>: the servers of the active host (\<open>resolve.rs\<close>).
  \<^item> \<open>Mcp_Theorems\<close>: the properties of this side.

  The checks of the configuration and the launch proxy:

  \<^item> \<open>Proxy_Path\<close>: paths into a JSON document (\<open>crates/llmenv-config/src/proxy_path.rs\<close>) and the locale
    \<open>keyed_document\<close> (what an edit owes the paths that part from it).
  \<^item> \<open>Launch_Proxy\<close>: the rewriting rules and one request (\<open>src/launch/proxy.rs\<close>).
  \<^item> \<open>Validate_Names\<close>, \<open>Validate\<close>: the checks of single values and of the whole configuration
    (\<open>crates/llmenv-config/src/validate.rs\<close> and \<open>validate/*.rs\<close>).
  \<^item> \<open>Validate_Laws\<close>: the locale \<open>exact_check\<close> (a check that passes for exactly the good entries) with its
    instances, and what the checks guarantee together.
  \<^item> \<open>Setup_Theorems\<close>: the properties of this side.

  The upkeep around a session:

  \<^item> \<open>Throttling\<close>: the usage throttle (\<open>src/throttle\<close>).
  \<^item> \<open>Read_Once\<close>: the hook on repeated reads (\<open>src/hook_run/read_once.rs\<close> and its folder), over the folders of
    \<open>Hook_State\<close>.
  \<^item> \<open>Cache_Sweep\<close>, \<open>Cache_Laws\<close>: \<open>gc\<close> and \<open>prune\<close> (\<open>src/materialize/cache.rs\<close>, \<open>cache/*.rs\<close>), with the locales
    \<open>planned_step\<close> and \<open>counted_step\<close> on their steps.
  \<^item> \<open>Content_Hash\<close>: the hash of the manifest and the drift checks on it, with the locale \<open>hash_encoder\<close> (bytes that
    delimit their value) on every encoder.
  \<^item> \<open>Upkeep_Theorems\<close>: the properties of this side.

  \<^bold>\<open>How the parts interact.\<close>  A command resolves its name (\<open>Resolve\<close>), checks ownership (\<open>Ownership\<close>),
  runs an operation (\<open>Task_Ops\<close>, \<open>Session_Ops\<close>), and records an override, all under one store lock.
  The operations consult the queue, the blockers and the parent chain over one strict listing of the
  store.  The hooks only read.  On the configuration side, \<open>evaluate\<close> gives the active scopes, from which
  \<open>firing_bundles\<close> and \<open>build_bundle_refs\<close> select the bundles that \<open>merge\<close> combines; the rank of a
  reference is the precedence of its capabilities in \<open>merge_capabilities\<close>.  The commit gate asks the splitter
  whether a command commits and whether it ends the task first, and the task tracking whether a task is in
  progress; its marker is in the state file of the session.  The checks run when a configuration is loaded, so the
  scope matcher, the server resolver and the proxy work on entries that passed them.

  \<^bold>\<open>What is shown.\<close>  Starting and completing are safe with respect to blockers, sub-tasks, ancestors and
  the queue; every run of commands keeps the store well named and never reopens a closed session;
  finishing leaves no unfinished task behind; a guarded command acts only on a task that the caller may
  act on; the walks are exact with respect to reachability; the listing is a permutation with each
  sub-task under its parent; names, slugs and elapsed times are handled within their bounds.  The merge of
  capabilities does not depend on the order of the contributors and loses no restriction; the
  configuration outranks the bundles, a file comes from the last bundle that has it, merging a value
  again changes nothing; the active tags are bounded and usable as keywords, project tags stay in the
  project, one content walk finds what a walk per scope finds, and the marker search is exact below the
  home folder.  A command printed with the program's own quoting reads back word by word at every nesting up
  to the bound; the gate fires on it exactly when a segment commits or the bound is passed.  In every run of hook calls, an untracked commit that
  passes was denied before; nudges and warnings come exactly on their counts, up to the width of the
  counters.  In an accepted list of permissions the strictest effect wins for each pair and the later of two
  rules that disagree is the narrower one; the overlap test is exact.  A client reaches only allowed addresses,
  repeats a call only after its session was refused, and sends every call under the session granted last.  A
  configuration that passes the checks has confined names and host scopes without wildcards, its servers resolve
  up to two named errors, and its proxy rules keep arrays within a bound; a set rule holds to the end of the rules;
  the proxy sends only authorised requests, to the upstream alone, without the token.  The delay of the throttle
  falls with the remaining requests, and its token goes to public hosts only; a repeated read is recognised exactly;
  an age sweep removes only stale folders, a dry run names what a real run tries to remove, and the report counts each
  entry once; a drift is reported exactly when a hashed part has changed.
  Behaviours that contradict the documentation are proved to occur as lemmas.

  \<^bold>\<open>Bounds and termination.\<close>  Every definition is total.  The graph walks end because a step adds a stored
  slug to the visited ones; the search for a free slug ends because a folder has finitely many files.
  The source counts candidates in a \<open>u32\<close> and the model in a natural number: the bound shown for the
  candidate, the number of files plus two, is below that range for every folder of fewer files.  The splitter recurses on the number of nesting
  levels that are left, 33 at the start, so level 0 is the depth that the source refuses.  The glob matcher ends
  because its last star, its resume position or its position moves on; listings are bounded by 50 pages.

  \<^bold>\<open>Abstractions.\<close>  JSON text, file permissions and the wording of most errors are left out: an error is a
  constructor with the names and numbers that its text shows.  Times are opaque strings that the clock
  of the state supplies, ordered as the code orders them, as text.  \<open>ps\<close>, the project tag, the
  environment variables and RFC 3339 parsing are fields of \<open>env\<close>.  Capability entries that are only
  copied and compared are values of a type variable; YAML and JSON numbers are opaque.  Compiled globs,
  the directory walker, address blocks and the parsed project marker are parameters (\<open>world\<close>), and the
  result of reading a bundle folder is a record.  The URL and JSON parsers and the resolver are parameters of
  the MCP side, and the server is any function from the requests it has seen to an answer.  The HTTP, JSON, regex and URL
  libraries of the proxy are the fields of one record; the CIDR parser of the checks is a parameter.

  \<^bold>\<open>Not modelled.\<close>  Reading and parsing of the configuration file, the other output of the engine adapters, the
  hooks that call the memory service or only print text, the writing of materialized files, the MCP proxy and stdio
  transport, memory, sync, launch supervision and all rendering of text: these are calls of the system, of child
  processes and of services, or fixed prose, with little state of their own to reason about.
\<close>

section \<open>Tasks: starting and completing\<close>

text \<open>C1. A start without \<open>--force\<close> that succeeds is safe.  The task was not done; every blocker and
  everything under it (the starting task's own subtree apart) is stored and done; the queue of the
  session does not hold the task; no ancestor is done, and after the start none is still open; and
  no other task file changes.\<close>

theorem start_task_safe:
  assumes "well_named s" and "start_task e tgt False s = (Inr t', s')"
  shows "\<exists>t. load_task s (t_slug t') = Inr t \<and> t_state t \<noteq> Done \<and>
    load_task s' (t_slug t') = Inr t' \<and> t_state t' = Wip \<and>
    (\<forall>b \<in> set (t_blocked_on t). \<forall>x \<in> subtree.reach (by_slug (store_tasks s)) (t_slug t) {b}.
       \<exists>u. load_task s x = Inr u \<and> t_state u = Done) \<and>
    queue_hold t (store_tasks s) = None \<and>
    (\<forall>q. ancestor s t q \<longrightarrow> t_state q \<noteq> Done \<and>
       (\<exists>r. load_task s' (t_slug q) = Inr r \<and> t_state r \<noteq> Open \<and> t_state r \<noteq> Done)) \<and>
    (\<forall>n. n \<noteq> t_slug t' \<longrightarrow> (\<forall>q. ancestor s t q \<and> t_state q = Open \<longrightarrow> n \<noteq> t_slug q) \<longrightarrow>
       load_task s' n = load_task s n)"
proof -
  have wt: "well_named_tasks s"
    using assms(1) by (simp add: well_named_def)
  obtain t ps s0 now where l: "locked s s0" and c: "start_checks e tgt False s0 = Inr (t, ps)"
    and ts: "list_tasks_strict s0 = Inr (store_tasks s)" and t': "t' = set_wip now t"
    and own: "load_task s' (t_slug t) = Inr t'"
    and up: "\<And>q. q \<in> set ps \<Longrightarrow> t_slug q \<noteq> t_slug t \<Longrightarrow> \<exists>r. load_task s' (t_slug q) = Inr r \<and> t_state r = Wip"
    and same: "\<And>n. n \<noteq> t_slug t \<Longrightarrow> n \<notin> t_slug ` set ps \<Longrightarrow> load_task s' n = load_task s n"
    by (rule start_task_run[OF assms(2) wt]) (rule that)
  note ck = start_checks_ok[OF c locked_well_named[OF l wt] ts]
  have anc_eq: "ancestor s0 = ancestor s"
    using ancestor_files[of s0 s] l by simp
  note anc = ancestors_to_start_ok[OF ck(3), unfolded anc_eq]
  have blk: "\<exists>u. load_task s x = Inr u \<and> t_state u = Done"
    if "b \<in> set (t_blocked_on t)" "x \<in> subtree.reach (by_slug (store_tasks s)) (t_slug t) {b}" for b x
    using subtree_done_iff(1)[of b "t_slug t" "by_slug (store_tasks s)" None] ck(4) that
      not_undone_at[OF wt, of x] by simp
  have anc_slug: "load_task s (t_slug q) = Inr q \<and> t_slug q \<noteq> t_slug t" if "ancestor s t q" for q
    using anc(4)[OF that] l well_named_load_slug[OF wt] by auto
  have state: "t_state q \<noteq> Done \<and> (\<exists>r. load_task s' (t_slug q) = Inr r \<and> t_state r \<noteq> Open \<and> t_state r \<noteq> Done)"
    if q: "ancestor s t q" for q
  proof (cases "t_state q = Open")
    case True
    then have "q \<in> set ps" using q anc(1) by simp
    then obtain r where "load_task s' (t_slug q) = Inr r" "t_state r = Wip"
      using up anc_slug[OF q] by blast
    then show ?thesis using True by simp
  next
    case False
    have "t_slug q \<notin> t_slug ` set ps"
    proof
      assume "t_slug q \<in> t_slug ` set ps"
      then obtain p where p: "p \<in> set ps" "t_slug p = t_slug q" by auto
      have "load_task s (t_slug q) = Inr p"
        using p anc(1) anc_slug[of p] by simp
      then have "p = q"
        using anc_slug[OF q] by simp
      then show False using p(1) anc(1) False by simp
    qed
    then have "load_task s' (t_slug q) = Inr q"
      using same[of "t_slug q"] anc_slug[OF q] by simp
    moreover have "t_state q \<noteq> Done"
      using anc(2)[OF _ q] by simp
    ultimately show ?thesis using False by blast
  qed
  have frame: "load_task s' n = load_task s n"
    if "n \<noteq> t_slug t" "\<forall>q. ancestor s t q \<and> t_state q = Open \<longrightarrow> n \<noteq> t_slug q" for n
    using that anc(1) by (intro same) auto
  show ?thesis
    by (rule exI[of _ t]) (use ck(1,2,5) l t' own blk state frame in simp)
qed

theorem start_task_safe_witness:
  "\<exists>t' s'. start_task sample_env (Resolved ''part'') False sample_store = (Inr t', s') \<and>
     t_state t' = Wip"
proof -
  obtain t' s' where r: "start_task sample_env (Resolved ''part'') False sample_store = (Inr t', s')"
    using sample_start by (rule succeedsE)
  show ?thesis
    using start_task_safe[OF well_named_sample r] r by blast
qed

text \<open>C2. Completing a task without \<open>--force\<close> needs a started task all of whose sub-tasks, at any
  depth, are done; it writes only that task.\<close>

theorem complete_task_safe:
  assumes "well_named s" and "complete_task e tgt False s = (Inr c, s')"
  shows "\<exists>t. load_task s (t_slug t) = Inr t \<and> t_state t \<noteq> Open \<and> t_slug (c_task c) = t_slug t \<and>
    load_task s' (t_slug t) = Inr (c_task c) \<and> t_state (c_task c) = Done \<and>
    (\<forall>u. descendant (store_tasks s) (t_slug t) (t_slug u) \<longrightarrow> load_task s (t_slug u) = Inr u \<longrightarrow>
       t_slug u \<noteq> t_slug t \<longrightarrow> t_state u = Done) \<and>
    (\<forall>n. n \<noteq> t_slug t \<longrightarrow> load_task s' n = load_task s n)"
proof -
  have wt: "well_named_tasks s"
    using assms(1) by (simp add: well_named_def)
  obtain t where t: "load_task s (t_slug t) = Inr t" "t_state t \<noteq> Open" "t_slug (c_task c) = t_slug t"
    "load_task s' (t_slug t) = Inr (c_task c)" "t_state (c_task c) = Done"
    "\<And>n. n \<noteq> t_slug t \<Longrightarrow> load_task s' n = load_task s n"
    and u: "undone_descendants (t_slug t) (store_tasks s) = []"
    by (rule close_task_run[OF assms(2)[unfolded complete_task_def] wt]) simp
  have "t_state u = Done" if "descendant (store_tasks s) (t_slug t) (t_slug u)"
    "load_task s (t_slug u) = Inr u" "t_slug u \<noteq> t_slug t" for u
    using undone_descendants_set[OF well_named_distinct_slugs[OF wt], of "t_slug t"] u
      load_in_store(1)[OF wt that(2)] that(1,3) by auto
  then show ?thesis using t by blast
qed

theorem complete_task_safe_witness:
  "\<exists>c s'. complete_task sample_env (Resolved ''base'') False sample_store = (Inr c, s') \<and>
     t_state (c_task c) = Done"
proof -
  have "succeeds (complete_task sample_env (Resolved ''base'') False) sample_store"
    by code_simp
  then obtain c s' where r: "complete_task sample_env (Resolved ''base'') False sample_store = (Inr c, s')"
    by (rule succeedsE)
  show ?thesis
    using complete_task_safe[OF well_named_sample r] r by blast
qed

section \<open>Runs of commands\<close>

text \<open>C4. Every run of task and session commands, from any callers and with any of them failing,
  leads from a well-named store to a well-named store: a task or session file keeps the name of its
  slug or id, names stay valid, and no name appears twice.\<close>

theorem run_keeps_well_named:
  assumes "well_named s"
  shows "well_named (fold command_step ecs s)"
  using assms by (rule command_run.run_inv)

theorem run_keeps_well_named_witness:
  "well_named (fold command_step
     [(sample_env, Start ''part'' False False None), (sample_env, SessionFinish None True None)]
     sample_store)"
  by (rule run_keeps_well_named[OF well_named_sample])

text \<open>C3. No run of commands reopens a session that was finished or abandoned, not even a run with
  failures half way, and no command removes its file.\<close>

theorem run_never_reopens_session:
  assumes "well_named s" and "load_existing_session s i = Inr x" and "\<not> is_open x"
  shows "\<exists>y. load_existing_session (fold command_step ecs s) i = Inr y \<and> \<not> is_open y"
proof -
  have "closed_stays s (fold command_step ecs s)"
    using run_good[of s ecs] assms(1) by (simp add: good_step_def)
  then show ?thesis
    using assms(2,3) by (auto simp: closed_stays_def load_existing_session_ok)
qed

theorem run_never_reopens_session_witness:
  "\<exists>y. load_existing_session
       (fold command_step [(sample_env, SessionNote (Some ''old'') ''more'' (Some ''old''))] sample_store)
       ''old'' = Inr y \<and> \<not> is_open y"
proof -
  have x: "load_existing_session sample_store ''old'' =
      Inr (mk_session ''old'' (Some ''conv'') (Some ''2025''))"
    by code_simp
  show ?thesis
    by (rule run_never_reopens_session[OF well_named_sample x]) code_simp
qed

section \<open>Finishing a session\<close>



text \<open>A session with an unfinished task does not finish without \<open>--abandon-open\<close>: the command
  fails and changes neither a task nor a session.\<close>

lemma finish_session_refuses_unfinished:
  assumes "well_named s" and "load_task s n = Inr t" and "t_session t = Some i" and "t_state t \<noteq> Done"
  shows "\<exists>x s'. finish_session i False s = (Inl x, s') \<and> files s' = files s \<and>
    session_dir s' = session_dir s"
proof -
  have "t \<in> set (tasks_of i (store_tasks s))"
    using load_in_store(1)[OF _ assms(2)] assms(1,3) by (simp add: well_named_def tasks_of_def)
  note R = finish_session_refused[OF assms(1) this assms(4)]
  then show ?thesis
    by (metis prod.collapse)
qed

lemma finish_session_refuses_unfinished_witness:
  "\<exists>x s'. finish_session ''mine'' False sample_store = (Inl x, s') \<and> files s' = files sample_store"
proof -
  have t: "load_task sample_store ''plan'' =
      Inr (mk_task ''plan'' Open None Queued [] (Some ''mine'') ''2026-1'')"
    by code_simp
  have "\<exists>x s'. finish_session ''mine'' False sample_store = (Inl x, s') \<and>
      files s' = files sample_store \<and> session_dir s' = session_dir sample_store"
    by (rule finish_session_refuses_unfinished[OF well_named_sample t]) (simp_all add: mk_task_def)
  then show ?thesis by blast
qed

section \<open>Starting a session\<close>

text \<open>After \<open>session start --replace\<close> the new session is the only open one of its project.\<close>

lemma replace_leaves_one_open:
  assumes "well_named s" and "start_session_as e q Replace s = (Inr out, s')"
  shows "\<exists>x ys. out = Replaced x ys \<and> is_open x \<and> s_project x = q_project q \<and>
    load_existing_session s' (s_id x) = Inr x \<and>
    (\<forall>i y. load_existing_session s' i = Inr y \<longrightarrow> is_open y \<longrightarrow> s_project y = q_project q \<longrightarrow> y = x)"
proof -
  obtain x ys where x: "out = Replaced x ys" "is_open x" "s_project x = q_project q"
    and f: "find_json (s_id x) (entries (session_dir s')) = Some (Parsed x)"
    and only: "\<And>i y. find_json i (entries (session_dir s')) = Some (Parsed y) \<Longrightarrow> is_open y \<Longrightarrow>
      s_project y = q_project q \<Longrightarrow> y = x"
    by (rule replace_run[OF assms(2,1)]) (rule that)
  have "well_named s'"
    using keeps_start_session_as[of e q Replace, unfolded keeps_def, THEN spec, of s] assms(1)
    unfolding assms(2) good_step_def by simp
  then have "is_valid_short_name (s_id x)"
    using find_json_in[OF f] unfolding well_named_def well_named_sessions_def well_named_dir_def by blast
  then have own: "load_existing_session s' (s_id x) = Inr x"
    using f by (simp add: load_existing_session_ok)
  have "y = x" if "load_existing_session s' i = Inr y" "is_open y" "s_project y = q_project q" for i y
    by (rule only[of i, OF _ that(2,3)]) (use that(1) in \<open>simp add: load_existing_session_ok\<close>)
  then show ?thesis
    using x own by blast
qed

definition sample_request :: start_request where
  "sample_request = \<lparr>q_name = Some ''Next'', q_description = None, q_project = ''proj'',
     q_owner = \<lparr>i_session_id = Some ''conv'', i_pid = None\<rparr>, q_resume = empty_resume\<rparr>"

lemma replace_leaves_one_open_witness:
  "\<exists>x ys s'. start_session_as sample_env sample_request Replace sample_store = (Inr (Replaced x ys), s') \<and>
     is_open x"
proof -
  have "succeeds (start_session_as sample_env sample_request Replace) sample_store"
    by code_simp
  then obtain out s' where r: "start_session_as sample_env sample_request Replace sample_store = (Inr out, s')"
    by (rule succeedsE)
  show ?thesis
    using replace_leaves_one_open[OF well_named_sample r] r by blast
qed

text \<open>A start without a flag never opens a second session of the project: it creates one only
  where none was open, under a new id, and else it resumes one that was open and is the caller's,
  by conversation or by process; and only that one file is written.\<close>

lemma start_without_flag:
  assumes "start_session_as e q Auto s = (Inr out, s')"
  shows "(\<exists>x. out = Created x \<and> open_sessions_strict s (q_project q) = Inr [] \<and> is_open x \<and>
      \<not> file_exists (session_dir s) (s_id x) \<and>
      entries (session_dir s') = put_json (s_id x) (Parsed x) (entries (session_dir s))) \<or>
    (\<exists>x y opens. out = Resumed y \<and> open_sessions_strict s (q_project q) = Inr opens \<and> x \<in> set opens \<and>
      ownership_of x (q_owner q) \<noteq> ByNone \<and> s_id y = s_id x \<and> is_open y = is_open x \<and>
      entries (session_dir s') = put_json (s_id x) (Parsed y) (entries (session_dir s)))"
  by (rule auto_run[OF assms]) blast+

lemma start_without_flag_witness:
  "\<exists>y s'. start_session_as sample_env sample_request Auto sample_store = (Inr (Resumed y), s') \<and>
     s_id y = ''mine''"
proof -
  have "succeeds (start_session_as sample_env sample_request Auto) sample_store"
    by code_simp
  then obtain out s' where r: "start_session_as sample_env sample_request Auto sample_store = (Inr out, s')"
    by (rule succeedsE)
  have o: "open_sessions_strict sample_store (q_project sample_request) =
      Inr [mk_session ''mine'' (Some ''conv'') None, mk_session ''theirs'' (Some ''else'') None]"
    by code_simp
  have n: "ownership_of (mk_session ''theirs'' (Some ''else'') None) (q_owner sample_request) = ByNone"
    by code_simp
  show ?thesis
    using start_without_flag[OF r] r o n by (auto simp: mk_session_def)
qed

section \<open>Parents\<close>

text \<open>C7. \<open>edit\<close> never closes a loop in the parent graph: from an acyclic store every edit, accepted
  or refused, leads to an acyclic store, and a refused edit changes no task.\<close>

theorem edit_keeps_parents_acyclic:
  assumes "well_named s" and "acyclic (parent_edge s)"
  shows "acyclic (parent_edge (snd (edit_task e tgt ed s))) \<and>
    ((\<exists>x. fst (edit_task e tgt ed s) = Inl x) \<longrightarrow> files (snd (edit_task e tgt ed s)) = files s)"
proof -
  have "files (snd (edit_task e tgt ed s)) = files s" if "fst (edit_task e tgt ed s) = Inl x" for x
    using that by (intro edit_task_err_files[of e tgt ed s x]) (simp add: prod_eq_iff)
  then show ?thesis
    using edit_task_acyclic[OF assms(2)] assms(1) by (auto simp: well_named_def)
qed

theorem edit_keeps_parents_acyclic_witness:
  "acyclic (parent_edge (snd (edit_task sample_env (Resolved ''plan'')
     \<lparr>ed_title = None, ed_parent = Some ''part'', ed_no_parent = False, ed_block_on = [], ed_unblock = [],
      ed_add_note = None, ed_delete_note = None, ed_detail = None\<rparr> sample_store)))"
  using edit_keeps_parents_acyclic[OF well_named_sample acyclic_sample] by blast

text \<open>\<open>reject_cycle\<close> accepts a new parent exactly if the chain of parents above it ends in a
  readable task with no parent, and the task itself is not on that chain.\<close>

lemma reject_cycle_exact:
  "reject_cycle s slug p = Inr () \<longleftrightarrow>
     (\<exists>r. (p, r) \<in> (parent_edge s)\<^sup>* \<and> chain_end s r) \<and> (p, slug) \<notin> (parent_edge s)\<^sup>*"
  by (rule reject_cycle_iff)

section \<open>Who may act\<close>

text \<open>C6. A guarded command (start, note, wait, block, edit) either fails before any change, or it
  acts on one stored task whose name starts with the given name and which has no session, is of the
  caller's session, or is of the session that \<open>--other-session\<close> names.  The action runs on the
  resolved slug; its error is the command's error, and for a task of the caller's own session
  nothing more is written.\<close>

theorem guarded_acts_on_permitted_task:
  assumes "well_named s" and "guarded e i other act s = (res, s')"
  shows "(\<exists>x. res = Inl x \<and> files s' = files s \<and> session_dir s' = session_dir s) \<or>
    (\<exists>s0 c slug t r1 s1. locked s s0 \<and> caller_session_for_task e s = Inr c \<and>
       load_task s slug = Inr t \<and> starts_with slug i \<and>
       (case t_session t of None \<Rightarrow> True
        | Some owner \<Rightarrow> c = CallerSession owner \<or> other = Some owner) \<and>
       act (Resolved slug) s0 = (r1, s1) \<and>
       (\<forall>x. r1 = Inl x \<longrightarrow> res = Inl x \<and> s' = s1) \<and>
       ((\<exists>owner. t_session t = Some owner \<and> c = CallerSession owner) \<longrightarrow> res = r1 \<and> s' = s1))"
proof -
  have wt: "well_named_tasks s"
    using assms(1) by (simp add: well_named_def)
  show ?thesis
  proof (rule guarded_cases[OF wt, of e i other act], goal_cases refused acted)
    case (refused x)
    then show ?thesis using assms(2) by simp
  next
    case (acted s0 c slug t audit)
    obtain r1 s1 where a: "act (Resolved slug) s0 = (r1, s1)" by fastforce
    have err: "res = Inl x \<and> s' = s1" if "r1 = Inl x" for x
      using that acted(6) assms(2) a by (simp add: bnd_def)
    have own: "res = r1 \<and> s' = s1" if "\<exists>owner. t_session t = Some owner \<and> c = CallerSession owner"
    proof -
      have "audit = None"
        using that acted(5) by (auto simp: ownership_note_def)
      then show ?thesis
        using acted(6) assms(2) a by (cases r1) (auto simp: bnd_def record_override_def)
    qed
    have ok: "case t_session t of None \<Rightarrow> True | Some owner \<Rightarrow> c = CallerSession owner \<or> other = Some owner"
      using ownership_note_iff[of slug t c other] acted(5) by blast
    show ?thesis
      by (rule disjI2, intro exI conjI allI impI) (use acted(1-4) ok a err own in blast)+
  qed
qed

theorem guarded_acts_on_permitted_task_witness:
  "\<exists>r s'. guarded sample_env ''pl'' None (\<lambda>tgt. note_task sample_env tgt ''x'') sample_store = (Inr r, s') \<and>
     (\<exists>slug t. load_task sample_store slug = Inr t \<and> starts_with slug ''pl'')"
proof -
  let ?m = "guarded sample_env ''pl'' None (\<lambda>tgt. note_task sample_env tgt ''x'')"
  have "succeeds ?m sample_store"
    by code_simp
  then obtain r s' where r: "?m sample_store = (Inr r, s')"
    by (rule succeedsE)
  show ?thesis
    using guarded_acts_on_permitted_task[OF well_named_sample r] r by blast
qed

section \<open>Names\<close>

text \<open>A name resolves to a stored task whose slug starts with it, and that slug resolves to
  itself; a slug of the caller's preferred sessions resolves to itself whatever else is stored.\<close>

lemma resolved_name:
  assumes "well_named s" and "resolve_identifier_for s input owner = Inr slug"
  shows "starts_with slug input \<and> (\<exists>t. load_task s slug = Inr t) \<and>
    resolve_identifier_for s slug owner = Inr slug"
proof -
  have wt: "well_named_tasks s"
    using assms(1) by (simp add: well_named_def)
  obtain ts where ts: "list_tasks_strict s = Inr ts" and r: "resolve_with s input owner ts = Inr slug"
    using assms(2) by (auto simp: resolve_identifier_for_def seqR_ok)
  obtain t where t: "load_task s slug = Inr t"
    using resolved_slug_stored[OF wt ts r] by blast
  have "is_valid_short_name slug"
    using t by (simp add: load_task_ok)
  then show ?thesis
    using resolve_with_ok(1)[OF r] t resolve_with_again[OF wt ts r] ts
    by (auto simp: resolve_identifier_for_def check_identifier_def ensureR_def)
qed

lemma resolved_name_witness:
  "starts_with ''plan'' ''pl'' \<and>
   resolve_identifier_for sample_store ''plan'' \<lparr>i_session_id = Some ''conv'', i_pid = None\<rparr> = Inr ''plan''"
proof -
  have "resolve_identifier_for sample_store ''pl'' \<lparr>i_session_id = Some ''conv'', i_pid = None\<rparr> = Inr ''plan''"
    by code_simp
  from resolved_name[OF well_named_sample this] show ?thesis by blast
qed

text \<open>A new task gets a slug that no stored task has, is open, belongs to the session that was
  chosen, and changes no other task.  A sub-task's parent is stored, is not done, and is of the same
  session.\<close>

lemma add_task_fresh:
  assumes "add_task_with e new parent choice project s = (Inr t, s')"
  shows "resolve_session_for_add s choice project = Inr (the (t_session t)) \<and> t_session t \<noteq> None \<and>
    t_state t = Open \<and> t_title t = nt_title new \<and>
    \<not> file_exists (task_dir s) (t_slug t) \<and> load_task s' (t_slug t) = Inr t \<and>
    (\<forall>n. n \<noteq> t_slug t \<longrightarrow> load_task s' n = load_task s n) \<and>
    (t_relation t = Child \<longrightarrow> (\<exists>p q. t_parent t = Some p \<and> load_task s p = Inr q \<and>
       t_state q \<noteq> Done \<and> t_session q = t_session t))"
proof -
  obtain i s0 where r: "resolve_session_for_add s choice project = Inr i" and l: "locked s s0"
    and links: "add_links e new parent i s0 = Inr (t_parent t, t_relation t, t_parallel t, t_blocked_on t)"
    and t: "t_session t = Some i" "t_state t = Open" "t_title t = nt_title new" "t_notes t = []"
      "\<not> file_exists (task_dir s) (t_slug t)" "load_task s' (t_slug t) = Inr t"
    and frame: "\<And>n. n \<noteq> t_slug t \<Longrightarrow> load_task s' n = load_task s n"
    by (rule add_task_run[OF assms]) (rule that)
  have "\<exists>p q. t_parent t = Some p \<and> load_task s p = Inr q \<and> t_state q \<noteq> Done \<and> t_session q = t_session t"
    if "t_relation t = Child"
    using add_links_child[OF links[unfolded that]] t(1) l by simp
  then show ?thesis
    using r t frame by simp
qed

definition sample_new :: new_task where
  "sample_new = \<lparr>nt_title = ''Write it down'', nt_detail = None, nt_placement = PlaceChild ''plan'',
     nt_after = Some ''base''\<rparr>"

lemma add_task_fresh_witness:
  "\<exists>t s'. add_task_with sample_env sample_new Detached (Named ''mine'') ''proj'' sample_store = (Inr t, s') \<and>
     load_task s' (t_slug t) = Inr t"
proof -
  have "succeeds (add_task_with sample_env sample_new Detached (Named ''mine'') ''proj'') sample_store"
    by code_simp
  then obtain t s' where
    r: "add_task_with sample_env sample_new Detached (Named ''mine'') ''proj'' sample_store = (Inr t, s')"
    by (rule succeedsE)
  show ?thesis
    using add_task_fresh[OF r] r by blast
qed

text \<open>Reopening by \<open>task reopen\<close> takes only done tasks, opens all of them, touches no other task,
  and leaves no reopened sub-task under a done parent.\<close>

lemma reopen_opens_all:
  assumes "well_named s" and "reopen_resolved e slugs s = (Inr us, s')"
  shows "(\<forall>n \<in> set slugs. \<exists>t u. load_task s n = Inr t \<and> t_state t = Done \<and>
       load_task s' n = Inr u \<and> t_state u = Open \<and>
       (\<forall>p. t_relation t = Child \<and> t_parent t = Some p \<longrightarrow>
          (\<exists>q. load_task s' p = Inr q \<and> t_state q \<noteq> Done))) \<and>
    (\<forall>n. n \<notin> set slugs \<longrightarrow> load_task s' n = load_task s n)"
proof -
  have wt: "well_named_tasks s"
    using assms(1) by (simp add: well_named_def)
  obtain ts where ts: "distinct (map t_slug ts)" "set (map t_slug ts) = set slugs"
    and old: "\<And>t. t \<in> set ts \<Longrightarrow> load_task s (t_slug t) = Inr t \<and> t_state t = Done"
    and par: "\<And>t p. t \<in> set ts \<Longrightarrow> t_relation t = Child \<Longrightarrow> t_parent t = Some p \<Longrightarrow>
       p \<in> set slugs \<or> (\<exists>q. load_task s p = Inr q \<and> t_state q \<noteq> Done)"
    and new: "\<And>n. n \<in> set slugs \<Longrightarrow> \<exists>u. load_task s' n = Inr u \<and> t_state u = Open"
    and same: "\<And>n. n \<notin> set slugs \<Longrightarrow> load_task s' n = load_task s n"
    by (rule reopen_run[OF assms(2) wt]) (rule that)
  have "\<exists>t u. load_task s n = Inr t \<and> t_state t = Done \<and> load_task s' n = Inr u \<and> t_state u = Open \<and>
       (\<forall>p. t_relation t = Child \<and> t_parent t = Some p \<longrightarrow>
          (\<exists>q. load_task s' p = Inr q \<and> t_state q \<noteq> Done))" if n: "n \<in> set slugs" for n
  proof -
    obtain t where t: "t \<in> set ts" "t_slug t = n"
      using n unfolding ts(2)[symmetric] by auto
    obtain u where u: "load_task s' n = Inr u" "t_state u = Open"
      using new[OF n] by blast
    have "\<exists>q. load_task s' p = Inr q \<and> t_state q \<noteq> Done" if "t_relation t = Child" "t_parent t = Some p" for p
    proof (cases "p \<in> set slugs")
      case True
      from new[OF True] show ?thesis by fastforce
    next
      case False
      then show ?thesis using par[OF t(1) that] same by simp
    qed
    then show ?thesis
      using old[OF t(1)] t(2) u by blast
  qed
  then show ?thesis
    using same by blast
qed

lemma reopen_opens_all_witness:
  "\<exists>us s' u. reopen_resolved sample_env [''base''] sample_store = (Inr us, s') \<and>
     load_task s' ''base'' = Inr u \<and> t_state u = Open"
proof -
  have "succeeds (reopen_resolved sample_env [''base'']) sample_store"
    by code_simp
  then obtain us s' where r: "reopen_resolved sample_env [''base''] sample_store = (Inr us, s')"
    by (rule succeedsE)
  show ?thesis
    using reopen_opens_all[OF well_named_sample r] r by fastforce
qed

section \<open>Blockers, descendants and the queue\<close>

text \<open>C8. The walk over a blocker is exact.  It reports nothing exactly if every task under the
  blocker, the waiting task's own subtree apart, is stored and done; a task that it reports is one
  of them that is not; and it fails only on a real loop of parent links, where the blocker is in its
  own subtree.\<close>

theorem blocker_walk_exact:
  "case first_undone_in_subtree slug waiter (by_slug ts) of
     Inr None \<Rightarrow> \<forall>x \<in> subtree.reach (by_slug ts) waiter {slug}. \<not> undone_at (by_slug ts) x
   | Inr (Some u) \<Rightarrow> u \<in> subtree.reach (by_slug ts) waiter {slug} \<and> undone_at (by_slug ts) u
   | Inl e \<Rightarrow> e = TaskE (BlockerLoop slug) \<and>
       slug \<in> subtree.reach (by_slug ts) waiter (kid_succ (by_slug ts) waiter slug)"
proof (cases "first_undone_in_subtree slug waiter (by_slug ts)")
  case (Inl e)
  then show ?thesis using first_undone_loop by simp
next
  case (Inr r)
  then show ?thesis
    using subtree_done_iff[OF Inr] by (cases r) simp_all
qed

definition looped_tasks :: "task list" where
  "looped_tasks =
     [mk_task ''x'' Done (Some ''y'') Child [] None ''2026-1'', mk_task ''y'' Done (Some ''x'') Child [] None ''2026-2'']"

theorem blocker_walk_exact_witness:
  "\<not> undone_at (by_slug sample_tasks) ''base'' \<and>
   ''x'' \<in> subtree.reach (by_slug looped_tasks) ''w'' (kid_succ (by_slug looped_tasks) ''w'' ''x'')"
proof -
  have "first_undone_in_subtree ''base'' ''part'' (by_slug sample_tasks) = Inr None"
    "first_undone_in_subtree ''x'' ''w'' (by_slug looped_tasks) = Inl (TaskE (BlockerLoop ''x''))"
    by code_simp+
  moreover have "''base'' \<in> subtree.reach (by_slug sample_tasks) ''part'' {''base''}"
    using subtree.reach_start by blast
  ultimately show ?thesis
    using blocker_walk_exact[where slug = "''base''" and waiter = "''part''" and ts = sample_tasks]
      blocker_walk_exact[where slug = "''x''" and waiter = "''w''" and ts = looped_tasks] by simp
qed

text \<open>\<open>undone_descendants\<close> lists exactly the stored descendants that are not done, each once, in
  queue order, also where the parent links form a loop.\<close>

lemma undone_descendants_exact:
  assumes "distinct (map t_slug ts)"
  shows "set (undone_descendants root ts) =
      {t \<in> set ts. descendant ts root (t_slug t) \<and> t_slug t \<noteq> root \<and> t_state t \<noteq> Done} \<and>
    sorted (map queue_order (undone_descendants root ts))"
  using undone_descendants_set[OF assms] sorted_undone_descendants by blast

lemma undone_descendants_exact_witness:
  "set (undone_descendants ''plan'' sample_tasks) =
     {t \<in> set sample_tasks. descendant sample_tasks ''plan'' (t_slug t) \<and> t_slug t \<noteq> ''plan'' \<and> t_state t \<noteq> Done}"
proof -
  have "distinct (map t_slug sample_tasks)" by code_simp
  from undone_descendants_exact[OF this] show ?thesis by blast
qed



section \<open>Listing\<close>

text \<open>The displayed rows are the listed tasks, each exactly once, whatever loops or missing
  parents the links have.\<close>

lemma display_shows_each_task_once:
  assumes "distinct (map t_slug ts)"
  shows "mset (map d_task (display_rows ts priority)) = mset ts"
  by (rule display_rows_perm[OF assms])

lemma display_shows_each_task_once_witness:
  "mset (map d_task (display_rows sample_tasks [''theirs''])) = mset sample_tasks"
proof -
  have "distinct (map t_slug sample_tasks)" by code_simp
  from display_shows_each_task_once[OF this] show ?thesis .
qed

text \<open>An indented row stands under its parent: the last row before it with a smaller depth is
  its parent's row, one level up.\<close>

lemma display_indents_under_parent:
  assumes "display_rows ts priority = pre @ r # post" and "0 < d_depth r"
  shows "\<exists>before q mid. pre = before @ q # mid \<and> d_depth r = Suc (d_depth q) \<and>
    t_parent (d_task r) = Some (t_slug (d_task q)) \<and> (\<forall>m \<in> set mid. d_depth r \<le> d_depth m)"
  by (rule nestedD[OF display_rows_nested assms]) blast

lemma display_indents_under_parent_witness:
  "\<exists>before q mid. take 2 (display_rows sample_tasks []) = before @ q # mid \<and> d_depth q = 0 \<and>
     t_slug (d_task q) = ''plan''"
proof -
  have r: "display_rows sample_tasks [] = take 2 (display_rows sample_tasks []) @
      \<lparr>d_depth = 1, d_task = mk_task ''part'' Open (Some ''plan'') Child [''base''] (Some ''mine'') ''2026-2''\<rparr> #
      drop 3 (display_rows sample_tasks [])"
    by code_simp
  obtain before q mid where "take 2 (display_rows sample_tasks []) = before @ q # mid"
    "d_depth q = 0" "t_slug (d_task q) = ''plan''"
    using display_indents_under_parent[OF r] by (auto simp: mk_task_def)
  then show ?thesis by blast
qed

text \<open>The next task of a session comes after the current one in execution order, is actionable,
  and no actionable task lies between the two.\<close>

lemma next_task_is_nearest_actionable:
  assumes "resolve_next_task all_tasks ts current = Some t"
  shows "is_actionable t (by_slug all_tasks) \<and>
    (\<exists>pos k. position (\<lambda>u. t_slug u = t_slug current) (execution_order ts) = Some pos \<and>
       pos < k \<and> k < length (execution_order ts) \<and> execution_order ts ! k = t \<and>
       (\<forall>j. pos < j \<and> j < k \<longrightarrow> \<not> is_actionable (execution_order ts ! j) (by_slug all_tasks)))"
  using resolve_next_task_ok[OF assms] by blast

lemma next_task_is_nearest_actionable_witness:
  "is_actionable (mk_task ''plan'' Open None Queued [] (Some ''mine'') ''2026-1'') (by_slug sample_tasks)"
proof -
  have "resolve_next_task sample_tasks (tasks_of ''mine'' sample_tasks)
      (mk_task ''base'' Done None Queued [] (Some ''mine'') ''2026-0'') =
      Some (mk_task ''plan'' Open None Queued [] (Some ''mine'') ''2026-1'')"
    by code_simp
  from next_task_is_nearest_actionable[OF this] show ?thesis by blast
qed

section \<open>Reminders\<close>

text \<open>The tracking state tells the truth about the visible sessions: no session exactly if none is
  visible, no tasks exactly if all their tasks are done, and else the first task in progress, all
  waiting tasks, the first open task in queue order and the number of open tasks.\<close>

lemma tracking_is_exact:
  "(tracking_of visible ts c = NoSession \<longleftrightarrow> visible = []) \<and>
   (tracking_of visible ts c = NoTasks \<longleftrightarrow> visible \<noteq> [] \<and> live_tasks visible ts = []) \<and>
   (\<forall>wip own waiting nxt queued. tracking_of visible ts c = Tracked wip own waiting nxt queued \<longrightarrow>
      wip = map_option t_slug (find (\<lambda>t. t_state t = Wip) (live_tasks visible ts)) \<and>
      waiting = map t_slug (filter (\<lambda>t. t_state t = Waiting) (live_tasks visible ts)) \<and>
      nxt = map_option t_slug (min_by_key queue_order (filter (\<lambda>t. t_state t = Open) (live_tasks visible ts))) \<and>
      queued = length (filter (\<lambda>t. t_state t = Open) (live_tasks visible ts)))"
  by (intro conjI allI impI; (rule tracking_of_NoSession tracking_of_NoTasks | erule tracking_of_Tracked(1-4)))

lemma tracking_is_exact_witness:
  "(tracking_of [] sample_tasks None = NoSession \<longleftrightarrow> ([] :: session list) = [])"
  using tracking_is_exact[of "[]" sample_tasks None] by blast

text \<open>An open session is reported idle exactly if nothing in it is in progress or waiting and
  something is open; the reported next task is an open task of that session, and it is actionable if
  any open task of the session is.\<close>

lemma idle_report_is_exact:
  assumes "distinct (map t_slug ts)"
  shows "(idle_of ts x \<noteq> None \<longleftrightarrow>
      \<not> (\<exists>t \<in> set (tasks_of (s_id x) ts). t_state t = Wip \<or> t_state t = Waiting) \<and>
      (\<exists>t \<in> set (tasks_of (s_id x) ts). t_state t = Open)) \<and>
    (\<forall>i. idle_of ts x = Some i \<longrightarrow> id_session i = x \<and> id_next i \<in> set (tasks_of (s_id x) ts) \<and>
      t_state (id_next i) = Open \<and>
      ((\<exists>t \<in> set (tasks_of (s_id x) ts). t_state t = Open \<and> is_actionable t (by_slug ts)) \<longrightarrow>
        is_actionable (id_next i) (by_slug ts)))"
proof (intro conjI allI impI)
  show "idle_of ts x \<noteq> None \<longleftrightarrow>
      \<not> (\<exists>t \<in> set (tasks_of (s_id x) ts). t_state t = Wip \<or> t_state t = Waiting) \<and>
      (\<exists>t \<in> set (tasks_of (s_id x) ts). t_state t = Open)"
    unfolding idle_of_None[OF assms] by blast
qed (erule idle_of_Some[OF assms]; assumption)+

lemma idle_report_is_exact_witness:
  "idle_of sample_tasks (mk_session ''mine'' (Some ''conv'') None) \<noteq> None"
proof -
  have "distinct (map t_slug sample_tasks)" by code_simp
  from idle_report_is_exact[OF this, of "mk_session ''mine'' (Some ''conv'') None"] show ?thesis
    by (auto simp: tasks_of_def sample_tasks_def mk_task_def mk_session_def)
qed

section \<open>Text and files\<close>

text \<open>A slug made from a title is empty or a valid file name that starts and ends with a letter
  or a digit, and slugifying it again changes nothing.\<close>

lemma slugify_is_valid_and_stable:
  "(slugify title = [] \<or> is_valid_short_name (slugify title) \<and> is_slug_char (hd (slugify title)) \<and>
      is_slug_char (last (slugify title))) \<and>
   slugify (slugify title) = slugify title"
  using slugify_valid_name slugify_ends slugify_idem by blast



text \<open>A strict listing misses nothing: it holds each existing task file once, with the task that
  loads under that name, and the lenient listing agrees with it.\<close>

lemma strict_listing_is_complete:
  assumes "well_named s" and "list_tasks_strict s = Inr ts"
  shows "try_list_tasks s = Inr ts \<and> distinct (map t_slug ts) \<and>
    (\<forall>n. file_exists (task_dir s) n \<longleftrightarrow> (\<exists>t \<in> set ts. t_slug t = n \<and> load_task s n = Inr t))"
proof -
  have wt: "well_named_tasks s"
    using assms(1) by (simp add: well_named_def)
  have ts: "ts = store_tasks s"
    by (rule list_tasks_strict_ok[OF assms(2)])
  have "\<exists>t \<in> set ts. t_slug t = n \<and> load_task s n = Inr t" if "file_exists (task_dir s) n" for n
    using exists_in_strict_listing[OF wt assms(2) that] well_named_load[OF wt] ts by blast
  then show ?thesis
    using strict_agrees_with_skip[OF assms(2)] well_named_distinct_slugs[OF wt] ts loaded_file_exists
    by blast
qed

lemma strict_listing_is_complete_witness:
  "try_list_tasks sample_store = Inr sample_tasks"
proof -
  have "list_tasks_strict sample_store = Inr sample_tasks" by code_simp
  from strict_listing_is_complete[OF well_named_sample this] show ?thesis by blast
qed

text \<open>The checked arithmetic of \<open>parse_etime\<close> never fails on fields that were accepted, so a text is
  refused only for its form; and what \<open>ps\<close> prints for days, hours, minutes and seconds is read back
  exactly.\<close>

lemma parse_etime_exact:
  "(parse_etime text = Some v \<longleftrightarrow>
     (\<exists>days clk h m x. etime_days text = Some (days, clk) \<and>
        clock_fields (split_on (\<lambda>c. c = CHR '':'') clk) = Some (h, m, x) \<and>
        v = days * 86400 + (h * 3600 + m * 60 + x))) \<and>
   (d < 10 ^ 7 \<longrightarrow> ho \<le> 23 \<longrightarrow> mi \<le> 59 \<longrightarrow> se \<le> 59 \<longrightarrow>
      parse_etime (nat_str d @ ''-'' @ join_str '':'' [nat_str ho, nat_str mi, nat_str se]) =
      Some (d * 86400 + (ho * 3600 + mi * 60 + se)))"
  using parse_etime_fields parse_etime_printed by simp

lemma parse_etime_exact_witness:
  "parse_etime (nat_str 3 @ ''-'' @ join_str '':'' [nat_str 2, nat_str 5, nat_str 59]) = Some 266759"
  using parse_etime_exact[of "[]" 0 3 2 5 59] by simp



text \<open>The file of a task or session with a valid name is one plain component of the store folder:
  joining it never leaves the folder.\<close>

lemma valid_name_stays_in_folder:
  assumes "is_valid_short_name n"
  shows "path_components (n @ ''.json'') = [Normal (n @ ''.json'')] \<and>
    \<not> is_unsafe_join_target (n @ ''.json'')"
proof -
  have c: "path_components (n @ ''.json'') = [Normal (n @ ''.json'')]"
  proof (rule valid_short_name_components[OF assms])
    have "5 \<le> length (n @ ''.json'')" "length ''..'' = 2" "length ''.'' = 1" by simp_all
    then show "n @ ''.json'' \<noteq> ''..''" "n @ ''.json'' \<noteq> ''.''"
      by fastforce+
  qed simp
  have "RootDir \<notin> set (path_components (n @ ''.json''))"
    unfolding c by simp
  then have "\<not> is_absolute (n @ ''.json'')"
    by (auto simp: is_absolute_def path_components_def Let_def)
  then show ?thesis
    using c by (simp add: is_unsafe_join_target_def has_parent_component_def)
qed

lemma valid_name_stays_in_folder_witness:
  "\<not> is_unsafe_join_target (''write-it-down-2'' @ ''.json'')"
proof -
  have "is_valid_short_name ''write-it-down-2''" by code_simp
  from valid_name_stays_in_folder[OF this] show ?thesis by blast
qed

section \<open>Behaviour at odds with its documentation\<close>

text \<open>\<open>add\<close> can close a loop of parents that \<open>edit\<close> would refuse: \<open>clear\<close> leaves the links to a
  deleted task in place, and a new task with the same title takes the freed slug without the cycle
  check.  Afterwards neither task of the loop starts.\<close>

definition loop_run :: "(env \<times> command) list" where
  "loop_run =
     [(sample_env, Clear [''plan''] None None),
      (sample_env, Add \<lparr>a_title = ''Plan'', a_parent = None, a_child_of = Some ''part'', a_parallel = False,
         a_after = None, a_session = None, a_other_session = None, a_detail = None\<rparr>)]"

lemma add_can_close_parent_loop:
  "acyclic (parent_edge sample_store) \<and> \<not> acyclic (parent_edge (fold command_step loop_run sample_store)) \<and>
   fst (start_task sample_env (Resolved ''part'') False (fold command_step loop_run sample_store)) =
     Inl (ParentE (AncestorLoop ''part'' ''part''))"
proof -
  let ?s = "fold command_step loop_run sample_store"
  have "map_sum id t_parent (load_task ?s ''plan'') = Inr (Some ''part'') \<and>
      map_sum id t_parent (load_task ?s ''part'') = Inr (Some ''plan'')"
    by code_simp
  then have "(''plan'', ''part'') \<in> parent_edge ?s" "(''part'', ''plan'') \<in> parent_edge ?s"
    by (cases "load_task ?s ''plan''"; cases "load_task ?s ''part''"; simp add: parent_edge_iff)+
  then have "\<not> acyclic (parent_edge ?s)"
    unfolding acyclic_def by (meson trancl.intros)
  moreover have "fst (start_task sample_env (Resolved ''part'') False ?s) =
      Inl (ParentE (AncestorLoop ''part'' ''part''))"
    by code_simp
  ultimately show ?thesis
    using acyclic_sample by blast
qed

text \<open>A sub-task whose parent was cleared by \<open>edit --no-parent\<close>, the fix that the error texts of the
  loop checks recommend, can never start again, not even with \<open>--force\<close>: the edit keeps the
  sub-task relation, and \<open>start\<close> refuses a sub-task without a parent.\<close>

lemma cleared_sub_task_cannot_start:
  assumes "well_named s" and "edit_task e tgt ed s = (Inr t, s')" and "ed_no_parent ed"
    and "ed_parent ed = None" and "t_relation t = Child"
  shows "\<exists>x s''. start_task e' (Resolved (t_slug t)) force s' = (Inl x, s'')"
proof (rule ccontr)
  assume no: "\<not> ?thesis"
  have wt: "well_named_tasks s"
    using assms(1) by (simp add: well_named_def)
  obtain s0 t1 s1 where l: "locked s s0" and k: "edit_links e tgt ed s0 = Inr t1"
    and t1: "t_parent t = t_parent t1"
    and sv: "save_task t s1 = (Inr (), snd (save_task t s1))" and f: "files s' = files (snd (save_task t s1))"
    by (rule edit_task_run[OF assms(2) wt]) (rule that)
  have np: "t_parent t = None"
    by (rule edit_links_ok[OF k locked_well_named[OF l wt]]) (use assms(3,4) t1 in simp)
  have ld: "load_task s' (t_slug t) = Inr t"
    using load_save_same[OF sv] load_task_files[OF f] by simp
  have "well_named s'"
    using keeps_edit_task[of e tgt ed, unfolded keeps_def, THEN spec, of s] assms(1)
    unfolding assms(2) good_step_def by simp
  then have wt': "well_named_tasks s'"
    by (simp add: well_named_def)
  obtain t' s'' where r: "start_task e' (Resolved (t_slug t)) force s' = (Inr t', s'')"
    using no by (cases "start_task e' (Resolved (t_slug t)) force s'"; cases "fst (start_task e' (Resolved (t_slug t)) force s')") auto
  obtain u ps s2 where l2: "locked s' s2" and c: "start_checks e' (Resolved (t_slug t)) force s2 = Inr (u, ps)"
    and ts: "list_tasks_strict s2 = Inr (store_tasks s')"
    by (rule start_task_run[OF r wt']) (rule that)
  have "load_task s2 (t_slug t) = Inr u"
    using c by (auto simp: start_checks_def seqR_ok split: if_splits)
  then have "u = t"
    using ld l2 by simp
  then have "ancestors_to_start s2 t force (store_tasks s') = Inr ps"
    using start_checks_ok(3)[OF c locked_well_named[OF l2 wt'] ts] by simp
  then show False
    using assms(5) np by (simp add: ancestors_to_start_def ancestors_loop.simps)
qed

definition no_parent_edit :: task_edit where
  "no_parent_edit = \<lparr>ed_title = None, ed_parent = None, ed_no_parent = True, ed_block_on = [],
     ed_unblock = [], ed_add_note = None, ed_delete_note = None, ed_detail = None\<rparr>"

lemma cleared_sub_task_cannot_start_witness:
  "\<exists>t s' x s''. edit_task sample_env (Resolved ''part'') no_parent_edit sample_store = (Inr t, s') \<and>
     start_task sample_env (Resolved (t_slug t)) True s' = (Inl x, s'')"
proof -
  let ?r = "edit_task sample_env (Resolved ''part'') no_parent_edit sample_store"
  have "map_sum id t_relation (fst ?r) = Inr Child"
    by code_simp
  then obtain t s' where r: "?r = (Inr t, s')" "t_relation t = Child"
    by (cases ?r; cases "fst ?r") auto
  show ?thesis
    using cleared_sub_task_cannot_start[OF well_named_sample r(1) _ _ r(2), of sample_env True] r(1)
    by (auto simp: no_parent_edit_def)
qed

text \<open>The note that records \<open>add --other-session\<close> can land on the wrong task: it is written to the
  task that the new slug resolves to, and a task of the caller's own session with that slug as a
  prefix wins over the exact slug in the other session.\<close>

definition foreign_add :: add_args where
  "foreign_add = \<lparr>a_title = ''Pla'', a_parent = None, a_child_of = None, a_parallel = False,
     a_after = None, a_session = Some ''theirs'', a_other_session = Some ''theirs'', a_detail = None\<rparr>"

lemma override_note_on_wrong_task:
  "let s' = snd (cmd_add sample_env foreign_add sample_store) in
   map_sum id t_session (load_task s' ''pla'') = Inr (Some ''theirs'') \<and>
   map_sum id t_notes (load_task s' ''pla'') = Inr [] \<and>
   map_sum id (map n_text \<circ> t_notes) (load_task s' ''plan'') =
     Inr [''Added with --other-session, which names the owner of session '' @ quoted ''theirs'' @ ''.'']"
  by code_simp

end
